(* ===== verification/Prelude.thy ===== *)
theory Prelude
  imports Main "HOL-Library.Char_ord" "HOL-Library.List_Lexorder" "HOL-Library.Sublist"
begin

section \<open>Prelude: bytes, C character classes and std::string\<close>

text \<open>
  What every component of the library shares.  A C++ \<open>char\<close> is a byte and is modelled by the
  HOL type of 8-bit characters, a \<open>std::string\<close> by a list of them; the order that
  \<open>Char_ord\<close> and \<open>List_Lexorder\<close> give to such lists compares bytes as unsigned numbers and
  then lengths, which is the order of \<open>std::string::operator<\<close>.  Positions are natural
  numbers; where the code computes with \<open>size_t\<close> in a way that can wrap, the wrap is written
  out with \<open>size_sub\<close>, and \<open>npos\<close> as a result of a search is \<open>None\<close>.  The character
  classes are those of the C locale.
\<close>

named_theorems cchars \<open>definitions of the character classes\<close>
named_theorems str_simps \<open>rewriting of the std::string operations\<close>

subsection \<open>Characters\<close>

abbreviation NL :: char where "NL \<equiv> CHR 0x0A"
abbreviation TAB :: char where "TAB \<equiv> CHR 0x09"
abbreviation NUL :: char where "NUL \<equiv> CHR 0x00"

abbreviation byte_of :: "char \<Rightarrow> nat" where "byte_of c \<equiv> of_char c"
abbreviation byte_char :: "nat \<Rightarrow> char" where "byte_char n \<equiv> char_of n"

definition isblank :: "char \<Rightarrow> bool" where
  [cchars]: "isblank c \<longleftrightarrow> c = CHR '' '' \<or> c = TAB"

definition isspace :: "char \<Rightarrow> bool" where
  [cchars]: "isspace c \<longleftrightarrow> c = CHR '' '' \<or> c = TAB \<or> c = NL \<or> c = CHR 0x0B \<or> c = CHR 0x0C \<or> c = CHR 0x0D"

definition isdigit :: "char \<Rightarrow> bool" where
  [cchars]: "isdigit c \<longleftrightarrow> 48 \<le> byte_of c \<and> byte_of c \<le> 57"

definition isupper :: "char \<Rightarrow> bool" where
  [cchars]: "isupper c \<longleftrightarrow> 65 \<le> byte_of c \<and> byte_of c \<le> 90"

definition islower :: "char \<Rightarrow> bool" where
  [cchars]: "islower c \<longleftrightarrow> 97 \<le> byte_of c \<and> byte_of c \<le> 122"

definition isalnum :: "char \<Rightarrow> bool" where
  [cchars]: "isalnum c \<longleftrightarrow> isdigit c \<or> isupper c \<or> islower c"

definition isxdigit :: "char \<Rightarrow> bool" where
  [cchars]: "isxdigit c \<longleftrightarrow> isdigit c \<or> (65 \<le> byte_of c \<and> byte_of c \<le> 70) \<or> (97 \<le> byte_of c \<and> byte_of c \<le> 102)"

definition iscntrl :: "char \<Rightarrow> bool" where
  [cchars]: "iscntrl c \<longleftrightarrow> byte_of c < 32 \<or> byte_of c = (127::nat)"

definition toupper :: "char \<Rightarrow> char" where
  "toupper c = (if islower c then byte_char (byte_of c - 32) else c)"

definition tolower :: "char \<Rightarrow> char" where
  "tolower c = (if isupper c then byte_char (byte_of c + 32) else c)"

text \<open>The value of a hexadecimal digit; 16 for a character that is no digit in any base.\<close>

definition digit_val :: "char \<Rightarrow> nat" where
  "digit_val c =
     (if isdigit c then byte_of c - 48
      else if 65 \<le> (byte_of c :: nat) \<and> byte_of c \<le> (70::nat) then byte_of c - 55
      else if 97 \<le> (byte_of c :: nat) \<and> byte_of c \<le> (102::nat) then byte_of c - 87
      else 16)"

lemma isblank_isspace [simp, intro]: "isblank c \<Longrightarrow> isspace c"
  by (auto simp: isblank_def isspace_def)

subsection \<open>Unsigned arithmetic of size_t\<close>

definition size_modulus :: nat where
  "size_modulus = 18446744073709551616"

text \<open>\<open>a - b\<close> on \<open>size_t\<close>, for operands below the modulus.\<close>

definition size_sub :: "nat \<Rightarrow> nat \<Rightarrow> nat" where
  "size_sub a b = (if b \<le> a then a - b else a + size_modulus - b)"

lemma size_sub_le [simp]: "b \<le> a \<Longrightarrow> size_sub a b = a - b"
  by (simp add: size_sub_def)

subsection \<open>Searching\<close>

text \<open>The first offset at which \<open>sep\<close> occurs in a list.\<close>

fun find_sub :: "'a list \<Rightarrow> 'a list \<Rightarrow> nat option" where
  "find_sub sep [] = (if sep = [] then Some 0 else None)"
| "find_sub sep (c # cs) =
     (if prefix sep (c # cs) then Some 0 else map_option Suc (find_sub sep cs))"

text \<open>\<open>str.find(sep, pos)\<close>\<close>

definition str_find :: "'a list \<Rightarrow> 'a list \<Rightarrow> nat \<Rightarrow> nat option" where
  "str_find s sep pos =
     (if length s < pos then None else map_option (\<lambda>i. pos + i) (find_sub sep (drop pos s)))"

text \<open>\<open>str.rfind(c)\<close> and \<open>str.rfind(c, pos)\<close> for a single character\<close>

definition rfind_char :: "'a list \<Rightarrow> 'a \<Rightarrow> nat option" where
  "rfind_char s c = map_option (\<lambda>i. length s - 1 - i) (find_sub [c] (rev s))"

definition rfind_char_upto :: "'a list \<Rightarrow> 'a \<Rightarrow> nat \<Rightarrow> nat option" where
  "rfind_char_upto s c pos = rfind_char (take (Suc pos) s) c"

text \<open>\<open>str.substr(pos, n)\<close> and \<open>str.substr(pos)\<close>, for \<open>pos \<le> str.size()\<close>; every caller in the
  library passes such a position (it comes from a search or is below the size).\<close>

definition substr :: "'a list \<Rightarrow> nat \<Rightarrow> nat \<Rightarrow> 'a list" where
  "substr s pos n = take n (drop pos s)"

definition substr_from :: "'a list \<Rightarrow> nat \<Rightarrow> 'a list" where
  "substr_from s pos = drop pos s"

lemma find_sub_SomeD:
  "find_sub sep s = Some i \<Longrightarrow> i + length sep \<le> length s \<and> prefix sep (drop i s)"
proof (induction sep s arbitrary: i rule: find_sub.induct)
  case (1 sep)
  then show ?case by (auto split: if_splits)
next
  case (2 sep c cs)
  then show ?case by (auto split: if_splits dest: prefix_length_le)
qed

lemma find_sub_before: "find_sub sep s = Some i \<Longrightarrow> j < i \<Longrightarrow> \<not> prefix sep (drop j s)"
proof (induction sep s arbitrary: i j rule: find_sub.induct)
  case (1 sep)
  then show ?case by (auto split: if_splits)
next
  case (2 sep c cs)
  then show ?case by (cases j) (auto split: if_splits)
qed

lemma find_sub_split: "find_sub sep s = Some i \<Longrightarrow> s = take i s @ sep @ drop (i + length sep) s"
proof -
  assume "find_sub sep s = Some i"
  then have "prefix sep (drop i s)" by (blast dest: find_sub_SomeD)
  then obtain zs where "drop i s = sep @ zs" by (auto simp: prefix_def)
  moreover from this have "drop (i + length sep) s = zs"
    by (metis add.commute append_eq_conv_conj drop_drop)
  ultimately show ?thesis by (metis append_take_drop_id)
qed

lemma find_sub_Nil_sep [simp]: "find_sub [] s = Some 0"
  by (cases s) auto

lemma find_sub_char:
  "find_sub [c] s = (if c \<in> set s then Some (length (takeWhile (\<lambda>x. x \<noteq> c) s)) else None)"
  by (induction s) auto

lemma find_sub_char_None [str_simps]: "c \<notin> set s \<Longrightarrow> find_sub [c] s = None"
  by (simp add: find_sub_char)

lemma find_sub_char_append [str_simps]: "c \<notin> set xs \<Longrightarrow> find_sub [c] (xs @ c # ys) = Some (length xs)"
  by (auto simp: find_sub_char takeWhile_append)

lemma str_find_0 [str_simps]: "str_find s sep 0 = find_sub sep s"
  by (simp add: str_find_def option.map_ident plus_nat.add_0 [abs_def])

lemma str_find_SomeD:
  assumes "str_find s sep pos = Some i"
  shows "pos \<le> i" and "i + length sep \<le> length s" and "prefix sep (drop i s)"
  using assms by (auto simp: str_find_def split: if_splits dest!: find_sub_SomeD simp: add.commute)

lemma rfind_char_None [str_simps]: "c \<notin> set s \<Longrightarrow> rfind_char s c = None"
  by (simp add: rfind_char_def find_sub_char)

lemma rfind_char_append [str_simps]:
  "c \<notin> set ys \<Longrightarrow> rfind_char (xs @ c # ys) c = Some (length xs)"
  by (simp add: rfind_char_def find_sub_char_append)

lemma rfind_char_SomeE:
  assumes "rfind_char s c = Some i"
  obtains xs ys where "s = xs @ c # ys" "c \<notin> set ys" "i = length xs"
proof -
  from assms have "c \<in> set s"
    by (auto simp: rfind_char_def find_sub_char split: if_splits)
  then obtain xs ys where "s = xs @ c # ys" "c \<notin> set ys"
    by (meson split_list_last)
  with assms that show thesis by (auto simp: str_simps)
qed

end
