(* ===== verification/StdContainers.thy ===== *)
theory StdContainers
  imports Prelude
begin

section \<open>std::set and std::map\<close>

text \<open>
  The containers the library uses, as the sequences their iterators walk: a \<open>std::set\<close> is a
  strictly increasing list and a \<open>std::map\<close> a list of pairs with strictly increasing keys.  The
  algorithms of \<open>operators.h\<close>, \<open>set.h\<close> and \<open>fast.cc\<close> that step two iterators side by side or
  depend on the iteration order are then recursions over these lists.  The locale
  \<open>insertable\<close> is the contract of a container with an insertion, its client lemma is the one
  for insertion loops (\<open>for (...) res.insert(...)\<close>), and \<open>oset\<close> interprets it.
\<close>

named_theorems containers \<open>membership, lookup and invariant of the ordered containers\<close>

subsection \<open>Insertion loops over a container\<close>

locale insertable =
  fixes ins :: "'a \<Rightarrow> 's \<Rightarrow> 's"
    and elems :: "'s \<Rightarrow> 'a set"
    and good :: "'s \<Rightarrow> bool"
  assumes elems_ins: "good s \<Longrightarrow> elems (ins x s) = insert x (elems s)"
    and good_ins: "good s \<Longrightarrow> good (ins x s)"
begin

lemma good_fold: "good s \<Longrightarrow> good (fold ins xs s)"
  by (induction xs arbitrary: s) (auto intro: good_ins)

lemma elems_fold: "good s \<Longrightarrow> elems (fold ins xs s) = set xs \<union> elems s"
  by (induction xs arbitrary: s) (auto simp: elems_ins good_ins)

end

subsection \<open>Sets\<close>

type_synonym 'a oset = "'a list"

abbreviation ordered :: "'a::linorder list \<Rightarrow> bool" where
  "ordered s \<equiv> sorted_wrt (<) s"

fun oset_insert :: "'a::linorder \<Rightarrow> 'a oset \<Rightarrow> 'a oset" where
  "oset_insert x [] = [x]"
| "oset_insert x (y # ys) =
     (if y < x then y # oset_insert x ys else if y = x then y # ys else x # y # ys)"

definition oset_erase :: "'a \<Rightarrow> 'a oset \<Rightarrow> 'a oset" where
  "oset_erase x s = filter (\<lambda>y. y \<noteq> x) s"

definition oset_mem :: "'a \<Rightarrow> 'a oset \<Rightarrow> bool" where
  "oset_mem x s \<longleftrightarrow> list_ex (\<lambda>y. y = x) s"

text \<open>A set built by inserting the elements of a sequence one after the other.\<close>

definition oset_of_list :: "'a::linorder list \<Rightarrow> 'a oset" where
  "oset_of_list xs = fold oset_insert xs []"

lemma set_oset_insert [containers, simp]: "set (oset_insert x s) = insert x (set s)"
  by (induction s) auto

lemma ordered_oset_insert [containers, simp, intro]: "ordered s \<Longrightarrow> ordered (oset_insert x s)"
  by (induction s) auto

lemma oset_insert_not_Nil [simp]: "oset_insert x s \<noteq> []"
  by (cases s) auto

lemma set_oset_erase [containers, simp]: "set (oset_erase x s) = set s - {x}"
  by (auto simp: oset_erase_def)

lemma ordered_filter [containers, simp, intro]: "ordered s \<Longrightarrow> ordered (filter P s)"
  by (induction s) auto

lemma ordered_oset_erase [containers, simp, intro]: "ordered s \<Longrightarrow> ordered (oset_erase x s)"
  by (simp add: oset_erase_def ordered_filter)

lemma oset_mem_iff [containers, simp]: "oset_mem x s \<longleftrightarrow> x \<in> set s"
  by (auto simp: oset_mem_def list_ex_iff)

lemma ordered_distinct: "ordered s \<Longrightarrow> distinct s"
  by (induction s) auto

text \<open>Two ordered lists with the same elements are equal, so equality of sets is equality of lists.\<close>

lemma ordered_unique: "ordered s \<Longrightarrow> ordered t \<Longrightarrow> set s = set t \<Longrightarrow> s = t"
  by (meson ordered_distinct sorted_distinct_set_unique strict_sorted_iff)

lemma ordered_set_eq: "ordered s \<Longrightarrow> ordered t \<Longrightarrow> set s = set t \<longleftrightarrow> s = t"
  by (auto intro: ordered_unique)

interpretation os: insertable oset_insert set ordered
  by unfold_locales (auto intro: ordered_oset_insert)

lemma set_oset_of_list [containers, simp]: "set (oset_of_list xs) = set xs"
  by (simp add: oset_of_list_def os.elems_fold)

lemma ordered_oset_of_list [containers, simp, intro]: "ordered (oset_of_list xs)"
  by (simp add: oset_of_list_def os.good_fold)

lemma oset_of_list_empty [simp]: "oset_of_list [] = []"
  by (simp add: oset_of_list_def)

lemma oset_of_list_ordered: "ordered s \<Longrightarrow> oset_of_list s = s"
  by (rule ordered_unique) auto

subsection \<open>Maps\<close>

type_synonym ('k, 'v) omap = "('k \<times> 'v) list"

abbreviation map_ok :: "('k::linorder, 'v) omap \<Rightarrow> bool" where
  "map_ok m \<equiv> ordered (map fst m)"

text \<open>\<open>m.find(k)\<close>, with \<open>end()\<close> as \<open>None\<close>\<close>

definition omap_find :: "('k, 'v) omap \<Rightarrow> 'k \<Rightarrow> 'v option" where
  "omap_find m k = map_of m k"

text \<open>\<open>m[k] = v\<close>, and the assignment through an iterator that points to \<open>k\<close>\<close>

fun omap_set :: "'k::linorder \<Rightarrow> 'v \<Rightarrow> ('k, 'v) omap \<Rightarrow> ('k, 'v) omap" where
  "omap_set k v [] = [(k, v)]"
| "omap_set k v ((k', v') # m) =
     (if k' < k then (k', v') # omap_set k v m
      else if k' = k then (k, v) # m
      else (k, v) # (k', v') # m)"

text \<open>\<open>m.insert(make_pair(k, v))\<close> keeps the value of a key that is there.\<close>

definition omap_insert :: "'k::linorder \<Rightarrow> 'v \<Rightarrow> ('k, 'v) omap \<Rightarrow> ('k, 'v) omap" where
  "omap_insert k v m = (case omap_find m k of None \<Rightarrow> omap_set k v m | Some _ \<Rightarrow> m)"

definition omap_erase :: "'k \<Rightarrow> ('k, 'v) omap \<Rightarrow> ('k, 'v) omap" where
  "omap_erase k m = filter (\<lambda>kv. fst kv \<noteq> k) m"

lemma fst_omap_set: "fst ` set (omap_set k v m) = insert k (fst ` set m)"
  by (induction k v m rule: omap_set.induct) auto

lemma map_ok_omap_set [containers, simp, intro]: "map_ok m \<Longrightarrow> map_ok (omap_set k v m)"
proof (induction k v m rule: omap_set.induct)
  case (2 k v k' v' m)
  have "\<forall>x\<in>set (omap_set k v m). fst x = k \<or> fst x \<in> fst ` set m"
    using fst_omap_set [of k v m] by auto
  with 2 show ?case by fastforce
qed simp

lemma map_of_head_less:
  "ordered (map fst m) \<Longrightarrow> \<forall>k'\<in>fst ` set m. k < k' \<Longrightarrow> map_of m k = None"
  by (auto simp: map_of_eq_None_iff)

lemma omap_find_set [containers, simp]:
  "map_ok m \<Longrightarrow> omap_find (omap_set k v m) k' = (if k' = k then Some v else omap_find m k')"
  by (induction k v m rule: omap_set.induct) (auto simp: omap_find_def)

lemma map_ok_filter [containers, simp, intro]: "map_ok m \<Longrightarrow> map_ok (filter P m)"
  by (induction m) auto

lemma omap_find_erase [containers, simp]:
  "omap_find (omap_erase k m) k' = (if k' = k then None else omap_find m k')"
  by (induction m) (auto simp: omap_find_def omap_erase_def)

lemma map_ok_omap_erase [containers, simp, intro]: "map_ok m \<Longrightarrow> map_ok (omap_erase k m)"
  by (simp add: omap_erase_def map_ok_filter)

lemma omap_find_insert [containers, simp]:
  "map_ok m \<Longrightarrow> omap_find (omap_insert k v m) k' =
     (if k' = k \<and> omap_find m k = None then Some v else omap_find m k')"
  by (auto simp: omap_insert_def split: option.splits)

lemma map_ok_omap_insert [containers, simp, intro]: "map_ok m \<Longrightarrow> map_ok (omap_insert k v m)"
  by (auto simp: omap_insert_def split: option.splits)

lemma omap_find_empty [containers, simp]: "omap_find [] k = None"
  by (simp add: omap_find_def)

lemma omap_find_in_set: "map_ok m \<Longrightarrow> omap_find m k = Some v \<longleftrightarrow> (k, v) \<in> set m"
  by (simp add: omap_find_def ordered_distinct)

lemma omap_find_None: "omap_find m k = None \<longleftrightarrow> k \<notin> fst ` set m"
  by (simp add: omap_find_def map_of_eq_None_iff)

lemma omap_by_keys: "map_ok m \<Longrightarrow> m = map (\<lambda>k. (k, the (omap_find m k))) (map fst m)"
  by (auto simp: omap_find_def ordered_distinct intro!: map_idI [symmetric])

lemma omap_ext:
  assumes ok: "map_ok m" "map_ok m'" and eq: "\<And>k. omap_find m k = omap_find m' k"
  shows "m = m'"
proof -
  have "fst ` set m = fst ` set m'"
    using eq omap_find_None by (metis (no_types, opaque_lifting) subset_antisym subsetI)
  with ok have "map fst m = map fst m'"
    by (intro ordered_unique) auto
  with eq show ?thesis
    using omap_by_keys [OF ok(1)] omap_by_keys [OF ok(2)] by simp
qed

end
