(* ===== verification/StdIO.thy ===== *)
theory StdIO
  imports Prelude
begin

section \<open>C input streams\<close>

text \<open>
  A \<open>FILE*\<close> opened for reading, as the two parsers of the library use it: \<open>getc\<close> and
  \<open>ungetc\<close> of the byte just read.  The record keeps the bytes still to be read and whether the
  read after them fails, which is what \<open>ferror\<close> reports once \<open>getc\<close> has returned \<open>EOF\<close>.
\<close>

record cfile =
  unread :: string
  read_fails :: bool

definition getc :: "cfile \<Rightarrow> char option \<times> cfile" where
  "getc f = (case unread f of [] \<Rightarrow> (None, f) | c # cs \<Rightarrow> (Some c, f\<lparr>unread := cs\<rparr>))"

definition ungetc :: "char \<Rightarrow> cfile \<Rightarrow> cfile" where
  "ungetc c f = f\<lparr>unread := c # unread f\<rparr>"

text \<open>\<open>ferror(in)\<close>, asked only after \<open>getc\<close> has returned \<open>EOF\<close>\<close>

definition ferror :: "cfile \<Rightarrow> bool" where
  "ferror f \<longleftrightarrow> read_fails f"

abbreviation file_of :: "string \<Rightarrow> cfile" where
  "file_of s \<equiv> \<lparr>unread = s, read_fails = False\<rparr>"

lemma getc_None [simp]: "getc f = (None, f') \<longleftrightarrow> unread f = [] \<and> f' = f"
  by (auto simp: getc_def split: list.splits)

lemma getc_Some: "getc f = (Some c, f') \<longleftrightarrow> (\<exists>cs. unread f = c # cs \<and> f' = f\<lparr>unread := cs\<rparr>)"
  by (auto simp: getc_def split: list.splits)

lemma getc_length [simp]: "getc f = (Some c, f') \<Longrightarrow> length (unread f') < length (unread f)"
  by (auto simp: getc_Some)

lemma getc_shorter: "(x, f') = getc f \<Longrightarrow> x = Some c \<Longrightarrow> length (unread f') < length (unread f)"
  by (auto simp: getc_def split: list.splits)

lemma getc_eqs [simp]:
  "getc \<lparr>unread = [], read_fails = e\<rparr> = (None, \<lparr>unread = [], read_fails = e\<rparr>)"
  "getc \<lparr>unread = c # cs, read_fails = e\<rparr> = (Some c, \<lparr>unread = cs, read_fails = e\<rparr>)"
  by (simp_all add: getc_def)

lemma ungetc_eq [simp]: "ungetc c \<lparr>unread = cs, read_fails = e\<rparr> = \<lparr>unread = c # cs, read_fails = e\<rparr>"
  by (simp add: ungetc_def)

lemma ungetc_length [simp]: "length (unread (ungetc c f)) = Suc (length (unread f))"
  by (simp add: ungetc_def)

end
