(* ===== verification/StdConv.thy ===== *)
theory StdConv
  imports Prelude
begin

section \<open>Numbers in strings: strtoul and atoi\<close>

text \<open>
  The conversions of the C library that the code calls: \<open>strtoul\<close> in bases 10 and 16 and \<open>atoi\<close>,
  with leading spaces, a sign, the prefix of base 16, and saturation.
\<close>

subsection \<open>Conversions\<close>

definition decimal_value :: "string \<Rightarrow> nat" where
  "decimal_value ds = foldl (\<lambda>n c. 10 * n + digit_val c) 0 ds"

definition strtoul10 :: "string \<Rightarrow> nat" where
  "strtoul10 str =
     (let s = dropWhile isspace str;
          neg = (s \<noteq> [] \<and> hd s = CHR ''-'');
          ds = takeWhile isdigit (if s \<noteq> [] \<and> (hd s = CHR ''-'' \<or> hd s = CHR ''+'') then tl s else s);
          n = decimal_value ds
      in if size_modulus \<le> n then size_modulus - 1
         else if neg then size_sub 0 n mod size_modulus else n)"

definition hex_value :: "string \<Rightarrow> nat" where
  "hex_value ds = foldl (\<lambda>n c. 16 * n + digit_val c) 0 ds"

definition strtoul16 :: "string \<Rightarrow> nat" where
  "strtoul16 str =
     (let s = dropWhile isspace str;
          neg = (s \<noteq> [] \<and> hd s = CHR ''-'');
          t = (if s \<noteq> [] \<and> (hd s = CHR ''-'' \<or> hd s = CHR ''+'') then tl s else s);
          u = (if (prefix ''0x'' t \<or> prefix ''0X'' t) \<and> 2 < length t \<and> isxdigit (t ! 2) then drop 2 t else t);
          n = hex_value (takeWhile isxdigit u)
      in if size_modulus \<le> n then size_modulus - 1
         else if neg then size_sub 0 n mod size_modulus else n)"

text \<open>\<open>atoi\<close>, for numbers that an \<open>int\<close> can hold\<close>

definition atoi :: "string \<Rightarrow> int" where
  "atoi str =
     (let s = dropWhile isspace str;
          ds = takeWhile isdigit (if s \<noteq> [] \<and> (hd s = CHR ''-'' \<or> hd s = CHR ''+'') then tl s else s);
          n = int (decimal_value ds)
      in if s \<noteq> [] \<and> hd s = CHR ''-'' then - n else n)"

subsection \<open>Decimal numbers\<close>

text \<open>The decimal digits of a number.\<close>

fun decimal :: "nat \<Rightarrow> string" where
  "decimal n = (if n < 10 then [byte_char (48 + n)] else decimal (n div 10) @ [byte_char (48 + n mod 10)])"

declare decimal.simps [simp del]

lemma digit_char [simp]:
  "d < 10 \<Longrightarrow> isdigit (byte_char (48 + d))" "d < 10 \<Longrightarrow> digit_val (byte_char (48 + d)) = d"
  by (simp_all add: isdigit_def digit_val_def)

lemma decimal_digits: "\<forall>c\<in>set (decimal n). isdigit c"
proof (induction n rule: decimal.induct)
  case (1 n)
  then show ?case by (subst decimal.simps) auto
qed

lemma decimal_value_decimal: "decimal_value (decimal n) = n"
proof (induction n rule: decimal.induct)
  case (1 n)
  then show ?case by (subst decimal.simps) (auto simp: decimal_value_def)
qed

lemma decimal_not_Nil [simp]: "decimal n \<noteq> []"
  by (subst decimal.simps) simp

lemma digit_not_sign: "isdigit c \<Longrightarrow> \<not> isspace c \<and> c \<noteq> CHR ''-'' \<and> c \<noteq> CHR ''+''"
  by (auto simp: isdigit_def isspace_def)

lemma strtoul_decimal:
  assumes "r = [] \<or> \<not> isdigit (hd r)"
  shows "strtoul10 (decimal n @ r) = min n (size_modulus - 1)"
proof -
  obtain c ds where d: "decimal n = c # ds" by (cases "decimal n") auto
  have digits: "isdigit c" "\<forall>x\<in>set ds. isdigit x" using decimal_digits [of n] by (auto simp: d)
  note c = digit_not_sign [OF digits(1)]
  have "takeWhile isdigit r = []" using assms by (cases r) auto
  then have "takeWhile isdigit (decimal n @ r) = decimal n"
    using decimal_digits by (simp add: takeWhile_append2)
  then have "strtoul10 (decimal n @ r) = (if size_modulus \<le> n then size_modulus - 1 else n)"
    using c decimal_value_decimal [of n] by (simp add: strtoul10_def d Let_def)
  then show ?thesis by (auto simp: size_modulus_def min_def)
qed

subsection \<open>Two hexadecimal digits\<close>

text \<open>The digit of \<open>%02x\<close> for a value below 16.\<close>

definition hex_digit :: "nat \<Rightarrow> char" where
  "hex_digit n = (if n < 10 then byte_char (48 + n) else byte_char (87 + n))"

text \<open>\<open>%02x\<close> of a byte\<close>

definition hex2 :: "nat \<Rightarrow> string" where
  "hex2 n = [hex_digit (n div 16), hex_digit (n mod 16)]"

lemma hex_digit_facts:
  assumes "n < 16"
  shows "isxdigit (hex_digit n)" "digit_val (hex_digit n) = n" "\<not> isspace (hex_digit n)"
    "hex_digit n \<noteq> CHR ''-''" "hex_digit n \<noteq> CHR ''+''" "hex_digit n \<noteq> CHR ''x''" "hex_digit n \<noteq> CHR ''X''"
proof -
  have byte: "byte_of (hex_digit n) = (if n < 10 then 48 + n else 87 + n)"
    using assms by (simp add: hex_digit_def)
  show "isxdigit (hex_digit n)" "digit_val (hex_digit n) = n"
    using assms by (auto simp: isxdigit_def isdigit_def digit_val_def byte)
  have space: "isspace c \<Longrightarrow> byte_of c \<le> (32::nat)" for c by (auto simp: isspace_def)
  show "\<not> isspace (hex_digit n)" using space [of "hex_digit n"] by (auto simp: byte split: if_splits)
  have "byte_of c \<notin> ({45, 43, 120, 88} :: nat set)" if "c = hex_digit n" for c
    using assms by (auto simp: that byte)
  then show "hex_digit n \<noteq> CHR ''-''" "hex_digit n \<noteq> CHR ''+''" "hex_digit n \<noteq> CHR ''x''" "hex_digit n \<noteq> CHR ''X''"
    by force+
qed

lemma strtoul16_hex2: "n < 256 \<Longrightarrow> strtoul16 (hex2 n) = n"
proof -
  assume n: "n < 256"
  then have "n div 16 < 16" "n mod 16 < 16" by auto
  note h = hex_digit_facts [OF this(1)] and l = hex_digit_facts [OF this(2)]
  show ?thesis
    using h l n by (simp add: strtoul16_def hex2_def Let_def hex_value_def size_modulus_def)
qed

end
