(* ===== verification/StdSort.thy ===== *)
theory StdSort
  imports Main "HOL-Library.Multiset"
begin

section \<open>std::sort\<close>

text \<open>
  \<open>std::sort\<close> is not stable, and the standard does not say which algorithm it is.  The locale
  \<open>std_sort\<close> is what it promises for a comparison that is a strict weak order; an insertion sort
  interprets it, so that the promise can be kept.
\<close>

definition weak_order :: "('a \<Rightarrow> 'a \<Rightarrow> bool) \<Rightarrow> bool" where
  "weak_order lt \<longleftrightarrow> (\<forall>a b. lt a b \<longrightarrow> \<not> lt b a) \<and> (\<forall>a b c. \<not> lt a b \<longrightarrow> \<not> lt b c \<longrightarrow> \<not> lt a c)"

locale std_sort =
  fixes srt :: "('a \<Rightarrow> 'a \<Rightarrow> bool) \<Rightarrow> 'a list \<Rightarrow> 'a list"
  assumes mset_std: "weak_order lt \<Longrightarrow> mset (srt lt xs) = mset xs"
    and sorted_std: "weak_order lt \<Longrightarrow> sorted_wrt (\<lambda>a b. \<not> lt b a) (srt lt xs)"
begin

lemma weak_order_key: "weak_order (\<lambda>a b. (f a :: 'k :: linorder) < f b)"
  by (auto simp: weak_order_def)

lemma set_srt_key: "set (srt (\<lambda>a b. (f a :: 'k :: linorder) < f b) xs) = set xs"
  using mset_std [OF weak_order_key] by (metis set_mset_mset)

lemma length_srt_key: "length (srt (\<lambda>a b. (f a :: 'k :: linorder) < f b) xs) = length xs"
  using mset_std [OF weak_order_key] by (metis size_mset)

lemma sorted_srt_key: "sorted (map f (srt (\<lambda>a b. (f a :: 'k :: linorder) < f b) xs))"
  using sorted_std [OF weak_order_key, of f xs] by (simp add: sorted_wrt_map not_less)

lemma set_std: "weak_order lt \<Longrightarrow> set (srt lt xs) = set xs"
  using mset_std by (metis set_mset_mset)

end

fun insort_by :: "('a \<Rightarrow> 'a \<Rightarrow> bool) \<Rightarrow> 'a \<Rightarrow> 'a list \<Rightarrow> 'a list" where
  "insort_by lt x [] = [x]"
| "insort_by lt x (y # ys) = (if lt y x then y # insort_by lt x ys else x # y # ys)"

definition insertion_sort :: "('a \<Rightarrow> 'a \<Rightarrow> bool) \<Rightarrow> 'a list \<Rightarrow> 'a list" where
  "insertion_sort lt xs = foldr (insort_by lt) xs []"

lemma mset_insort_by [simp]: "mset (insort_by lt x ys) = add_mset x (mset ys)"
  by (induction ys) auto

lemma set_insort_by [simp]: "set (insort_by lt x ys) = insert x (set ys)"
  by (induction ys) auto

lemma sorted_insort_by:
  "weak_order lt \<Longrightarrow> sorted_wrt (\<lambda>a b. \<not> lt b a) ys \<Longrightarrow> sorted_wrt (\<lambda>a b. \<not> lt b a) (insort_by lt x ys)"
proof (induction ys)
  case (Cons y ys)
  have asym: "\<And>a b. lt a b \<Longrightarrow> \<not> lt b a" and trans: "\<And>a b c. \<not> lt a b \<Longrightarrow> \<not> lt b c \<Longrightarrow> \<not> lt a c"
    using Cons.prems(1) unfolding weak_order_def by blast+
  show ?case
  proof (cases "lt y x")
    case True
    with asym [OF True] Cons show ?thesis by simp
  next
    case False
    with trans [OF _ False] Cons.prems(2) show ?thesis by simp
  qed
qed simp

interpretation isort: std_sort insertion_sort
proof
  show "mset (insertion_sort lt xs) = mset xs" for lt and xs :: "'a list"
    by (induction xs) (auto simp: insertion_sort_def)
  show "weak_order lt \<Longrightarrow> sorted_wrt (\<lambda>a b. \<not> lt b a) (insertion_sort lt xs)" for lt and xs :: "'a list"
    by (induction xs) (auto simp: insertion_sort_def sorted_insort_by)
qed

end
