(* ===== verification/Outcome.thy ===== *)
theory Outcome
  imports Prelude
begin

section \<open>Results of calls that may throw or be undefined\<close>

text \<open>
  A call returns a value, throws an exception, or does something that the language gives no
  meaning to, like reading through a null pointer.  The wrappers of system calls throw a
  \<open>std::system_error\<close> with the error number and a message, or a \<open>std::runtime_error\<close>.
\<close>

datatype ('e, 'a) outcome = Returned 'a | Thrown 'e | Undefined

datatype errno = ENOENT | EEXIST | EISDIR | EINVAL | ENOTDIR | OtherErrno nat

datatype sys_error = SystemError errno string | RuntimeError string

definition of_option :: "'a option \<Rightarrow> ('e, 'a) outcome" where
  "of_option x = (case x of None \<Rightarrow> Undefined | Some a \<Rightarrow> Returned a)"

fun bind_outcome :: "('e, 'a) outcome \<Rightarrow> ('a \<Rightarrow> ('e, 'b) outcome) \<Rightarrow> ('e, 'b) outcome" where
  "bind_outcome (Returned a) f = f a"
| "bind_outcome (Thrown e) f = Thrown e"
| "bind_outcome Undefined f = Undefined"

lemma of_option_simps [simp]: "of_option (Some a) = Returned a" "of_option None = Undefined"
  by (simp_all add: of_option_def)

lemma bind_outcome_Returned [simp]:
  "bind_outcome m f = Returned b \<longleftrightarrow> (\<exists>a. m = Returned a \<and> f a = Returned b)"
  by (cases m) auto

end
