(* ===== verification/SetOps.thy ===== *)
theory SetOps
  imports StdContainers
begin

section \<open>Set operators (ept/debtags/coll/operators.h and set.h)\<close>

text \<open>
  The operators on \<open>std::set\<close> that the tag collection uses.  The binary operators call the
  merging algorithms of the standard library and insert their output one element at a time;
  \<open>and_assign\<close>, \<open>minus_assign\<close>, \<open>set_le\<close>, \<open>set_contains\<close> and
  \<open>set_distance\<close> step two iterators by hand, which is what the recursions below do: their two
  list arguments are the ranges from each iterator to the end of its set.  Every operator is
  related to the operation on mathematical sets that its name promises.
\<close>

subsection \<open>Binary operators\<close>

fun std_set_intersection :: "'a::linorder list \<Rightarrow> 'a list \<Rightarrow> 'a list" where
  "std_set_intersection [] b = []"
| "std_set_intersection a [] = []"
| "std_set_intersection (x # a) (y # b) =
     (if x < y then std_set_intersection a (y # b)
      else if y < x then std_set_intersection (x # a) b
      else x # std_set_intersection a b)"

fun std_set_union :: "'a::linorder list \<Rightarrow> 'a list \<Rightarrow> 'a list" where
  "std_set_union [] b = b"
| "std_set_union a [] = a"
| "std_set_union (x # a) (y # b) =
     (if x < y then x # std_set_union a (y # b)
      else if y < x then y # std_set_union (x # a) b
      else x # std_set_union a b)"

fun std_set_difference :: "'a::linorder list \<Rightarrow> 'a list \<Rightarrow> 'a list" where
  "std_set_difference [] b = []"
| "std_set_difference a [] = a"
| "std_set_difference (x # a) (y # b) =
     (if x < y then x # std_set_difference a (y # b)
      else if y < x then std_set_difference (x # a) b
      else std_set_difference a b)"

definition and_set :: "'a::linorder oset \<Rightarrow> 'a oset \<Rightarrow> 'a oset" where
  "and_set a b = oset_of_list (std_set_intersection a b)"

definition and_item :: "'a::linorder oset \<Rightarrow> 'a \<Rightarrow> 'a oset" where
  "and_item a b = (if oset_mem b a then oset_insert b [] else [])"

definition or_item :: "'a::linorder oset \<Rightarrow> 'a \<Rightarrow> 'a oset" where
  "or_item a item = oset_insert item a"

definition or_set :: "'a::linorder oset \<Rightarrow> 'a oset \<Rightarrow> 'a oset" where
  "or_set a b = oset_of_list (std_set_union a b)"

definition minus_set :: "'a::linorder oset \<Rightarrow> 'a oset \<Rightarrow> 'a oset" where
  "minus_set a b = oset_of_list (std_set_difference a b)"

definition minus_item :: "'a oset \<Rightarrow> 'a \<Rightarrow> 'a oset" where
  "minus_item a item = oset_erase item a"

subsection \<open>Assignment operators\<close>

definition or_assign_item :: "'a::linorder oset \<Rightarrow> 'a \<Rightarrow> 'a oset" where
  "or_assign_item a item = oset_insert item a"

definition or_assign_seq :: "'a::linorder oset \<Rightarrow> 'a list \<Rightarrow> 'a oset" where
  "or_assign_seq a items = fold oset_insert items a"

definition or_assign_set :: "'a::linorder oset \<Rightarrow> 'a oset \<Rightarrow> 'a oset" where
  "or_assign_set a b = (if a = [] then b else fold oset_insert b a)"

text \<open>The loop of \<open>operator&=\<close>: the elements of \<open>a\<close> from \<open>ia\<close> on that are not erased.\<close>

fun and_assign_loop :: "'a::linorder list \<Rightarrow> 'a list \<Rightarrow> 'a list" where
  "and_assign_loop [] b = []"
| "and_assign_loop (x # a) [] = and_assign_loop a []"
| "and_assign_loop (x # a) (y # b) =
     (if y < x then and_assign_loop (x # a) b
      else if x \<noteq> y then and_assign_loop a (y # b)
      else x # and_assign_loop a b)"

definition and_assign :: "'a::linorder oset \<Rightarrow> 'a list \<Rightarrow> 'a oset" where
  "and_assign a b = (if b = [] then [] else and_assign_loop a b)"

definition minus_assign_item :: "'a oset \<Rightarrow> 'a \<Rightarrow> 'a oset" where
  "minus_assign_item a item = oset_erase item a"

fun minus_assign :: "'a::linorder oset \<Rightarrow> 'a list \<Rightarrow> 'a oset" where
  "minus_assign [] b = []"
| "minus_assign (x # a) [] = x # a"
| "minus_assign (x # a) (y # b) =
     (if x = y then minus_assign a b
      else if x < y then x # minus_assign a (y # b)
      else minus_assign (x # a) b)"

subsection \<open>Tests\<close>

definition item_le :: "'a \<Rightarrow> 'a oset \<Rightarrow> bool" where
  "item_le a b = oset_mem a b"

text \<open>\<open>operator<=\<close> on two sets: \<open>x\<close> walks the first, \<open>y\<close> the second.\<close>

fun set_le :: "'a::linorder oset \<Rightarrow> 'a oset \<Rightarrow> bool" where
  "set_le a [] \<longleftrightarrow> a = []"
| "set_le [] (y # b) \<longleftrightarrow> True"
| "set_le (x # a) (y # b) \<longleftrightarrow>
     (if x = y then set_le a b else if x < y then False else set_le (x # a) b)"

text \<open>\<open>set_contains(set1, set2)\<close>: \<open>a\<close> walks the first, \<open>b\<close> the second.\<close>

fun set_contains :: "'a::linorder oset \<Rightarrow> 'a oset \<Rightarrow> bool" where
  "set_contains [] b \<longleftrightarrow> b = []"
| "set_contains (x # a) [] \<longleftrightarrow> True"
| "set_contains (x # a) (y # b) \<longleftrightarrow>
     (if x = y then set_contains a b else if y < x then False else set_contains a (y # b))"

definition set_contains_item :: "'a oset \<Rightarrow> 'a \<Rightarrow> bool" where
  "set_contains_item s item = oset_mem item s"

text \<open>\<open>set_distance\<close>: the loop with its two counters \<open>res\<close> and \<open>intCount\<close>.\<close>

fun set_distance_loop :: "'a::linorder list \<Rightarrow> 'a list \<Rightarrow> int \<Rightarrow> int \<Rightarrow> int \<times> int" where
  "set_distance_loop [] [] res ic = (res, ic)"
| "set_distance_loop (x # a) [] res ic = set_distance_loop a [] (res + 1) ic"
| "set_distance_loop [] (y # b) res ic = set_distance_loop [] b (res + 1) ic"
| "set_distance_loop (x # a) (y # b) res ic =
     (if x < y then set_distance_loop a (y # b) (res + 1) ic
      else if y < x then set_distance_loop (x # a) b (res + 1) ic
      else set_distance_loop a b res (ic + 1))"

definition set_distance :: "'a::linorder oset \<Rightarrow> 'a oset \<Rightarrow> int" where
  "set_distance set1 set2 =
     (case set_distance_loop set1 set2 0 0 of (res, ic) \<Rightarrow> if ic \<noteq> 0 then res else -1)"

subsection \<open>Correctness\<close>

text \<open>
  On ordered lists each merging loop keeps or drops the elements of its first list by their
  membership in the second, so the loops that only remove elements are filters.
\<close>

lemma ordered_below: "ordered (x # a) \<Longrightarrow> y < x \<Longrightarrow> y \<notin> set (x # a)"
  by auto

lemma filter_skip_in: "y \<notin> set a \<Longrightarrow> filter (\<lambda>z. z \<in> insert y B) a = filter (\<lambda>z. z \<in> B) a"
  by (rule filter_cong) auto

lemma filter_skip_notin: "y \<notin> set a \<Longrightarrow> filter (\<lambda>z. z \<notin> insert y B) a = filter (\<lambda>z. z \<notin> B) a"
  by (rule filter_cong) auto

lemma std_set_intersection_filter:
  "ordered a \<Longrightarrow> ordered b \<Longrightarrow> std_set_intersection a b = filter (\<lambda>z. z \<in> set b) a"
proof (induction a b rule: std_set_intersection.induct)
  case (3 x a y b)
  consider "x < y" | "y < x" | "x = y" by fastforce
  then show ?case
  proof cases
    case 1
    with 3 ordered_below [of y b x] show ?thesis by auto
  next
    case 2
    then have "\<not> x < y" by simp
    with 2 3 ordered_below [of x a y] show ?thesis
      using filter_skip_in [of y "x # a" "set b"] by simp
  next
    case 3
    with "3.prems" have "y \<notin> set a" by auto
    with 3 "3.IH" "3.prems" show ?thesis using filter_skip_in [of y a "set b"] by simp
  qed
qed auto

lemma and_assign_loop_filter:
  "ordered a \<Longrightarrow> ordered b \<Longrightarrow> and_assign_loop a b = filter (\<lambda>z. z \<in> set b) a"
proof (induction a b rule: and_assign_loop.induct)
  case (3 x a y b)
  consider "x < y" | "y < x" | "x = y" by fastforce
  then show ?case
  proof cases
    case 1
    with 3 ordered_below [of y b x] show ?thesis by auto
  next
    case 2
    then have "\<not> x < y" by simp
    with 2 3 ordered_below [of x a y] show ?thesis
      using filter_skip_in [of y "x # a" "set b"] by simp
  next
    case 3
    with "3.prems" have "y \<notin> set a" by auto
    with 3 "3.IH" "3.prems" show ?thesis using filter_skip_in [of y a "set b"] by simp
  qed
qed auto

lemma std_set_difference_filter:
  "ordered a \<Longrightarrow> ordered b \<Longrightarrow> std_set_difference a b = filter (\<lambda>z. z \<notin> set b) a"
proof (induction a b rule: std_set_difference.induct)
  case (3 x a y b)
  consider "x < y" | "y < x" | "x = y" by fastforce
  then show ?case
  proof cases
    case 1
    with 3 ordered_below [of y b x] show ?thesis by auto
  next
    case 2
    then have "\<not> x < y" by simp
    with 2 3 ordered_below [of x a y] show ?thesis
      using filter_skip_notin [of y "x # a" "set b"] by simp
  next
    case 3
    with "3.prems" have "y \<notin> set a" by auto
    with 3 "3.IH" "3.prems" show ?thesis using filter_skip_notin [of y a "set b"] by simp
  qed
qed auto

lemma minus_assign_difference: "minus_assign a b = std_set_difference a b"
  by (induction a b rule: minus_assign.induct) auto

lemmas merge_filters = std_set_intersection_filter and_assign_loop_filter
  std_set_difference_filter minus_assign_difference

lemma set_std_union: "set (std_set_union a b) = set a \<union> set b"
  by (induction a b rule: std_set_union.induct) auto

lemma and_assign_filter:
  "ordered a \<Longrightarrow> ordered b \<Longrightarrow> and_assign a b = filter (\<lambda>z. z \<in> set b) a"
  by (auto simp: and_assign_def merge_filters)

lemma set_and_assign [containers, simp]:
  "ordered a \<Longrightarrow> ordered b \<Longrightarrow> set (and_assign a b) = set a \<inter> set b"
  by (auto simp: and_assign_filter)

lemma ordered_and_assign [containers, simp, intro]:
  "ordered a \<Longrightarrow> ordered b \<Longrightarrow> ordered (and_assign a b)"
  by (simp add: and_assign_filter ordered_filter)

lemma set_or_assign_set [containers, simp]:
  "ordered a \<Longrightarrow> set (or_assign_set a b) = set a \<union> set b"
  by (auto simp: or_assign_set_def os.elems_fold)

lemma ordered_or_assign_set [containers, simp, intro]:
  "ordered a \<Longrightarrow> ordered b \<Longrightarrow> ordered (or_assign_set a b)"
  by (auto simp: or_assign_set_def os.good_fold)

lemma or_assign_set_Nil [simp]: "or_assign_set a b = [] \<longleftrightarrow> a = [] \<and> b = []"
proof -
  have "fold oset_insert b a = [] \<Longrightarrow> a = []" for b a :: "'a list"
    by (induction b arbitrary: a) fastforce+
  then show ?thesis by (auto simp: or_assign_set_def)
qed

lemma set_contains_iff [containers, simp]:
  "ordered a \<Longrightarrow> ordered b \<Longrightarrow> set_contains a b \<longleftrightarrow> set b \<subseteq> set a"
proof (induction a b rule: set_contains.induct)
  case (3 x a y b)
  consider "x < y" | "y < x" | "x = y" by fastforce
  then show ?case
    using 3 ordered_below [of y b x] ordered_below [of x a y] by cases auto
qed auto

lemma set_le_iff [containers, simp]:
  "ordered a \<Longrightarrow> ordered b \<Longrightarrow> set_le a b \<longleftrightarrow> set a \<subseteq> set b"
proof (induction a b rule: set_le.induct)
  case (3 x a y b)
  consider "x < y" | "y < x" | "x = y" by fastforce
  then show ?case
    using 3 ordered_below [of y b x] ordered_below [of x a y] by cases auto
qed auto

subsection \<open>The distance\<close>

definition sym_diff_set :: "'a set \<Rightarrow> 'a set \<Rightarrow> 'a set" where
  "sym_diff_set A B = (A - B) \<union> (B - A)"

lemma sym_diff_insert_left:
  "x \<notin> A \<Longrightarrow> x \<notin> B \<Longrightarrow> sym_diff_set (insert x A) B = insert x (sym_diff_set A B)"
  by (auto simp: sym_diff_set_def)

lemma sym_diff_insert_right:
  "y \<notin> A \<Longrightarrow> y \<notin> B \<Longrightarrow> sym_diff_set A (insert y B) = insert y (sym_diff_set A B)"
  by (auto simp: sym_diff_set_def)

lemma sym_diff_insert_both:
  "x \<notin> A \<Longrightarrow> x \<notin> B \<Longrightarrow> sym_diff_set (insert x A) (insert x B) = sym_diff_set A B"
  by (auto simp: sym_diff_set_def)

lemma finite_sym_diff [simp]: "finite A \<Longrightarrow> finite B \<Longrightarrow> finite (sym_diff_set A B)"
  by (simp add: sym_diff_set_def)

lemma notin_sym_diff [simp]: "x \<notin> A \<Longrightarrow> x \<notin> B \<Longrightarrow> x \<notin> sym_diff_set A B"
  by (simp add: sym_diff_set_def)

lemma set_distance_loop_card:
  "ordered a \<Longrightarrow> ordered b \<Longrightarrow> set_distance_loop a b res ic =
     (res + int (card (sym_diff_set (set a) (set b))), ic + int (card (set a \<inter> set b)))"
proof (induction a b res ic rule: set_distance_loop.induct)
  case (4 x a y b res ic)
  consider "x < y" | "y < x" | "x = y" by fastforce
  then show ?case
  proof cases
    case 1
    with 4 have "x \<notin> set a" "x \<notin> set (y # b)" by auto
    with 4 1 show ?thesis by (simp add: sym_diff_insert_left)
  next
    case 2
    with 4 have "y \<notin> set b" "y \<notin> set (x # a)" by auto
    with 4 2 show ?thesis by (simp add: sym_diff_insert_right)
  next
    case 3
    with 4 have "x \<notin> set a" "x \<notin> set b" by auto
    with 4 3 show ?thesis by (simp add: sym_diff_insert_both)
  qed
qed (auto simp: sym_diff_set_def)

lemma set_distance_nonneg:
  assumes "ordered a" "ordered b"
  shows "set_distance a b =
    (if set a \<inter> set b = {} then -1 else int (card (sym_diff_set (set a) (set b))))"
  using assms by (simp add: set_distance_def set_distance_loop_card)

subsection \<open>Properties\<close>

text \<open>
  C40: the binary operators and the compound assignments on sorted sets compute intersection,
  union and difference, and each returns a sorted set without duplicates, so that it can be an
  operand of the next one.
\<close>

theorem set_operators_correct:
  assumes "ordered a" and "ordered b"
  shows "set (and_set a b) = set a \<inter> set b \<and> ordered (and_set a b)
    \<and> set (or_set a b) = set a \<union> set b \<and> ordered (or_set a b)
    \<and> set (minus_set a b) = set a - set b \<and> ordered (minus_set a b)
    \<and> or_assign_set a b = or_set a b
    \<and> and_assign a b = and_set a b
    \<and> minus_assign a b = minus_set a b"
proof -
  have sets: "set (and_set a b) = set a \<inter> set b" "set (or_set a b) = set a \<union> set b"
    "set (minus_set a b) = set a - set b"
    using assms by (auto simp: and_set_def or_set_def minus_set_def set_std_union merge_filters)
  have ord: "ordered (and_set a b)" "ordered (or_set a b)" "ordered (minus_set a b)"
    by (auto simp: and_set_def or_set_def minus_set_def)
  have "or_assign_set a b = or_set a b" "and_assign a b = and_set a b"
    using assms sets ord by (auto intro!: ordered_unique)
  moreover have "minus_assign a b = minus_set a b"
    using assms sets ord by (intro ordered_unique) (auto simp: merge_filters)
  ultimately show ?thesis using sets ord by simp
qed

theorem set_operators_correct_witness:
  "and_assign [1, 2, 4 :: nat] [2, 3, 4] = and_set [1, 2, 4] [2, 3, 4]
    \<and> and_set [1, 2, 4 :: nat] [2, 3, 4] = [2, 4]"
proof -
  have "ordered [1, 2, 4 :: nat]" "ordered [2, 3, 4 :: nat]" by simp_all
  from set_operators_correct [OF this] show ?thesis
    by (simp add: and_set_def oset_of_list_def)
qed

text \<open>
  \<open>set_distance\<close> is the number of elements that are in exactly one of the two sets, or -1
  when the sets have no element in common.
\<close>

theorem set_distance_correct:
  assumes "ordered a" and "ordered b"
  shows "set_distance a b =
    (if set a \<inter> set b = {} then -1 else int (card ((set a - set b) \<union> (set b - set a))))"
  using set_distance_nonneg [OF assms] by (simp add: sym_diff_set_def)

theorem set_distance_correct_witness:
  "set_distance [1, 2, 4 :: nat] [2, 3, 4] = 2 \<and> set_distance [1 :: nat] [2] = -1"
proof -
  have o: "ordered [1, 2, 4 :: nat]" "ordered [2, 3, 4 :: nat]" "ordered [1 :: nat]" "ordered [2 :: nat]"
    by simp_all
  have d: "{1, 2, 4 :: nat} - {2, 3, 4} \<union> ({2, 3, 4} - {1, 2, 4}) = {1, 3}" by auto
  show ?thesis
    using set_distance_correct [OF o(1,2)] set_distance_correct [OF o(3,4)] d by simp
qed

end
