(* ===== verification/FastColl.thy ===== *)
theory FastColl
  imports SetOps
begin

section \<open>The two-way tag collection (ept/debtags/coll/fast.h and fast.cc)\<close>

text \<open>
  \<open>coll::Fast\<close> keeps two maps, from items to their tags and from tags to their items.  Its
  state is the record \<open>fast\<close> with the two maps; every method is one definition.  Methods that
  dereference the result of a \<open>find\<close> without a test (\<open>removeTag\<close>, \<open>getChildCollection\<close>)
  return \<open>None\<close> where that dereferences \<open>end()\<close>.  The abstract value of a collection is the
  relation \<open>tagging\<close> between items and tags; \<open>fast_inv\<close> says that the two maps are each
  other's inverse and hold no empty sets, and a collection with the invariant is determined by
  its relation.
\<close>

record fast =
  items :: "(string, string oset) omap"
  tags :: "(string, string oset) omap"

definition fast_empty :: fast where
  "fast_empty = \<lparr>items = [], tags = []\<rparr>"

subsection \<open>Insertion\<close>

text \<open>The entry of \<open>k\<close>, created when it is missing, gets the element \<open>x\<close>.\<close>

definition add_entry :: "string \<Rightarrow> string \<Rightarrow> (string, string oset) omap \<Rightarrow> (string, string oset) omap" where
  "add_entry k x m =
     (case omap_find m k of
        None \<Rightarrow> omap_insert k (or_item [] x) m
      | Some s \<Rightarrow> omap_set k (or_assign_item s x) m)"

definition add_entries :: "string \<Rightarrow> string oset \<Rightarrow> (string, string oset) omap \<Rightarrow> (string, string oset) omap" where
  "add_entries k xs m =
     (case omap_find m k of
        None \<Rightarrow> omap_insert k xs m
      | Some s \<Rightarrow> omap_set k (or_assign_set s xs) m)"

definition insert_item_tags :: "fast \<Rightarrow> string \<Rightarrow> string oset \<Rightarrow> fast" where
  "insert_item_tags c item ts =
     (if ts = [] then c
      else c\<lparr>items := add_entries item ts (items c),
             tags := fold (\<lambda>t. add_entry t item) ts (tags c)\<rparr>)"

definition insert_items_tag :: "fast \<Rightarrow> string oset \<Rightarrow> string \<Rightarrow> fast" where
  "insert_items_tag c is tag =
     c\<lparr>items := fold (\<lambda>i. add_entry i tag) is (items c),
       tags := add_entries tag is (tags c)\<rparr>"

definition insert_items_tags :: "fast \<Rightarrow> string oset \<Rightarrow> string oset \<Rightarrow> fast" where
  "insert_items_tags c is ts =
     (if ts = [] then c else fold (\<lambda>i c. insert_item_tags c i ts) is c)"

subsection \<open>Queries\<close>

definition getTagsOfItem :: "fast \<Rightarrow> string \<Rightarrow> string oset" where
  "getTagsOfItem c item = (case omap_find (items c) item of Some s \<Rightarrow> s | None \<Rightarrow> [])"

definition getItemsHavingTag :: "fast \<Rightarrow> string \<Rightarrow> string oset" where
  "getItemsHavingTag c tag = (case omap_find (tags c) tag of Some s \<Rightarrow> s | None \<Rightarrow> [])"

fun getItemsHavingTags :: "fast \<Rightarrow> string oset \<Rightarrow> string oset" where
  "getItemsHavingTags c [] = []"
| "getItemsHavingTags c (t # ts) =
     fold (\<lambda>u res. and_assign res (getItemsHavingTag c u)) ts (getItemsHavingTag c t)"

definition fast_is_empty :: "fast \<Rightarrow> bool" where
  "fast_is_empty c \<longleftrightarrow> items c = []"

definition hasItem :: "fast \<Rightarrow> string \<Rightarrow> bool" where
  "hasItem c item \<longleftrightarrow> omap_find (items c) item \<noteq> None"

definition hasTag :: "fast \<Rightarrow> string \<Rightarrow> bool" where
  "hasTag c tag \<longleftrightarrow> omap_find (tags c) tag \<noteq> None"

definition getTaggedItems :: "fast \<Rightarrow> string oset" where
  "getTaggedItems c = fold (\<lambda>i res. or_assign_item res (fst i)) (items c) []"

definition getAllTags :: "fast \<Rightarrow> string oset" where
  "getAllTags c = fold (\<lambda>i res. or_assign_item res (fst i)) (tags c) []"

definition getAllTagsAsVector :: "fast \<Rightarrow> string list" where
  "getAllTagsAsVector c = fold (\<lambda>i res. res @ [fst i]) (tags c) []"

text \<open>The counts are returned as 32-bit \<open>unsigned int\<close>.\<close>

definition itemCount :: "fast \<Rightarrow> nat" where
  "itemCount c = length (items c) mod 2 ^ 32"

definition tagCount :: "fast \<Rightarrow> nat" where
  "tagCount c = length (tags c) mod 2 ^ 32"

definition getTagsImplying :: "fast \<Rightarrow> string \<Rightarrow> string oset" where
  "getTagsImplying c tag =
     (let itemsToCheck = getItemsHavingTag c tag;
          res = fold (\<lambda>i res.
            if set_contains itemsToCheck (getItemsHavingTag c (fst i))
            then or_assign_item res (fst i) else res) (tags c) []
      in minus_item res tag)"

definition getItemsExactMatch :: "fast \<Rightarrow> string oset \<Rightarrow> string oset" where
  "getItemsExactMatch c ts =
     filter (\<lambda>i. \<not> (case omap_find (items c) i of Some s \<Rightarrow> s \<noteq> ts | None \<Rightarrow> False))
       (getItemsHavingTags c ts)"

definition findTagWithMaxCardinality :: "fast \<Rightarrow> string \<times> nat" where
  "findTagWithMaxCardinality c =
     fold (\<lambda>i (res, crd). if length (snd i) > crd then (fst i, length (snd i)) else (res, crd))
       (tags c) ([], 0)"

subsection \<open>Removal and sub-collections\<close>

text \<open>The loop of \<open>removeTag\<close> over the items that have the tag.\<close>

fun removeTag_loop :: "string \<Rightarrow> string list \<Rightarrow> (string, string oset) omap \<Rightarrow> (string, string oset) omap option" where
  "removeTag_loop tag [] m = Some m"
| "removeTag_loop tag (i # is) m =
     (case omap_find m i of
        None \<Rightarrow> None
      | Some s \<Rightarrow>
          (let s' = minus_assign_item s tag; m' = omap_set i s' m
           in removeTag_loop tag is (if s' = [] then omap_erase i m' else m')))"

definition removeTag :: "fast \<Rightarrow> string \<Rightarrow> fast option" where
  "removeTag c tag =
     (case omap_find (tags c) tag of
        None \<Rightarrow> None
      | Some itemset \<Rightarrow>
          map_option (\<lambda>m. c\<lparr>items := m, tags := omap_erase tag (tags c)\<rparr>)
            (removeTag_loop tag itemset (items c)))"

fun child_loop :: "fast \<Rightarrow> string list \<Rightarrow> fast \<Rightarrow> fast option" where
  "child_loop c [] res = Some res"
| "child_loop c (i # is) res =
     (case omap_find (items c) i of
        None \<Rightarrow> None
      | Some s \<Rightarrow> child_loop c is (insert_item_tags res i s))"

definition getChildCollection :: "fast \<Rightarrow> string \<Rightarrow> fast option" where
  "getChildCollection c tag =
     (case omap_find (tags c) tag of
        None \<Rightarrow> None
      | Some itemset \<Rightarrow>
          (case child_loop c itemset fast_empty of
             None \<Rightarrow> None
           | Some res \<Rightarrow> removeTag res tag))"

text \<open>The iterator walks the keys of \<open>tags\<close>; \<open>removeTag\<close> erases only the key it is given, after
  the iterator has moved on, so the keys still to come are those of the map at the start.\<close>

fun removeCard_loop :: "nat \<Rightarrow> string list \<Rightarrow> fast \<Rightarrow> fast option" where
  "removeCard_loop lim [] c = Some c"
| "removeCard_loop lim (k # ks) c =
     (case omap_find (tags c) k of
        None \<Rightarrow> None
      | Some s \<Rightarrow>
          (if length s < lim
           then (case removeTag c k of None \<Rightarrow> None | Some c' \<Rightarrow> removeCard_loop lim ks c')
           else removeCard_loop lim ks c))"

definition removeTagsWithCardinalityLessThan :: "fast \<Rightarrow> nat \<Rightarrow> fast option" where
  "removeTagsWithCardinalityLessThan c lim = removeCard_loop lim (map fst (tags c)) c"

subsection \<open>The two indexes\<close>

text \<open>Both maps are indexes from a key to a non-empty set; \<open>entry\<close> reads a missing key as empty.\<close>

definition entry :: "(string, string oset) omap \<Rightarrow> string \<Rightarrow> string oset" where
  "entry m k = (case omap_find m k of Some s \<Rightarrow> s | None \<Rightarrow> [])"

definition index_ok :: "(string, string oset) omap \<Rightarrow> bool" where
  "index_ok m \<longleftrightarrow> map_ok m \<and> (\<forall>k s. omap_find m k = Some s \<longrightarrow> ordered s \<and> s \<noteq> [])"

lemma index_map_ok [simp, intro]: "index_ok m \<Longrightarrow> map_ok m"
  by (simp add: index_ok_def)

lemma index_find_ok: "index_ok m \<Longrightarrow> omap_find m k = Some s \<Longrightarrow> ordered s \<and> s \<noteq> []"
  by (simp add: index_ok_def)

lemma index_ok_Nil [simp]: "index_ok []"
  by (simp add: index_ok_def)

lemma entry_Nil [simp]: "entry [] k = []"
  by (simp add: entry_def)

lemma ordered_entry [simp, intro]: "index_ok m \<Longrightarrow> ordered (entry m k)"
  by (auto simp: entry_def dest: index_find_ok split: option.splits)

lemma entry_find: "index_ok m \<Longrightarrow> omap_find m k = (if entry m k = [] then None else Some (entry m k))"
  by (auto simp: entry_def dest: index_find_ok split: option.splits)

lemma index_ext:
  assumes "index_ok m" "index_ok m'" "\<And>k. set (entry m k) = set (entry m' k)"
  shows "m = m'"
proof (rule omap_ext)
  fix k
  have "entry m k = entry m' k" using assms by (intro ordered_unique) auto
  then show "omap_find m k = omap_find m' k" using assms by (simp add: entry_find)
qed (use assms in auto)

lemma index_pairs_set:
  assumes "index_ok m" "ordered s" "s \<noteq> []"
  shows "index_ok (omap_set k s m)" "entry (omap_set k s m) k' = (if k' = k then s else entry m k')"
  using assms by (auto simp: index_ok_def entry_def split: if_splits)

lemma index_erase:
  assumes "index_ok m"
  shows "index_ok (omap_erase k m)" "entry (omap_erase k m) k' = (if k' = k then [] else entry m k')"
  using assms by (auto simp: index_ok_def entry_def split: if_splits)

lemma index_insert_new:
  assumes "index_ok m" "omap_find m k = None" "ordered s" "s \<noteq> []"
  shows "index_ok (omap_insert k s m)" "entry (omap_insert k s m) k' = (if k' = k then s else entry m k')"
  using assms index_pairs_set [OF assms(1,3,4)] by (simp_all add: omap_insert_def)

lemma add_entries_ok:
  assumes "index_ok m" "ordered xs" "xs \<noteq> []"
  shows "index_ok (add_entries k xs m)"
    and "set (entry (add_entries k xs m) k') = (if k' = k then set xs else {}) \<union> set (entry m k')"
proof -
  have "index_ok (add_entries k xs m)
    \<and> set (entry (add_entries k xs m) k') = (if k' = k then set xs else {}) \<union> set (entry m k')"
  proof (cases "omap_find m k")
    case None
    with assms show ?thesis by (auto simp: add_entries_def index_insert_new entry_def)
  next
    case (Some s)
    then have "ordered s" "entry m k = s"
      using assms by (auto dest: index_find_ok simp: entry_def)
    with Some assms show ?thesis by (auto simp: add_entries_def index_pairs_set)
  qed
  then show "index_ok (add_entries k xs m)"
    and "set (entry (add_entries k xs m) k') = (if k' = k then set xs else {}) \<union> set (entry m k')"
    by auto
qed

lemma add_entry_entries: "index_ok m \<Longrightarrow> add_entry k x m = add_entries k [x] m"
  by (auto simp: add_entry_def add_entries_def or_item_def or_assign_item_def or_assign_set_def
      dest: index_find_ok split: option.splits)

text \<open>Adding one element to the entries of several keys: an insertion loop over the index.\<close>

definition index_rel :: "(string, string oset) omap \<Rightarrow> (string \<times> string) set" where
  "index_rel m = {(k, x). x \<in> set (entry m k)}"

interpretation ix: insertable "\<lambda>(k, x). add_entry k x" index_rel index_ok
  by unfold_locales
    (auto simp: index_rel_def add_entry_entries add_entries_ok split: if_splits)

lemma add_entry_loop:
  assumes "index_ok m"
  shows "index_ok (fold (\<lambda>k. add_entry k x) ks m)"
    and "set (entry (fold (\<lambda>k. add_entry k x) ks m) k') = (if k' \<in> set ks then {x} else {}) \<union> set (entry m k')"
proof -
  have eq: "fold (\<lambda>k. add_entry k x) ks m = fold (\<lambda>(k, x). add_entry k x) (map (\<lambda>k. (k, x)) ks) m"
    by (simp add: fold_map comp_def)
  show "index_ok (fold (\<lambda>k. add_entry k x) ks m)"
    unfolding eq by (rule ix.good_fold [OF assms])
  have "index_rel (fold (\<lambda>k. add_entry k x) ks m) = (\<lambda>k. (k, x)) ` set ks \<union> index_rel m"
    unfolding eq using ix.elems_fold [OF assms] by simp
  then show "set (entry (fold (\<lambda>k. add_entry k x) ks m) k') = (if k' \<in> set ks then {x} else {}) \<union> set (entry m k')"
    by (auto simp: index_rel_def set_eq_iff)
qed

subsection \<open>Abstract value and invariant\<close>

definition tagging :: "fast \<Rightarrow> (string \<times> string) set" where
  "tagging c = {(i, t). t \<in> set (getTagsOfItem c i)}"

definition fast_inv :: "fast \<Rightarrow> bool" where
  "fast_inv c \<longleftrightarrow> index_ok (items c) \<and> index_ok (tags c)
     \<and> (\<forall>i t. t \<in> set (getTagsOfItem c i) \<longleftrightarrow> i \<in> set (getItemsHavingTag c t))"

named_theorems fast_facts \<open>queries of a collection in terms of its tagging\<close>

lemma getTagsOfItem_entry: "getTagsOfItem c i = entry (items c) i"
  by (simp add: getTagsOfItem_def entry_def)

lemma getItemsHavingTag_entry: "getItemsHavingTag c t = entry (tags c) t"
  by (simp add: getItemsHavingTag_def entry_def)

lemmas entries = getTagsOfItem_entry getItemsHavingTag_entry

lemma fast_inv_index: "fast_inv c \<Longrightarrow> index_ok (items c) \<and> index_ok (tags c)"
  by (simp add: fast_inv_def)

lemma set_getTagsOfItem [fast_facts]: "set (getTagsOfItem c i) = {t. (i, t) \<in> tagging c}"
  by (simp add: tagging_def)

lemma set_getItemsHavingTag [fast_facts]:
  "fast_inv c \<Longrightarrow> set (getItemsHavingTag c t) = {i. (i, t) \<in> tagging c}"
  by (auto simp: tagging_def fast_inv_def)

lemma ordered_getItemsHavingTag [simp]: "fast_inv c \<Longrightarrow> ordered (getItemsHavingTag c t)"
  by (simp add: entries fast_inv_def)

lemma ordered_getTagsOfItem [simp]: "fast_inv c \<Longrightarrow> ordered (getTagsOfItem c i)"
  by (simp add: entries fast_inv_def)

lemma fast_ext:
  assumes "fast_inv c" "fast_inv c'" "tagging c = tagging c'"
  shows "c = c'"
proof -
  have "items c = items c'" "tags c = tags c'"
    using assms set_getTagsOfItem [of c] set_getTagsOfItem [of c']
      set_getItemsHavingTag [of c] set_getItemsHavingTag [of c']
    by (intro index_ext; simp add: entries fast_inv_def)+
  then show ?thesis by simp
qed

lemma fast_empty_ok [simp]: "fast_inv fast_empty" "tagging fast_empty = {}"
  by (auto simp: fast_inv_def tagging_def fast_empty_def entries)

lemma hasItem_iff [fast_facts]:
  assumes "fast_inv c"
  shows "hasItem c i \<longleftrightarrow> (\<exists>t. (i, t) \<in> tagging c)"
proof -
  have "hasItem c i \<longleftrightarrow> set (getTagsOfItem c i) \<noteq> {}"
    using assms by (auto simp: hasItem_def entries fast_inv_def entry_find)
  then show ?thesis by (auto simp: set_getTagsOfItem)
qed

lemma hasTag_iff [fast_facts]:
  assumes "fast_inv c"
  shows "hasTag c t \<longleftrightarrow> (\<exists>i. (i, t) \<in> tagging c)"
proof -
  have "hasTag c t \<longleftrightarrow> set (getItemsHavingTag c t) \<noteq> {}"
    using assms by (auto simp: hasTag_def entries fast_inv_def entry_find)
  then show ?thesis using assms by (auto simp: set_getItemsHavingTag)
qed

lemma insert_item_tags_ok:
  assumes "fast_inv c" "ordered ts"
  shows "fast_inv (insert_item_tags c i ts)"
    and "tagging (insert_item_tags c i ts) = {i} \<times> set ts \<union> tagging c"
proof -
  have ok: "index_ok (items c)" "index_ok (tags c)"
    and sym: "\<And>i t. t \<in> set (entry (items c) i) \<longleftrightarrow> i \<in> set (entry (tags c) t)"
    using assms(1) by (auto simp: fast_inv_def entries)
  show "fast_inv (insert_item_tags c i ts)"
    using ok sym assms
    by (auto simp: insert_item_tags_def fast_inv_def entries add_entries_ok add_entry_loop split: if_splits)
  show "tagging (insert_item_tags c i ts) = {i} \<times> set ts \<union> tagging c"
    using ok assms
    by (auto simp: insert_item_tags_def tagging_def entries add_entries_ok split: if_splits)
qed

lemma insert_items_tags_ok:
  assumes "fast_inv c" "ordered ts"
  shows "fast_inv (insert_items_tags c is ts)"
    and "tagging (insert_items_tags c is ts) = set is \<times> set ts \<union> tagging c"
proof -
  have "fast_inv (fold (\<lambda>i c. insert_item_tags c i ts) is c)
    \<and> tagging (fold (\<lambda>i c. insert_item_tags c i ts) is c) = set is \<times> set ts \<union> tagging c"
    using assms(1) by (induction "is" arbitrary: c) (auto simp: insert_item_tags_ok assms(2))
  then show "fast_inv (insert_items_tags c is ts)"
    and "tagging (insert_items_tags c is ts) = set is \<times> set ts \<union> tagging c"
    using assms by (auto simp: insert_items_tags_def)
qed

lemma insert_items_tag_ok:
  assumes "fast_inv c" "ordered is"
  shows "fast_inv (insert_items_tag c is t) \<longleftrightarrow> is \<noteq> [] \<or> hasTag c t"
    and "tagging (insert_items_tag c is t) = set is \<times> {t} \<union> tagging c"
proof -
  have ok: "index_ok (items c)" "index_ok (tags c)"
    and sym: "\<And>i t. t \<in> set (entry (items c) i) \<longleftrightarrow> i \<in> set (entry (tags c) t)"
    using assms(1) by (auto simp: fast_inv_def entries)
  have "fast_inv (insert_items_tag c is t)" if "is \<noteq> []"
    using ok sym assms that
    by (auto simp: insert_items_tag_def fast_inv_def entries add_entries_ok add_entry_loop split: if_splits)
  moreover have "insert_items_tag c [] t = c" if has: "hasTag c t"
  proof -
    obtain y where y: "omap_find (tags c) t = Some y" using has by (auto simp: hasTag_def)
    have "omap_set t y (tags c) = tags c"
      using ok(2) y by (intro omap_ext) (auto simp: index_ok_def)
    moreover have "or_assign_set y [] = y" by (simp add: or_assign_set_def)
    ultimately show ?thesis using y by (simp add: insert_items_tag_def add_entries_def)
  qed
  moreover have "\<not> fast_inv (insert_items_tag c [] t)" if "\<not> hasTag c t"
  proof -
    have "omap_find (tags (insert_items_tag c [] t)) t = Some []"
      using ok(2) that by (simp add: insert_items_tag_def add_entries_def hasTag_def index_ok_def)
    then show ?thesis by (auto simp: fast_inv_def index_ok_def)
  qed
  ultimately show "fast_inv (insert_items_tag c is t) \<longleftrightarrow> is \<noteq> [] \<or> hasTag c t"
    using assms(1) by metis
  show "tagging (insert_items_tag c is t) = set is \<times> {t} \<union> tagging c"
    using ok assms
    by (auto simp: insert_items_tag_def tagging_def entries add_entry_loop split: if_splits)
qed

subsection \<open>Removal\<close>

lemma removeTag_loop_ok:
  assumes "index_ok m" "distinct is" "\<And>i. i \<in> set is \<Longrightarrow> tag \<in> set (entry m i)"
  shows "\<exists>m'. removeTag_loop tag is m = Some m' \<and> index_ok m'
    \<and> (\<forall>k. set (entry m' k) = set (entry m k) - (if k \<in> set is then {tag} else {}))"
  using assms
proof (induction "is" arbitrary: m)
  case Nil
  then show ?case by simp
next
  case (Cons i "is")
  define s where "s = entry m i"
  define s' where "s' = minus_assign_item s tag"
  define m1 where "m1 = (if s' = [] then omap_erase i (omap_set i s' m) else omap_set i s' m)"
  from Cons.prems(3) [of i] have ne: "s \<noteq> []" by (auto simp: s_def)
  with Cons.prems(1) have find: "omap_find m i = Some s" by (simp add: s_def entry_find)
  have s': "ordered s'" "set s' = set s - {tag}"
    using Cons.prems(1) by (simp_all add: s'_def s_def minus_assign_item_def)
  have "omap_erase i (omap_set i s' m) = omap_erase i m"
    by (rule omap_ext) (use Cons.prems(1) in auto)
  then have "index_ok m1 \<and> (\<forall>k. entry m1 k = (if k = i then s' else entry m k))"
    using index_pairs_set [OF Cons.prems(1) s'(1)] index_erase [OF Cons.prems(1)]
    by (cases "s' = []") (simp_all add: m1_def)
  then have m1: "index_ok m1" "\<And>k. entry m1 k = (if k = i then s' else entry m k)" by auto
  have "\<exists>m'. removeTag_loop tag is m1 = Some m' \<and> index_ok m'
    \<and> (\<forall>k. set (entry m' k) = set (entry m1 k) - (if k \<in> set is then {tag} else {}))"
    using m1 Cons.prems by (intro Cons.IH) auto
  moreover have "removeTag_loop tag (i # is) m = removeTag_loop tag is m1"
    by (simp add: find s'_def m1_def Let_def)
  ultimately show ?case using m1 s' Cons.prems(2) by (auto simp: s_def)
qed

lemma removeTag_ok:
  assumes inv: "fast_inv c" and has: "hasTag c tag"
  obtains c' where "removeTag c tag = Some c'" "fast_inv c'"
    "tagging c' = {(i, t). (i, t) \<in> tagging c \<and> t \<noteq> tag}"
    "tags c' = omap_erase tag (tags c)"
proof -
  define s where "s = getItemsHavingTag c tag"
  have ok: "index_ok (items c)" "index_ok (tags c)"
    and sym: "\<And>i t. t \<in> set (entry (items c) i) \<longleftrightarrow> i \<in> set (entry (tags c) t)"
    using inv by (auto simp: fast_inv_def entries)
  have find: "omap_find (tags c) tag = Some s"
    using has by (auto simp: hasTag_def s_def getItemsHavingTag_def)
  have s: "s = entry (tags c) tag" by (simp add: s_def entries)
  have "\<exists>m'. removeTag_loop tag s (items c) = Some m' \<and> index_ok m'
    \<and> (\<forall>k. set (entry m' k) = set (entry (items c) k) - (if k \<in> set s then {tag} else {}))"
    using ok sym by (intro removeTag_loop_ok) (auto simp: s intro: ordered_distinct)
  then obtain m' where m': "removeTag_loop tag s (items c) = Some m'" "index_ok m'"
    "\<And>k. set (entry m' k) = set (entry (items c) k) - (if k \<in> set s then {tag} else {})"
    by blast
  define c' where "c' = c\<lparr>items := m', tags := omap_erase tag (tags c)\<rparr>"
  show thesis
  proof (rule that [of c'])
    show "removeTag c tag = Some c'" by (simp add: removeTag_def find m' c'_def)
    show "fast_inv c'"
      using ok sym m' by (auto simp: c'_def fast_inv_def entries index_erase s split: if_splits)
    show "tagging c' = {(i, t). (i, t) \<in> tagging c \<and> t \<noteq> tag}"
      using sym m' by (auto simp: c'_def tagging_def entries s split: if_splits)
    show "tags c' = omap_erase tag (tags c)" by (simp add: c'_def)
  qed
qed

lemma child_loop_ok:
  assumes "fast_inv c" "fast_inv res" "\<And>i. i \<in> set is \<Longrightarrow> hasItem c i"
  shows "\<exists>res'. child_loop c is res = Some res' \<and> fast_inv res'
    \<and> tagging res' = tagging res \<union> {(i, t). i \<in> set is \<and> (i, t) \<in> tagging c}"
  using assms(2,3)
proof (induction "is" arbitrary: res)
  case Nil
  then show ?case by simp
next
  case (Cons i "is")
  from Cons.prems(2) [of i] obtain s where find: "omap_find (items c) i = Some s"
    by (auto simp: hasItem_def)
  then have s: "s = getTagsOfItem c i" by (simp add: getTagsOfItem_def)
  have "ordered s" using assms(1) s by simp
  note ins = insert_item_tags_ok [OF Cons.prems(1) this, of i]
  from Cons.IH [OF ins(1)] Cons.prems(2) obtain res' where
    "child_loop c is (insert_item_tags res i s) = Some res'" "fast_inv res'"
    "tagging res' = tagging (insert_item_tags res i s) \<union> {(i, t). i \<in> set is \<and> (i, t) \<in> tagging c}"
    by auto
  then show ?case using find ins(2) set_getTagsOfItem [of c i] by (auto simp: s)
qed

lemma removeCard_loop_ok:
  assumes "fast_inv c" "distinct ks" "\<And>k. k \<in> set ks \<Longrightarrow> hasTag c k"
  shows "\<exists>c'. removeCard_loop lim ks c = Some c' \<and> fast_inv c'
    \<and> tagging c' = {(i, t). (i, t) \<in> tagging c \<and> (t \<in> set ks \<longrightarrow> lim \<le> card {j. (j, t) \<in> tagging c})}"
  using assms
proof (induction ks arbitrary: c)
  case Nil
  then show ?case by simp
next
  case (Cons k ks)
  define s where "s = getItemsHavingTag c k"
  have find: "omap_find (tags c) k = Some s"
    using Cons.prems(3) [of k] by (auto simp: hasTag_def s_def getItemsHavingTag_def)
  have "card (set s) = length s"
    using Cons.prems(1) by (simp add: s_def distinct_card ordered_distinct)
  then have len: "length s = card {j. (j, k) \<in> tagging c}"
    using Cons.prems(1) by (simp add: s_def set_getItemsHavingTag)
  show ?case
  proof (cases "length s < lim")
    case True
    obtain c1 where c1: "removeTag c k = Some c1" "fast_inv c1"
      "tagging c1 = {(i, t). (i, t) \<in> tagging c \<and> t \<noteq> k}"
      using removeTag_ok [OF Cons.prems(1) Cons.prems(3) [of k]] by auto
    have "hasTag c1 t" if "t \<in> set ks" for t
      using that Cons.prems c1 by (auto simp: hasTag_iff)
    with Cons.IH [OF c1(2)] Cons.prems(2) obtain c' where
      "removeCard_loop lim ks c1 = Some c'" "fast_inv c'"
      "tagging c' = {(i, t). (i, t) \<in> tagging c1 \<and> (t \<in> set ks \<longrightarrow> lim \<le> card {j. (j, t) \<in> tagging c1})}"
      by auto
    then show ?thesis using True find c1 len Cons.prems(2) by auto
  next
    case False
    with Cons.IH [OF Cons.prems(1)] Cons.prems(2,3) find len show ?thesis by auto
  qed
qed

subsection \<open>The collection as a sink of lines\<close>

text \<open>
  What the loader of a collection relies on: an insertion of an item set with a tag set that
  keeps an invariant and adds the product of the two sets to the tagging.
\<close>

locale line_sink =
  fixes ins :: "'c \<Rightarrow> string oset \<Rightarrow> string oset \<Rightarrow> 'c"
    and rel :: "'c \<Rightarrow> (string \<times> string) set"
    and inv :: "'c \<Rightarrow> bool"
  assumes inv_ins: "inv c \<Longrightarrow> ordered ts \<Longrightarrow> inv (ins c is ts)"
    and rel_ins: "inv c \<Longrightarrow> ordered ts \<Longrightarrow> rel (ins c is ts) = set is \<times> set ts \<union> rel c"
begin

definition insert_lines :: "(string list \<times> string list) list \<Rightarrow> 'c \<Rightarrow> 'c" where
  "insert_lines ls c = fold (\<lambda>(is, ts) c. ins c (oset_of_list is) (oset_of_list ts)) ls c"

lemma insert_lines_simps [simp]:
  "insert_lines [] c = c"
  "insert_lines ((is, ts) # ls) c = insert_lines ls (ins c (oset_of_list is) (oset_of_list ts))"
  by (simp_all add: insert_lines_def)

lemma insert_lines_append: "insert_lines (ls @ ms) c = insert_lines ms (insert_lines ls c)"
  by (simp add: insert_lines_def)

lemma inv_lines: "inv c \<Longrightarrow> inv (insert_lines ls c)"
  by (induction ls arbitrary: c) (auto simp: inv_ins insert_lines_def)

lemma rel_lines: "inv c \<Longrightarrow> rel (insert_lines ls c) = (\<Union>(is, ts)\<in>set ls. set is \<times> set ts) \<union> rel c"
proof (induction ls arbitrary: c)
  case (Cons l ls)
  obtain "is" ts where "l = (is, ts)" by (cases l)
  with Cons show ?case by (simp add: inv_ins rel_ins Un_ac)
qed simp

end

interpretation ln: line_sink insert_items_tags tagging fast_inv
  by unfold_locales (auto simp: insert_items_tags_ok)

subsection \<open>Queries\<close>

lemma fold_and_assign:
  assumes "fast_inv c" "ordered r"
  shows "ordered (fold (\<lambda>u res. and_assign res (getItemsHavingTag c u)) ts r)"
    and "set (fold (\<lambda>u res. and_assign res (getItemsHavingTag c u)) ts r)
      = {i \<in> set r. \<forall>t\<in>set ts. (i, t) \<in> tagging c}"
  using assms(2) by (induction ts arbitrary: r) (auto simp: assms(1) set_getItemsHavingTag)

lemma getItemsHavingTags_ok:
  assumes "fast_inv c"
  shows "ordered (getItemsHavingTags c ts)"
    and "set (getItemsHavingTags c ts) = (if ts = [] then {} else {i. \<forall>t\<in>set ts. (i, t) \<in> tagging c})"
  using assms by (cases ts; auto simp: fold_and_assign set_getItemsHavingTag)+

lemma fold_keys:
  "fold (\<lambda>i res. or_assign_item res (fst i)) m r = fold oset_insert (map fst m) r"
  by (simp add: fold_map comp_def or_assign_item_def)

lemma index_keys:
  assumes "index_ok m"
  shows "set (map fst m) = {k. entry m k \<noteq> []}"
proof -
  have "k \<in> set (map fst m) \<longleftrightarrow> entry m k \<noteq> []" for k
    using omap_find_None [of m k] entry_find [OF assms, of k] by (auto split: if_splits)
  then show ?thesis by blast
qed

lemma keys_fold: "map_ok m \<Longrightarrow> fold oset_insert (map fst m) [] = map fst m"
  using oset_of_list_ordered by (simp add: oset_of_list_def)

lemma getAllTagsAsVector_keys: "getAllTagsAsVector c = map fst (tags c)"
proof -
  have "fold (\<lambda>i res. res @ [fst i]) m r = r @ map fst m" for m :: "(string, string oset) omap" and r
    by (induction m arbitrary: r) auto
  then show ?thesis by (simp add: getAllTagsAsVector_def)
qed

lemma getTagsImplying_loop:
  "fold (\<lambda>i res. if P (fst i) then or_assign_item res (fst i) else res) m r
    = fold oset_insert (filter P (map fst m)) r"
  by (induction m arbitrary: r) (auto simp: or_assign_item_def)

text \<open>The loop of \<open>findTagWithMaxCardinality\<close> keeps the first of the largest entries.\<close>

lemma max_card_loop:
  fixes m :: "(string, string oset) omap"
  assumes "fold (\<lambda>i (res, crd). if length (snd i) > crd then (fst i, length (snd i)) else (res, crd)) m (r, n)
    = (r', n')"
  shows "n \<le> n' \<and> (\<forall>i\<in>set m. length (snd i) \<le> n')
    \<and> ((r', n') = (r, n) \<or> (\<exists>s. (r', s) \<in> set m \<and> length s = n' \<and> n < n'))"
  using assms
proof (induction m arbitrary: r n)
  case Nil
  then show ?case by simp
next
  case (Cons i m)
  then show ?case
  proof (cases "length (snd i) > n")
    case True
    with Cons.prems have "fold (\<lambda>i (res, crd). if length (snd i) > crd then (fst i, length (snd i)) else (res, crd))
        m (fst i, length (snd i)) = (r', n')" by simp
    from Cons.IH [OF this] True show ?thesis by (cases i) auto
  next
    case False
    with Cons.prems have "fold (\<lambda>i (res, crd). if length (snd i) > crd then (fst i, length (snd i)) else (res, crd))
        m (r, n) = (r', n')" by simp
    from Cons.IH [OF this] False show ?thesis by auto
  qed
qed

subsection \<open>Properties\<close>

text \<open>
  C3: each insertion method adds exactly the pairs of its arguments to the tagging.  Those that take a set of
  tags keep the two maps inverse to each other and free of empty sets; the one that takes a single tag does so
  exactly when there are items or the tag is there already, and otherwise enters the tag with no items.
\<close>

theorem fast_insert_refines:
  assumes "fast_inv c" and "ordered is" and "ordered ts"
  shows "fast_inv (insert_item_tags c i ts) \<and> tagging (insert_item_tags c i ts) = {i} \<times> set ts \<union> tagging c
    \<and> fast_inv (insert_items_tags c is ts)
    \<and> tagging (insert_items_tags c is ts) = set is \<times> set ts \<union> tagging c
    \<and> tagging (insert_items_tag c is t) = set is \<times> {t} \<union> tagging c
    \<and> (fast_inv (insert_items_tag c is t) \<longleftrightarrow> is \<noteq> [] \<or> hasTag c t)"
  using assms by (simp add: insert_item_tags_ok insert_items_tags_ok insert_items_tag_ok)

theorem fast_insert_refines_witness:
  "tagging (insert_items_tags fast_empty [''a'', ''b''] [''t'']) = {(''a'', ''t''), (''b'', ''t'')}"
proof -
  have "ordered [''a'', ''b'']" "ordered [''t'']" by simp_all
  from fast_insert_refines [OF fast_empty_ok(1) this] show ?thesis by auto
qed

text \<open>
  \<open>removeTag\<close> is defined exactly for the tags of the collection; it keeps the invariant and
  takes out the pairs with that tag and nothing else.
\<close>

theorem removeTag_refines:
  assumes "fast_inv c"
  shows "(removeTag c tag \<noteq> None \<longleftrightarrow> hasTag c tag)
    \<and> (hasTag c tag \<longrightarrow> (\<exists>c'. removeTag c tag = Some c' \<and> fast_inv c'
          \<and> tagging c' = {(i, t). (i, t) \<in> tagging c \<and> t \<noteq> tag}))"
proof (cases "hasTag c tag")
  case True
  with removeTag_ok [OF assms True] show ?thesis by auto
next
  case False
  then show ?thesis by (simp add: hasTag_def removeTag_def)
qed

theorem removeTag_refines_witness:
  "\<exists>c'. removeTag (insert_item_tags fast_empty ''a'' [''t'', ''u'']) ''t'' = Some c'
    \<and> tagging c' = {(''a'', ''u'')}"
proof -
  define c where "c = insert_item_tags fast_empty ''a'' [''t'', ''u'']"
  have o: "ordered [''t'', ''u'']" by simp
  have c: "fast_inv c" "tagging c = {(''a'', ''t''), (''a'', ''u'')}"
    using insert_item_tags_ok [OF fast_empty_ok(1) o, of "''a''"] by (auto simp: c_def)
  then have t: "hasTag c ''t''" by (auto simp: hasTag_iff)
  have "{(i, t). (i, t) \<in> tagging c \<and> t \<noteq> ''t''} = {(''a'', ''u'')}" by (auto simp: c(2))
  with removeTag_refines [OF c(1), of "''t''"] t show ?thesis
    unfolding c_def [symmetric] by auto
qed

text \<open>
  \<open>getChildCollection\<close> is defined exactly for the tags of the collection; the child has the
  items with that tag that have other tags too, each with its other tags.
\<close>

theorem getChildCollection_refines:
  assumes "fast_inv c"
  shows "(getChildCollection c tag \<noteq> None \<longleftrightarrow> hasTag c tag)
    \<and> (hasTag c tag \<longrightarrow> (\<exists>c'. getChildCollection c tag = Some c' \<and> fast_inv c'
          \<and> tagging c' = {(i, t). (i, tag) \<in> tagging c \<and> (i, t) \<in> tagging c \<and> t \<noteq> tag}))"
proof (cases "hasTag c tag")
  case True
  define s where "s = getItemsHavingTag c tag"
  have find: "omap_find (tags c) tag = Some s"
    using True by (auto simp: hasTag_def s_def getItemsHavingTag_def)
  have items: "set s = {i. (i, tag) \<in> tagging c}"
    using assms by (simp add: s_def set_getItemsHavingTag)
  obtain res where res: "child_loop c s fast_empty = Some res" "fast_inv res"
    "tagging res = {(i, t). i \<in> set s \<and> (i, t) \<in> tagging c}"
    using child_loop_ok [OF assms fast_empty_ok(1), of s] items assms by (auto simp: hasItem_iff)
  have "hasTag res tag" using True assms res items by (auto simp: hasTag_iff)
  from removeTag_ok [OF res(2) this] show ?thesis
    using find res items True by (fastforce simp: getChildCollection_def)
next
  case False
  then show ?thesis by (simp add: hasTag_def getChildCollection_def)
qed

theorem getChildCollection_refines_witness:
  "\<exists>c'. getChildCollection (insert_item_tags fast_empty ''a'' [''t'', ''u'']) ''t'' = Some c'
    \<and> tagging c' = {(''a'', ''u'')}"
proof -
  define c where "c = insert_item_tags fast_empty ''a'' [''t'', ''u'']"
  have o: "ordered [''t'', ''u'']" by simp
  have c: "fast_inv c" "tagging c = {(''a'', ''t''), (''a'', ''u'')}"
    using insert_item_tags_ok [OF fast_empty_ok(1) o, of "''a''"] by (auto simp: c_def)
  then have t: "hasTag c ''t''" by (auto simp: hasTag_iff)
  have "{(i, t). (i, ''t'') \<in> tagging c \<and> (i, t) \<in> tagging c \<and> t \<noteq> ''t''} = {(''a'', ''u'')}" by (auto simp: c(2))
  with getChildCollection_refines [OF c(1), of "''t''"] t show ?thesis
    unfolding c_def [symmetric] by auto
qed

text \<open>
  C11: \<open>removeTagsWithCardinalityLessThan\<close> never reads through an invalid iterator; it keeps the
  invariant and exactly those pairs whose tag is on at least \<open>lim\<close> items.
\<close>

theorem removeTagsWithCardinalityLessThan_refines:
  assumes "fast_inv c"
  shows "\<exists>c'. removeTagsWithCardinalityLessThan c lim = Some c' \<and> fast_inv c'
    \<and> tagging c' = {(i, t). (i, t) \<in> tagging c \<and> lim \<le> card {j. (j, t) \<in> tagging c}}"
proof -
  have ok: "index_ok (tags c)" using assms by (simp add: fast_inv_def)
  have keys: "k \<in> set (map fst (tags c)) \<longleftrightarrow> (\<exists>i. (i, k) \<in> tagging c)" for k
    using omap_find_None [of "tags c" k] hasTag_iff [OF assms, of k] by (simp add: hasTag_def)
  obtain c' where "removeCard_loop lim (map fst (tags c)) c = Some c'" "fast_inv c'"
    "tagging c' = {(i, t). (i, t) \<in> tagging c
       \<and> (t \<in> set (map fst (tags c)) \<longrightarrow> lim \<le> card {j. (j, t) \<in> tagging c})}"
    using removeCard_loop_ok [OF assms, of "map fst (tags c)" lim] ok keys hasTag_iff [OF assms]
    by (auto intro: ordered_distinct)
  then show ?thesis using keys by (auto simp: removeTagsWithCardinalityLessThan_def)
qed

theorem removeTagsWithCardinalityLessThan_refines_witness:
  "\<exists>c'. removeTagsWithCardinalityLessThan
      (insert_items_tags (insert_item_tags fast_empty ''a'' [''t'']) [''b'', ''c''] [''u'']) 2 = Some c'
    \<and> tagging c' = {(''b'', ''u''), (''c'', ''u'')}"
proof -
  define c where "c = insert_items_tags (insert_item_tags fast_empty ''a'' [''t'']) [''b'', ''c''] [''u'']"
  have o: "ordered [''t'']" "ordered [''u'']" by simp_all
  have c: "fast_inv c" "tagging c = {(''a'', ''t''), (''b'', ''u''), (''c'', ''u'')}"
    using insert_item_tags_ok [OF fast_empty_ok(1) o(1), of "''a''"]
      insert_items_tags_ok [of "insert_item_tags fast_empty ''a'' [''t'']", OF _ o(2), of "[''b'', ''c'']"]
    by (auto simp: c_def)
  define f where "f t = card {j. (j, t) \<in> tagging c}" for t
  have "{j. (j, ''u'') \<in> tagging c} = {''b'', ''c''}" "{j. (j, ''t'') \<in> tagging c} = {''a''}"
    by (auto simp: c(2))
  then have "f ''u'' = 2" "f ''t'' = 1" by (simp_all add: f_def)
  then have r: "{(i, t). (i, t) \<in> tagging c \<and> 2 \<le> f t} = {(''b'', ''u''), (''c'', ''u'')}"
    by (auto simp: c(2))
  from removeTagsWithCardinalityLessThan_refines [OF c(1), of 2]
  show ?thesis unfolding c_def [symmetric] f_def [symmetric] r by auto
qed

text \<open>
  C19: the queries by tag.  \<open>getItemsHavingTags\<close> returns the items with all the tags asked for
  (nothing for an empty request), \<open>getItemsExactMatch\<close> those whose tag set is the request, and
  \<open>getTagsImplying\<close> the other tags of the collection whose items all have the tag.
\<close>

theorem fast_queries_by_tag:
  assumes "fast_inv c" and "ordered ts" and "ts \<noteq> []"
  shows "set (getItemsHavingTags c ts) = {i. \<forall>t\<in>set ts. (i, t) \<in> tagging c}
    \<and> getItemsHavingTags c [] = []
    \<and> set (getItemsExactMatch c ts) = {i. {t. (i, t) \<in> tagging c} = set ts}
    \<and> set (getTagsImplying c tag) = {t. t \<noteq> tag \<and> (\<exists>i. (i, t) \<in> tagging c)
         \<and> (\<forall>i. (i, t) \<in> tagging c \<longrightarrow> (i, tag) \<in> tagging c)}"
proof (intro conjI)
  have ok: "index_ok (items c)" "index_ok (tags c)" using assms by (simp_all add: fast_inv_def)
  show having: "set (getItemsHavingTags c ts) = {i. \<forall>t\<in>set ts. (i, t) \<in> tagging c}"
    using getItemsHavingTags_ok(2) [OF assms(1), of ts] assms(3) by simp
  show "getItemsHavingTags c [] = []" by simp
  have found: "omap_find (items c) i = Some (getTagsOfItem c i)" if "(i, t) \<in> tagging c" for i t
    using that ok by (auto simp: entry_find entries tagging_def)
  have same: "getTagsOfItem c i = ts \<longleftrightarrow> {t. (i, t) \<in> tagging c} = set ts" for i
    using assms(1,2) ordered_set_eq [of "getTagsOfItem c i" ts] by (simp add: set_getTagsOfItem)
  obtain t0 where t0: "t0 \<in> set ts" using assms(3) by (cases ts) auto
  then have "set (getItemsExactMatch c ts) = {i \<in> set (getItemsHavingTags c ts). getTagsOfItem c i = ts}"
    using having found by (auto simp: getItemsExactMatch_def)
  then show "set (getItemsExactMatch c ts) = {i. {t. (i, t) \<in> tagging c} = set ts}"
    using having same by auto
  have "t \<in> set (map fst (tags c)) \<longleftrightarrow> (\<exists>i. (i, t) \<in> tagging c)" for t
    using omap_find_None [of "tags c" t] hasTag_iff [OF assms(1), of t] by (simp add: hasTag_def)
  then have keys: "set (map fst (tags c)) = {t. \<exists>i. (i, t) \<in> tagging c}" by blast
  have "set (getTagsImplying c tag) = {t \<in> set (map fst (tags c)).
      set_contains (getItemsHavingTag c tag) (getItemsHavingTag c t)} - {tag}"
    using getTagsImplying_loop [of "\<lambda>t. set_contains (getItemsHavingTag c tag) (getItemsHavingTag c t)" "tags c" "[]"]
    by (simp add: getTagsImplying_def Let_def minus_item_def os.elems_fold)
  then show "set (getTagsImplying c tag) = {t. t \<noteq> tag \<and> (\<exists>i. (i, t) \<in> tagging c)
         \<and> (\<forall>i. (i, t) \<in> tagging c \<longrightarrow> (i, tag) \<in> tagging c)}"
    unfolding keys using assms(1) by (auto simp: set_getItemsHavingTag)
qed

theorem fast_queries_by_tag_witness:
  "set (getItemsExactMatch (insert_item_tags fast_empty ''a'' [''t'', ''u'']) [''t'', ''u'']) = {''a''}"
proof -
  define c where "c = insert_item_tags fast_empty ''a'' [''t'', ''u'']"
  have o: "ordered [''t'', ''u'']" by simp
  have c: "fast_inv c" "tagging c = {(''a'', ''t''), (''a'', ''u'')}"
    using insert_item_tags_ok [OF fast_empty_ok(1) o, of "''a''"] by (auto simp: c_def)
  have "{i. {t. (i, t) \<in> tagging c} = set [''t'', ''u'']} = {''a''}" by (auto simp: c(2))
  with fast_queries_by_tag [OF c(1) o] show ?thesis unfolding c_def [symmetric] by simp
qed

text \<open>
  \<open>findTagWithMaxCardinality\<close> returns the size of the largest item set together with a tag
  that has it, and the empty string with 0 when the collection has no tag.
\<close>

theorem findTagWithMaxCardinality_maximal:
  assumes "fast_inv c" and "findTagWithMaxCardinality c = (tag, n)"
  shows "(\<forall>t. card {i. (i, t) \<in> tagging c} \<le> n)
    \<and> (if tagging c = {} then tag = [] \<and> n = 0 else n = card {i. (i, tag) \<in> tagging c} \<and> 0 < n)"
proof -
  have ok: "index_ok (tags c)" using assms(1) by (simp add: fast_inv_def)
  have crd: "card {i. (i, t) \<in> tagging c} = length (getItemsHavingTag c t)" for t
    using assms(1) by (metis set_getItemsHavingTag distinct_card ordered_distinct ordered_getItemsHavingTag)
  have read: "getItemsHavingTag c t = s" if "(t, s) \<in> set (tags c)" for t s
    using that ok by (simp add: getItemsHavingTag_def omap_find_in_set [symmetric])
  have max: "\<forall>i\<in>set (tags c). length (snd i) \<le> n"
    "(tag, n) = ([], 0) \<or> (\<exists>s. (tag, s) \<in> set (tags c) \<and> length s = n \<and> 0 < n)"
    using max_card_loop [of "tags c" "[]" 0 tag n] assms(2) by (auto simp: findTagWithMaxCardinality_def)
  have le: "length (getItemsHavingTag c t) \<le> n" for t
    using max(1) by (auto simp: getItemsHavingTag_def omap_find_in_set ok split: option.splits)
  have none: "tagging c = {} \<longleftrightarrow> (\<forall>t. length (getItemsHavingTag c t) = 0)"
    using set_getItemsHavingTag [OF assms(1)] by fastforce
  from max(2) show ?thesis
  proof
    assume "(tag, n) = ([], 0)"
    with le none show ?thesis by (simp add: crd)
  next
    assume "\<exists>s. (tag, s) \<in> set (tags c) \<and> length s = n \<and> 0 < n"
    then have "n = length (getItemsHavingTag c tag)" "0 < n" using read by auto
    with le none show ?thesis by (simp add: crd) (metis length_0_conv less_irrefl)
  qed
qed

theorem findTagWithMaxCardinality_maximal_witness:
  "findTagWithMaxCardinality (insert_items_tags fast_empty [''a'', ''b''] [''t'']) = (''t'', 2)
    \<and> card {i. (i, ''t'') \<in> tagging (insert_items_tags fast_empty [''a'', ''b''] [''t''])} = 2"
proof -
  define c where "c = insert_items_tags fast_empty [''a'', ''b''] [''t'']"
  have o: "ordered [''t'']" by simp
  have c: "fast_inv c" "tagging c = {(''a'', ''t''), (''b'', ''t'')}"
    using insert_items_tags_ok [OF fast_empty_ok(1) o, of "[''a'', ''b'']"] by (auto simp: c_def)
  have r: "findTagWithMaxCardinality c = (''t'', 2)"
    unfolding c_def by code_simp
  from findTagWithMaxCardinality_maximal [OF c(1) r] c(2) r show ?thesis
    unfolding c_def [symmetric] by auto
qed

text \<open>
  the state of a collection is determined by its tagging, so the order in which two lines are
  inserted does not matter: the resulting maps are equal, not only equivalent.
\<close>

theorem fast_insert_commutes:
  assumes "fast_inv c" and "ordered ts" and "ordered us"
  shows "insert_items_tags (insert_items_tags c is ts) js us = insert_items_tags (insert_items_tags c js us) is ts"
  using assms by (intro fast_ext) (auto simp: insert_items_tags_ok)

theorem fast_insert_commutes_witness:
  "insert_items_tags (insert_items_tags fast_empty [''a''] [''t'']) [''b''] [''t'']
    = insert_items_tags (insert_items_tags fast_empty [''b''] [''t'']) [''a''] [''t'']"
proof -
  have o: "ordered [''t'']" by simp
  show ?thesis by (rule fast_insert_commutes [OF fast_empty_ok(1) o o])
qed

text \<open>
  the key sets.  \<open>getTaggedItems\<close> and \<open>getAllTags\<close> are the items and tags that occur in the
  tagging, \<open>getAllTagsAsVector\<close> lists the tags in the same ascending order, and \<open>hasItem\<close>,
  \<open>hasTag\<close> and \<open>empty\<close> test them.
\<close>

theorem fast_key_queries:
  assumes "fast_inv c"
  shows "set (getTaggedItems c) = fst ` tagging c \<and> ordered (getTaggedItems c)
    \<and> set (getAllTags c) = snd ` tagging c \<and> getAllTagsAsVector c = getAllTags c \<and> ordered (getAllTags c)
    \<and> (hasItem c i \<longleftrightarrow> i \<in> set (getTaggedItems c)) \<and> (hasTag c t \<longleftrightarrow> t \<in> set (getAllTags c))
    \<and> (fast_is_empty c \<longleftrightarrow> tagging c = {})"
proof -
  have ok: "index_ok (items c)" "index_ok (tags c)" using assms by (simp_all add: fast_inv_def)
  have lists: "getTaggedItems c = map fst (items c)" "getAllTags c = map fst (tags c)"
    using ok by (simp_all add: getTaggedItems_def getAllTags_def fold_keys keys_fold)
  have keys: "i \<in> set (map fst (items c)) \<longleftrightarrow> hasItem c i" "t \<in> set (map fst (tags c)) \<longleftrightarrow> hasTag c t" for i t
    using omap_find_None [of "items c" i] omap_find_None [of "tags c" t]
    by (simp_all add: hasItem_def hasTag_def)
  have img: "x \<in> fst ` tagging c \<longleftrightarrow> (\<exists>t. (x, t) \<in> tagging c)" "y \<in> snd ` tagging c \<longleftrightarrow> (\<exists>i. (i, y) \<in> tagging c)" for x y
    by force+
  have sets: "set (map fst (items c)) = fst ` tagging c" "set (map fst (tags c)) = snd ` tagging c"
    by (rule set_eqI; simp only: keys img hasItem_iff [OF assms] hasTag_iff [OF assms])+
  moreover have "fast_is_empty c \<longleftrightarrow> set (map fst (items c)) = {}" by (simp add: fast_is_empty_def)
  ultimately show ?thesis
    using ok keys lists by (simp add: getAllTagsAsVector_keys)
qed

theorem fast_key_queries_witness:
  "set (getTaggedItems (insert_items_tags fast_empty [''a'', ''b''] [''t''])) = {''a'', ''b''}"
proof -
  define c where "c = insert_items_tags fast_empty [''a'', ''b''] [''t'']"
  have o: "ordered [''t'']" by simp
  have c: "fast_inv c" "tagging c = {(''a'', ''t''), (''b'', ''t'')}"
    using insert_items_tags_ok [OF fast_empty_ok(1) o, of "[''a'', ''b'']"] by (auto simp: c_def)
  from fast_key_queries [OF c(1)] c(2) show ?thesis unfolding c_def [symmetric] by simp
qed

text \<open>
  the overload for one tag does not guard against an empty item set: it enters the tag with no
  items, so that the collection claims to have a tag that nothing is tagged with, while the
  overload for a tag set leaves the collection as it is in that case.
\<close>

theorem insert_no_items_leaves_empty_tag:
  assumes "fast_inv c" and "\<not> hasTag c t"
  shows "hasTag (insert_items_tag c [] t) t \<and> getItemsHavingTag (insert_items_tag c [] t) t = []
    \<and> \<not> fast_inv (insert_items_tag c [] t) \<and> insert_items_tags c [] ts = c"
proof -
  have ok: "map_ok (tags c)" using assms by (simp add: fast_inv_def)
  then have "omap_find (tags (insert_items_tag c [] t)) t = Some []"
    using assms(2) by (simp add: insert_items_tag_def add_entries_def hasTag_def)
  then show ?thesis
    by (auto simp: hasTag_def getItemsHavingTag_def fast_inv_def index_ok_def insert_items_tags_def)
qed

theorem insert_no_items_leaves_empty_tag_witness:
  "hasTag (insert_items_tag fast_empty [] ''t'') ''t''"
proof -
  have "\<not> hasTag fast_empty ''t''" by (simp add: hasTag_def fast_empty_def)
  from insert_no_items_leaves_empty_tag [OF fast_empty_ok(1) this] show ?thesis by simp
qed

end
