(* ===== verification/StrUtil.thy ===== *)
theory StrUtil
  imports Prelude
begin

section \<open>String helpers (ept/utils/string.h)\<close>

text \<open>
  The inline functions of \<open>string.h\<close>.  The \<open>while\<close> loops over positions are recursions on
  the position; \<open>strip\<close>, whose second loop decrements an unsigned position without testing it
  for 0, returns \<open>None\<close> where the loop reads outside the string.
\<close>

definition startswith :: "string \<Rightarrow> string \<Rightarrow> bool" where
  "startswith s part = (if length s < length part then False else substr s 0 (length part) = part)"

definition endswith :: "string \<Rightarrow> string \<Rightarrow> bool" where
  "endswith s part =
     (if length s < length part then False else substr_from s (length s - length part) = part)"

text \<open>The loop of \<open>join\<close> with its flag \<open>first\<close> and the stream \<open>res\<close>; the items are strings.\<close>

fun join_loop :: "string \<Rightarrow> string list \<Rightarrow> bool \<Rightarrow> string \<Rightarrow> string" where
  "join_loop sep [] first res = res"
| "join_loop sep (i # is) first res =
     (if first then join_loop sep is False (res @ i) else join_loop sep is False (res @ sep @ i))"

definition str_join :: "string \<Rightarrow> string list \<Rightarrow> string" where
  "str_join sep is = join_loop sep is True []"

function lstrip_loop :: "(char \<Rightarrow> bool) \<Rightarrow> string \<Rightarrow> nat \<Rightarrow> nat" where
  "lstrip_loop f s beg = (if beg < length s \<and> f (s ! beg) then lstrip_loop f s (Suc beg) else beg)"
  by pat_completeness auto
termination by (relation "measure (\<lambda>(f, s, beg). length s - beg)") auto

definition lstrip :: "string \<Rightarrow> (char \<Rightarrow> bool) \<Rightarrow> string" where
  "lstrip s f =
     (if s = [] then s
      else let beg = lstrip_loop f s 0 in substr s beg (length s - beg + 1))"

fun rstrip_loop :: "(char \<Rightarrow> bool) \<Rightarrow> string \<Rightarrow> nat \<Rightarrow> nat" where
  "rstrip_loop f s 0 = 0"
| "rstrip_loop f s (Suc e) = (if f (s ! e) then rstrip_loop f s e else Suc e)"

definition rstrip :: "string \<Rightarrow> (char \<Rightarrow> bool) \<Rightarrow> string" where
  "rstrip s f =
     (if s = [] then s
      else let e = rstrip_loop f s (length s) in if e = 0 then [] else substr s 0 e)"

text \<open>\<open>strip\<close>: the first loop moves \<open>beg\<close> up while it is below \<open>end\<close>.\<close>

function strip_beg :: "(char \<Rightarrow> bool) \<Rightarrow> string \<Rightarrow> nat \<Rightarrow> nat \<Rightarrow> nat" where
  "strip_beg f s beg e = (if beg < e \<and> f (s ! beg) then strip_beg f s (Suc beg) e else beg)"
  by pat_completeness auto
termination by (relation "measure (\<lambda>(f, s, beg, e). e - beg)") auto

text \<open>The second loop moves \<open>end\<close> down.  Below 0 the unsigned \<open>end\<close> becomes the largest
  \<open>size_t\<close>, which is not below any \<open>beg\<close> and no position of a string, so the next read is
  undefined.\<close>

fun strip_end :: "(char \<Rightarrow> bool) \<Rightarrow> string \<Rightarrow> nat \<Rightarrow> nat \<Rightarrow> nat option" where
  "strip_end f s beg 0 = (if beg = 0 \<and> f (s ! 0) then None else Some 0)"
| "strip_end f s beg (Suc e) =
     (if beg \<le> Suc e \<and> f (s ! Suc e) then strip_end f s beg e else Some (Suc e))"

definition strip :: "string \<Rightarrow> (char \<Rightarrow> bool) \<Rightarrow> string option" where
  "strip s f =
     (if s = [] then Some s
      else let beg = strip_beg f s 0 (length s - 1)
           in map_option (\<lambda>e. substr s beg (size_sub (e + 1) beg)) (strip_end f s beg (length s - 1)))"

definition upper :: "string \<Rightarrow> string" where
  "upper s = map toupper s"

definition lower :: "string \<Rightarrow> string" where
  "lower s = map tolower s"

declare lstrip_loop.simps [simp del] strip_beg.simps [simp del]

subsection \<open>Facts\<close>

lemma join_loop_False: "join_loop sep is False res = res @ concat (map (\<lambda>i. sep @ i) is)"
  by (induction "is" arbitrary: res) auto

lemma str_join_simps [simp, str_simps]:
  "str_join sep [] = []"
  "str_join sep (i # is) = i @ concat (map (\<lambda>j. sep @ j) is)"
  by (simp_all add: str_join_def join_loop_False)

lemma str_join_Cons2: "str_join sep (i # j # js) = i @ sep @ str_join sep (j # js)"
  by simp

lemma lstrip_loop_eq: "lstrip_loop f s beg = beg + length (takeWhile f (drop beg s))"
proof (induction f s beg rule: lstrip_loop.induct)
  case (1 f s beg)
  then show ?case
    by (cases "beg < length s") (auto simp: lstrip_loop.simps [of f s beg] Cons_nth_drop_Suc [symmetric])
qed

lemma lstrip_dropWhile: "lstrip s f = dropWhile f s"
  by (auto simp: lstrip_def lstrip_loop_eq substr_def dropWhile_eq_drop Let_def)

lemma rstrip_loop_eq:
  "n \<le> length s \<Longrightarrow> take (rstrip_loop f s n) s = rev (dropWhile f (rev (take n s)))"
  by (induction n) (auto simp: take_Suc_conv_app_nth)

lemma rstrip_dropWhile: "rstrip s f = rev (dropWhile f (rev s))"
  using rstrip_loop_eq [of "length s" s f] by (auto simp: rstrip_def substr_def Let_def)

lemma strip_beg_eq:
  "beg \<le> e \<Longrightarrow> e < length s \<Longrightarrow>
     strip_beg f s beg e = beg + length (takeWhile f (drop beg (take e s)))"
proof (induction f s beg e rule: strip_beg.induct)
  case (1 f s beg e)
  show ?case
  proof (cases "beg < e")
    case True
    then have "drop beg (take e s) = s ! beg # drop (Suc beg) (take e s)"
      using "1.prems" by (subst Cons_nth_drop_Suc [symmetric]) auto
    with 1 True show ?thesis by (simp add: strip_beg.simps [of f s beg])
  next
    case False
    with "1.prems" show ?thesis by (subst strip_beg.simps) simp
  qed
qed

lemma strip_end_found:
  "beg \<le> k \<Longrightarrow> k \<le> e \<Longrightarrow> \<not> f (s ! k) \<Longrightarrow>
     \<exists>j. strip_end f s beg e = Some j \<and> k \<le> j \<and> j \<le> e \<and> \<not> f (s ! j) \<and> (\<forall>i. j < i \<and> i \<le> e \<longrightarrow> f (s ! i))"
proof (induction e)
  case 0
  then show ?case by auto
next
  case (Suc e)
  show ?case
  proof (cases "f (s ! Suc e)")
    case True
    with Suc.prems have "k \<le> e" by (cases "k = Suc e") auto
    with Suc True obtain j where j: "strip_end f s beg e = Some j" "k \<le> j" "j \<le> e" "\<not> f (s ! j)"
      "\<forall>i. j < i \<and> i \<le> e \<longrightarrow> f (s ! i)"
      by auto
    then have "\<forall>i. j < i \<and> i \<le> Suc e \<longrightarrow> f (s ! i)" using True by (auto simp: le_Suc_eq)
    with j True Suc.prems show ?thesis by auto
  next
    case False
    with Suc.prems show ?thesis by auto
  qed
qed

lemma rstrip_append:
  assumes "xs \<noteq> []" "\<not> f (last xs)" "\<forall>y\<in>set ys. f y"
  shows "rev (dropWhile f (rev (xs @ ys))) = xs"
proof -
  have "dropWhile f (rev ys @ rev xs) = dropWhile f (rev xs)"
    using assms(3) by (intro dropWhile_append2) auto
  moreover have "dropWhile f (rev xs) = rev xs"
    using assms(1,2) by (cases xs rule: rev_cases) auto
  ultimately show ?thesis by simp
qed

lemma strip_some_kept:
  assumes "x \<in> set s" "\<not> f x"
  shows "strip s f = Some (rstrip (lstrip s f) f)"
proof -
  obtain ws c ts where s: "s = ws @ c # ts" and ws: "\<forall>w\<in>set ws. f w" and c: "\<not> f c"
    using split_list_first_prop [of s "\<lambda>x. \<not> f x"] assms by blast
  let ?p = "length ws" and ?e = "length s - 1"
  have ne: "s \<noteq> []" by (simp add: s)
  have "takeWhile f (take ?e s) = ws"
    using ws c by (cases ts) (auto simp: s takeWhile_append2)
  then have beg: "strip_beg f s 0 ?e = ?p"
    using ne by (subst strip_beg_eq) auto
  obtain j where j: "strip_end f s ?p ?e = Some j" "?p \<le> j" "j \<le> ?e" "\<not> f (s ! j)"
    "\<forall>i. j < i \<and> i \<le> ?e \<longrightarrow> f (s ! i)"
    using strip_end_found [of ?p ?p ?e f s] c by (auto simp: s)
  have rest: "\<forall>y\<in>set (drop (Suc j) s). f y"
    using j(5) by (auto simp: in_set_conv_nth)
  have drop: "lstrip s f = drop ?p s"
    using ws c by (simp add: lstrip_dropWhile s dropWhile_append2)
  have "drop ?p s = take (Suc j - ?p) (drop ?p s) @ drop (Suc j) s"
    using j(2) by (metis append_take_drop_id drop_drop le_SucI le_add_diff_inverse2)
  moreover have "take (Suc j - ?p) (drop ?p s) = take (j - ?p) (drop ?p s) @ [s ! j]"
  proof -
    have "j < length s" using j(3) ne by (cases s) auto
    then have "j - ?p < length (drop ?p s)" "drop ?p s ! (j - ?p) = s ! j" using j(2) by auto
    then show ?thesis using j(2) by (simp add: take_Suc_conv_app_nth Suc_diff_le)
  qed
  then have "last (take (Suc j - ?p) (drop ?p s)) = s ! j" "take (Suc j - ?p) (drop ?p s) \<noteq> []"
    by simp_all
  ultimately have "rstrip (drop ?p s) f = take (Suc j - ?p) (drop ?p s)"
    using rstrip_append [of "take (Suc j - ?p) (drop ?p s)" f "drop (Suc j) s"] j(4) rest
    by (simp add: rstrip_dropWhile)
  then show ?thesis
    using ne beg j(1,2) drop by (simp add: strip_def substr_def Let_def)
qed

lemma strip_all_dropped:
  assumes "\<forall>x\<in>set s. f x"
  shows "strip s f = (if length s = 1 then None else Some [])"
proof -
  have "strip_beg f s 0 (length s - 1) = length s - 1" if "s \<noteq> []"
  proof -
    have "takeWhile f (take (length s - 1) s) = take (length s - 1) s"
      using assms in_set_takeD by (fastforce simp: takeWhile_eq_all_conv)
    then have "length (takeWhile f (take (length s - 1) s)) = length s - 1"
      by (simp only: length_take)
    then show ?thesis using that by (subst strip_beg_eq) auto
  qed
  moreover have "strip_end f s (length s - 1) (length s - 1) =
      (if length s = 1 then None else Some (length s - 2))" if ne: "s \<noteq> []"
  proof -
    consider "length s = 1" | n where "length s = Suc (Suc n)"
      using ne by (cases s; cases "tl s") auto
    then show ?thesis
    proof cases
      case 1
      then show ?thesis using assms ne by (cases s) auto
    next
      case 2
      then have "f (s ! Suc n)" using assms nth_mem [of "Suc n" s] by auto
      then show ?thesis using 2 by (cases n) auto
    qed
  qed
  ultimately show ?thesis
    by (cases "s = []") (auto simp: strip_def substr_def Let_def)
qed

subsection \<open>Properties\<close>

text \<open>
  \<open>lstrip\<close>, \<open>rstrip\<close> and \<open>strip\<close> remove the longest run of matching characters from the
  front, the back and both ends; \<open>strip\<close> has that result for every string but one: for a string
  of a single matching character its second loop wraps below position 0 and reads outside the
  string.
\<close>

theorem strip_correct:
  "lstrip s f = dropWhile f s \<and> rstrip s f = rev (dropWhile f (rev s))
    \<and> strip s f = (if \<exists>c. s = [c] \<and> f c then None else Some (rstrip (lstrip s f) f))"
proof (cases "\<exists>x\<in>set s. \<not> f x")
  case True
  then obtain x where "x \<in> set s" "\<not> f x" by blast
  from strip_some_kept [of x s f, OF this] True show ?thesis
    by (auto simp: lstrip_dropWhile rstrip_dropWhile)
next
  case False
  then have "rev (dropWhile f (rev (dropWhile f s))) = []"
    by (auto dest: set_dropWhileD)
  moreover have "length s = 1 \<longleftrightarrow> (\<exists>c. s = [c] \<and> f c)"
    using False by (cases s) auto
  ultimately show ?thesis
    using strip_all_dropped [of s f] False by (simp add: lstrip_dropWhile rstrip_dropWhile)
qed

text \<open>
  \<open>startswith\<close> and \<open>endswith\<close> test for a prefix and a suffix.
\<close>

theorem startswith_endswith_correct:
  "(startswith s part \<longleftrightarrow> prefix part s) \<and> (endswith s part \<longleftrightarrow> suffix part s)"
proof -
  have "startswith s part \<longleftrightarrow> prefix part s"
    by (auto simp: startswith_def substr_def prefix_def dest: prefix_length_le)
      (metis append_take_drop_id)
  moreover have "endswith s part \<longleftrightarrow> suffix part s"
    by (auto simp: endswith_def substr_from_def suffix_def)
      (metis append_take_drop_id)
  ultimately show ?thesis ..
qed

end
