(* ===== verification/TextFormat.thy ===== *)
theory TextFormat
  imports FastColl StdIO StrUtil
begin

section \<open>The text format of tag collections (ept/debtags/coll/TextFormat.cc)\<close>

text \<open>
  \<open>parseElement\<close> is a state machine over the bytes of the file with the states of its local
  \<open>enum\<close>; it returns the separator that ended the element (\<open>None\<close> for \<open>EOF\<close>), the element
  and the file.  \<open>parse\<close> collects the elements of a line into an item set and a tag set and
  inserts them into the collection at the end of the line.  An exception ends the run with the
  lines inserted so far in the collection, so the result is a collection and an optional error.
\<close>

datatype text_error =
    SeparatorEndsLine | ElementStartsWithSeparator | ManySeparators | CannotRead
  | NoElements | SeparatorTwice

subsection \<open>parseElement\<close>

datatype elem_state = LSPACE | ITEM | ISPACE | ISEP | TSPACE

abbreviation is_sep :: "char \<Rightarrow> bool" where
  "is_sep c \<equiv> c = CHR '':'' \<or> c = CHR '',''"

text \<open>The loop; \<open>sepchar\<close> is \<open>None\<close> while it is 0.\<close>

function parseElement_loop ::
  "elem_state \<Rightarrow> string \<Rightarrow> string \<Rightarrow> char option \<Rightarrow> cfile \<Rightarrow> text_error + (char option \<times> string \<times> cfile)" where
  "parseElement_loop st item sep sepchar f =
     (case getc f of
        (None, f') \<Rightarrow> if ferror f' then Inl CannotRead else Inr (None, item, f')
      | (Some c, f') \<Rightarrow>
          if c = NL then
            (if sepchar \<noteq> None \<and> sepchar \<noteq> Some (CHR '':'') then Inl SeparatorEndsLine
             else Inr (Some NL, item, f'))
          else
            (case st of
               LSPACE \<Rightarrow>
                 (if isblank c then parseElement_loop LSPACE item sep sepchar f'
                  else if is_sep c then Inl ElementStartsWithSeparator
                  else parseElement_loop ITEM (item @ [c]) sep sepchar f')
             | ITEM \<Rightarrow>
                 (if isblank c then parseElement_loop ISPACE item (sep @ [c]) sepchar f'
                  else if is_sep c then parseElement_loop ISEP item (sep @ [c]) (Some c) f'
                  else parseElement_loop ITEM (item @ [c]) sep sepchar f')
             | ISPACE \<Rightarrow>
                 (if isblank c then parseElement_loop ISPACE item (sep @ [c]) sepchar f'
                  else if is_sep c then parseElement_loop TSPACE item sep (Some c) f'
                  else parseElement_loop ITEM (item @ sep @ [c]) [] sepchar f')
             | ISEP \<Rightarrow>
                 (if isblank c then
                    (if length sep > 1 then Inl ManySeparators
                     else parseElement_loop TSPACE item sep sepchar f')
                  else if is_sep c then parseElement_loop ISEP item (sep @ [c]) sepchar f'
                  else parseElement_loop ITEM (item @ sep @ [c]) [] None f')
             | TSPACE \<Rightarrow>
                 (if isblank c then parseElement_loop TSPACE item sep sepchar f'
                  else Inr (sepchar, item, ungetc c f'))))"
  by pat_completeness auto
termination
  by (relation "measure (\<lambda>(st, item, sep, sepchar, f). length (unread f))") (simp, (drule (1) getc_shorter, simp)+)

declare parseElement_loop.simps [simp del]

definition parseElement :: "cfile \<Rightarrow> text_error + (char option \<times> string \<times> cfile)" where
  "parseElement f = parseElement_loop LSPACE [] [] None f"

named_theorems elem_steps \<open>the steps of parseElement on the bytes of a file\<close>

abbreviation elem_run :: "elem_state \<Rightarrow> string \<Rightarrow> string \<Rightarrow> char option \<Rightarrow> string \<Rightarrow> bool \<Rightarrow>
    text_error + (char option \<times> string \<times> cfile)" where
  "elem_run st item sep sepchar cs e \<equiv> parseElement_loop st item sep sepchar \<lparr>unread = cs, read_fails = e\<rparr>"

lemma elem_eof [elem_steps]:
  "elem_run st item sep sc [] e =
     (if e then Inl CannotRead else Inr (None, item, \<lparr>unread = [], read_fails = e\<rparr>))"
  by (simp add: parseElement_loop.simps [of st] ferror_def)

lemma elem_NL [elem_steps]:
  "elem_run st item sep sc (NL # cs) e =
     (if sc \<noteq> None \<and> sc \<noteq> Some (CHR '':'') then Inl SeparatorEndsLine
      else Inr (Some NL, item, \<lparr>unread = cs, read_fails = e\<rparr>))"
  by (simp add: parseElement_loop.simps [of st])

lemma elem_LSPACE [elem_steps]:
  "c \<noteq> NL \<Longrightarrow> elem_run LSPACE item sep sc (c # cs) e =
     (if isblank c then elem_run LSPACE item sep sc cs e
      else if is_sep c then Inl ElementStartsWithSeparator
      else elem_run ITEM (item @ [c]) sep sc cs e)"
  by (subst parseElement_loop.simps) simp

lemma elem_ITEM [elem_steps]:
  "c \<noteq> NL \<Longrightarrow> elem_run ITEM item sep sc (c # cs) e =
     (if isblank c then elem_run ISPACE item (sep @ [c]) sc cs e
      else if is_sep c then elem_run ISEP item (sep @ [c]) (Some c) cs e
      else elem_run ITEM (item @ [c]) sep sc cs e)"
  by (subst parseElement_loop.simps) simp

lemma elem_ISPACE [elem_steps]:
  "c \<noteq> NL \<Longrightarrow> elem_run ISPACE item sep sc (c # cs) e =
     (if isblank c then elem_run ISPACE item (sep @ [c]) sc cs e
      else if is_sep c then elem_run TSPACE item sep (Some c) cs e
      else elem_run ITEM (item @ sep @ [c]) [] sc cs e)"
  by (subst parseElement_loop.simps) simp

lemma elem_ISEP [elem_steps]:
  "c \<noteq> NL \<Longrightarrow> elem_run ISEP item sep sc (c # cs) e =
     (if isblank c then (if length sep > 1 then Inl ManySeparators else elem_run TSPACE item sep sc cs e)
      else if is_sep c then elem_run ISEP item (sep @ [c]) sc cs e
      else elem_run ITEM (item @ sep @ [c]) [] None cs e)"
  by (subst parseElement_loop.simps) simp

lemma elem_TSPACE [elem_steps]:
  "c \<noteq> NL \<Longrightarrow> elem_run TSPACE item sep sc (c # cs) e =
     (if isblank c then elem_run TSPACE item sep sc cs e
      else Inr (sc, item, \<lparr>unread = c # cs, read_fails = e\<rparr>))"
  by (subst parseElement_loop.simps) simp

lemma elem_run_shorter:
  "elem_run st item sep sc cs e = Inr (Some c, item', f') \<Longrightarrow>
     length (unread f') < length cs + (if st = TSPACE then 1 else 0)"
proof (induction cs arbitrary: st item sep sc)
  case Nil
  then show ?case by (simp add: elem_steps split: if_splits)
next
  case (Cons x cs)
  show ?case
  proof (cases "x = NL")
    case True
    with Cons.prems show ?thesis by (auto simp: elem_steps split: if_splits)
  next
    case False
    with Cons.prems show ?thesis
      by (cases st) (auto simp: elem_steps dest!: Cons.IH split: if_splits)
  qed
qed

lemma parseElement_shorter:
  "parseElement f = Inr (Some c, item, f') \<Longrightarrow> length (unread f') < length (unread f)"
  unfolding parseElement_def by (cases f) (auto dest: elem_run_shorter)

subsection \<open>parse\<close>

datatype line_state = ITEMS | TAGS

text \<open>What the code does with the collected sets at the end of a line.\<close>

definition finish_line :: "string oset \<Rightarrow> string oset \<Rightarrow> fast \<Rightarrow> text_error + fast" where
  "finish_line itemset tagset out =
     (if itemset = [] \<and> tagset = [] then Inr out
      else if itemset = [] then Inl NoElements
      else if tagset = [] then Inr (insert_items_tags out itemset [])
      else Inr (insert_items_tags out itemset tagset))"

text \<open>The \<open>do ... while (sep != EOF)\<close> loop; the variable \<open>line\<close> is counted but never read.\<close>

function parse_loop ::
  "line_state \<Rightarrow> string oset \<Rightarrow> string oset \<Rightarrow> cfile \<Rightarrow> fast \<Rightarrow> fast \<times> text_error option" where
  "parse_loop st itemset tagset f out =
     (case parseElement f of
        Inl e \<Rightarrow> (out, Some e)
      | Inr (sep, item, f') \<Rightarrow>
          (let itemset' = (if item \<noteq> [] \<and> st = ITEMS then or_assign_item itemset item else itemset);
               tagset' = (if item \<noteq> [] \<and> st = TAGS then or_assign_item tagset item else tagset)
           in case sep of
                None \<Rightarrow>
                  (case finish_line itemset' tagset' out of
                     Inl e \<Rightarrow> (out, Some e) | Inr out' \<Rightarrow> (out', None))
              | Some c \<Rightarrow>
                  (if c = NL then
                     (case finish_line itemset' tagset' out of
                        Inl e \<Rightarrow> (out, Some e)
                      | Inr out' \<Rightarrow> parse_loop ITEMS [] [] f' out')
                   else if c = CHR '':'' then
                     (if st = TAGS then (out, Some SeparatorTwice)
                      else parse_loop TAGS itemset' tagset' f' out)
                   else parse_loop st itemset' tagset' f' out)))"
  by pat_completeness auto
termination
  by (relation "measure (\<lambda>(st, is, ts, f, out). length (unread f))") (auto dest: parseElement_shorter)

declare parse_loop.simps [simp del]

definition parse :: "cfile \<Rightarrow> fast \<Rightarrow> fast \<times> text_error option" where
  "parse f out = parse_loop ITEMS [] [] f out"

subsection \<open>Lines in the format and how they are read\<close>

text \<open>
  The specification side: an element without blanks that neither starts nor ends with a
  separator, and the line \<open>item, item: tag, tag\<close> (or \<open>item, item\<close> alone).
\<close>

definition elem_ok :: "string \<Rightarrow> bool" where
  "elem_ok w \<longleftrightarrow> w \<noteq> [] \<and> (\<forall>c\<in>set w. \<not> isblank c \<and> c \<noteq> NL) \<and> \<not> is_sep (hd w) \<and> \<not> is_sep (last w)"

definition line_ok :: "string list \<times> string list \<Rightarrow> bool" where
  "line_ok l \<longleftrightarrow> fst l \<noteq> [] \<and> (\<forall>w\<in>set (fst l) \<union> set (snd l). elem_ok w)"

definition render_line :: "string list \<times> string list \<Rightarrow> string" where
  "render_line l = str_join '', '' (fst l)
     @ (if snd l = [] then [] else '': '' @ str_join '', '' (snd l)) @ [NL]"

lemma elem_word:
  assumes "\<forall>c\<in>set w. \<not> isblank c \<and> c \<noteq> NL"
  shows "w = [] \<or> \<not> is_sep (last w) \<Longrightarrow>
      elem_run ITEM item [] None (w @ r) e = elem_run ITEM (item @ w) [] None r e"
    and "w \<noteq> [] \<and> \<not> is_sep (last w) \<Longrightarrow>
      elem_run ISEP item sep sc (w @ r) e = elem_run ITEM (item @ sep @ w) [] None r e"
  using assms
proof (induction w arbitrary: item sep sc)
  case Nil
  {
    case 1
    then show ?case by simp
  next
    case 2
    then show ?case by simp
  }
next
  case (Cons c w)
  {
    case 1
    then have c: "\<not> isblank c" "c \<noteq> NL" and w: "\<forall>c\<in>set w. \<not> isblank c \<and> c \<noteq> NL" by simp_all
    show ?case
    proof (cases "is_sep c")
      case True
      with 1 have "w \<noteq> [] \<and> \<not> is_sep (last w)" by (auto split: if_splits)
      from Cons.IH(2) [OF this w, of item "[c]" "Some c"] True c show ?thesis
        by (simp add: elem_ITEM)
    next
      case False
      from 1 have "w = [] \<or> \<not> is_sep (last w)" by (auto split: if_splits)
      from Cons.IH(1) [OF this w, of "item @ [c]"] False c show ?thesis
        by (simp add: elem_ITEM)
    qed
  next
    case 2
    then have c: "\<not> isblank c" "c \<noteq> NL" and w: "\<forall>c\<in>set w. \<not> isblank c \<and> c \<noteq> NL" by simp_all
    show ?case
    proof (cases "is_sep c")
      case True
      with 2 have "w \<noteq> [] \<and> \<not> is_sep (last w)" by (auto split: if_splits)
      from Cons.IH(2) [OF this w, of item "sep @ [c]" sc] True c show ?thesis
        by (simp add: elem_ISEP)
    next
      case False
      from 2 have "w = [] \<or> \<not> is_sep (last w)" by (auto split: if_splits)
      from Cons.IH(1) [OF this w, of "item @ sep @ [c]"] False c show ?thesis
        by (simp add: elem_ISEP)
    qed
  }
qed

lemma parseElement_word:
  assumes "elem_ok w"
  shows "parseElement (file_of (w @ r)) = elem_run ITEM w [] None r False"
proof -
  obtain c v where w: "w = c # v" using assms by (auto simp: elem_ok_def neq_Nil_conv)
  then have v: "v = [] \<or> \<not> is_sep (last v)" "\<forall>c\<in>set v. \<not> isblank c \<and> c \<noteq> NL"
    and c: "c \<noteq> NL" "\<not> isblank c" "\<not> is_sep c"
    using assms by (auto simp: elem_ok_def split: if_splits)
  have "parseElement (file_of (w @ r)) = elem_run ITEM [c] [] None (v @ r) False"
    unfolding parseElement_def w using c by (simp add: elem_LSPACE)
  then show ?thesis using elem_word(1) [OF v(2,1), of "[c]" r False] by (simp add: w)
qed

lemma isblank_facts [simp]:
  "isblank CHR '' ''" "\<not> isblank CHR '':''" "\<not> isblank CHR '',''" "\<not> isblank NL"
  by (simp_all add: isblank_def)

lemma parseElement_followed:
  assumes "elem_ok w"
  shows "is_sep s \<Longrightarrow> \<not> isblank x \<Longrightarrow> x \<noteq> NL \<Longrightarrow>
      parseElement (file_of (w @ s # CHR '' '' # x # t)) = Inr (Some s, w, file_of (x # t))"
    and "parseElement (file_of (w @ NL # t)) = Inr (Some NL, w, file_of t)"
    and "parseElement (file_of w) = Inr (None, w, file_of [])"
    and "parseElement (file_of (w @ CHR '','' # NL # t)) = Inl SeparatorEndsLine"
    and "parseElement (file_of (w @ '','')) = Inr (None, w, file_of [])"
proof -
  show "parseElement (file_of w) = Inr (None, w, file_of [])"
    using parseElement_word [OF assms, of "[]"] by (simp add: elem_steps)
qed (use assms in \<open>auto simp: parseElement_word elem_steps\<close>)

text \<open>The sets after an element, in either state of the line.\<close>

definition put_item :: "line_state \<Rightarrow> string \<Rightarrow> string oset \<Rightarrow> string oset" where
  "put_item st w its = (if st = ITEMS then oset_insert w its else its)"

definition put_tag :: "line_state \<Rightarrow> string \<Rightarrow> string oset \<Rightarrow> string oset" where
  "put_tag st w ts = (if st = TAGS then oset_insert w ts else ts)"

lemma parse_loop_put:
  assumes "parseElement f = Inr (sep, w, f')" "w \<noteq> []"
  shows "parse_loop st its ts f out =
     (case sep of
        None \<Rightarrow>
          (case finish_line (put_item st w its) (put_tag st w ts) out of
             Inl e \<Rightarrow> (out, Some e) | Inr out' \<Rightarrow> (out', None))
      | Some c \<Rightarrow>
          (if c = NL then
             (case finish_line (put_item st w its) (put_tag st w ts) out of
                Inl e \<Rightarrow> (out, Some e)
              | Inr out' \<Rightarrow> parse_loop ITEMS [] [] f' out')
           else if c = CHR '':'' then
             (if st = TAGS then (out, Some SeparatorTwice)
              else parse_loop TAGS (put_item st w its) (put_tag st w ts) f' out)
           else parse_loop st (put_item st w its) (put_tag st w ts) f' out))"
proof -
  have puts: "(if w \<noteq> [] \<and> st = ITEMS then or_assign_item its w else its) = put_item st w its"
    "(if w \<noteq> [] \<and> st = TAGS then or_assign_item ts w else ts) = put_tag st w ts"
    using assms(2) by (simp_all add: put_item_def put_tag_def or_assign_item_def)
  show ?thesis
    unfolding parse_loop.simps [of st its ts f out] assms(1) sum.case prod.case puts Let_def ..
qed

lemma join_head:
  assumes "\<forall>w\<in>set (w # ws). elem_ok w"
  obtains x t where "str_join '', '' (w # ws) @ r = x # t" "\<not> isblank x" "x \<noteq> NL"
  using assms by (cases w) (auto simp: elem_ok_def)

lemma parse_loop_elems:
  assumes last: "\<And>w its ts. elem_ok w \<Longrightarrow>
      parse_loop st its ts (file_of (w @ r)) out = k (put_item st w its) (put_tag st w ts)"
    and ok: "\<forall>w\<in>set (w # ws). elem_ok w"
  shows "parse_loop st its ts (file_of (str_join '', '' (w # ws) @ r)) out
    = k (fold (put_item st) (w # ws) its) (fold (put_tag st) (w # ws) ts)"
  using ok
proof (induction ws arbitrary: w its ts)
  case Nil
  then show ?case using last by simp
next
  case (Cons v ws)
  then have w: "elem_ok w" "w \<noteq> []" and ok: "\<forall>w\<in>set (v # ws). elem_ok w"
    by (auto simp: elem_ok_def)
  obtain x t where xt: "str_join '', '' (v # ws) @ r = x # t" "\<not> isblank x" "x \<noteq> NL"
    using join_head [OF ok, of r] .
  have "parseElement (file_of (w @ CHR '','' # CHR '' '' # x # t)) = Inr (Some (CHR '',''), w, file_of (x # t))"
    using parseElement_followed(1) [OF w(1)] xt by simp
  from parse_loop_put [OF this w(2)]
  have "parse_loop st its ts (file_of (str_join '', '' (w # v # ws) @ r)) out
      = parse_loop st (put_item st w its) (put_tag st w ts) (file_of (str_join '', '' (v # ws) @ r)) out"
    using xt by (simp add: str_join_Cons2 del: str_join_simps)
  also have "\<dots> = k (fold (put_item st) (v # ws) (put_item st w its)) (fold (put_tag st) (v # ws) (put_tag st w ts))"
    by (rule Cons.IH [OF ok])
  finally show ?case by simp
qed

lemma fold_put:
  "fold (put_item ITEMS) ws its = fold oset_insert ws its" "fold (put_tag ITEMS) ws ts = ts"
  "fold (put_item TAGS) ws its = its" "fold (put_tag TAGS) ws ts = fold oset_insert ws ts"
  by (induction ws arbitrary: its ts) (auto simp: put_item_def put_tag_def)

lemma oset_of_list_Nil [simp]: "oset_of_list xs = [] \<longleftrightarrow> xs = []"
  by (metis set_empty set_oset_of_list)

lemma parse_line:
  assumes "line_ok l"
  shows "parse_loop ITEMS [] [] (file_of (render_line l @ t)) out
    = parse_loop ITEMS [] [] (file_of t)
        (insert_items_tags out (oset_of_list (fst l)) (oset_of_list (snd l)))"
proof -
  obtain w ws ts where l: "l = (w # ws, ts)"
    using assms by (cases l) (auto simp: line_ok_def neq_Nil_conv)
  have ok: "\<forall>w\<in>set (w # ws). elem_ok w" "\<forall>t\<in>set ts. elem_ok t"
    using assms by (auto simp: line_ok_def l)
  have nonempty: "elem_ok v \<Longrightarrow> v \<noteq> []" for v by (simp add: elem_ok_def)
  define k where "k its ts = (case finish_line its ts out of
      Inl e \<Rightarrow> (out, Some e) | Inr out' \<Rightarrow> parse_loop ITEMS [] [] (file_of t) out')" for its ts
  have eol: "parse_loop st its ts (file_of (v @ NL # t)) out = k (put_item st v its) (put_tag st v ts)"
    if "elem_ok v" for st v its ts
    using parse_loop_put [OF parseElement_followed(2) [OF that] nonempty [OF that]] by (simp add: k_def)
  show ?thesis
  proof (cases ts)
    case Nil
    have "parse_loop ITEMS [] [] (file_of (str_join '', '' (w # ws) @ NL # t)) out
        = k (oset_of_list (w # ws)) []"
      using parse_loop_elems [where st = ITEMS and r = "NL # t" and k = k, OF eol ok(1), of "[]" "[]"]
      by (simp only: fold_put oset_of_list_def)
    then show ?thesis
      by (simp add: l Nil render_line_def k_def finish_line_def)
  next
    case (Cons u us)
    have oku: "\<forall>u\<in>set (u # us). elem_ok u" using ok(2) Cons by simp
    obtain x s where xs: "str_join '', '' (u # us) @ NL # t = x # s" "\<not> isblank x" "x \<noteq> NL"
      using join_head [OF oku, of "NL # t"] .
    have colon: "parse_loop ITEMS its ts (file_of (v @ '': '' @ x # s)) out
        = parse_loop TAGS (put_item ITEMS v its) (put_tag ITEMS v ts) (file_of (x # s)) out"
      if "elem_ok v" for v its ts
      using parse_loop_put [OF parseElement_followed(1) [OF that, of "CHR '':''" x s] nonempty [OF that]] xs
      by simp
    have "parse_loop ITEMS [] [] (file_of (str_join '', '' (w # ws) @ '': '' @ x # s)) out
        = parse_loop TAGS (oset_of_list (w # ws)) [] (file_of (x # s)) out"
      using parse_loop_elems [where st = ITEMS and r = "'': '' @ x # s"
          and k = "\<lambda>i t. parse_loop TAGS i t (file_of (x # s)) out", OF colon ok(1), of "[]" "[]"]
      by (simp only: fold_put oset_of_list_def)
    also have "\<dots> = k (oset_of_list (w # ws)) (oset_of_list (u # us))"
      using parse_loop_elems [where st = TAGS and r = "NL # t" and k = k, OF eol oku]
      unfolding xs(1) [symmetric] by (simp only: fold_put oset_of_list_def)
    finally show ?thesis
      unfolding xs(1) [symmetric]
      by (simp add: l Cons render_line_def k_def finish_line_def del: str_join_simps)
  qed
qed

lemma parse_lines:
  "\<forall>l\<in>set ls. line_ok l \<Longrightarrow>
     parse (file_of (concat (map render_line ls) @ t)) out = parse (file_of t) (ln.insert_lines ls out)"
  unfolding parse_def by (induction ls arbitrary: out) (auto simp: parse_line)

lemma parse_eof [simp]: "parse (file_of []) out = (out, None)"
  by (simp add: parse_def parse_loop.simps [of ITEMS] parseElement_def elem_steps finish_line_def)

text \<open>No element before a colon is empty, and only the loop over lines raises line errors.\<close>

lemma elem_run_nonempty:
  "c \<noteq> NL \<Longrightarrow> st = LSPACE \<or> item \<noteq> [] \<Longrightarrow> st = LSPACE \<longrightarrow> sc = None \<Longrightarrow>
     elem_run st item sep sc cs e \<noteq> Inr (Some c, [], f')"
proof (induction cs arbitrary: st item sep sc)
  case Nil
  then show ?case by (simp add: elem_steps)
next
  case (Cons x cs)
  then show ?case by (cases "x = NL"; cases st) (simp_all add: elem_steps)
qed

lemma elem_run_errors: "elem_run st item sep sc cs e \<noteq> Inl NoElements"
proof (induction cs arbitrary: st item sep sc)
  case Nil
  then show ?case by (simp add: elem_steps)
next
  case (Cons x cs)
  then show ?case by (cases "x = NL"; cases st) (simp_all add: elem_steps)
qed

lemma parseElement_nonempty:
  "parseElement f = Inr (Some c, item, f') \<Longrightarrow> c \<noteq> NL \<Longrightarrow> item \<noteq> []"
  unfolding parseElement_def by (cases f) (auto simp: elem_run_nonempty)

lemma parseElement_errors: "parseElement f = Inl err \<Longrightarrow> err \<noteq> NoElements"
  unfolding parseElement_def by (cases f) (auto simp: elem_run_errors)

definition sets_ok :: "line_state \<Rightarrow> string oset \<Rightarrow> string oset \<Rightarrow> bool" where
  "sets_ok st its ts \<longleftrightarrow> (st = TAGS \<longrightarrow> its \<noteq> []) \<and> (its = [] \<longrightarrow> ts = []) \<and> ordered ts"

lemma finish_line_ok:
  assumes "sets_ok st its ts" "fast_inv out"
  obtains out' where "finish_line its ts out = Inr out'" "fast_inv out'" "tagging out \<subseteq> tagging out'"
proof -
  have "\<exists>out'. finish_line its ts out = Inr out' \<and> fast_inv out' \<and> tagging out \<subseteq> tagging out'"
    using assms by (auto simp: finish_line_def sets_ok_def insert_items_tags_ok)
  with that show thesis by blast
qed

lemma sets_ok_put:
  assumes "sets_ok st its ts" "w \<noteq> [] \<or> its \<noteq> []"
  shows "sets_ok st (if w \<noteq> [] \<and> st = ITEMS then or_assign_item its w else its)
    (if w \<noteq> [] \<and> st = TAGS then or_assign_item ts w else ts)"
    and "st = ITEMS \<Longrightarrow> sets_ok TAGS (if w \<noteq> [] \<and> st = ITEMS then or_assign_item its w else its)
      (if w \<noteq> [] \<and> st = TAGS then or_assign_item ts w else ts)"
  using assms by (auto simp: sets_ok_def or_assign_item_def)

lemma parse_loop_safe:
  "sets_ok st its ts \<Longrightarrow> fast_inv out \<Longrightarrow> parse_loop st its ts f out = (out', err) \<Longrightarrow>
     fast_inv out' \<and> tagging out \<subseteq> tagging out' \<and> err \<noteq> Some NoElements"
proof (induction st its ts f out rule: parse_loop.induct)
  case (1 st its ts f out)
  show ?case
  proof (cases "parseElement f")
    case (Inl e)
    with "1.prems" show ?thesis by (auto simp: parse_loop.simps [of st] dest: parseElement_errors)
  next
    case (Inr r)
    obtain sep w f' where r: "r = (sep, w, f')" by (cases r)
    define its' where "its' = (if w \<noteq> [] \<and> st = ITEMS then or_assign_item its w else its)"
    define ts' where "ts' = (if w \<noteq> [] \<and> st = TAGS then or_assign_item ts w else ts)"
    have ok: "sets_ok st its' ts'"
      using "1.prems"(1) by (auto simp: sets_ok_def its'_def ts'_def or_assign_item_def)
    obtain out1 where out1: "finish_line its' ts' out = Inr out1" "fast_inv out1" "tagging out \<subseteq> tagging out1"
      using finish_line_ok [OF ok "1.prems"(2)] .
    have step: "parse_loop st its ts f out =
        (case sep of None \<Rightarrow> (out1, None)
         | Some c \<Rightarrow> (if c = NL then parse_loop ITEMS [] [] f' out1
             else if c = CHR '':'' then (if st = TAGS then (out, Some SeparatorTwice) else parse_loop TAGS its' ts' f' out)
             else parse_loop st its' ts' f' out))"
      unfolding parse_loop.simps [of st its ts f out] Inr r sum.case prod.case Let_def
      by (simp only: its'_def [symmetric] ts'_def [symmetric] out1 sum.case)
    note IH = "1.IH" [OF Inr r [symmetric] refl its'_def ts'_def]
    show ?thesis
    proof (cases sep)
      case None
      with "1.prems"(3) out1 show ?thesis by (auto simp: step)
    next
      case (Some c)
      consider "c = NL" | "c \<noteq> NL" "c = CHR '':''" "st = TAGS" | "c \<noteq> NL" "c = CHR '':''" "st = ITEMS"
        | "c \<noteq> NL" "c \<noteq> CHR '':''"
        by (cases st) auto
      then show ?thesis
      proof cases
        case 1
        have "sets_ok ITEMS [] []" by (simp add: sets_ok_def)
        from IH(1) [OF Some 1 out1(1) this out1(2)] 1 Some "1.prems"(3) out1(3) step show ?thesis by auto
      next
        case 2
        with "1.prems" Some step show ?thesis by auto
      next
        case 3
        have "w \<noteq> []" using parseElement_nonempty Inr r Some 3 by simp
        then have "sets_ok TAGS its' ts'"
          using "1.prems"(1) 3 by (auto simp: sets_ok_def its'_def ts'_def or_assign_item_def)
        with IH(2) [OF Some] 3 Some "1.prems"(2,3) step show ?thesis by auto
      next
        case 4
        with IH(3) [OF Some] ok Some "1.prems"(2,3) step show ?thesis by auto
      qed
    qed
  qed
qed

lemma parse_tail:
  assumes "elem_ok w"
  shows "parse (file_of (w @ CHR '','' # NL # t)) out = (out, Some SeparatorEndsLine)"
    and "parse (file_of (w @ '','')) out = (out, None)"
proof -
  have w: "w \<noteq> []" using assms by (simp add: elem_ok_def)
  show "parse (file_of (w @ CHR '','' # NL # t)) out = (out, Some SeparatorEndsLine)"
    by (simp add: parse_def parse_loop.simps [of ITEMS] parseElement_followed(4) [OF assms])
  show "parse (file_of (w @ '','')) out = (out, None)"
    using parse_loop_put [OF parseElement_followed(5) [OF assms] w]
    by (simp add: parse_def finish_line_def put_item_def put_tag_def insert_items_tags_def)
qed

subsection \<open>Properties\<close>

lemma parse_rendered:
  assumes "\<forall>l\<in>set ls. line_ok l" and "fast_inv out"
  shows "\<exists>out'. parse (file_of (concat (map render_line ls))) out = (out', None) \<and> fast_inv out'
    \<and> tagging out' = (\<Union>(is, ts)\<in>set ls. set is \<times> set ts) \<union> tagging out"
  using parse_lines [OF assms(1), of "[]"] ln.inv_lines [OF assms(2)] ln.rel_lines [OF assms(2)]
  by auto

text \<open>
  C2: reading a file written in the format, one line per entry with the items, a colon and the
  tags separated by commas, reports no error and adds to the collection exactly the pairs of each
  line's items and tags; the collection it leaves is the one that the insertions build.
\<close>

theorem parse_render_roundtrip:
  assumes "\<forall>l\<in>set ls. line_ok l" and "fast_inv out"
  shows "\<exists>out'. parse (file_of (concat (map render_line ls))) out = (out', None) \<and> fast_inv out'
    \<and> tagging out' = (\<Union>(is, ts)\<in>set ls. set is \<times> set ts) \<union> tagging out"
  using assms by (rule parse_rendered)

theorem parse_render_roundtrip_witness:
  "\<exists>out'. parse (file_of (''apt, dpkg: use::x:y'' @ [NL])) fast_empty = (out', None)
    \<and> tagging out' = {(''apt'', ''use::x:y''), (''dpkg'', ''use::x:y'')}"
proof -
  have "\<forall>l\<in>set [([''apt'', ''dpkg''], [''use::x:y''])]. line_ok l"
    by (simp add: line_ok_def elem_ok_def isblank_def)
  moreover have "concat (map render_line [([''apt'', ''dpkg''], [''use::x:y''])]) = ''apt, dpkg: use::x:y'' @ [NL]"
    by (simp add: render_line_def)
  moreover have "(\<Union>(is, ts)\<in>set [([''apt'', ''dpkg''], [''use::x:y''])]. set is \<times> set ts) \<union> tagging fast_empty
      = {(''apt'', ''use::x:y''), (''dpkg'', ''use::x:y'')}" by auto
  ultimately show ?thesis using parse_render_roundtrip [OF _ fast_empty_ok(1)] by metis
qed

lemma parse_keeps:
  assumes "fast_inv out" and "parse f out = (out', err)"
  shows "fast_inv out' \<and> tagging out \<subseteq> tagging out' \<and> err \<noteq> Some NoElements"
proof (rule parse_loop_safe)
  show "sets_ok ITEMS [] []" by (simp add: sets_ok_def)
qed (use assms in \<open>simp_all add: parse_def\<close>)

text \<open>
  C20: whatever the bytes of the file, reading ends with a collection whose maps are inverse to
  each other and which still has every pair it had before, with or without an error; the error
  for a line without items is never raised.
\<close>

theorem parse_safe:
  assumes "fast_inv out" and "parse f out = (out', err)"
  shows "fast_inv out' \<and> tagging out \<subseteq> tagging out' \<and> err \<noteq> Some NoElements"
  using assms by (rule parse_keeps)

theorem parse_safe_witness:
  "fast_inv (fst (parse (file_of ''a: b, c: d'') fast_empty))"
  using parse_safe [OF fast_empty_ok(1), of "file_of ''a: b, c: d''"] by (metis prod.collapse)

text \<open>
  an error keeps the lines before it: after well-formed lines, an element followed by a comma
  and the end of the line raises the separator error with those lines inserted.  The same dangling
  comma at the end of the file, with no newline after it, is accepted.
\<close>

theorem parse_error_keeps_lines:
  assumes "\<forall>l\<in>set ls. line_ok l" and "elem_ok w"
  shows "parse (file_of (concat (map render_line ls) @ w @ '','' @ [NL] @ t)) out
      = (fst (parse (file_of (concat (map render_line ls))) out), Some SeparatorEndsLine)
    \<and> parse (file_of (concat (map render_line ls) @ w @ '','')) out
      = (fst (parse (file_of (concat (map render_line ls))) out), None)"
  using parse_lines [OF assms(1)] parse_lines [OF assms(1), of "[]"] parse_tail [OF assms(2)]
  by simp

theorem parse_error_keeps_lines_witness:
  "parse (file_of (''a,'' @ [NL])) fast_empty = (fast_empty, Some SeparatorEndsLine)
    \<and> parse (file_of ''a,'') fast_empty = (fast_empty, None)"
proof -
  have "elem_ok ''a''" by (simp add: elem_ok_def isblank_def)
  from parse_error_keeps_lines [of "[]", OF _ this, of "[]" fast_empty] show ?thesis by simp
qed

end
