(* ===== verification/DebDB.thy ===== *)
theory DebDB
  imports StdContainers StdIO
begin

section \<open>The parser of Debian control files (ept/debtags/maint/debdbparser.cc)\<close>

text \<open>
  \<open>DebDBParser\<close> reads records of \<open>Field: body\<close> lines with continuation lines from a file.  The
  record \<open>debdb\<close> is the state of the object; each method takes it and returns it updated, or an
  error for the exception it throws.  The loop over continuation lines of \<open>nextRecord\<close> does not
  end on every input, so it and what calls it are partial functions whose value is \<open>None\<close> where
  the code runs forever.
\<close>

datatype deb_error =
    DbCannotRead string
  | FieldNotAtLineStart
  | FieldTruncated string
  | SeparatorTruncated
  | InvalidSeparator char

record debdb =
  inp :: cfile
  pathname :: string
  isBOL :: bool
  isEOF :: bool

type_synonym deb_record = "(string, string) omap"

subsection \<open>The scanning methods\<close>

function eat_loop :: "nat \<Rightarrow> debdb \<Rightarrow> deb_error + (nat \<times> debdb)" where
  "eat_loop res p =
     (case getc (inp p) of
        (None, f) \<Rightarrow>
          if ferror f then Inl (DbCannotRead (pathname p))
          else Inr (res, p\<lparr>inp := f, isEOF := True\<rparr>)
      | (Some c, f) \<Rightarrow>
          if c = NL then eat_loop (res + 1) (p\<lparr>inp := f, isBOL := True\<rparr>)
          else if isblank c then eat_loop res (p\<lparr>inp := f, isBOL := False\<rparr>)
          else Inr (res, p\<lparr>inp := ungetc c f\<rparr>))"
  by pat_completeness auto
termination
  by (relation "measure (\<lambda>(res, p). length (unread (inp p)))") (simp, (drule (1) getc_shorter, simp)+)

definition eatSpacesAndEmptyLines :: "debdb \<Rightarrow> deb_error + (nat \<times> debdb)" where
  "eatSpacesAndEmptyLines p = eat_loop 0 p"

function name_loop :: "string \<Rightarrow> cfile \<Rightarrow> string \<times> char option \<times> cfile" where
  "name_loop res f =
     (case getc f of
        (None, f') \<Rightarrow> (res, None, f')
      | (Some c, f') \<Rightarrow>
          if isalnum c \<or> c = CHR ''-'' then name_loop (res @ [c]) f' else (res, Some c, f'))"
  by pat_completeness auto
termination
  by (relation "measure (\<lambda>(res, f). length (unread f))") (simp, (drule (1) getc_shorter, simp)+)

definition getFieldName :: "debdb \<Rightarrow> deb_error + (string \<times> debdb)" where
  "getFieldName p =
     (if \<not> isBOL p then Inl FieldNotAtLineStart
      else case name_loop [] (inp p) of
        (res, None, f) \<Rightarrow>
          if ferror f then Inl (DbCannotRead (pathname p))
          else if res \<noteq> [] then Inl (FieldTruncated res)
          else Inr (res, p\<lparr>inp := f, isEOF := True\<rparr>)
      | (res, Some c, f) \<Rightarrow> Inr (res, p\<lparr>inp := ungetc c f\<rparr>))"

text \<open>\<open>while ((c = getc(in)) != EOF && isblank(c));\<close>\<close>

function skip_blanks :: "cfile \<Rightarrow> char option \<times> cfile" where
  "skip_blanks f =
     (case getc f of
        (None, f') \<Rightarrow> (None, f')
      | (Some c, f') \<Rightarrow> if isblank c then skip_blanks f' else (Some c, f'))"
  by pat_completeness auto
termination
  by (relation "measure (\<lambda>f. length (unread f))") (simp, (drule (1) getc_shorter, simp)+)

definition eatFieldSep :: "debdb \<Rightarrow> deb_error + debdb" where
  "eatFieldSep p =
     (case skip_blanks (inp p) of
        (None, f) \<Rightarrow> if ferror f then Inl (DbCannotRead (pathname p)) else Inl SeparatorTruncated
      | (Some c, f) \<Rightarrow> if c = CHR '':'' then Inr (p\<lparr>inp := f\<rparr>) else Inl (InvalidSeparator c))"

text \<open>\<open>for ( ; c != EOF && c != '\n'; c = getc(in)) body += c;\<close>\<close>

function body_loop :: "string \<Rightarrow> char option \<Rightarrow> cfile \<Rightarrow> string \<times> char option \<times> cfile" where
  "body_loop body c f =
     (case c of
        None \<Rightarrow> (body, None, f)
      | Some x \<Rightarrow>
          if x = NL then (body, Some x, f)
          else (case getc f of (c', f') \<Rightarrow> body_loop (body @ [x]) c' f'))"
  by pat_completeness auto
termination
proof (relation "measure (\<lambda>(body, c, f). length (unread f) + (if c = None then 0 else 1))", goal_cases)
  case (2 body c f x xa y)
  then show ?case by (auto simp: getc_def split: list.splits)
qed simp

text \<open>\<open>body.resize(body.find_last_not_of(" \t") + 1)\<close>, unless every character is one of these.\<close>

definition trim_body :: "string \<Rightarrow> string" where
  "trim_body body =
     (let kept = rev (dropWhile isblank (rev body)) in if kept = [] then body else kept)"

definition appendFieldBody :: "string \<Rightarrow> debdb \<Rightarrow> deb_error + (string \<times> debdb)" where
  "appendFieldBody body p =
     (case skip_blanks (inp p) of
        (c, f) \<Rightarrow>
          (case body_loop body c f of
             (body', None, f') \<Rightarrow>
               if ferror f' then Inl (DbCannotRead (pathname p))
               else Inr (trim_body body', p\<lparr>inp := f', isEOF := True\<rparr>)
           | (body', Some _, f') \<Rightarrow> Inr (trim_body body', p\<lparr>inp := f', isBOL := True\<rparr>)))"

definition open_parser :: "cfile \<Rightarrow> string \<Rightarrow> deb_error + debdb" where
  "open_parser f path =
     (case eatSpacesAndEmptyLines \<lparr>inp = f, pathname = path, isBOL = True, isEOF = False\<rparr> of
        Inl e \<Rightarrow> Inl e | Inr (n, p) \<Rightarrow> Inr p)"

declare eat_loop.simps [simp del] name_loop.simps [simp del] skip_blanks.simps [simp del]
  body_loop.simps [simp del]

subsection \<open>nextRecord\<close>

text \<open>A continuation line that is a single dot stands for an empty line.\<close>

definition undot :: "nat \<Rightarrow> string \<Rightarrow> string" where
  "undot start_size body =
     (if size_sub (length body) start_size = 1 \<and> last body = CHR ''.'' then butlast body else body)"

partial_function (option) continuation_loop ::
  "string \<Rightarrow> debdb \<Rightarrow> (deb_error + (nat \<times> string \<times> debdb)) option" where
  "continuation_loop body p =
     (case eatSpacesAndEmptyLines p of
        Inl e \<Rightarrow> Some (Inl e)
      | Inr (n, p1) \<Rightarrow>
          if n = 0 \<and> \<not> isBOL p1 then
            (case appendFieldBody (body @ [NL]) p1 of
               Inl e \<Rightarrow> Some (Inl e)
             | Inr (body', p2) \<Rightarrow> continuation_loop (undot (length body + 1) body') p2)
          else Some (Inr (n, body, p1)))"

definition read_field :: "debdb \<Rightarrow> (deb_error + (nat \<times> string \<times> string \<times> debdb)) option" where
  "read_field p =
     (case getFieldName p of
        Inl e \<Rightarrow> Some (Inl e)
      | Inr (field, p1) \<Rightarrow>
          (case eatFieldSep p1 of
             Inl e \<Rightarrow> Some (Inl e)
           | Inr p2 \<Rightarrow>
               (case appendFieldBody [] p2 of
                  Inl e \<Rightarrow> Some (Inl e)
                | Inr (body, p3) \<Rightarrow>
                    (case continuation_loop body p3 of
                       None \<Rightarrow> None
                     | Some (Inl e) \<Rightarrow> Some (Inl e)
                     | Some (Inr (n, body', p4)) \<Rightarrow> Some (Inr (n, field, body', p4))))))"

partial_function (option) record_loop ::
  "deb_record \<Rightarrow> debdb \<Rightarrow> (deb_error + (deb_record \<times> debdb)) option" where
  "record_loop r p =
     (case read_field p of
        None \<Rightarrow> None
      | Some (Inl e) \<Rightarrow> Some (Inl e)
      | Some (Inr (n, field, body, p')) \<Rightarrow>
          (let r' = omap_insert field body r
           in if \<not> isEOF p' \<and> n = 0 then record_loop r' p' else Some (Inr (r', p'))))"

text \<open>The result is \<open>false\<close> (\<open>None\<close> inside) at the end of the file, the record otherwise.\<close>

definition nextRecord :: "debdb \<Rightarrow> (deb_error + (deb_record option \<times> debdb)) option" where
  "nextRecord p =
     (if isEOF p then Some (Inr (None, p))
      else case record_loop [] p of
        None \<Rightarrow> None
      | Some (Inl e) \<Rightarrow> Some (Inl e)
      | Some (Inr (r, p')) \<Rightarrow> Some (Inr (Some r, p')))"

subsection \<open>The scanners on the bytes of a file\<close>

abbreviation bytes :: "string \<Rightarrow> bool \<Rightarrow> cfile" where
  "bytes cs e \<equiv> \<lparr>unread = cs, read_fails = e\<rparr>"

abbreviation at :: "string \<Rightarrow> bool \<Rightarrow> string \<Rightarrow> bool \<Rightarrow> bool \<Rightarrow> debdb" where
  "at cs e path b eof \<equiv> \<lparr>inp = bytes cs e, pathname = path, isBOL = b, isEOF = eof\<rparr>"

lemma debdb_cases: obtains cs e path b eof where "p = at cs e path b eof"
  by (cases p; cases "inp p") auto

abbreviation layout_char :: "char \<Rightarrow> bool" where "layout_char c \<equiv> isblank c \<or> c = NL"
abbreviation name_char :: "char \<Rightarrow> bool" where "name_char c \<equiv> isalnum c \<or> c = CHR ''-''"

named_theorems deb_scan \<open>closed forms of the scanners\<close>

lemma isblank_NL [simp]: "\<not> isblank NL"
  by (simp add: isblank_def)

lemma eat_steps:
  "eat_loop res (at [] e path b eof) = (if e then Inl (DbCannotRead path) else Inr (res, at [] e path b True))"
  "eat_loop res (at (NL # cs) e path b eof) = eat_loop (Suc res) (at cs e path True eof)"
  "isblank c \<Longrightarrow> eat_loop res (at (c # cs) e path b eof) = eat_loop res (at cs e path False eof)"
  "\<not> layout_char c \<Longrightarrow> eat_loop res (at (c # cs) e path b eof) = Inr (res, at (c # cs) e path b eof)"
  by (subst eat_loop.simps; auto simp: ferror_def isblank_def)+

lemma eat_loop_eq:
  "eat_loop res (at cs e path b eof) =
     (let ws = takeWhile layout_char cs; rest = dropWhile layout_char cs
      in if rest = [] \<and> e then Inl (DbCannotRead path)
         else Inr (res + count_list ws NL,
           at rest e path (if ws = [] then b else last ws = NL) (eof \<or> rest = [])))"
proof (induction cs arbitrary: res b)
  case Nil
  then show ?case by (simp add: eat_steps)
next
  case (Cons c cs)
  consider "c = NL" | "isblank c" "c \<noteq> NL" | "\<not> layout_char c" by auto
  then show ?case
    by cases (simp_all add: eat_steps Cons.IH Let_def del: dropWhile_eq_Nil_conv)
qed

lemma eat_eq [deb_scan]:
  "eatSpacesAndEmptyLines (at cs e path b eof) =
     (let ws = takeWhile layout_char cs; rest = dropWhile layout_char cs
      in if rest = [] \<and> e then Inl (DbCannotRead path)
         else Inr (count_list ws NL,
           at rest e path (if ws = [] then b else last ws = NL) (eof \<or> rest = [])))"
  by (simp add: eatSpacesAndEmptyLines_def eat_loop_eq Let_def)

lemma name_loop_eq [deb_scan]:
  "name_loop res (bytes cs e) =
     (res @ takeWhile name_char cs,
      (case dropWhile name_char cs of [] \<Rightarrow> (None, bytes [] e) | c # r \<Rightarrow> (Some c, bytes r e)))"
  by (induction cs arbitrary: res) (auto simp: name_loop.simps [of _ "bytes _ e"])

lemma skip_blanks_eq [deb_scan]:
  "skip_blanks (bytes cs e) =
     (case dropWhile isblank cs of [] \<Rightarrow> (None, bytes [] e) | c # r \<Rightarrow> (Some c, bytes r e))"
  by (induction cs) (auto simp: skip_blanks.simps [of "bytes _ e"])

lemma body_loop_None [deb_scan]: "body_loop body None f = (body, None, f)"
  by (simp add: body_loop.simps)

lemma body_loop_eq [deb_scan]:
  "body_loop body (Some c) (bytes cs e) =
     (body @ takeWhile (\<lambda>x. x \<noteq> NL) (c # cs),
      (case dropWhile (\<lambda>x. x \<noteq> NL) (c # cs) of [] \<Rightarrow> (None, bytes [] e) | x # r \<Rightarrow> (Some x, bytes r e)))"
proof (induction cs arbitrary: body c)
  case Nil
  then show ?case by (simp add: body_loop.simps [of _ "Some c"] body_loop_None)
next
  case (Cons d cs)
  then show ?case by (simp add: body_loop.simps [of _ "Some c"])
qed

lemma appendFieldBody_eq [deb_scan]:
  "appendFieldBody body (at cs e path b eof) =
     (let s = dropWhile isblank cs; line = takeWhile (\<lambda>x. x \<noteq> NL) s; rest = dropWhile (\<lambda>x. x \<noteq> NL) s
      in if rest = [] then
           (if e then Inl (DbCannotRead path)
            else Inr (trim_body (body @ line), at [] e path b True))
         else Inr (trim_body (body @ line), at (tl rest) e path True eof))"
proof (cases "dropWhile isblank cs")
  case Nil
  then show ?thesis
    by (simp add: appendFieldBody_def deb_scan ferror_def Let_def del: dropWhile_eq_Nil_conv)
next
  case (Cons c r)
  then show ?thesis
    by (cases "dropWhile (\<lambda>x. x \<noteq> NL) (c # r)")
      (simp_all add: appendFieldBody_def deb_scan ferror_def Let_def del: dropWhile_eq_Nil_conv dropWhile.simps takeWhile.simps)
qed

lemma getFieldName_eq [deb_scan]:
  "getFieldName (at cs e path b eof) =
     (let name = takeWhile name_char cs; rest = dropWhile name_char cs
      in if \<not> b then Inl FieldNotAtLineStart
         else if rest = [] then
           (if e then Inl (DbCannotRead path)
            else if name \<noteq> [] then Inl (FieldTruncated name)
            else Inr (name, at [] e path b True))
         else Inr (name, at rest e path b eof))"
  by (simp add: getFieldName_def deb_scan ferror_def Let_def del: dropWhile_eq_Nil_conv split: list.split)

lemma eatFieldSep_eq [deb_scan]:
  "eatFieldSep (at cs e path b eof) =
     (case dropWhile isblank cs of
        [] \<Rightarrow> if e then Inl (DbCannotRead path) else Inl SeparatorTruncated
      | c # r \<Rightarrow> if c = CHR '':'' then Inr (at r e path b eof) else Inl (InvalidSeparator c))"
  by (simp add: eatFieldSep_def deb_scan ferror_def del: dropWhile_eq_Nil_conv split: list.split)

lemma name_char_facts [simp]:
  "name_char c \<Longrightarrow> \<not> isblank c" "\<not> isalnum NL" "\<not> isalnum CHR '':''" "\<not> isalnum CHR '' ''"
  by (auto simp: cchars)

lemma takeWhile_stop: "\<forall>x\<in>set xs. P x \<Longrightarrow> \<not> P y \<Longrightarrow> takeWhile P (xs @ y # ys) = xs"
  and dropWhile_stop: "\<forall>x\<in>set xs. P x \<Longrightarrow> \<not> P y \<Longrightarrow> dropWhile P (xs @ y # ys) = y # ys"
  by (induction xs) auto

lemma span_stop:
  assumes "\<forall>x\<in>set xs. P x" "ys = [] \<or> \<not> P (hd ys)"
  shows "takeWhile P (xs @ ys) = xs" and "dropWhile P (xs @ ys) = ys"
proof -
  have "takeWhile P ys = []" "dropWhile P ys = ys" using assms(2) by (cases ys; auto)+
  then show "takeWhile P (xs @ ys) = xs" "dropWhile P (xs @ ys) = ys"
    using assms(1) by (induction xs) auto
qed

subsection \<open>A continuation line cut off by the end of the file\<close>

lemma continuation_hangs: "continuation_loop body (at [] False path False eof) = None"
proof (rule ccontr)
  assume "continuation_loop body (at [] False path False eof) \<noteq> None"
  then obtain r where "continuation_loop body (at [] False path False eof) = Some r" by auto
  then have "\<not> (\<exists>path' eof'. at [] False path False eof = at [] False path' False eof')"
  proof (rule continuation_loop.raw_induct [where P = "\<lambda>body p r. \<not> (\<exists>path eof. p = at [] False path False eof)", rotated])
    fix f body p r
    assume IH: "\<And>body p r. f body p = Some r \<Longrightarrow> \<not> (\<exists>path eof. p = at [] False path False eof)"
      and run: "(case eatSpacesAndEmptyLines p of
        Inl e \<Rightarrow> Some (Inl e)
      | Inr (n, p1) \<Rightarrow>
          if n = 0 \<and> \<not> isBOL p1 then
            (case appendFieldBody (body @ [NL]) p1 of
               Inl e \<Rightarrow> Some (Inl e)
             | Inr (body', p2) \<Rightarrow> f (undot (length body + 1) body') p2)
          else Some (Inr (n, body, p1))) = Some r"
    show "\<not> (\<exists>path eof. p = at [] False path False eof)"
    proof
      assume "\<exists>path eof. p = at [] False path False eof"
      then obtain path eof where "p = at [] False path False eof" by blast
      with run have "f (undot (length body + 1) (trim_body (body @ [NL]))) (at [] False path False True) = Some r"
        by (auto simp: deb_scan)
      from IH [OF this] show False by blast
    qed
  qed
  then show False by blast
qed

lemma eat_at_text:
  "cs \<noteq> [] \<Longrightarrow> \<not> layout_char (hd cs) \<Longrightarrow> eatSpacesAndEmptyLines (at cs e path b eof) = Inr (0, at cs e path b eof)"
  by (cases cs) (auto simp: deb_scan)

lemma field_head:
  assumes "\<forall>c\<in>set name. name_char c"
  shows "getFieldName (at (name @ CHR '':'' # r) e path True eof) = Inr (name, at (CHR '':'' # r) e path True eof)"
    and "eatFieldSep (at (CHR '':'' # r) e path True eof) = Inr (at r e path True eof)"
  using assms takeWhile_stop [of name name_char "CHR '':''" r] dropWhile_stop [of name name_char "CHR '':''" r]
  by (simp_all add: deb_scan Let_def isblank_def)

lemma append_line:
  assumes "NL \<notin> set v"
  shows "appendFieldBody body (at (v @ NL # r) e path b eof) =
    Inr (trim_body (body @ dropWhile isblank v), at r e path True eof)"
proof -
  have drop: "dropWhile isblank (v @ NL # r) = dropWhile isblank v @ NL # r"
    by (induction v) auto
  have "\<forall>x\<in>set (dropWhile isblank v). x \<noteq> NL" using assms by (auto dest: set_dropWhileD)
  from takeWhile_stop [OF this, of NL r] dropWhile_stop [OF this, of NL r] drop show ?thesis
    by (simp add: deb_scan Let_def)
qed

lemma append_last_line:
  assumes "NL \<notin> set w"
  shows "appendFieldBody body (at w False path b eof) = Inr (trim_body (body @ dropWhile isblank w), at [] False path b True)"
proof -
  have "\<forall>x\<in>set (dropWhile isblank w). x \<noteq> NL" using assms by (auto dest: set_dropWhileD)
  then have "takeWhile (\<lambda>x. x \<noteq> NL) (dropWhile isblank w) = dropWhile isblank w"
    "dropWhile (\<lambda>x. x \<noteq> NL) (dropWhile isblank w) = []"
    by (simp_all only: takeWhile_eq_all_conv dropWhile_eq_Nil_conv)
  note lines = this
  show ?thesis by (simp only: appendFieldBody_eq Let_def lines simp_thms if_True if_False)
qed

text \<open>
  C24: a file whose last line is a continuation line without a newline makes \<open>nextRecord\<close> run
  forever: after the end of the file the flag for the beginning of a line stays false, no byte is
  left, and the loop over continuation lines appends newlines to the body without end.
\<close>

theorem unterminated_continuation_hangs:
  assumes "name \<noteq> []" and "\<forall>c\<in>set name. isalnum c" and "NL \<notin> set v" and "NL \<notin> set w"
    and "bl \<noteq> []" and "\<forall>c\<in>set bl. isblank c" and "w = [] \<or> \<not> isblank (hd w)"
  shows "\<exists>p. open_parser (file_of (name @ '':'' @ v @ [NL] @ bl @ w)) path = Inr p \<and> nextRecord p = None"
proof -
  let ?cs = "name @ CHR '':'' # v @ NL # bl @ w"
  have name: "\<forall>c\<in>set name. name_char c" using assms(2) by simp
  have "\<not> layout_char (hd ?cs)" using assms(1,2) by (cases name) (auto simp: cchars)
  then have opened: "open_parser (file_of ?cs) path = Inr (at ?cs False path True False)"
    by (simp add: open_parser_def eat_at_text)
  have hd: "w \<noteq> [] \<Longrightarrow> \<not> layout_char (hd w)" using assms(4,7) by (cases w) auto
  have lay: "\<forall>c\<in>set bl. layout_char c" using assms(6) by simp
  have stop: "w = [] \<or> \<not> layout_char (hd w)" using hd by blast
  have "takeWhile layout_char (bl @ w) = bl" "dropWhile layout_char (bl @ w) = w"
    by (rule span_stop [OF lay stop])+
  moreover have NL: "NL \<notin> set bl" using assms(6) isblank_NL by blast
  then have "count_list bl NL = 0" by (simp add: count_list_0_iff)
  moreover have "last bl \<noteq> NL" using last_in_set [OF assms(5)] NL by metis
  ultimately have eat: "eatSpacesAndEmptyLines (at (bl @ w) False path True False) = Inr (0, at w False path False (w = []))"
    using assms(5) by (simp add: deb_scan Let_def)
  have "continuation_loop body (at (bl @ w) False path True False) = None" for body
    by (subst continuation_loop.simps) (simp add: eat append_last_line assms(4) continuation_hangs)
  then have "read_field (at ?cs False path True False) = None"
    using assms(1,3) name
    by (simp add: read_field_def field_head append_line)
  then have "nextRecord (at ?cs False path True False) = None"
    by (simp add: nextRecord_def record_loop.simps)
  with opened show ?thesis by simp
qed

theorem unterminated_continuation_hangs_witness:
  "\<exists>p. open_parser (file_of (''Tag: x'' @ [NL] @ '' text'')) [] = Inr p \<and> nextRecord p = None"
  using unterminated_continuation_hangs [of "''Tag''" "'' x''" "''text''" "'' ''" "[]"]
  by (simp add: cchars)

subsection \<open>Files that end with a newline\<close>

text \<open>The invariant of a parser over a file whose last byte is a newline.\<close>

definition tidy :: "debdb \<Rightarrow> bool" where
  "tidy p \<longleftrightarrow> (if unread (inp p) = [] then isBOL p else last (unread (inp p)) = NL)"

definition left :: "debdb \<Rightarrow> nat" where
  "left p = length (unread (inp p))"

lemma last_dropWhile: "dropWhile P xs \<noteq> [] \<Longrightarrow> last (dropWhile P xs) = last xs"
  by (induction xs) auto

lemma eat_tidy:
  assumes "eatSpacesAndEmptyLines p = Inr (n, p')" "tidy p"
  shows "tidy p'" and "left p' \<le> left p"
proof -
  obtain cs e path b eof where p: "p = at cs e path b eof" by (rule debdb_cases)
  define ws where "ws = takeWhile layout_char cs"
  define rest where "rest = dropWhile layout_char cs"
  have split: "cs = ws @ rest" by (simp add: ws_def rest_def)
  have p': "p' = at rest e path (if ws = [] then b else last ws = NL) (eof \<or> rest = [])"
    using assms(1) by (simp add: p deb_scan Let_def ws_def rest_def del: dropWhile_eq_Nil_conv split: if_splits)
  show "tidy p'" "left p' \<le> left p"
    using assms(2) by (auto simp: p p' tidy_def left_def split last_append split: if_splits)
qed

lemma append_tidy:
  assumes "appendFieldBody body p = Inr (body', p')" "tidy p"
  shows "tidy p'" and "left p' \<le> left p" and "unread (inp p) \<noteq> [] \<Longrightarrow> left p' < left p"
proof -
  obtain cs e path b eof where p: "p = at cs e path b eof" by (rule debdb_cases)
  define s where "s = dropWhile isblank cs"
  define rest where "rest = dropWhile (\<lambda>x. x \<noteq> NL) s"
  have split: "cs = (takeWhile isblank cs @ takeWhile (\<lambda>x. x \<noteq> NL) s) @ rest"
    by (simp add: s_def rest_def)
  have "rest \<noteq> []" if "cs \<noteq> []"
  proof -
    have "NL \<in> set cs" using assms(2) that last_in_set [OF that] by (simp add: p tidy_def)
    then have "NL \<in> set s" by (metis UnE isblank_NL s_def set_append set_takeWhileD takeWhile_dropWhile_id)
    then show ?thesis by (auto simp: rest_def)
  qed
  then have cases: "cs = [] \<and> p' = at [] e path b True
    \<or> cs \<noteq> [] \<and> rest \<noteq> [] \<and> p' = at (tl rest) e path True eof"
    using assms(1) by (cases "cs = []")
      (auto simp: p appendFieldBody_eq Let_def s_def [symmetric] rest_def [symmetric]
        simp del: dropWhile_eq_Nil_conv split: if_splits)
  have len: "length rest \<le> length cs" by (metis split length_append le_add2)
  have "last rest = NL" if "rest \<noteq> []"
    using that assms(2) split by (metis append_is_Nil_conv debdb.select_convs(1) cfile.select_convs(1) last_appendR p tidy_def)
  with cases assms(2) len
  show "tidy p'" "left p' \<le> left p" "unread (inp p) \<noteq> [] \<Longrightarrow> left p' < left p"
    by (auto simp: p tidy_def left_def last_tl neq_Nil_conv)
qed

lemma continuation_ends:
  assumes "tidy p"
  shows "\<exists>r. continuation_loop body p = Some r
    \<and> (\<forall>n body' p'. r = Inr (n, body', p') \<longrightarrow> tidy p' \<and> left p' \<le> left p)"
  using assms
proof (induction "left p" arbitrary: body p rule: less_induct)
  case less
  show ?case
  proof (cases "eatSpacesAndEmptyLines p")
    case (Inl e)
    then show ?thesis by (simp add: continuation_loop.simps)
  next
    case (Inr r)
    obtain n p1 where eat: "eatSpacesAndEmptyLines p = Inr (n, p1)" using Inr by (cases r) auto
    note p1 = eat_tidy [OF eat less.prems]
    show ?thesis
    proof (cases "n = 0 \<and> \<not> isBOL p1")
      case False
      with eat p1 show ?thesis by (auto simp: continuation_loop.simps)
    next
      case True
      then have "unread (inp p1) \<noteq> []" using p1(1) by (auto simp: tidy_def)
      show ?thesis
      proof (cases "appendFieldBody (body @ [NL]) p1")
        case (Inl e)
        with eat True show ?thesis by (simp add: continuation_loop.simps)
      next
        case (Inr r2)
        obtain body' p2 where app: "appendFieldBody (body @ [NL]) p1 = Inr (body', p2)"
          using Inr by (cases r2) auto
        note p2 = append_tidy [OF app p1(1)]
        have "left p2 < left p" using p2(3) \<open>unread (inp p1) \<noteq> []\<close> p1(2) by simp
        from less.hyps [OF this p2(1), of "undot (length body + 1) body'"] eat True app p2 p1(2)
        show ?thesis by (subst continuation_loop.simps) fastforce
      qed
    qed
  qed
qed

lemma read_field_ends:
  assumes "tidy p"
  shows "\<exists>r. read_field p = Some r
    \<and> (\<forall>n field body p'. r = Inr (n, field, body, p') \<longrightarrow> tidy p' \<and> left p' < left p)"
proof -
  obtain cs e path b eof where p: "p = at cs e path b eof" by (rule debdb_cases)
  define rest where "rest = dropWhile name_char cs"
  have last_rest: "rest \<noteq> [] \<Longrightarrow> last rest = NL" and len: "length rest \<le> length cs"
    using assms last_dropWhile [of name_char cs]
    by (auto simp: rest_def p tidy_def length_dropWhile_le split: if_splits)
  show ?thesis
  proof (cases "getFieldName p")
    case (Inl err)
    then show ?thesis by (simp add: read_field_def)
  next
    case (Inr r)
    obtain field p1 where name: "getFieldName p = Inr (field, p1)" using Inr by (cases r) auto
    then have p1: "unread (inp p1) = rest"
      by (auto simp: p deb_scan Let_def rest_def simp del: dropWhile_eq_Nil_conv split: if_splits)
    show ?thesis
    proof (cases "eatFieldSep p1")
      case (Inl err)
      with name show ?thesis by (simp add: read_field_def)
    next
      case (Inr p2)
      obtain cs1 e1 path1 b1 eof1 where p1': "p1 = at cs1 e1 path1 b1 eof1" by (rule debdb_cases)
      define s where "s = dropWhile isblank rest"
      from Inr p1 obtain t where t: "s = CHR '':'' # t" "unread (inp p2) = t"
        by (auto simp: p1' eatFieldSep_eq s_def split: list.splits if_splits)
      then have "rest \<noteq> []" "last (CHR '':'' # t) = last rest"
        using last_dropWhile [of isblank rest] by (auto simp: s_def)
      then have last_t: "t \<noteq> []" "last t = NL" using last_rest by (auto split: if_splits)
      then have p2: "tidy p2" using t by (simp add: tidy_def)
      have "length s \<le> length rest" by (simp add: s_def length_dropWhile_le)
      then have "left p2 < left p" using t len by (simp add: left_def p)
      show ?thesis
      proof (cases "appendFieldBody [] p2")
        case (Inl err)
        with name Inr show ?thesis by (simp add: read_field_def)
      next
        case (Inr r3)
        obtain body p3 where app: "appendFieldBody [] p2 = Inr (body, p3)" using Inr by (cases r3) auto
        note p3 = append_tidy [OF app p2]
        from continuation_ends [OF p3(1), of body] obtain r4 where
          "continuation_loop body p3 = Some r4"
          "\<forall>n body' p'. r4 = Inr (n, body', p') \<longrightarrow> tidy p' \<and> left p' \<le> left p3" by blast
        with name \<open>eatFieldSep p1 = Inr p2\<close> app p3(2) \<open>left p2 < left p\<close> show ?thesis
          by (cases r4) (fastforce simp: read_field_def)+
      qed
    qed
  qed
qed

lemma record_loop_ends:
  assumes "tidy p"
  shows "\<exists>r. record_loop acc p = Some r \<and> (\<forall>rec p'. r = Inr (rec, p') \<longrightarrow> tidy p' \<and> left p' < left p)"
  using assms
proof (induction "left p" arbitrary: acc p rule: less_induct)
  case less
  obtain r where r: "read_field p = Some r"
    "\<And>n field body p'. r = Inr (n, field, body, p') \<Longrightarrow> tidy p' \<and> left p' < left p"
    using read_field_ends [OF less.prems] by blast
  show ?case
  proof (cases r)
    case (Inl e)
    with r show ?thesis by (simp add: record_loop.simps)
  next
    case (Inr q)
    obtain n field body p' where q: "q = (n, field, body, p')" by (cases q)
    with r(2) Inr have p': "tidy p'" "left p' < left p" by auto
    show ?thesis
    proof (cases "\<not> isEOF p' \<and> n = 0")
      case True
      then have "record_loop acc p = record_loop (omap_insert field body acc) p'"
        by (subst record_loop.simps) (simp add: r(1) Inr q Let_def)
      with less.hyps [OF p'(2,1), of "omap_insert field body acc"] p'(2) show ?thesis by fastforce
    next
      case False
      with r(1) Inr q p' show ?thesis by (subst record_loop.simps) (auto simp: Let_def)
    qed
  qed
qed

lemma record_loop_map_ok:
  assumes "record_loop acc p = Some res"
  shows "map_ok acc \<longrightarrow> (\<forall>r p'. res = Inr (r, p') \<longrightarrow> map_ok r)"
  using assms
proof (rule record_loop.raw_induct [rotated])
  fix f acc p res
  assume IH: "\<And>acc p res. f acc p = Some res \<Longrightarrow> map_ok acc \<longrightarrow> (\<forall>r p'. res = Inr (r, p') \<longrightarrow> map_ok r)"
    and run: "(case read_field p of
        None \<Rightarrow> None
      | Some (Inl e) \<Rightarrow> Some (Inl e)
      | Some (Inr (n, field, body, p')) \<Rightarrow>
          (let r' = omap_insert field body acc
           in if \<not> isEOF p' \<and> n = 0 then f r' p' else Some (Inr (r', p')))) = Some res"
  show "map_ok acc \<longrightarrow> (\<forall>r p'. res = Inr (r, p') \<longrightarrow> map_ok r)"
  proof
    assume ok: "map_ok acc"
    consider (err) e where "read_field p = Some (Inl e)"
      | (field) n field body p' where "read_field p = Some (Inr (n, field, body, p'))"
      using run by (cases "read_field p") (auto, metis obj_sumE prod_cases4)
    then show "\<forall>r p'. res = Inr (r, p') \<longrightarrow> map_ok r"
    proof cases
      case err
      with run show ?thesis by auto
    next
      case field
      have "map_ok (omap_insert field body acc)" using ok by simp
      with run IH [of "omap_insert field body acc" p' res] show ?thesis
        by (auto simp: field Let_def split: if_splits)
    qed
  qed
qed

lemma nextRecord_map_ok: "nextRecord p = Some (Inr (Some r, p')) \<Longrightarrow> map_ok r"
  by (auto simp: nextRecord_def dest: record_loop_map_ok split: if_splits option.splits sum.splits)

lemma nextRecord_ends:
  assumes "tidy p"
  shows "\<exists>r. nextRecord p = Some r \<and> (\<forall>rec p'. r = Inr (Some rec, p') \<longrightarrow> tidy p' \<and> left p' < left p)"
proof (cases "isEOF p")
  case True
  then show ?thesis by (simp add: nextRecord_def)
next
  case False
  obtain r where r: "record_loop [] p = Some r" "\<And>rec p'. r = Inr (rec, p') \<Longrightarrow> tidy p' \<and> left p' < left p"
    using record_loop_ends [OF assms] by blast
  with False show ?thesis by (cases r) (auto simp: nextRecord_def)
qed

lemma open_parser_tidy:
  assumes "open_parser f path = Inr p" "unread f = [] \<or> last (unread f) = NL"
  shows "tidy p" and "left p \<le> length (unread f)"
proof -
  let ?p0 = "\<lparr>inp = f, pathname = path, isBOL = True, isEOF = False\<rparr>"
  obtain n where eat: "eatSpacesAndEmptyLines ?p0 = Inr (n, p)"
    using assms(1) by (auto simp: open_parser_def split: sum.splits)
  have "tidy ?p0" using assms(2) by (auto simp: tidy_def)
  from eat_tidy [OF eat this] show "tidy p" "left p \<le> length (unread f)"
    by (simp_all add: left_def)
qed

text \<open>
  C13: on a file whose last byte is a newline the parser always comes to an end: opening it and
  then asking for a record returns a record, the end of the file or an error, and a record leaves
  the parser with fewer bytes and in a state from which the same holds.
\<close>

theorem nextRecord_terminates:
  assumes "open_parser f path = Inr p" and "unread f = [] \<or> last (unread f) = NL"
  shows "tidy p \<and> (\<forall>q. tidy q \<longrightarrow> (\<exists>r. nextRecord q = Some r
      \<and> (\<forall>rec q'. r = Inr (Some rec, q') \<longrightarrow> tidy q' \<and> left q' < left q)))"
  using open_parser_tidy [OF assms] nextRecord_ends by blast

theorem nextRecord_terminates_witness:
  "\<exists>r. nextRecord (at (''Tag: x'' @ [NL]) False [] True False) = Some r"
proof -
  have o: "open_parser (file_of (''Tag: x'' @ [NL])) [] = Inr (at (''Tag: x'' @ [NL]) False [] True False)"
    by (simp add: open_parser_def eat_at_text isblank_def)
  have l: "unread (file_of (''Tag: x'' @ [NL])) = [] \<or> last (unread (file_of (''Tag: x'' @ [NL]))) = NL"
    by simp
  from nextRecord_terminates [OF o l] show ?thesis by blast
qed

subsection \<open>Well-formed records\<close>

text \<open>A field as a name and the lines of its value, its value, and its text in a file.\<close>

type_synonym field = "string \<times> string list"

definition line_text_ok :: "string \<Rightarrow> bool" where
  "line_text_ok l \<longleftrightarrow> NL \<notin> set l \<and> (l = [] \<or> \<not> isblank (hd l) \<and> \<not> isblank (last l))"

definition field_ok :: "field \<Rightarrow> bool" where
  "field_ok fl \<longleftrightarrow> (\<forall>c\<in>set (fst fl). name_char c) \<and> snd fl \<noteq> []
     \<and> (\<forall>l\<in>set (snd fl). line_text_ok l) \<and> ''.'' \<notin> set (tl (snd fl))"

definition conts_value :: "string list \<Rightarrow> string" where
  "conts_value ls = concat (map (\<lambda>l. NL # l) ls)"

definition field_value :: "field \<Rightarrow> string" where
  "field_value fl = hd (snd fl) @ conts_value (tl (snd fl))"

definition cont_text :: "string \<Rightarrow> string" where
  "cont_text l = (if l = [] then '' .'' else '' '' @ l) @ [NL]"

definition field_text :: "field \<Rightarrow> string" where
  "field_text fl = fst fl @ '': '' @ hd (snd fl) @ [NL] @ concat (map cont_text (tl (snd fl)))"

definition insert_fields :: "field list \<Rightarrow> deb_record \<Rightarrow> deb_record" where
  "insert_fields fs r = fold (\<lambda>fl r. omap_insert (fst fl) (field_value fl) r) fs r"

lemma trim_body_keep: "body \<noteq> [] \<Longrightarrow> \<not> isblank (last body) \<Longrightarrow> trim_body body = body"
  by (cases body rule: rev_cases) (auto simp: trim_body_def)

lemma trim_body_line: "line_text_ok l \<Longrightarrow> trim_body l = l"
  by (cases "l = []") (auto simp: line_text_ok_def trim_body_keep, simp add: trim_body_def)

lemma skip_line: "line_text_ok l \<Longrightarrow> dropWhile isblank l = l"
  by (cases l) (auto simp: line_text_ok_def)

lemma append_cont:
  assumes "NL \<notin> set x" "x \<noteq> []" "\<not> isblank (hd x)" "\<not> isblank (last x)"
  shows "appendFieldBody (body @ [NL]) (at (x @ NL # r) e path b eof) = Inr (body @ NL # x, at r e path True eof)"
proof -
  have "dropWhile isblank x = x" using assms(2,3) by (cases x) auto
  moreover have "trim_body (body @ NL # x) = body @ NL # x" using assms(2,4) by (intro trim_body_keep) auto
  ultimately show ?thesis using append_line [OF assms(1)] by simp
qed

lemma continuation_lines:
  assumes eat: "eatSpacesAndEmptyLines (at rest e path True False) = Inr (n, p')" "n \<noteq> 0 \<or> isBOL p'"
    and ok: "\<forall>l\<in>set ls. line_text_ok l" "''.'' \<notin> set ls"
  shows "continuation_loop body (at (concat (map cont_text ls) @ rest) e path True False)
    = Some (Inr (n, body @ conts_value ls, p'))"
  using ok
proof (induction ls arbitrary: body)
  case Nil
  then show ?case using eat by (subst continuation_loop.simps) (auto simp: conts_value_def)
next
  case (Cons l ls)
  define x where "x = (if l = [] then ''.'' else l)"
  have x: "NL \<notin> set x" "x \<noteq> []" "\<not> isblank (hd x)" "\<not> isblank (last x)"
    using Cons.prems(1) by (auto simp: x_def line_text_ok_def isblank_def)
  define r where "r = concat (map cont_text ls) @ rest"
  have layout: "concat (map cont_text (l # ls)) @ rest = CHR '' '' # x @ NL # r"
    by (simp add: cont_text_def x_def r_def)
  have "\<not> layout_char (hd x)" using x by (cases x) auto
  then have "takeWhile layout_char (CHR '' '' # x @ NL # r) = '' ''"
    "dropWhile layout_char (CHR '' '' # x @ NL # r) = x @ NL # r"
    using x(2) span_stop [of "'' ''" layout_char "x @ NL # r"] by (auto simp: isblank_def)
  then have "eatSpacesAndEmptyLines (at (CHR '' '' # x @ NL # r) e path True False)
      = Inr (0, at (x @ NL # r) e path False False)"
    using x(2) by (simp only: eat_eq Let_def) simp
  moreover have "undot (length body + 1) (body @ NL # x) = body @ NL # l"
    using Cons.prems(2) by (auto simp: undot_def x_def length_Suc_conv butlast_append)
  ultimately show ?case
    unfolding layout using Cons.IH [of "body @ NL # l"] Cons.prems append_cont [OF x]
    by (subst continuation_loop.simps) (simp add: r_def conts_value_def)
qed

lemma read_field_text:
  assumes eat: "eatSpacesAndEmptyLines (at rest e path True False) = Inr (n, p')" "n \<noteq> 0 \<or> isBOL p'"
    and ok: "field_ok fl"
  shows "read_field (at (field_text fl @ rest) e path True False) = Some (Inr (n, fst fl, field_value fl, p'))"
proof -
  let ?v = "hd (snd fl)" and ?ls = "tl (snd fl)"
  have v: "line_text_ok ?v" "NL \<notin> set ?v"
    using ok by (auto simp: field_ok_def line_text_ok_def)
  have ls: "\<forall>l\<in>set ?ls. line_text_ok l" "''.'' \<notin> set ?ls"
    using ok by (auto simp: field_ok_def dest: list.set_sel(2))
  have drop: "isblank CHR '' ''" "dropWhile isblank ?v = ?v"
    using v skip_line [OF v(1)] by (auto simp: isblank_def)
  have NL: "NL \<notin> set (CHR '' '' # ?v)" using v by simp
  have name: "\<forall>c\<in>set (fst fl). name_char c" using ok by (auto simp: field_ok_def)
  have layout: "field_text fl @ rest = fst fl @ CHR '':'' # (CHR '' '' # ?v) @ NL # concat (map cont_text ?ls) @ rest"
    by (simp add: field_text_def)
  show ?thesis
    unfolding layout read_field_def
    by (simp add: field_head [OF name] append_line [OF NL] drop trim_body_line [OF v(1)]
        continuation_lines [OF eat ls] field_value_def del: append_Cons)
qed

lemma field_text_head:
  assumes "field_ok fl"
  shows "field_text fl @ r \<noteq> []" "\<not> layout_char (hd (field_text fl @ r))"
proof -
  have "hd (field_text fl @ r) = CHR '':'' \<or> hd (field_text fl @ r) \<in> set (fst fl)"
    by (cases "fst fl") (auto simp: field_text_def)
  moreover have "\<not> layout_char c" if "c \<in> set (fst fl)" for c
  proof -
    have "name_char c" using assms that by (simp add: field_ok_def)
    then show ?thesis using name_char_facts(1) [of c] by (cases "c = NL") simp_all
  qed
  moreover have "\<not> layout_char CHR '':''" by (simp add: isblank_def)
  ultimately show "\<not> layout_char (hd (field_text fl @ r))" by metis
  show "field_text fl @ r \<noteq> []" by (simp add: field_text_def)
qed

text \<open>
  The text of a record is that of its fields and an empty line; what follows it is the end of the
  file or the first field of another record.
\<close>

definition starts_field :: "string \<Rightarrow> bool" where
  "starts_field r \<longleftrightarrow> r = [] \<or> \<not> layout_char (hd r)"

lemma eat_blank_line:
  assumes "starts_field r"
  shows "eatSpacesAndEmptyLines (at (NL # r) False path True False) = Inr (1, at r False path True (r = []))"
proof -
  have "takeWhile layout_char r = []" "dropWhile layout_char r = r"
    using assms by (cases r; auto simp: starts_field_def)+
  then show ?thesis by (simp add: eat_eq Let_def)
qed

lemma record_loop_text:
  assumes "starts_field r" "fs \<noteq> []" "\<forall>fl\<in>set fs. field_ok fl"
  shows "record_loop acc (at (concat (map field_text fs) @ NL # r) False path True False)
    = Some (Inr (insert_fields fs acc, at r False path True (r = [])))"
  using assms(2,3)
proof (induction fs arbitrary: acc)
  case Nil
  then show ?case by simp
next
  case (Cons fl fs)
  then have fl: "field_ok fl" by simp
  show ?case
  proof (cases "fs = []")
    case True
    with read_field_text [OF eat_blank_line [OF assms(1), of path] _ fl] show ?thesis
      by (subst record_loop.simps) (simp add: insert_fields_def)
  next
    case False
    let ?t = "concat (map field_text fs) @ NL # r"
    obtain fl' fs' where fs: "fs = fl' # fs'" using False by (cases fs) blast+
    have "field_ok fl'" using Cons.prems by (simp add: fs)
    from field_text_head [OF this] have "?t \<noteq> [] \<and> \<not> layout_char (hd ?t)"
      unfolding fs list.map concat.simps append_assoc by blast
    then have eat: "eatSpacesAndEmptyLines (at ?t False path True False) = Inr (0, at ?t False path True False)"
      by (intro eat_at_text) auto
    show ?thesis
      using read_field_text [OF eat _ fl] Cons.IH [OF False] Cons.prems
      by (subst record_loop.simps) (simp add: insert_fields_def)
  qed
qed

lemma nextRecord_text:
  assumes "starts_field r" "fs \<noteq> []" "\<forall>fl\<in>set fs. field_ok fl"
  shows "nextRecord (at (concat (map field_text fs) @ NL # r) False path True False)
    = Some (Inr (Some (insert_fields fs []), at r False path True (r = [])))"
  by (simp add: nextRecord_def record_loop_text [OF assms])

lemma starts_field_text: "field_ok fl \<Longrightarrow> starts_field (field_text fl @ r)"
  by (simp add: starts_field_def field_text_head)

lemma open_parser_text:
  "starts_field cs \<Longrightarrow> open_parser (file_of cs) path = Inr (at cs False path True (cs = []))"
  by (cases cs) (auto simp: open_parser_def starts_field_def deb_scan)

end
