(* ===== verification/Vocabulary.thy ===== *)
theory Vocabulary
  imports DebDB
begin

section \<open>The tag vocabulary (ept/debtags/vocabulary.cc)\<close>

text \<open>
  \<open>Vocabulary\<close> holds facets and their tags, each with the fields of its record and a cached short
  description, and reads them from and writes them to the format that \<open>DebDBParser\<close> parses.
  \<open>FacetData\<close> extends \<open>Data\<close> with its tags, so it is a record extension here.  A reference that
  \<open>obtainFacet\<close> or \<open>obtainTag\<close> returns is the key under which the caller updates the entry.
\<close>

record data =
  entries :: deb_record
  m_desc :: string
  voc_name :: string

record facet_data = data +
  m_tags :: "(string, data) omap"

record vocabulary =
  m_facets :: "(string, facet_data) omap"
  m_timestamp :: int

datatype voc_error = VocParse deb_error | VocAssert | VocCannotOpen string

definition new_tag :: "string \<Rightarrow> data" where
  "new_tag n = \<lparr>entries = [], m_desc = [], voc_name = n\<rparr>"

definition new_facet :: "string \<Rightarrow> facet_data" where
  "new_facet n = \<lparr>entries = [], m_desc = [], voc_name = n, m_tags = []\<rparr>"

definition new_vocabulary :: vocabulary where
  "new_vocabulary = \<lparr>m_facets = [], m_timestamp = 0\<rparr>"

subsection \<open>Facets and tags\<close>

definition getfacet :: "string \<Rightarrow> string" where
  "getfacet tagname =
     (case str_find tagname ''::'' 0 of None \<Rightarrow> ''legacy'' | Some p \<Rightarrow> substr tagname 0 p)"

definition longDescription :: "'a data_scheme \<Rightarrow> string" where
  "longDescription d = (case omap_find (entries d) ''Description'' of None \<Rightarrow> [] | Some v \<Rightarrow> v)"

text \<open>The description with the object as the call leaves it: the cache is a mutable member.\<close>

definition shortDescription :: "'a data_scheme \<Rightarrow> string \<times> 'a data_scheme" where
  "shortDescription d =
     (if m_desc d = [] then
        (let ld = longDescription d
         in if ld = [] then (ld, d)
            else (let s = (case str_find ld [NL] 0 of None \<Rightarrow> ld | Some pos \<Rightarrow> substr ld 0 pos)
                  in (s, d\<lparr>m_desc := s\<rparr>)))
      else (m_desc d, d))"

definition facet_hasTag :: "facet_data \<Rightarrow> string \<Rightarrow> bool" where
  "facet_hasTag f n \<longleftrightarrow> omap_find (m_tags f) n \<noteq> None"

definition facet_tagData :: "facet_data \<Rightarrow> string \<Rightarrow> data option" where
  "facet_tagData f n = omap_find (m_tags f) n"

definition facet_tags :: "facet_data \<Rightarrow> string oset" where
  "facet_tags f = fold (\<lambda>(t, d). oset_insert t) (m_tags f) []"

definition facet_obtainTag :: "string \<Rightarrow> facet_data \<Rightarrow> facet_data" where
  "facet_obtainTag n f =
     (case omap_find (m_tags f) n of
        None \<Rightarrow> f\<lparr>m_tags := omap_insert n (new_tag n) (m_tags f)\<rparr>
      | Some _ \<Rightarrow> f)"

subsection \<open>The vocabulary\<close>

definition obtainFacet :: "string \<Rightarrow> vocabulary \<Rightarrow> vocabulary" where
  "obtainFacet n v =
     (case omap_find (m_facets v) n of
        None \<Rightarrow> v\<lparr>m_facets := omap_insert n (new_facet n) (m_facets v)\<rparr>
      | Some _ \<Rightarrow> v)"

text \<open>What a caller does through the references that \<open>obtainFacet\<close> and \<open>obtainTag\<close> return.\<close>

definition upd_facet :: "(facet_data \<Rightarrow> facet_data) \<Rightarrow> string \<Rightarrow> vocabulary \<Rightarrow> vocabulary" where
  "upd_facet g n v =
     (case omap_find (m_facets v) n of
        None \<Rightarrow> v
      | Some f \<Rightarrow> v\<lparr>m_facets := omap_set n (g f) (m_facets v)\<rparr>)"

definition upd_tag :: "(data \<Rightarrow> data) \<Rightarrow> string \<Rightarrow> facet_data \<Rightarrow> facet_data" where
  "upd_tag g n f =
     (case omap_find (m_tags f) n of
        None \<Rightarrow> f
      | Some d \<Rightarrow> f\<lparr>m_tags := omap_set n (g d) (m_tags f)\<rparr>)"

definition obtainTag :: "string \<Rightarrow> vocabulary \<Rightarrow> vocabulary" where
  "obtainTag fullname v =
     upd_facet (facet_obtainTag fullname) (getfacet fullname) (obtainFacet (getfacet fullname) v)"

definition facetData :: "vocabulary \<Rightarrow> string \<Rightarrow> facet_data option" where
  "facetData v n = omap_find (m_facets v) n"

definition hasFacet :: "vocabulary \<Rightarrow> string \<Rightarrow> bool" where
  "hasFacet v n \<longleftrightarrow> omap_find (m_facets v) n \<noteq> None"

definition voc_hasTag :: "vocabulary \<Rightarrow> string \<Rightarrow> bool" where
  "voc_hasTag v n =
     (case facetData v (getfacet n) of None \<Rightarrow> False | Some f \<Rightarrow> facet_hasTag f n)"

definition voc_tagData :: "vocabulary \<Rightarrow> string \<Rightarrow> data option" where
  "voc_tagData v n =
     (case facetData v (getfacet n) of None \<Rightarrow> None | Some f \<Rightarrow> facet_tagData f n)"

definition facets :: "vocabulary \<Rightarrow> string oset" where
  "facets v = fold (\<lambda>(n, f). oset_insert n) (m_facets v) []"

definition voc_tags :: "vocabulary \<Rightarrow> string oset" where
  "voc_tags v = fold (\<lambda>(n, f). fold (\<lambda>(t, d). oset_insert t) (m_tags f)) (m_facets v) []"

definition tags_of_facet :: "vocabulary \<Rightarrow> string \<Rightarrow> string oset" where
  "tags_of_facet v n = (case facetData v n of None \<Rightarrow> [] | Some f \<Rightarrow> facet_tags f)"

definition hasData :: "vocabulary \<Rightarrow> bool" where
  "hasData v \<longleftrightarrow> m_timestamp v \<noteq> 0"

definition voc_empty :: "vocabulary \<Rightarrow> bool" where
  "voc_empty v \<longleftrightarrow> m_facets v = []"

subsection \<open>Reading\<close>

text \<open>The loop that merges the fields of a record into an entry, except the one that names it.\<close>

definition merge_data :: "string \<Rightarrow> deb_record \<Rightarrow> 'a data_scheme \<Rightarrow> 'a data_scheme" where
  "merge_data skip r d =
     fold (\<lambda>(k, x) d. if k \<noteq> skip then d\<lparr>entries := omap_set k x (entries d)\<rparr> else d) r d"

text \<open>The body of the loop of \<open>read\<close>; the list holds the lines sent to \<open>stderr\<close>.\<close>

definition read_record ::
  "string \<Rightarrow> deb_record \<Rightarrow> vocabulary \<times> string list \<Rightarrow> voc_error + (vocabulary \<times> string list)" where
  "read_record path r s =
     (case s of (v, log) \<Rightarrow>
       (case (omap_find r ''Facet'', omap_find r ''Tag'') of
          (Some fi, _) \<Rightarrow>
            (let v1 = obtainFacet fi v
             in if map_option voc_name (facetData v1 fi) \<noteq> Some fi then Inl VocAssert
                else Inr (upd_facet (merge_data ''Facet'' r) fi v1, log))
        | (None, Some ti) \<Rightarrow>
            Inr (upd_facet (upd_tag (merge_data ''Tag'' r) ti) (getfacet ti) (obtainTag ti v), log)
        | (None, None) \<Rightarrow>
            Inr (v, log @ [path @ '': Skipping record without Tag or Facet field'' @ [NL]])))"

text \<open>
  The result holds the exception that ended the loop, if any, with the vocabulary as it is then;
  \<open>None\<close> is a loop that does not end.
\<close>

partial_function (option) read_loop ::
  "debdb \<Rightarrow> vocabulary \<times> string list \<Rightarrow> (voc_error option \<times> vocabulary \<times> string list) option" where
  "read_loop p s =
     (case nextRecord p of
        None \<Rightarrow> None
      | Some (Inl e) \<Rightarrow> Some (Some (VocParse e), s)
      | Some (Inr (None, p')) \<Rightarrow> Some (None, s)
      | Some (Inr (Some r, p')) \<Rightarrow>
          (case read_record (pathname p') r s of
             Inl e \<Rightarrow> Some (Some e, s)
           | Inr s' \<Rightarrow> read_loop p' s'))"

definition voc_read ::
  "cfile \<Rightarrow> string \<Rightarrow> vocabulary \<Rightarrow> (voc_error option \<times> vocabulary \<times> string list) option" where
  "voc_read input path v =
     (case open_parser input path of
        Inl e \<Rightarrow> Some (Some (VocParse e), v, [])
      | Inr p \<Rightarrow> read_loop p (v, []))"

text \<open>
  \<open>load\<close> and the constructor, over the file system: \<open>fopen path\<close> is the open file or \<open>None\<close>.
\<close>

definition voc_load ::
  "(string \<Rightarrow> bool) \<Rightarrow> (string \<Rightarrow> cfile option) \<Rightarrow> (string \<Rightarrow> int) \<Rightarrow> string \<Rightarrow> vocabulary
    \<Rightarrow> (voc_error option \<times> vocabulary \<times> string list) option" where
  "voc_load exists fopen timestamp path v =
     (if \<not> exists path then Some (None, v, [])
      else case fopen path of
        None \<Rightarrow> Some (Some (VocCannotOpen path), v, [])
      | Some input \<Rightarrow>
          (case voc_read input path v of
             None \<Rightarrow> None
           | Some (Some e, v', log) \<Rightarrow> Some (Some e, v', log)
           | Some (None, v', log) \<Rightarrow> Some (None, v'\<lparr>m_timestamp := timestamp path\<rparr>, log)))"

definition voc_pathname :: "(string \<Rightarrow> string option) \<Rightarrow> string" where
  "voc_pathname getenv =
     (case getenv ''DEBTAGS_VOCABULARY'' of None \<Rightarrow> ''/var/lib/debtags/vocabulary'' | Some res \<Rightarrow> res)"

subsection \<open>Writing\<close>

fun escape_loop :: "bool \<Rightarrow> string \<Rightarrow> string" where
  "escape_loop was_nl [] = []"
| "escape_loop was_nl (c # cs) =
     (if was_nl then
        (if c = NL then '' .'' @ [c] @ escape_loop True cs
         else if c \<noteq> CHR '' '' \<and> c \<noteq> TAB then '' '' @ [c] @ escape_loop False cs
         else c # escape_loop False cs)
      else if c = NL then c # escape_loop True cs
      else c # escape_loop False cs)"

definition writeDebStyleField :: "string \<Rightarrow> string \<Rightarrow> string" where
  "writeDebStyleField n val = n @ '': '' @ escape_loop False val @ [NL]"

definition write_tag :: "string \<times> data \<Rightarrow> string" where
  "write_tag t = writeDebStyleField ''Tag'' (fst t)
     @ concat (map (\<lambda>j. writeDebStyleField (fst j) (snd j)) (entries (snd t))) @ [NL]"

definition write_facet :: "string \<times> facet_data \<Rightarrow> string" where
  "write_facet f = writeDebStyleField ''Facet'' (fst f)
     @ concat (map (\<lambda>j. writeDebStyleField (fst j) (snd j)) (entries (snd f))) @ [NL]
     @ concat (map write_tag (m_tags (snd f)))"

definition voc_write :: "vocabulary \<Rightarrow> string" where
  "voc_write v = concat (map write_facet (m_facets v))"

subsection \<open>Registries of named entries\<close>

text \<open>
  The contract that \<open>obtainFacet\<close> of a vocabulary and \<open>obtainTag\<close> of a facet share: an entry is
  created under its name when it is missing, and then updated through the reference.
\<close>

locale registry =
  fixes obtain_entry :: "string \<Rightarrow> 's \<Rightarrow> 's"
    and update_entry :: "('e \<Rightarrow> 'e) \<Rightarrow> string \<Rightarrow> 's \<Rightarrow> 's"
    and lookup :: "'s \<Rightarrow> string \<Rightarrow> 'e option"
    and fresh :: "string \<Rightarrow> 'e"
    and good :: "'s \<Rightarrow> bool"
  assumes lookup_obtain: "good s \<Longrightarrow> lookup (obtain_entry n s) m =
      (if m = n \<and> lookup s n = None then Some (fresh n) else lookup s m)"
    and lookup_update: "good s \<Longrightarrow> lookup (update_entry g n s) m =
      (if m = n then map_option g (lookup s n) else lookup s m)"
    and good_obtain: "good s \<Longrightarrow> good (obtain_entry n s)"
    and good_update: "good s \<Longrightarrow> good (update_entry g n s)"
begin

definition entry :: "'s \<Rightarrow> string \<Rightarrow> 'e" where
  "entry s n = (case lookup s n of None \<Rightarrow> fresh n | Some e \<Rightarrow> e)"

lemma obtain_finds: "good s \<Longrightarrow> lookup (obtain_entry n s) n = Some (entry s n)"
  by (simp add: lookup_obtain entry_def split: option.split)

lemma lookup_changed:
  "good s \<Longrightarrow> lookup (update_entry g n (obtain_entry n s)) m =
    (if m = n then Some (g (entry s n)) else lookup s m)"
  by (simp add: lookup_update good_obtain obtain_finds) (simp add: lookup_obtain)

lemma good_changed: "good s \<Longrightarrow> good (update_entry g n (obtain_entry n s))"
  by (simp add: good_update good_obtain)

lemma entry_ind:
  "(\<And>e. lookup s n = Some e \<Longrightarrow> P e) \<Longrightarrow> P (fresh n) \<Longrightarrow> P (entry s n)"
  by (simp add: entry_def split: option.split)

end

interpretation facet_reg: registry obtainFacet upd_facet facetData new_facet "\<lambda>v. map_ok (m_facets v)"
  by unfold_locales
    (auto simp: obtainFacet_def upd_facet_def facetData_def split: option.splits)

interpretation tag_reg: registry facet_obtainTag upd_tag facet_tagData new_tag "\<lambda>f. map_ok (m_tags f)"
  by unfold_locales
    (auto simp: facet_obtainTag_def upd_tag_def facet_tagData_def split: option.splits)

subsection \<open>Merging a record into an entry\<close>

lemma merge_data_Cons:
  "merge_data skip ((k, x) # r) d =
     merge_data skip r (if k \<noteq> skip then d\<lparr>entries := omap_set k x (entries d)\<rparr> else d)"
  by (simp add: merge_data_def)

lemma merge_data_Nil [simp]: "merge_data skip [] d = d"
  by (simp add: merge_data_def)

lemma merge_data_keeps [simp]:
  shows "m_desc (merge_data skip r d) = m_desc d"
    and "voc_name (merge_data skip r d) = voc_name d"
    and "data.more (merge_data skip r d) = data.more d"
  by (induction r arbitrary: d) (auto simp: merge_data_Cons)

lemma merge_data_m_tags [simp]: "m_tags (merge_data skip r f) = m_tags f"
  by (induction r arbitrary: f) (auto simp: merge_data_Cons)

lemma merge_data_ok [simp]: "map_ok (entries d) \<Longrightarrow> map_ok (entries (merge_data skip r d))"
  by (induction r arbitrary: d) (auto simp: merge_data_Cons intro: map_ok_omap_set)

lemma merge_data_find:
  "map_ok (entries d) \<Longrightarrow> map_ok r \<Longrightarrow> omap_find (entries (merge_data skip r d)) k =
     (if k = skip \<or> omap_find r k = None then omap_find (entries d) k else omap_find r k)"
proof (induction r arbitrary: d)
  case Nil
  then show ?case by (simp add: merge_data_def)
next
  case (Cons kx r)
  obtain k' x where kx: "kx = (k', x)" by (cases kx)
  have "omap_find r k' = None"
    using Cons.prems(2) by (auto simp: kx omap_find_None)
  moreover have "omap_find (kx # r) k = (if k = k' then Some x else omap_find r k)"
    by (simp add: kx omap_find_def)
  ultimately show ?case
    using Cons.prems Cons.IH [of "if k' \<noteq> skip then d\<lparr>entries := omap_set k' x (entries d)\<rparr> else d"]
    by (auto simp: kx merge_data_Cons map_ok_omap_set)
qed

subsection \<open>The invariant\<close>

definition data_inv :: "string \<Rightarrow> 'a data_scheme \<Rightarrow> bool" where
  "data_inv n d \<longleftrightarrow> voc_name d = n \<and> map_ok (entries d) \<and> omap_find (entries d) ''Facet'' = None"

definition tag_inv :: "string \<Rightarrow> string \<Rightarrow> data \<Rightarrow> bool" where
  "tag_inv n t d \<longleftrightarrow> getfacet t = n \<and> data_inv t d \<and> omap_find (entries d) ''Tag'' = None"

definition facet_inv :: "string \<Rightarrow> facet_data \<Rightarrow> bool" where
  "facet_inv n f \<longleftrightarrow> data_inv n f \<and> map_ok (m_tags f) \<and> (\<forall>(t, d)\<in>set (m_tags f). tag_inv n t d)"

definition voc_inv :: "vocabulary \<Rightarrow> bool" where
  "voc_inv v \<longleftrightarrow> map_ok (m_facets v) \<and> (\<forall>(n, f)\<in>set (m_facets v). facet_inv n f)"

lemma facet_inv_iff:
  "facet_inv n f \<longleftrightarrow> data_inv n f \<and> map_ok (m_tags f) \<and> (\<forall>t d. facet_tagData f t = Some d \<longrightarrow> tag_inv n t d)"
  unfolding facet_inv_def facet_tagData_def by (auto simp: omap_find_in_set)

lemma voc_inv_iff:
  "voc_inv v \<longleftrightarrow> map_ok (m_facets v) \<and> (\<forall>n f. facetData v n = Some f \<longrightarrow> facet_inv n f)"
  unfolding voc_inv_def facetData_def by (auto simp: omap_find_in_set)

lemma voc_inv_D:
  "voc_inv v \<Longrightarrow> map_ok (m_facets v)"
  "voc_inv v \<Longrightarrow> facetData v n = Some f \<Longrightarrow> facet_inv n f"
  by (auto simp: voc_inv_iff)

lemma new_facet_inv [simp]: "facet_inv n (new_facet n)"
  by (simp add: facet_inv_def data_inv_def new_facet_def)

lemma new_tag_inv [simp]: "getfacet t = n \<Longrightarrow> tag_inv n t (new_tag t)"
  by (simp add: tag_inv_def data_inv_def new_tag_def)

lemma new_vocabulary_inv [simp]: "voc_inv new_vocabulary"
  by (simp add: voc_inv_def new_vocabulary_def)

lemma entry_invs:
  "voc_inv v \<Longrightarrow> facet_inv n (facet_reg.entry v n)"
  "facet_inv n f \<Longrightarrow> getfacet t = n \<Longrightarrow> tag_inv n t (tag_reg.entry f t)"
  by (rule facet_reg.entry_ind; simp add: voc_inv_iff) (rule tag_reg.entry_ind; simp add: facet_inv_iff)

subsection \<open>Queries\<close>

lemma fold_insert_keys: "fold (\<lambda>(t, d). oset_insert t) m s = fold oset_insert (map fst m) s"
  by (induction m arbitrary: s) auto

lemma keys_iff: "t \<in> fst ` set m \<longleftrightarrow> omap_find m t \<noteq> None"
  by (simp add: omap_find_None)

lemma facet_tags_keys [simp]: "set (facet_tags f) = fst ` set (m_tags f)" "ordered (facet_tags f)"
  by (simp_all add: facet_tags_def fold_insert_keys os.elems_fold os.good_fold)

lemma facets_keys [simp]: "set (facets v) = fst ` set (m_facets v)" "ordered (facets v)"
  by (simp_all add: facets_def fold_insert_keys os.elems_fold os.good_fold)

lemma facets_iff: "n \<in> set (facets v) \<longleftrightarrow> facetData v n \<noteq> None"
  by (simp add: facetData_def keys_iff)

abbreviation insert_tags :: "(string, facet_data) omap \<Rightarrow> string oset \<Rightarrow> string oset" where
  "insert_tags fs s \<equiv> fold (\<lambda>(n, f). fold (\<lambda>(t, d). oset_insert t) (m_tags f)) fs s"

lemma ordered_insert_tags: "ordered s \<Longrightarrow> ordered (insert_tags fs s)"
  by (induction fs arbitrary: s) (auto simp: fold_insert_keys os.good_fold)

lemma in_insert_tags:
  "ordered s \<Longrightarrow> t \<in> set (insert_tags fs s) \<longleftrightarrow> t \<in> set s \<or> (\<exists>nf\<in>set fs. t \<in> fst ` set (m_tags (snd nf)))"
proof (induction fs arbitrary: s)
  case (Cons nf fs)
  then show ?case
    using Cons.IH [OF os.good_fold [OF Cons.prems, of "map fst (m_tags (snd nf))"]]
    by (cases nf) (simp add: fold_insert_keys os.elems_fold [OF Cons.prems] disj_ac)
qed simp

lemma voc_tags_iff:
  assumes "voc_inv v"
  shows "t \<in> set (voc_tags v) \<longleftrightarrow> voc_tagData v t \<noteq> None"
proof -
  have "t \<in> set (voc_tags v) \<longleftrightarrow> (\<exists>nf\<in>set (m_facets v). t \<in> fst ` set (m_tags (snd nf)))"
    using in_insert_tags [of "[]" t "m_facets v"] by (simp add: voc_tags_def)
  also have "\<dots> \<longleftrightarrow> (\<exists>n f. (n, f) \<in> set (m_facets v) \<and> t \<in> fst ` set (m_tags f))"
    unfolding Bex_def split_paired_Ex by simp
  also have "\<dots> \<longleftrightarrow> (\<exists>n f. facetData v n = Some f \<and> facet_tagData f t \<noteq> None)"
    unfolding facetData_def facet_tagData_def omap_find_in_set [OF voc_inv_D(1) [OF assms]] keys_iff ..
  also have "\<dots> \<longleftrightarrow> (\<exists>f. facetData v (getfacet t) = Some f \<and> facet_tagData f t \<noteq> None)"
  proof -
    have "getfacet t = n" if "facetData v n = Some f" "facet_tagData f t = Some d" for n f d
      using voc_inv_D(2) [OF assms that(1)] that(2) by (simp add: facet_inv_iff tag_inv_def)
    then show ?thesis by blast
  qed
  finally show ?thesis by (auto simp: voc_tagData_def split: option.splits)
qed

text \<open>
  on a vocabulary that keeps its invariant the queries agree with one another: \<open>hasTag\<close>,
  \<open>tagData\<close> and \<open>tags\<close> name the same tags, \<open>tags(facet)\<close> those whose name puts them into the facet,
  \<open>hasFacet\<close>, \<open>facetData\<close> and \<open>facets\<close> the same facets, and a tag is found only in a facet.
\<close>

theorem vocabulary_queries_agree:
  assumes "voc_inv v"
  shows "(voc_hasTag v t \<longleftrightarrow> t \<in> set (voc_tags v)) \<and> (voc_tagData v t \<noteq> None \<longleftrightarrow> t \<in> set (voc_tags v))
    \<and> set (tags_of_facet v n) = {t \<in> set (voc_tags v). getfacet t = n}
    \<and> (hasFacet v n \<longleftrightarrow> n \<in> set (facets v)) \<and> (facetData v n \<noteq> None \<longleftrightarrow> n \<in> set (facets v))
    \<and> (t \<in> set (voc_tags v) \<longrightarrow> hasFacet v (getfacet t))"
proof -
  have "u \<in> set (tags_of_facet v n) \<longleftrightarrow> u \<in> set (voc_tags v) \<and> getfacet u = n" for u
  proof (cases "facetData v n")
    case None
    then show ?thesis
      using voc_tags_iff [OF assms, of u] by (auto simp: tags_of_facet_def voc_tagData_def)
  next
    case (Some f)
    then have "u \<in> set (tags_of_facet v n) \<longleftrightarrow> facet_tagData f u \<noteq> None"
      by (simp add: tags_of_facet_def keys_iff facet_tagData_def)
    moreover have "facet_tagData f u \<noteq> None \<Longrightarrow> getfacet u = n"
      using voc_inv_D(2) [OF assms Some] by (auto simp: facet_inv_iff tag_inv_def)
    ultimately show ?thesis
      using voc_tags_iff [OF assms, of u] Some by (auto simp: voc_tagData_def)
  qed
  then show ?thesis
    using voc_tags_iff [OF assms, of t]
    by (auto simp: voc_hasTag_def voc_tagData_def facet_hasTag_def facet_tagData_def hasFacet_def
        facetData_def keys_iff split: option.splits)
qed

definition sample_vocabulary :: vocabulary where
  "sample_vocabulary = \<lparr>m_facets = [(''use'', \<lparr>entries = [(''Description'', ''Purpose'')], m_desc = [],
     voc_name = ''use'', m_tags = [(''use::edit'', \<lparr>entries = [(''Description'', ''Editing'' @ [NL] @ ''of text'')],
       m_desc = [], voc_name = ''use::edit''\<rparr>)]\<rparr>)], m_timestamp = 0\<rparr>"

lemma sample_inv: "voc_inv sample_vocabulary"
  by code_simp

theorem vocabulary_queries_agree_witness:
  "voc_hasTag sample_vocabulary ''use::edit'' \<and> ''use::edit'' \<in> set (voc_tags sample_vocabulary)
    \<and> ''use::edit'' \<in> set (tags_of_facet sample_vocabulary ''use'')"
proof -
  have "voc_hasTag sample_vocabulary ''use::edit''" "getfacet ''use::edit'' = ''use''" by code_simp+
  then show ?thesis using vocabulary_queries_agree [OF sample_inv, of "''use::edit''" "''use''"] by blast
qed

subsection \<open>What a record of the file does to the vocabulary\<close>

definition tag_field :: "vocabulary \<Rightarrow> string \<Rightarrow> string \<Rightarrow> string option" where
  "tag_field v t k = (case voc_tagData v t of None \<Rightarrow> None | Some d \<Rightarrow> omap_find (entries d) k)"

definition facet_field :: "vocabulary \<Rightarrow> string \<Rightarrow> string \<Rightarrow> string option" where
  "facet_field v n k = (case facetData v n of None \<Rightarrow> None | Some f \<Rightarrow> omap_find (entries f) k)"

lemma read_tag_facets:
  assumes "voc_inv v"
  shows "facetData (upd_facet (upd_tag g t) (getfacet t) (obtainTag t v)) m =
    (if m = getfacet t then Some (upd_tag g t (facet_obtainTag t (facet_reg.entry v m))) else facetData v m)"
  using voc_inv_D(1) [OF assms]
  by (simp add: obtainTag_def facet_reg.lookup_update facet_reg.good_changed facet_reg.lookup_changed)

lemma read_tag_tags:
  assumes "voc_inv v"
  shows "voc_tagData (upd_facet (upd_tag g t) (getfacet t) (obtainTag t v)) u =
    (if u = t then Some (g (tag_reg.entry (facet_reg.entry v (getfacet t)) t)) else voc_tagData v u)"
proof -
  let ?f = "facet_reg.entry v (getfacet t)"
  have ok: "map_ok (m_tags ?f)" using entry_invs(1) [OF assms] by (simp add: facet_inv_def)
  have "facet_tagData ?f u = voc_tagData v u" if "getfacet u = getfacet t"
    using that by (simp add: facet_reg.entry_def voc_tagData_def facet_tagData_def new_facet_def split: option.split)
  then show ?thesis
    by (simp add: voc_tagData_def read_tag_facets [OF assms] tag_reg.lookup_changed [OF ok] split: option.split)
qed

lemma merged_inv:
  assumes "data_inv n d" "map_ok r" "skip = ''Facet'' \<or> omap_find r ''Facet'' = None"
  shows "data_inv n (merge_data skip r d)"
  using assms by (auto simp: data_inv_def merge_data_find)

lemma read_tag_inv:
  assumes "voc_inv v" "map_ok r" "omap_find r ''Facet'' = None"
  shows "voc_inv (upd_facet (upd_tag (merge_data ''Tag'' r) t) (getfacet t) (obtainTag t v))"
proof -
  let ?f = "facet_reg.entry v (getfacet t)"
  have f: "facet_inv (getfacet t) ?f" using entry_invs(1) [OF assms(1)] .
  then have ok: "map_ok (m_tags ?f)" by (simp add: facet_inv_def)
  have d: "tag_inv (getfacet t) t (tag_reg.entry ?f t)" using entry_invs(2) [OF f] by simp
  then have "tag_inv (getfacet t) t (merge_data ''Tag'' r (tag_reg.entry ?f t))"
    using assms(2,3) merged_inv by (auto simp: tag_inv_def merge_data_find data_inv_def)
  moreover have "entries (upd_tag g t (facet_obtainTag t f)) = entries f"
    "voc_name (upd_tag g t (facet_obtainTag t f)) = voc_name f" for g f
    by (auto simp: upd_tag_def facet_obtainTag_def split: option.splits)
  ultimately have "facet_inv (getfacet t) (upd_tag (merge_data ''Tag'' r) t (facet_obtainTag t ?f))"
    using f tag_reg.good_changed [OF ok]
    by (auto simp: facet_inv_iff tag_reg.lookup_changed [OF ok] data_inv_def)
  moreover have "map_ok (m_facets (upd_facet g (getfacet t) (obtainTag t v)))" for g
    using voc_inv_D(1) [OF assms(1)] by (simp add: obtainTag_def facet_reg.good_update facet_reg.good_changed)
  ultimately show ?thesis
    using voc_inv_D(2) [OF assms(1)] by (auto simp: voc_inv_iff read_tag_facets [OF assms(1)])
qed

lemma read_facet_inv:
  assumes "voc_inv v" "map_ok r"
  shows "voc_inv (upd_facet (merge_data ''Facet'' r) n (obtainFacet n v))"
proof -
  have f: "facet_inv n (facet_reg.entry v n)" using entry_invs(1) [OF assms(1)] .
  then have "facet_inv n (merge_data ''Facet'' r (facet_reg.entry v n))"
    using merged_inv [of n _ r "''Facet''"] assms(2) by (auto simp: facet_inv_def)
  then show ?thesis
    using voc_inv_D [OF assms(1)]
    by (auto simp: voc_inv_iff facet_reg.lookup_changed facet_reg.good_changed)
qed

text \<open>
  a record with a \<open>Tag\<close> field and no \<open>Facet\<close> field is merged into the tag it names: the tag
  and its facet are there afterwards, the fields of the record other than \<open>Tag\<close> have replaced
  those of the tag, and nothing else has changed.
\<close>

theorem read_tag_record_merges:
  assumes "voc_inv v" and "map_ok r" and "omap_find r ''Facet'' = None" and "omap_find r ''Tag'' = Some t"
  shows "\<exists>v'. read_record path r (v, log) = Inr (v', log) \<and> voc_inv v'
    \<and> voc_tags v' = oset_insert t (voc_tags v) \<and> facets v' = oset_insert (getfacet t) (facets v)
    \<and> (\<forall>u k. tag_field v' u k =
        (if u = t \<and> k \<noteq> ''Tag'' \<and> omap_find r k \<noteq> None then omap_find r k else tag_field v u k))
    \<and> (\<forall>n k. facet_field v' n k = facet_field v n k)"
proof -
  let ?g = "merge_data ''Tag'' r"
  define v' where "v' = upd_facet (upd_tag ?g t) (getfacet t) (obtainTag t v)"
  have read: "read_record path r (v, log) = Inr (v', log)"
    using assms(3,4) by (simp add: read_record_def v'_def)
  have inv: "voc_inv v'" unfolding v'_def by (rule read_tag_inv [OF assms(1,2,3)])
  define f where "f = facet_reg.entry v (getfacet t)"
  define d where "d = tag_reg.entry f t"
  have f: "facet_inv (getfacet t) f" unfolding f_def by (rule entry_invs(1) [OF assms(1)])
  then have d: "map_ok (entries d)" "omap_find (entries d) ''Tag'' = None"
    using entry_invs(2) [OF f refl] by (simp_all add: d_def tag_inv_def data_inv_def)
  have tags: "voc_tagData v' u = (if u = t then Some (?g d) else voc_tagData v u)" for u
    by (simp add: v'_def d_def f_def read_tag_tags [OF assms(1)])
  have fac: "facetData v' m = (if m = getfacet t then Some (upd_tag ?g t (facet_obtainTag t f)) else facetData v m)" for m
    by (simp add: v'_def f_def read_tag_facets [OF assms(1)])
  have old: "(case voc_tagData v t of None \<Rightarrow> None | Some d \<Rightarrow> omap_find (entries d) k) = omap_find (entries d) k" for k
    by (simp add: d_def f_def tag_reg.entry_def facet_reg.entry_def voc_tagData_def new_tag_def new_facet_def
        facet_tagData_def split: option.split)
  have "tag_field v' u k =
      (if u = t \<and> k \<noteq> ''Tag'' \<and> omap_find r k \<noteq> None then omap_find r k else tag_field v u k)" for u k
    using d by (simp add: tag_field_def tags old merge_data_find [OF d(1) assms(2)])
  moreover have "facet_field v' n k = facet_field v n k" for n k
    by (auto simp: facet_field_def fac upd_tag_def facet_obtainTag_def f_def facet_reg.entry_def new_facet_def
        split: option.splits)
  moreover have "voc_tags v' = oset_insert t (voc_tags v)"
  proof (rule ordered_unique)
    show "ordered (voc_tags v')" "ordered (oset_insert t (voc_tags v))"
      by (simp_all add: voc_tags_def ordered_insert_tags)
    show "set (voc_tags v') = set (oset_insert t (voc_tags v))"
      by (rule set_eqI) (auto simp: voc_tags_iff [OF inv] voc_tags_iff [OF assms(1)] tags split: if_splits)
  qed
  moreover have "facets v' = oset_insert (getfacet t) (facets v)"
  proof (rule ordered_unique)
    show "set (facets v') = set (oset_insert (getfacet t) (facets v))"
      by (rule set_eqI) (simp add: facets_iff fac del: facets_keys)
  qed simp_all
  ultimately show ?thesis using read inv by blast
qed

definition new_description :: deb_record where
  "new_description = [(''Description'', ''Revised''), (''Tag'', ''use::edit'')]"

theorem read_tag_record_merges_witness:
  "\<exists>v'. read_record [] new_description (sample_vocabulary, []) = Inr (v', [])
    \<and> tag_field v' ''use::edit'' ''Description'' = Some ''Revised''"
proof -
  have "map_ok new_description" "omap_find new_description ''Facet'' = None"
    "omap_find new_description ''Tag'' = Some ''use::edit''"
    "omap_find new_description ''Description'' = Some ''Revised''" by code_simp+
  with read_tag_record_merges [OF sample_inv this(1-3), of "[]" "[]"] show ?thesis by auto
qed

text \<open>
  a record with a \<open>Facet\<close> field is merged into the facet it names in the same way, the
  assertion on the name of the facet holds, and the tags are as before.
\<close>

theorem read_facet_record_merges:
  assumes "voc_inv v" and "map_ok r" and "omap_find r ''Facet'' = Some n"
  shows "\<exists>v'. read_record path r (v, log) = Inr (v', log) \<and> voc_inv v'
    \<and> facets v' = oset_insert n (facets v)
    \<and> (\<forall>m k. facet_field v' m k =
        (if m = n \<and> k \<noteq> ''Facet'' \<and> omap_find r k \<noteq> None then omap_find r k else facet_field v m k))
    \<and> (\<forall>t. voc_tagData v' t = voc_tagData v t)"
proof -
  define v' where "v' = upd_facet (merge_data ''Facet'' r) n (obtainFacet n v)"
  define f where "f = facet_reg.entry v n"
  have f: "facet_inv n f" unfolding f_def by (rule entry_invs(1) [OF assms(1)])
  then have e: "map_ok (entries f)" "omap_find (entries f) ''Facet'' = None" "voc_name f = n"
    by (simp_all add: facet_inv_def data_inv_def)
  have fac: "facetData v' m = (if m = n then Some (merge_data ''Facet'' r f) else facetData v m)" for m
    by (simp add: v'_def f_def facet_reg.lookup_changed [OF voc_inv_D(1) [OF assms(1)]])
  have "facetData (obtainFacet n v) n = Some f"
    unfolding f_def by (rule facet_reg.obtain_finds [OF voc_inv_D(1) [OF assms(1)]])
  then have read: "read_record path r (v, log) = Inr (v', log)"
    using assms(3) e(3) by (simp add: read_record_def v'_def Let_def)
  have inv: "voc_inv v'" unfolding v'_def by (rule read_facet_inv [OF assms(1,2)])
  have "(case facetData v n of None \<Rightarrow> None | Some f \<Rightarrow> omap_find (entries f) k) = omap_find (entries f) k" for k
    by (simp add: f_def facet_reg.entry_def new_facet_def split: option.split)
  then have "facet_field v' m k =
      (if m = n \<and> k \<noteq> ''Facet'' \<and> omap_find r k \<noteq> None then omap_find r k else facet_field v m k)" for m k
    using e by (simp add: facet_field_def fac merge_data_find [OF e(1) assms(2)])
  moreover have "voc_tagData v' t = voc_tagData v t" for t
    by (simp add: voc_tagData_def fac facet_tagData_def f_def facet_reg.entry_def new_facet_def split: option.split)
  moreover have "facets v' = oset_insert n (facets v)"
  proof (rule ordered_unique)
    show "set (facets v') = set (oset_insert n (facets v))"
      by (rule set_eqI) (simp add: facets_iff fac del: facets_keys)
  qed simp_all
  ultimately show ?thesis using read inv by blast
qed

definition facet_record :: deb_record where
  "facet_record = [(''Description'', ''Interface''), (''Facet'', ''interface'')]"

theorem read_facet_record_merges_witness:
  "\<exists>v'. read_record [] facet_record (sample_vocabulary, []) = Inr (v', [])
    \<and> facet_field v' ''interface'' ''Description'' = Some ''Interface''"
proof -
  have "map_ok facet_record" "omap_find facet_record ''Facet'' = Some ''interface''"
    "omap_find facet_record ''Description'' = Some ''Interface''" by code_simp+
  with read_facet_record_merges [OF sample_inv this(1,2), of "[]" "[]"] show ?thesis by auto
qed

text \<open>
  once the short description of a tag or facet has been asked for, no record read later
  changes it, although the long description is replaced: the cache is never cleared.
\<close>

theorem shortDescription_stale_after_read:
  assumes "shortDescription d = (s, d')" and "s \<noteq> []"
    and "map_ok (entries d)" and "map_ok r" and "omap_find r ''Description'' = Some x" and "skip \<noteq> ''Description''"
  shows "fst (shortDescription (merge_data skip r d')) = s \<and> longDescription (merge_data skip r d') = x"
proof -
  have "entries d' = entries d" "m_desc d' = s"
    using assms(1,2) by (auto simp: shortDescription_def Let_def split: if_splits)
  with assms(2-6) show ?thesis
    by (simp add: shortDescription_def longDescription_def merge_data_find)
qed

theorem shortDescription_stale_after_read_witness:
  "\<exists>d'. shortDescription (new_tag ''use::edit''\<lparr>entries := [(''Description'', ''Editing'')]\<rparr>) = (''Editing'', d')
    \<and> fst (shortDescription (merge_data ''Tag'' new_description d')) = ''Editing''
    \<and> longDescription (merge_data ''Tag'' new_description d') = ''Revised''"
proof -
  define d where "d = new_tag ''use::edit''\<lparr>entries := [(''Description'', ''Editing'')]\<rparr>"
  have s: "shortDescription d = (''Editing'', d\<lparr>m_desc := ''Editing''\<rparr>)"
    by (simp add: d_def new_tag_def shortDescription_def longDescription_def omap_find_def str_simps Let_def)
  have "map_ok (entries d)" by (simp add: d_def)
  moreover have "map_ok new_description" "omap_find new_description ''Description'' = Some ''Revised''"
    by code_simp+
  ultimately show ?thesis
    using shortDescription_stale_after_read [OF s _ _ _ _, of new_description "''Revised''" "''Tag''"] s
    by (auto simp: d_def [symmetric])
qed

subsection \<open>Reading a file\<close>

lemma read_record_inv:
  assumes "voc_inv v" "map_ok r"
  shows "\<exists>v' log'. read_record path r (v, log) = Inr (v', log') \<and> voc_inv v'"
proof -
  consider (facet) n where "omap_find r ''Facet'' = Some n"
    | (tag) t where "omap_find r ''Facet'' = None" "omap_find r ''Tag'' = Some t"
    | (none) "omap_find r ''Facet'' = None" "omap_find r ''Tag'' = None" by fastforce
  then show ?thesis
  proof cases
    case facet
    have "map_option voc_name (facetData (obtainFacet n v) n) = Some n"
      using entry_invs(1) [OF assms(1), of n]
      by (simp add: facet_reg.obtain_finds [OF voc_inv_D(1) [OF assms(1)]] facet_inv_def data_inv_def)
    with facet read_facet_inv [OF assms] show ?thesis by (simp add: read_record_def Let_def)
  next
    case tag
    with read_tag_inv [OF assms] show ?thesis by (simp add: read_record_def)
  next
    case none
    with assms(1) show ?thesis by (simp add: read_record_def)
  qed
qed

lemma read_loop_inv:
  assumes "read_loop p s = Some res"
  shows "voc_inv (fst s) \<longrightarrow> (case res of (e, v', log) \<Rightarrow> voc_inv v' \<and> e \<noteq> Some VocAssert)"
  using assms
proof (rule read_loop.raw_induct [rotated])
  fix f p s res
  assume IH: "\<And>p s res. f p s = Some res \<Longrightarrow>
      voc_inv (fst s) \<longrightarrow> (case res of (e, v', log) \<Rightarrow> voc_inv v' \<and> e \<noteq> Some VocAssert)"
    and run: "(case nextRecord p of
        None \<Rightarrow> None
      | Some (Inl e) \<Rightarrow> Some (Some (VocParse e), s)
      | Some (Inr (None, p')) \<Rightarrow> Some (None, s)
      | Some (Inr (Some r, p')) \<Rightarrow>
          (case read_record (pathname p') r s of
             Inl e \<Rightarrow> Some (Some e, s)
           | Inr s' \<Rightarrow> f p' s')) = Some res"
  obtain v log where s: "s = (v, log)" by (cases s)
  have "voc_inv v \<Longrightarrow> nextRecord p = Some (Inr (Some r, p'))
      \<Longrightarrow> \<exists>v' log'. read_record (pathname p') r s = Inr (v', log') \<and> voc_inv v'" for r p'
    using read_record_inv nextRecord_map_ok unfolding s by blast
  with IH run show "voc_inv (fst s) \<longrightarrow> (case res of (e, v', log) \<Rightarrow> voc_inv v' \<and> e \<noteq> Some VocAssert)"
    by (fastforce simp: s split: option.splits sum.splits prod.splits)
qed

text \<open>
  C12: whatever the file holds, reading it keeps the invariant of the vocabulary: also when a
  parse error ends the reading half way the names, the facet of each tag and the reserved
  fields are right in what has been merged, and the assertion of \<open>read\<close> never fails.
\<close>

theorem read_keeps_invariant:
  assumes "voc_inv v" and "voc_read input path v = Some (e, v', log)"
  shows "voc_inv v' \<and> e \<noteq> Some VocAssert"
  using assms by (auto simp: voc_read_def dest!: read_loop_inv split: sum.splits)

lemma read_loop_ends:
  assumes "tidy p"
  shows "\<exists>res. read_loop p s = Some res"
  using assms
proof (induction "left p" arbitrary: p s rule: less_induct)
  case less
  obtain r where r: "nextRecord p = Some r"
    "\<And>rec p'. r = Inr (Some rec, p') \<Longrightarrow> tidy p' \<and> left p' < left p"
    using nextRecord_ends [OF less.prems] by blast
  show ?case
  proof (cases "\<exists>rec p'. r = Inr (Some rec, p')")
    case True
    then obtain rec p' where rec: "r = Inr (Some rec, p')" by blast
    show ?thesis
    proof (cases "read_record (pathname p') rec s")
      case (Inl e)
      with r(1) rec show ?thesis by (subst read_loop.simps) simp
    next
      case (Inr s')
      with r rec less.hyps [of p' s'] show ?thesis by (subst read_loop.simps) simp
    qed
  next
    case False
    with r(1) show ?thesis
      by (subst read_loop.simps) (auto split: sum.splits option.splits prod.splits)
  qed
qed

text \<open>C32: reading a file whose last byte is a newline returns, with or without an error.\<close>

theorem read_terminates:
  assumes "unread input = [] \<or> last (unread input) = NL"
  shows "voc_read input path v \<noteq> None"
proof (cases "open_parser input path")
  case (Inl e)
  then show ?thesis by (simp add: voc_read_def)
next
  case (Inr p)
  with read_loop_ends [OF open_parser_tidy(1) [OF Inr assms]] show ?thesis
    by (auto simp: voc_read_def)
qed

theorem read_terminates_witness:
  "voc_read (file_of (''Tag: use::edit'' @ [NL])) [] new_vocabulary \<noteq> None"
  by (rule read_terminates) simp

subsection \<open>Writing and reading back\<close>

fun value_lines :: "string \<Rightarrow> string list" where
  "value_lines [] = [[]]"
| "value_lines (c # cs) =
     (if c = NL then [] # value_lines cs
      else (case value_lines cs of [] \<Rightarrow> [[c]] | l # ls \<Rightarrow> (c # l) # ls))"

text \<open>
  A value that can be written: its lines have no blanks at their ends, none but the first is a
  single dot, and the last one of several is not empty.
\<close>

definition writable_value :: "string \<Rightarrow> bool" where
  "writable_value x \<longleftrightarrow> (\<forall>l\<in>set (value_lines x). line_text_ok l) \<and> ''.'' \<notin> set (tl (value_lines x))
     \<and> (tl (value_lines x) = [] \<or> last (value_lines x) \<noteq> [])"

definition writable_field :: "string \<times> string \<Rightarrow> bool" where
  "writable_field kx \<longleftrightarrow> (\<forall>c\<in>set (fst kx). name_char c) \<and> writable_value (snd kx)"

definition field_of :: "string \<times> string \<Rightarrow> field" where
  "field_of kx = (fst kx, value_lines (snd kx))"

lemma value_lines_not_Nil [simp]: "value_lines x \<noteq> []"
  by (induction x) (auto split: list.split)

lemma value_of_lines: "hd (value_lines x) @ conts_value (tl (value_lines x)) = x"
proof (induction x)
  case (Cons c x)
  then show ?case by (cases "value_lines x") (auto simp: conts_value_def)
qed (simp add: conts_value_def)

lemma value_lines_no_NL: "l \<in> set (value_lines x) \<Longrightarrow> NL \<notin> set l"
proof (induction x arbitrary: l)
  case (Cons c x)
  then show ?case by (cases "value_lines x") (auto split: if_splits)
qed simp

lemma field_of_value [simp]: "field_value (field_of kx) = snd kx"
  by (simp add: field_value_def field_of_def value_of_lines)

lemma field_of_ok: "writable_field kx \<Longrightarrow> field_ok (field_of kx)"
  by (simp add: writable_field_def writable_value_def field_ok_def field_of_def)

lemma escape_line: "NL \<notin> set l \<Longrightarrow> escape_loop False (l @ x) = l @ escape_loop False x"
  by (induction l) auto

lemma escape_after_NL:
  "line_text_ok l \<Longrightarrow> l \<noteq> [] \<Longrightarrow> escape_loop True (l @ x) = CHR '' '' # l @ escape_loop False x"
  by (cases l) (auto simp: line_text_ok_def isblank_def escape_line)

lemma escape_conts:
  assumes "\<forall>l\<in>set (l # ls). line_text_ok l" "last (l # ls) \<noteq> []"
  shows "escape_loop True (l @ conts_value ls) @ [NL] = concat (map cont_text (l # ls))"
  using assms
proof (induction ls arbitrary: l)
  case Nil
  then show ?case using escape_after_NL [of l "[]"] by (simp add: conts_value_def cont_text_def)
next
  case (Cons l' ls)
  from Cons.prems have IH: "escape_loop True (l' @ conts_value ls) @ [NL] = concat (map cont_text (l' # ls))"
    by (intro Cons.IH) auto
  have conts: "conts_value (l' # ls) = NL # l' @ conts_value ls" by (simp add: conts_value_def)
  show ?case
  proof (cases "l = []")
    case True
    with IH show ?thesis by (simp add: conts cont_text_def [of "[]"])
  next
    case False
    with IH Cons.prems(1) show ?thesis by (simp add: conts cont_text_def [of l] escape_after_NL)
  qed
qed

lemma write_field_text:
  assumes "writable_value x"
  shows "writeDebStyleField k x = field_text (field_of (k, x))"
proof -
  obtain l ls where x: "value_lines x = l # ls" by (cases "value_lines x") auto
  then have "NL \<notin> set l" using value_lines_no_NL [of l x] by simp
  have split: "x = l @ conts_value ls" using value_of_lines [of x] by (simp add: x)
  have "escape_loop False (conts_value ls) @ [NL] = NL # concat (map cont_text ls)"
  proof (cases ls)
    case Nil
    then show ?thesis by (simp add: conts_value_def)
  next
    case (Cons l' ls')
    then have "escape_loop True (l' @ conts_value ls') @ [NL] = concat (map cont_text ls)"
      using escape_conts [of l' ls'] assms by (simp add: writable_value_def x)
    then show ?thesis by (simp add: Cons conts_value_def)
  qed
  with \<open>NL \<notin> set l\<close> show ?thesis
    by (simp add: writeDebStyleField_def field_text_def field_of_def x)
      (simp add: split escape_line)
qed

text \<open>The records that a vocabulary is written as.\<close>

definition tag_fields :: "string \<times> data \<Rightarrow> (string \<times> string) list" where
  "tag_fields t = (''Tag'', fst t) # entries (snd t)"

definition facet_fields :: "string \<times> facet_data \<Rightarrow> (string \<times> string) list" where
  "facet_fields f = (''Facet'', fst f) # entries (snd f)"

definition facet_records :: "string \<times> facet_data \<Rightarrow> (string \<times> string) list list" where
  "facet_records f = facet_fields f # map tag_fields (m_tags (snd f))"

definition record_text :: "(string \<times> string) list \<Rightarrow> string" where
  "record_text fs = concat (map field_text (map field_of fs)) @ [NL]"

definition writable :: "vocabulary \<Rightarrow> bool" where
  "writable v \<longleftrightarrow> (\<forall>f\<in>set (m_facets v). \<forall>r\<in>set (facet_records f). \<forall>kx\<in>set r. writable_field kx)"

lemma written_fields:
  "\<forall>kx\<in>set fs. writable_field kx \<Longrightarrow>
    concat (map (\<lambda>j. writeDebStyleField (fst j) (snd j)) fs) @ [NL] = record_text fs"
  by (induction fs) (auto simp: record_text_def writable_field_def write_field_text)

lemma written_tag: "\<forall>kx\<in>set (tag_fields t). writable_field kx \<Longrightarrow> write_tag t = record_text (tag_fields t)"
  using written_fields [of "tag_fields t"] by (simp add: write_tag_def tag_fields_def)

lemma written_facet:
  assumes "\<forall>r\<in>set (facet_records f). \<forall>kx\<in>set r. writable_field kx"
  shows "write_facet f = concat (map record_text (facet_records f))"
proof -
  have "concat (map write_tag (m_tags (snd f))) = concat (map record_text (map tag_fields (m_tags (snd f))))"
    using assms by (auto simp: facet_records_def written_tag intro!: arg_cong [of _ _ concat])
  moreover have "writeDebStyleField ''Facet'' (fst f)
     @ concat (map (\<lambda>j. writeDebStyleField (fst j) (snd j)) (entries (snd f))) @ [NL] = record_text (facet_fields f)"
    using written_fields [of "facet_fields f"] assms by (simp add: facet_records_def facet_fields_def)
  ultimately show ?thesis by (simp add: write_facet_def facet_records_def)
qed

lemma written_facets:
  "\<forall>f\<in>set fs. \<forall>r\<in>set (facet_records f). \<forall>kx\<in>set r. writable_field kx \<Longrightarrow>
    concat (map write_facet fs) = concat (map record_text (concat (map facet_records fs)))"
  by (induction fs) (simp_all add: written_facet)

lemma written_vocabulary:
  "writable v \<Longrightarrow> voc_write v = concat (map record_text (concat (map facet_records (m_facets v))))"
  by (simp add: voc_write_def writable_def written_facets)

text \<open>The record that the parser makes of a list of fields.\<close>

definition parsed :: "(string \<times> string) list \<Rightarrow> deb_record" where
  "parsed fs = insert_fields (map field_of fs) []"

fun read_records ::
  "string \<Rightarrow> (string \<times> string) list list \<Rightarrow> vocabulary \<times> string list \<Rightarrow> voc_error + (vocabulary \<times> string list)" where
  "read_records path [] s = Inr s"
| "read_records path (r # rs) s =
     (case read_record path (parsed r) s of Inl e \<Rightarrow> Inl e | Inr s' \<Rightarrow> read_records path rs s')"

lemma read_records_append:
  "read_records path rs s = Inr s' \<Longrightarrow> read_records path (rs @ rs') s = read_records path rs' s'"
  by (induction rs arbitrary: s) (auto split: sum.splits)

lemma starts_record:
  "\<forall>r\<in>set rs. r \<noteq> [] \<and> (\<forall>kx\<in>set r. writable_field kx) \<Longrightarrow> starts_field (concat (map record_text rs))"
proof (cases rs)
  case (Cons r rs')
  assume "\<forall>r\<in>set rs. r \<noteq> [] \<and> (\<forall>kx\<in>set r. writable_field kx)"
  with Cons obtain kx r' where "r = kx # r'" "writable_field kx" by (cases r) auto
  with Cons starts_field_text [OF field_of_ok] show ?thesis by (simp add: record_text_def)
qed (simp add: starts_field_def)

lemma read_loop_text:
  assumes "\<forall>r\<in>set rs. r \<noteq> [] \<and> (\<forall>kx\<in>set r. writable_field kx)" "read_records path rs s = Inr s'"
  shows "read_loop (at (concat (map record_text rs)) False path True (concat (map record_text rs) = [])) s
    = Some (None, s')"
  using assms
proof (induction rs arbitrary: s)
  case Nil
  then show ?case by (simp add: read_loop.simps nextRecord_def)
next
  case (Cons r rs)
  then obtain s1 where s1: "read_record path (parsed r) s = Inr s1" "read_records path rs s1 = Inr s'"
    by (auto split: sum.splits)
  let ?t = "concat (map record_text rs)"
  have "starts_field ?t" "r \<noteq> []" "\<forall>fl\<in>set (map field_of r). field_ok fl"
    using Cons.prems(1) starts_record [of rs] field_of_ok by auto
  then have next_: "nextRecord (at (concat (map record_text (r # rs))) False path True False)
      = Some (Inr (Some (parsed r), at ?t False path True (?t = [])))"
    using nextRecord_text [of ?t "map field_of r" path] by (simp add: record_text_def parsed_def)
  have "concat (map record_text (r # rs)) \<noteq> []" by (simp add: record_text_def)
  then show ?case
    using Cons.IH [OF _ s1(2)] Cons.prems(1) s1(1)
    by (subst read_loop.simps) (simp only: next_, simp add: next_)
qed

lemma insert_fields_find:
  "map_ok acc \<Longrightarrow> map_ok (insert_fields (map field_of fs) acc) \<and>
    omap_find (insert_fields (map field_of fs) acc) k =
      (case omap_find acc k of Some x \<Rightarrow> Some x | None \<Rightarrow> map_of fs k)"
proof (induction fs arbitrary: acc)
  case Nil
  then show ?case by (simp add: insert_fields_def split: option.split)
next
  case (Cons kx fs)
  have step: "insert_fields (field_of kx # map field_of fs) acc = insert_fields (map field_of fs) (omap_insert (fst kx) (snd kx) acc)"
    by (simp add: insert_fields_def) (simp add: field_of_def)
  show ?case
    using Cons.IH [of "omap_insert (fst kx) (snd kx) acc"] Cons.prems
    by (auto simp: step split: option.splits)
qed

lemma parsed_find [simp]: "omap_find (parsed fs) k = map_of fs k" "map_ok (parsed fs)"
  using insert_fields_find [of "[]" fs k] by (simp_all add: parsed_def)

lemma merge_parsed:
  assumes "map_ok e" "map_ok r" "omap_find e skip = None" "\<And>k. k \<noteq> skip \<Longrightarrow> omap_find r k = omap_find e k"
    and "entries d = []"
  shows "entries (merge_data skip r d) = e"
proof (rule omap_ext)
  have ok: "map_ok (entries d)" using assms(5) by simp
  then show "map_ok (entries (merge_data skip r d))" by simp
  show "omap_find (entries (merge_data skip r d)) k = omap_find e k" for k
    using assms by (cases "k = skip") (auto simp: merge_data_find [OF ok assms(2)])
qed (rule assms(1))

lemma omap_set_last:
  "\<forall>k'\<in>fst ` set m. k' < k \<Longrightarrow> omap_set k v m = m @ [(k, v)]"
  "\<forall>k'\<in>fst ` set m. k' < k \<Longrightarrow> omap_set k v (m @ [(k, w)]) = m @ [(k, v)]"
  by (induction m) auto

lemma omap_find_last:
  "\<forall>k'\<in>fst ` set m. k' < (k::'k::linorder) \<Longrightarrow> omap_find m k = None"
  "\<forall>k'\<in>fst ` set m. k' < (k::'k::linorder) \<Longrightarrow> omap_find (m @ [(k, w)]) k = Some w"
  by (induction m) (auto simp: omap_find_def)

text \<open>What is read back: the same entries with no short description cached.\<close>

definition clear_tag :: "string \<times> data \<Rightarrow> string \<times> data" where
  "clear_tag td = (fst td, snd td\<lparr>m_desc := []\<rparr>)"

definition bare_facet :: "facet_data \<Rightarrow> facet_data" where
  "bare_facet f = f\<lparr>m_desc := [], m_tags := []\<rparr>"

definition clear_facet :: "string \<times> facet_data \<Rightarrow> string \<times> facet_data" where
  "clear_facet nf = (fst nf, (snd nf)\<lparr>m_desc := [], m_tags := map clear_tag (m_tags (snd nf))\<rparr>)"

definition clear_cache :: "vocabulary \<Rightarrow> vocabulary" where
  "clear_cache v = \<lparr>m_facets = map clear_facet (m_facets v), m_timestamp = 0\<rparr>"

lemma parsed_Cons: "omap_find (parsed ((k, x) # e)) k' = (if k' = k then Some x else omap_find e k')"
  by (simp add: omap_find_def [of e])

lemma read_written_facet:
  assumes "\<forall>k\<in>fst ` set fs. k < n" "data_inv n f"
  shows "read_record path (parsed (facet_fields (n, f))) (\<lparr>m_facets = fs, m_timestamp = ts\<rparr>, log)
    = Inr (\<lparr>m_facets = fs @ [(n, bare_facet f)], m_timestamp = ts\<rparr>, log)"
proof -
  let ?r = "parsed (facet_fields (n, f))"
  have r: "omap_find ?r ''Facet'' = Some n" by (simp add: facet_fields_def)
  have "entries (merge_data ''Facet'' ?r (new_facet n)) = entries f"
    using assms(2) by (intro merge_parsed) (auto simp: data_inv_def facet_fields_def new_facet_def parsed_Cons simp del: parsed_find(1))
  then have "merge_data ''Facet'' ?r (new_facet n) = bare_facet f"
    using assms(2) by (intro facet_data.equality) (simp_all add: bare_facet_def new_facet_def data_inv_def)
  with r show ?thesis
    using omap_find_last [OF assms(1)] omap_set_last [OF assms(1)]
    by (simp add: read_record_def obtainFacet_def omap_insert_def facetData_def upd_facet_def)
      (simp add: new_facet_def)
qed

lemma read_written_tag:
  assumes "\<forall>k\<in>fst ` set fs. k < n" "\<forall>k\<in>fst ` set (m_tags g). k < t" "tag_inv n t d"
  shows "read_record path (parsed (tag_fields (t, d))) (\<lparr>m_facets = fs @ [(n, g)], m_timestamp = ts\<rparr>, log)
    = Inr (\<lparr>m_facets = fs @ [(n, g\<lparr>m_tags := m_tags g @ [clear_tag (t, d)]\<rparr>)], m_timestamp = ts\<rparr>, log)"
proof -
  let ?r = "parsed (tag_fields (t, d))"
  have d: "getfacet t = n" "voc_name d = t" "map_ok (entries d)"
    "omap_find (entries d) ''Facet'' = None" "omap_find (entries d) ''Tag'' = None"
    using assms(3) by (simp_all add: tag_inv_def data_inv_def)
  have r: "omap_find ?r ''Facet'' = None" "omap_find ?r ''Tag'' = Some t"
    using d(4) by (simp_all add: tag_fields_def parsed_Cons del: parsed_find(1))
  have "entries (merge_data ''Tag'' ?r (new_tag t)) = entries d"
    using d by (intro merge_parsed) (auto simp: tag_fields_def new_tag_def parsed_Cons simp del: parsed_find(1))
  then have "merge_data ''Tag'' ?r (new_tag t) = d\<lparr>m_desc := []\<rparr>"
    using d(2) by (intro data.equality) (simp_all add: new_tag_def)
  with r d(1) show ?thesis
    using omap_find_last [OF assms(1)] omap_set_last [OF assms(1)] omap_find_last [OF assms(2)] omap_set_last [OF assms(2)]
    by (simp add: read_record_def obtainTag_def obtainFacet_def facet_obtainTag_def omap_insert_def upd_facet_def
        upd_tag_def clear_tag_def)
qed

lemma read_written_tags:
  assumes "\<forall>k\<in>fst ` set fs. k < n" "\<forall>(t, d)\<in>set ts. tag_inv n t d" "map_ok ts"
    and "\<forall>k\<in>fst ` set (m_tags g). \<forall>t\<in>fst ` set ts. k < t"
  shows "read_records path (map tag_fields ts) (\<lparr>m_facets = fs @ [(n, g)], m_timestamp = s\<rparr>, log)
    = Inr (\<lparr>m_facets = fs @ [(n, g\<lparr>m_tags := m_tags g @ map clear_tag ts\<rparr>)], m_timestamp = s\<rparr>, log)"
  using assms(2-4)
proof (induction ts arbitrary: g)
  case (Cons td ts)
  obtain t d where td: "td = (t, d)" by (cases td)
  let ?g = "g\<lparr>m_tags := m_tags g @ [clear_tag (t, d)]\<rparr>"
  have "\<forall>k\<in>fst ` set (m_tags g). k < t" "tag_inv n t d" using Cons.prems by (auto simp: td)
  note step = read_written_tag [OF assms(1) this, of path s log]
  have "\<forall>k\<in>fst ` set (m_tags ?g). \<forall>u\<in>fst ` set ts. k < u"
    using Cons.prems(2,3) by (auto simp: td clear_tag_def)
  then have "read_records path (map tag_fields ts) (\<lparr>m_facets = fs @ [(n, ?g)], m_timestamp = s\<rparr>, log)
    = Inr (\<lparr>m_facets = fs @ [(n, ?g\<lparr>m_tags := m_tags ?g @ map clear_tag ts\<rparr>)], m_timestamp = s\<rparr>, log)"
    using Cons.prems by (intro Cons.IH) auto
  with step show ?case by (simp add: td)
qed simp

lemma read_written_facets:
  assumes "\<forall>(n, f)\<in>set gs. facet_inv n f" "map_ok gs" "\<forall>k\<in>fst ` set fs. \<forall>n\<in>fst ` set gs. k < n"
  shows "read_records path (concat (map facet_records gs)) (\<lparr>m_facets = fs, m_timestamp = s\<rparr>, log)
    = Inr (\<lparr>m_facets = fs @ map clear_facet gs, m_timestamp = s\<rparr>, log)"
  using assms
proof (induction gs arbitrary: fs)
  case (Cons nf gs)
  obtain n f where nf: "nf = (n, f)" by (cases nf)
  have inv: "data_inv n f" "map_ok (m_tags f)" "\<forall>(t, d)\<in>set (m_tags f). tag_inv n t d"
    and less: "\<forall>k\<in>fst ` set fs. k < n"
    using Cons.prems by (auto simp: nf facet_inv_def)
  have "read_records path (facet_records nf) (\<lparr>m_facets = fs, m_timestamp = s\<rparr>, log)
    = Inr (\<lparr>m_facets = fs @ [clear_facet nf], m_timestamp = s\<rparr>, log)"
    using read_written_facet [OF less inv(1)] read_written_tags [OF less inv(3,2), of "bare_facet f"]
    by (simp add: facet_records_def nf clear_facet_def bare_facet_def)
  moreover have "read_records path (concat (map facet_records gs)) (\<lparr>m_facets = fs @ [clear_facet nf], m_timestamp = s\<rparr>, log)
    = Inr (\<lparr>m_facets = (fs @ [clear_facet nf]) @ map clear_facet gs, m_timestamp = s\<rparr>, log)"
    using Cons.prems by (intro Cons.IH) (auto simp: nf clear_facet_def)
  ultimately show ?case by (simp add: read_records_append)
qed simp

lemma read_written:
  assumes "voc_inv v" and "writable v"
  shows "voc_read (file_of (voc_write v)) path new_vocabulary = Some (None, clear_cache v, [])"
proof -
  let ?rs = "concat (map facet_records (m_facets v))"
  have rs: "\<forall>r\<in>set ?rs. r \<noteq> [] \<and> (\<forall>kx\<in>set r. writable_field kx)"
    using assms(2) by (auto simp: writable_def facet_records_def facet_fields_def tag_fields_def)
  have "read_records path ?rs (new_vocabulary, []) = Inr (clear_cache v, [])"
    using read_written_facets [of "m_facets v" "[]" path 0 "[]"] assms(1)
    by (simp add: voc_inv_def new_vocabulary_def clear_cache_def)
  from read_loop_text [OF rs this] open_parser_text [OF starts_record [OF rs]] show ?thesis
    by (simp add: voc_read_def written_vocabulary [OF assms(2)])
qed

text \<open>
  C1: a vocabulary whose names and values can be written, in the sense of \<open>writable\<close>, is read back from the text that
  \<open>write\<close> produces: reading it into an empty vocabulary ends without an error or a message and
  gives the same facets and tags with the same fields; only the cached short descriptions and
  the timestamp are not kept.
\<close>

theorem write_read_roundtrip:
  assumes "voc_inv v" and "writable v"
  shows "voc_read (file_of (voc_write v)) path new_vocabulary = Some (None, clear_cache v, [])"
  using assms by (rule read_written)

theorem write_read_roundtrip_witness:
  "voc_read (file_of (voc_write sample_vocabulary)) [] new_vocabulary = Some (None, clear_cache sample_vocabulary, [])"
proof -
  have "writable sample_vocabulary" by code_simp
  with sample_inv show ?thesis by (rule write_read_roundtrip)
qed

theorem read_keeps_invariant_witness:
  "\<exists>v. voc_read (file_of (record_text [(''Tag'', ''use::edit'')])) [] sample_vocabulary = Some (None, v, []) \<and> voc_inv v"
proof -
  let ?f = "[(''Tag'', ''use::edit'')]"
  have w: "\<forall>r\<in>set [?f]. r \<noteq> [] \<and> (\<forall>kx\<in>set r. writable_field kx)" by code_simp
  obtain v log where v: "read_record [] (parsed ?f) (sample_vocabulary, []) = Inr (v, log)"
    using read_record_inv [OF sample_inv parsed_find(2)] by blast
  have "log = []" using v by (simp add: read_record_def split: if_splits)
  with v have "read_records [] [?f] (sample_vocabulary, []) = Inr (v, [])" by simp
  from read_loop_text [OF w this] open_parser_text [OF starts_record [OF w], of "[]"]
  have "voc_read (file_of (record_text ?f)) [] sample_vocabulary = Some (None, v, [])"
    by (simp add: voc_read_def)
  with read_keeps_invariant [OF sample_inv this] show ?thesis by blast
qed

subsection \<open>Values that end with an empty line\<close>

lemma value_lines_trailing: "value_lines (x @ [NL]) = value_lines x @ [[]]"
proof (induction x)
  case (Cons c x)
  then show ?case by (cases "value_lines x") auto
qed simp

lemma writable_last:
  assumes "writable_value x" "x \<noteq> []"
  shows "last x \<noteq> NL"
proof
  assume "last x = NL"
  then obtain y where "x = y @ [NL]" using assms(2) by (metis append_butlast_last_id)
  with assms(1) show False by (simp add: writable_value_def value_lines_trailing)
qed

lemma escape_trailing:
  "(if x = [] then \<not> b else last x \<noteq> NL) \<Longrightarrow> escape_loop b (x @ [NL]) = escape_loop b x @ [NL]"
  by (induction b x rule: escape_loop.induct) (auto split: if_splits)

lemma write_field_trailing:
  assumes "writable_value x"
  shows "writeDebStyleField k (x @ [NL]) = field_text (field_of (k, x)) @ [NL]"
proof -
  have "escape_loop False (x @ [NL]) = escape_loop False x @ [NL]"
    using writable_last [OF assms] by (intro escape_trailing) simp
  then show ?thesis
    using write_field_text [OF assms, of k] by (simp add: writeDebStyleField_def)
qed

definition one_tag :: "string \<Rightarrow> deb_record \<Rightarrow> vocabulary" where
  "one_tag t e = \<lparr>m_facets = [(getfacet t, (new_facet (getfacet t))\<lparr>m_tags := [(t, (new_tag t)\<lparr>entries := e\<rparr>)]\<rparr>)],
     m_timestamp = 0\<rparr>"

text \<open>
  a value whose last line is empty - the parser produces one for a continuation line that is
  a single dot - is written with an empty line after it.  Reading it back ends the record
  there: the fields of the tag that come after it are lost, with a message about a record
  without a name.
\<close>

theorem trailing_empty_line_loses_fields:
  assumes "writable_field (''Facet'', getfacet t)" and "writable_field (''Tag'', t)"
    and "writable_field (k, x)" and "writable_field (k', y)"
    and "{k, k'} \<inter> {''Facet'', ''Tag''} = {}" and "k < k'"
  shows "\<exists>v. voc_read (file_of (voc_write (one_tag t [(k, x @ [NL]), (k', y)]))) path new_vocabulary
      = Some (None, v, [path @ '': Skipping record without Tag or Facet field'' @ [NL]])
    \<and> tag_field v t k = Some x \<and> tag_field v t k' = None"
proof -
  let ?n = "getfacet t" and ?m = "path @ '': Skipping record without Tag or Facet field'' @ [NL]"
  let ?d = "(new_tag t)\<lparr>entries := [(k, x)]\<rparr>"
  let ?rs = "[facet_fields (?n, new_facet ?n), tag_fields (t, ?d), [(k', y)]]"
  let ?v = "\<lparr>m_facets = [] @ [(?n, (bare_facet (new_facet ?n))\<lparr>m_tags := [] @ [clear_tag (t, ?d)]\<rparr>)], m_timestamp = 0\<rparr>"
  have written: "voc_write (one_tag t [(k, x @ [NL]), (k', y)]) = concat (map record_text ?rs)"
    using assms(1-4) write_field_trailing [of x k]
    by (simp add: voc_write_def one_tag_def write_facet_def write_tag_def record_text_def new_facet_def new_tag_def
        facet_fields_def tag_fields_def writable_field_def write_field_text)
  have rs: "\<forall>r\<in>set ?rs. r \<noteq> [] \<and> (\<forall>kx\<in>set r. writable_field kx)"
    using assms(1-4) by (simp add: facet_fields_def tag_fields_def new_facet_def)
  have k: "k \<noteq> ''Facet''" "k \<noteq> ''Tag''" "k' \<noteq> ''Facet''" "k' \<noteq> ''Tag''" "k \<noteq> k'" using assms(5,6) by auto
  have f: "data_inv ?n (new_facet ?n)" by (simp add: data_inv_def new_facet_def)
  have d: "tag_inv ?n t ?d" using k by (simp add: tag_inv_def data_inv_def new_tag_def omap_find_def)
  have "read_records path ?rs (new_vocabulary, []) = Inr (?v, [?m])"
    using k read_written_facet [of "[]" ?n "new_facet ?n" path 0 "[]", OF _ f]
      read_written_tag [of "[]" ?n "bare_facet (new_facet ?n)" t ?d path 0 "[]", OF _ _ d]
    by (simp add: new_vocabulary_def bare_facet_def read_record_def [of path "parsed [(k', y)]"])
  from read_loop_text [OF rs this] open_parser_text [OF starts_record [OF rs]]
  have "voc_read (file_of (concat (map record_text ?rs))) path new_vocabulary = Some (None, ?v, [?m])"
    by (simp only: voc_read_def sum.case)
  moreover have "tag_field ?v t j = omap_find [(k, x)] j" for j
    by (simp add: tag_field_def voc_tagData_def facetData_def facet_tagData_def clear_tag_def omap_find_def)
  ultimately show ?thesis using k(5) unfolding written by (intro exI [of _ ?v]) (simp add: omap_find_def)
qed

theorem trailing_empty_line_loses_fields_witness:
  "\<exists>v log. voc_read (file_of (voc_write (one_tag ''use::edit'' [(''Description'', ''Editing'' @ [NL]), (''Status'', ''ok'')])))
      [] new_vocabulary = Some (None, v, log)
    \<and> tag_field v ''use::edit'' ''Status'' = None"
proof -
  have "writable_field (''Facet'', getfacet ''use::edit'')" "writable_field (''Tag'', ''use::edit'')"
    "writable_field (''Description'', ''Editing'')" "writable_field (''Status'', ''ok'')"
    "{''Description'', ''Status''} \<inter> {''Facet'', ''Tag''} = {}" "''Description'' < ''Status''" by code_simp+
  from trailing_empty_line_loses_fields [OF this] show ?thesis by blast
qed

end
