(* ===== verification/RecordParser.thy ===== *)
theory RecordParser
  imports Prelude StdSort
begin

section \<open>The fields of a package record (ept/apt/recordparser.cc)\<close>

text \<open>
  \<open>RecordParser\<close> splits a record into its fields, keeps where each field ends and an index of the
  fields sorted by name, and looks fields up by binary search.  \<open>std::sort\<close> is not stable, so the
  model takes the sorting algorithm as an argument: the locale \<open>sorter\<close> is what the standard
  guarantees of it, the lemmas of the index are proved from that alone, and an insertion sort
  interprets it.
\<close>

record record_parser =
  buffer :: string
  ends :: "nat list"
  sorted_idx :: "nat list"

subsection \<open>Sorting\<close>

text \<open>The contract of the sorting that \<open>scan\<close> uses, for indexes of fields.\<close>

locale sorter =
  fixes srt :: "(nat \<Rightarrow> nat \<Rightarrow> bool) \<Rightarrow> nat list \<Rightarrow> nat list"
  assumes mset_srt: "weak_order lt \<Longrightarrow> mset (srt lt xs) = mset xs"
    and sorted_srt: "weak_order lt \<Longrightarrow> sorted_wrt (\<lambda>a b. \<not> lt b a) (srt lt xs)"

sublocale sorter \<subseteq> std_sort srt
  using mset_srt sorted_srt by unfold_locales

interpretation insertion: sorter insertion_sort
  by unfold_locales (auto simp: isort.mset_std isort.sorted_std)

subsection \<open>The operations\<close>

definition rp_size :: "record_parser \<Rightarrow> nat" where
  "rp_size rp = length (ends rp)"

definition rp_field :: "record_parser \<Rightarrow> nat \<Rightarrow> string" where
  "rp_field rp idx =
     (if length (ends rp) \<le> idx then []
      else if idx = 0 then substr (buffer rp) 0 (ends rp ! 0)
      else substr (buffer rp) (ends rp ! (idx - 1)) (size_sub (ends rp ! idx) (ends rp ! (idx - 1))))"

definition rp_name :: "record_parser \<Rightarrow> nat \<Rightarrow> string" where
  "rp_name rp idx =
     (let res = rp_field rp idx
      in case str_find res '':'' 0 of None \<Rightarrow> res | Some pos \<Rightarrow> substr res 0 pos)"

function skip_spaces :: "string \<Rightarrow> nat \<Rightarrow> nat" where
  "skip_spaces res pos =
     (if pos < length res \<and> isspace (res ! pos) then skip_spaces res (pos + 1) else pos)"
  by pat_completeness auto
termination by (relation "measure (\<lambda>(res, pos). length res - pos)") auto

function trim_end :: "string \<Rightarrow> string" where
  "trim_end res = (if res \<noteq> [] \<and> isspace (last res) then trim_end (butlast res) else res)"
  by pat_completeness auto
termination by (relation "measure length") auto

declare skip_spaces.simps [simp del] trim_end.simps [simp del]

definition lookup_idx :: "record_parser \<Rightarrow> nat \<Rightarrow> string" where
  "lookup_idx rp idx =
     (let res = rp_field rp idx
      in case str_find res '':'' 0 of
           None \<Rightarrow> res
         | Some pos \<Rightarrow> trim_end (substr_from res (skip_spaces res (pos + 1))))"

text \<open>\<open>ends\<close> and \<open>sorted\<close> while the buffer is scanned from \<open>pos\<close>\<close>

function scan_loop :: "string \<Rightarrow> nat \<Rightarrow> nat \<Rightarrow> nat list \<Rightarrow> nat list \<Rightarrow> nat list \<times> nat list" where
  "scan_loop buf pos idx es ss =
     (if pos < size_sub (length buf) 1 then
        (case str_find buf [NL] pos of
           None \<Rightarrow> (es @ [length buf], ss @ [idx])
         | Some p \<Rightarrow>
             if p + 1 = length buf then (es @ [p + 1], ss @ [idx])
             else if buf ! (p + 1) = NL then (es @ [p + 1], ss @ [idx])
             else if \<not> isspace (buf ! (p + 1)) then scan_loop buf (p + 1) (idx + 1) (es @ [p + 1]) (ss @ [idx])
             else scan_loop buf (p + 1) idx es ss)
      else (es, ss))"
  by pat_completeness auto
termination
proof (relation "measure (\<lambda>(buf, pos, idx, es, ss). length buf - pos)", goal_cases)
  case (2 buf pos idx es ss p)
  with str_find_SomeD(1,2) [OF 2(2)] show ?case by auto
next
  case (3 buf pos idx es ss p)
  with str_find_SomeD(1,2) [OF 3(2)] show ?case by auto
qed simp

declare scan_loop.simps [simp del]

definition scan :: "((nat \<Rightarrow> nat \<Rightarrow> bool) \<Rightarrow> nat list \<Rightarrow> nat list) \<Rightarrow> string \<Rightarrow> record_parser" where
  "scan srt str =
     (case scan_loop str 0 0 [] [] of
        (es, ss) \<Rightarrow>
          (let rp = \<lparr>buffer = str, ends = es, sorted_idx = ss\<rparr>
           in rp\<lparr>sorted_idx := srt (\<lambda>a b. rp_name rp a < rp_name rp b) ss\<rparr>))"

function index_loop :: "record_parser \<Rightarrow> string \<Rightarrow> int \<Rightarrow> int \<Rightarrow> int" where
  "index_loop rp str bgn en =
     (if en - bgn > 1 then
        (let cur = (en + bgn) div 2
         in if rp_name rp (sorted_idx rp ! nat cur) > str then index_loop rp str bgn cur
            else index_loop rp str cur en)
      else bgn)"
  by pat_completeness auto
termination by (relation "measure (\<lambda>(rp, str, bgn, en). nat (en - bgn))") auto

declare index_loop.simps [simp del]

definition index :: "record_parser \<Rightarrow> string \<Rightarrow> nat" where
  "index rp str =
     (let bgn = index_loop rp str (- 1) (int (rp_size rp))
      in if bgn = - 1 \<or> rp_name rp (sorted_idx rp ! nat bgn) \<noteq> str then rp_size rp
         else sorted_idx rp ! nat bgn)"

definition lookup :: "record_parser \<Rightarrow> string \<Rightarrow> string" where
  "lookup rp n = lookup_idx rp (index rp n)"

definition rp_record :: "record_parser \<Rightarrow> string" where
  "rp_record rp = buffer rp"

subsection \<open>The index\<close>

lemma index_loop_spec:
  assumes "- 1 \<le> b" "b < e" "e \<le> int (length ks)" "sorted ks"
    and "\<And>i. i < length ks \<Longrightarrow> rp_name rp (sorted_idx rp ! i) = ks ! i"
    and "\<forall>i < length ks. int i \<le> b \<longrightarrow> ks ! i \<le> s" "\<forall>i < length ks. e \<le> int i \<longrightarrow> s < ks ! i"
  shows "- 1 \<le> index_loop rp s b e \<and> index_loop rp s b e < int (length ks)
    \<and> (\<forall>i < length ks. int i \<le> index_loop rp s b e \<longleftrightarrow> ks ! i \<le> s)"
  using assms
proof (induction rp s b e rule: index_loop.induct)
  case (1 rp s b e)
  show ?case
  proof (cases "e - b > 1")
    case True
    define cur where "cur = (e + b) div 2"
    have cur: "b < cur" "cur < e" "0 \<le> cur" using True "1.prems"(1) by (auto simp: cur_def)
    then have len: "nat cur < length ks" using "1.prems"(3) by auto
    show ?thesis
    proof (cases "rp_name rp (sorted_idx rp ! nat cur) > s")
      case gt: True
      have "\<forall>i < length ks. cur \<le> int i \<longrightarrow> s < ks ! i"
        using gt "1.prems"(4,5) len by (metis nat_le_iff order_less_le_trans sorted_nth_mono)
      then have "- 1 \<le> index_loop rp s b cur \<and> index_loop rp s b cur < int (length ks)
          \<and> (\<forall>i < length ks. int i \<le> index_loop rp s b cur \<longleftrightarrow> ks ! i \<le> s)"
        using "1.prems" cur gt by (intro "1.IH"(1) [OF True cur_def]) auto
      with True gt show ?thesis by (subst (1 2 3) index_loop.simps) (simp add: cur_def Let_def)
    next
      case le: False
      have "ks ! i \<le> s" if "i < length ks" "int i \<le> cur" for i
      proof -
        have "ks ! i \<le> ks ! nat cur" using that len "1.prems"(4) by (intro sorted_nth_mono) auto
        also have "\<dots> \<le> s" using le "1.prems"(5) len by simp
        finally show ?thesis .
      qed
      then have "- 1 \<le> index_loop rp s cur e \<and> index_loop rp s cur e < int (length ks)
          \<and> (\<forall>i < length ks. int i \<le> index_loop rp s cur e \<longleftrightarrow> ks ! i \<le> s)"
        using "1.prems" cur le by (intro "1.IH"(2) [OF True cur_def]) auto
      with True le show ?thesis by (subst (1 2 3) index_loop.simps) (simp add: cur_def Let_def)
    qed
  next
    case False
    then have "index_loop rp s b e = b" "e = b + 1" using "1.prems"(2) by (auto simp: index_loop.simps)
    then show ?thesis using "1.prems" by (metis add1_zle_eq linorder_not_le)
  qed
qed

lemma scan_fields:
  "ends (scan srt str) = fst (scan_loop str 0 0 [] [])" "buffer (scan srt str) = str"
  by (simp_all add: scan_def Let_def split: prod.split)

subsection \<open>What scan leaves behind\<close>

text \<open>Where a field can end inside the buffer: after a newline, before a character that is no space.\<close>

definition field_break :: "string \<Rightarrow> nat \<Rightarrow> bool" where
  "field_break buf e \<longleftrightarrow> 0 < e \<and> e < length buf \<and> buf ! (e - 1) = NL \<and> \<not> isspace (buf ! e)"

definition ends_ok :: "string \<Rightarrow> nat list \<Rightarrow> bool" where
  "ends_ok buf es \<longleftrightarrow> sorted_wrt (<) es \<and> (\<forall>e\<in>set es. e \<le> length buf) \<and> (\<forall>e\<in>set (butlast es). field_break buf e)"

lemma find_NL:
  assumes "str_find buf [NL] pos = Some p"
  shows "pos \<le> p" "p < length buf" "buf ! p = NL"
proof -
  show "pos \<le> p" "p < length buf" using str_find_SomeD [OF assms] by auto
  then show "buf ! p = NL"
    using str_find_SomeD(3) [OF assms] by (metis hd_drop_conv_nth list.sel(1) list.simps(3) prefix_Cons prefix_def append_Cons)
qed

lemma ends_ok_push:
  assumes "sorted_wrt (<) es" "\<forall>e\<in>set es. e < x \<and> field_break buf e" "x \<le> length buf"
  shows "ends_ok buf (es @ [x])"
  using assms by (auto simp: ends_ok_def sorted_wrt_append intro: less_imp_le)

lemma scan_loop_inv:
  assumes "sorted_wrt (<) es" "\<forall>e\<in>set es. e \<le> pos \<and> field_break buf e" "ss = [0..<idx]" "idx = length es"
    and "pos = 0 \<or> pos < length buf"
  shows "case scan_loop buf pos idx es ss of (es', ss') \<Rightarrow> ends_ok buf es' \<and> ss' = [0..<length es']"
  using assms
proof (induction buf pos idx es ss rule: scan_loop.induct)
  case (1 buf pos idx es ss)
  show ?case
  proof (cases "pos < size_sub (length buf) 1")
    case False
    have "field_break buf e \<Longrightarrow> e \<le> length buf" for e by (simp add: field_break_def)
    with False 1 show ?thesis
      by (auto simp: scan_loop.simps ends_ok_def dest: in_set_butlastD)
  next
    case True
    show ?thesis
    proof (cases "str_find buf [NL] pos")
      case None
      have "\<forall>e\<in>set es. e < length buf" using 1(4) by (simp add: field_break_def)
      with 1 True None show ?thesis
        by (subst scan_loop.simps) (auto intro!: ends_ok_push)
    next
      case (Some p)
      note p = find_NL [OF Some]
      have less: "\<forall>e\<in>set es. e < p + 1 \<and> field_break buf e" using 1(4) p(1) by auto
      then have push: "ends_ok buf (es @ [p + 1])" using 1(3) p(2) by (intro ends_ok_push) auto
      consider (stop) "p + 1 = length buf \<or> buf ! (p + 1) = NL"
        | (field) "p + 1 \<noteq> length buf" "buf ! (p + 1) \<noteq> NL" "\<not> isspace (buf ! (p + 1))"
        | (cont) "p + 1 \<noteq> length buf" "buf ! (p + 1) \<noteq> NL" "isspace (buf ! (p + 1))" by blast
      then show ?thesis
      proof cases
        case stop
        then have "scan_loop buf pos idx es ss = (es @ [p + 1], ss @ [idx])"
          using True Some by (subst scan_loop.simps) auto
        with push 1(5,6) show ?thesis by simp
      next
        case field
        then have "field_break buf (p + 1)" using p by (simp add: field_break_def)
        moreover have "scan_loop buf pos idx es ss = scan_loop buf (p + 1) (idx + 1) (es @ [p + 1]) (ss @ [idx])"
          using True Some field by (subst scan_loop.simps) simp
        ultimately show ?thesis
          using 1(1) [OF True Some field] less 1(3,5,6) p(2) field(1)
          by (auto simp: sorted_wrt_append less_imp_le)
      next
        case cont
        have "scan_loop buf pos idx es ss = scan_loop buf (p + 1) idx es ss"
          using True Some cont by (subst scan_loop.simps) simp
        then show ?thesis
          using 1(2) [OF True Some cont(1,2)] cont(3) less 1(3,5,6) p(2) cont(1) by (auto simp: less_imp_le)
      qed
    qed
  qed
qed

lemma scan_ends: "ends_ok str (ends (scan srt str))"
  using scan_loop_inv [of "[]" 0 str "[]" 0] by (auto simp: scan_fields split: prod.splits)

lemma name_of_ends:
  "buffer rp = buffer rp' \<Longrightarrow> ends rp = ends rp' \<Longrightarrow> rp_name rp i = rp_name rp' i"
  by (simp add: rp_name_def rp_field_def)

lemma scan_sorted:
  "sorted_idx (scan srt str) =
     srt (\<lambda>a b. rp_name (scan srt str) a < rp_name (scan srt str) b) [0..<rp_size (scan srt str)]"
proof -
  obtain es ss where loop: "scan_loop str 0 0 [] [] = (es, ss)" by (cases "scan_loop str 0 0 [] []")
  then have ss: "ss = [0..<length es]" using scan_loop_inv [of "[]" 0 str "[]" 0] by simp
  let ?rp = "\<lparr>buffer = str, ends = es, sorted_idx = ss\<rparr>"
  have names: "rp_name (scan srt str) = rp_name ?rp"
    by (rule ext, rule name_of_ends) (simp_all add: scan_fields loop)
  have "rp_size (scan srt str) = length es" by (simp add: rp_size_def scan_fields loop)
  then show ?thesis
    unfolding names using ss by (simp add: scan_def loop Let_def)
qed

context sorter
begin

lemma index_set: "set (sorted_idx (scan srt str)) = {0..<rp_size (scan srt str)}"
  by (subst scan_sorted) (simp add: set_srt_key)

lemma index_length: "length (sorted_idx (scan srt str)) = rp_size (scan srt str)"
  by (subst scan_sorted) (simp add: length_srt_key)

lemma index_names_sorted: "sorted (map (rp_name (scan srt str)) (sorted_idx (scan srt str)))"
  using sorted_srt_key [of "rp_name (scan srt str)" "[0..<rp_size (scan srt str)]"]
  unfolding scan_sorted [symmetric] .

lemma index_found:
  assumes "i < rp_size (scan srt str)"
  shows "index (scan srt str) (rp_name (scan srt str) i) < rp_size (scan srt str)
    \<and> rp_name (scan srt str) (index (scan srt str) (rp_name (scan srt str) i)) = rp_name (scan srt str) i"
proof -
  let ?rp = "scan srt str"
  let ?ks = "map (rp_name ?rp) (sorted_idx ?rp)"
  let ?s = "rp_name ?rp i"
  let ?b = "index_loop ?rp ?s (- 1) (int (rp_size ?rp))"
  have spec: "- 1 \<le> ?b" "?b < int (length ?ks)" "\<And>j. j < length ?ks \<Longrightarrow> int j \<le> ?b \<longleftrightarrow> ?ks ! j \<le> ?s"
    using index_loop_spec [of "- 1" "int (rp_size ?rp)" ?ks ?rp ?s] index_names_sorted
    by (auto simp: index_length)
  obtain j where j: "j < length (sorted_idx ?rp)" "sorted_idx ?rp ! j = i"
    using assms index_set [of str] by (auto simp: in_set_conv_nth set_eq_iff)
  then have "int j \<le> ?b" using spec(3) [of j] by simp
  then have b: "0 \<le> ?b" "nat ?b < length (sorted_idx ?rp)" using spec(2) by auto
  then have "rp_name ?rp (sorted_idx ?rp ! nat ?b) \<le> ?s" using spec(3) [of "nat ?b"] by simp
  moreover have "?ks ! j \<le> ?ks ! nat ?b"
    using index_names_sorted b \<open>int j \<le> ?b\<close> by (intro sorted_nth_mono) auto
  ultimately have name: "rp_name ?rp (sorted_idx ?rp ! nat ?b) = ?s" using j b by simp
  then have "index ?rp ?s = sorted_idx ?rp ! nat ?b" using b(1) by (simp add: index_def Let_def)
  moreover have "sorted_idx ?rp ! nat ?b \<in> set (sorted_idx ?rp)" using b(2) by simp
  then have "sorted_idx ?rp ! nat ?b < rp_size ?rp" by (simp add: index_set)
  ultimately show ?thesis using name by simp
qed

lemma index_absent:
  assumes "\<And>i. i < rp_size (scan srt str) \<Longrightarrow> rp_name (scan srt str) i \<noteq> s"
  shows "index (scan srt str) s = rp_size (scan srt str)"
proof -
  let ?rp = "scan srt str"
  let ?ks = "map (rp_name ?rp) (sorted_idx ?rp)"
  let ?b = "index_loop ?rp s (- 1) (int (rp_size ?rp))"
  have spec: "- 1 \<le> ?b" "?b < int (length ?ks)"
    using index_loop_spec [of "- 1" "int (rp_size ?rp)" ?ks ?rp s] index_names_sorted
    by (auto simp: index_length)
  show ?thesis
  proof (cases "?b = - 1")
    case True
    then show ?thesis by (simp add: index_def)
  next
    case False
    then have "sorted_idx ?rp ! nat ?b \<in> set (sorted_idx ?rp)" using spec by (intro nth_mem) auto
    then have "rp_name ?rp (sorted_idx ?rp ! nat ?b) \<noteq> s" using assms by (simp add: index_set)
    then show ?thesis by (simp add: index_def Let_def)
  qed
qed

end

subsection \<open>The fields as pieces of the buffer\<close>

lemma field_piece:
  "i < rp_size rp \<Longrightarrow> sorted (ends rp) \<Longrightarrow> rp_field rp i =
    drop (if i = 0 then 0 else ends rp ! (i - 1)) (take (ends rp ! i) (buffer rp))"
  by (auto simp: rp_field_def rp_size_def substr_def take_drop sorted_nth_mono)

lemma concat_fields:
  assumes "sorted (ends rp)" "n \<le> rp_size rp"
  shows "concat (map (rp_field rp) [0..<n]) = take (if n = 0 then 0 else ends rp ! (n - 1)) (buffer rp)"
  using assms(2)
proof (induction n)
  case (Suc n)
  let ?b = "if n = 0 then 0 else ends rp ! (n - 1)"
  have "?b \<le> ends rp ! n" using assms(1) Suc.prems by (auto simp: rp_size_def intro: sorted_nth_mono)
  then have "take ?b (buffer rp) @ drop ?b (take (ends rp ! n) (buffer rp)) = take (ends rp ! n) (buffer rp)"
    by (metis append_take_drop_id min.absorb1 take_take)
  with Suc field_piece [OF _ assms(1), of n] show ?case by simp
qed simp

lemma ends_ok_sorted: "ends_ok buf es \<Longrightarrow> sorted es"
  by (auto simp: ends_ok_def strict_sorted_imp_sorted)

text \<open>
  C37: whatever the buffer, the fields that \<open>scan\<close> finds are consecutive pieces of it from its
  start to the last end; the ends increase strictly, none is beyond the buffer, and between two
  fields there is a newline before and a character that is no space after the break.
\<close>

theorem scan_partitions:
  "concat (map (rp_field (scan srt str)) [0..<rp_size (scan srt str)])
      = take (last (0 # ends (scan srt str))) str
    \<and> sorted_wrt (<) (ends (scan srt str)) \<and> list_all (\<lambda>e. e \<le> length str) (ends (scan srt str))
    \<and> list_all (field_break str) (butlast (ends (scan srt str)))"
proof -
  let ?rp = "scan srt str"
  have ok: "ends_ok str (ends ?rp)" by (rule scan_ends)
  have "concat (map (rp_field ?rp) [0..<rp_size ?rp]) = take (last (0 # ends ?rp)) str"
    using concat_fields [OF ends_ok_sorted [OF ok] order_refl]
    by (simp add: rp_size_def last_conv_nth scan_fields)
  with ok show ?thesis by (simp add: ends_ok_def list_all_iff)
qed

text \<open>
  C4: the binary search finds a field of every name that occurs, gives \<open>size()\<close> for a name that
  does not, and looking such a name up gives the empty string.
\<close>

theorem index_correct:
  assumes "sorter srt"
  shows "if \<exists>i < rp_size (scan srt str). rp_name (scan srt str) i = n
    then index (scan srt str) n < rp_size (scan srt str) \<and> rp_name (scan srt str) (index (scan srt str) n) = n
    else index (scan srt str) n = rp_size (scan srt str) \<and> lookup (scan srt str) n = []"
proof -
  note found = sorter.index_found [OF assms, of _ str] and absent = sorter.index_absent [OF assms, of str n]
  show ?thesis
  proof (cases "\<exists>i < rp_size (scan srt str). rp_name (scan srt str) i = n")
    case True
    with found show ?thesis by auto
  next
    case False
    with absent have "index (scan srt str) n = rp_size (scan srt str)" by blast
    then have "lookup (scan srt str) n = []"
      by (simp add: lookup_def lookup_idx_def rp_field_def rp_size_def str_simps)
    with False absent show ?thesis by auto
  qed
qed

definition sample_record :: string where
  "sample_record = ''B: 1'' @ [NL] @ ''A:  2 '' @ [NL] @ '' 3'' @ [NL]"

theorem index_correct_witness:
  "index (scan insertion_sort sample_record) ''A'' = 1 \<and> index (scan insertion_sort sample_record) ''C'' = 2"
proof -
  let ?rp = "scan insertion_sort sample_record"
  have names: "rp_name ?rp 0 = ''B''" "rp_name ?rp 1 = ''A''" "rp_size ?rp = 2" by code_simp+
  show ?thesis using index_correct [OF insertion.sorter_axioms, of sample_record "''A''"]
    index_correct [OF insertion.sorter_axioms, of sample_record "''C''"] names
    by (auto simp: less_2_cases_iff split: if_splits)
qed

subsection \<open>Scanning a record that is written field by field\<close>

text \<open>A field as its lines: the first starts with no space, the continuation lines do.\<close>

definition lines_text :: "string list \<Rightarrow> string" where
  "lines_text ls = concat (map (\<lambda>l. l @ [NL]) ls)"

definition cont_ok :: "string list \<Rightarrow> bool" where
  "cont_ok ls \<longleftrightarrow> (\<forall>l\<in>set ls. l \<noteq> [] \<and> NL \<notin> set l \<and> isspace (hd l))"

definition field_lines_ok :: "string list \<Rightarrow> bool" where
  "field_lines_ok ls \<longleftrightarrow> ls \<noteq> [] \<and> hd ls \<noteq> [] \<and> NL \<notin> set (hd ls) \<and> \<not> isspace (hd (hd ls)) \<and> cont_ok (tl ls)"

lemma find_line_end: "NL \<notin> set l \<Longrightarrow> str_find (a @ l @ NL # r) [NL] (length a) = Some (length a + length l)"
  by (simp add: str_find_def find_sub_char_append)

lemma nth_after: "(a @ l @ NL # r) ! Suc (length a + length l) = r ! 0"
  by (simp add: nth_append)

lemma scan_field:
  assumes "l \<noteq> []" "NL \<notin> set l" "cont_ok ls" "r = [] \<or> \<not> isspace (hd r) \<or> hd r = NL"
  shows "scan_loop (a @ l @ NL # lines_text ls @ r) (length a) idx es ss =
    (let e = length (a @ l @ NL # lines_text ls)
     in if r = [] \<or> hd r = NL then (es @ [e], ss @ [idx])
        else scan_loop (a @ l @ NL # lines_text ls @ r) e (idx + 1) (es @ [e]) (ss @ [idx]))"
  using assms(1-3)
proof (induction ls arbitrary: a l)
  case Nil
  have pos: "length a < size_sub (length (a @ l @ NL # r)) 1" using Nil(1) by (cases l) auto
  have "isspace NL" by (simp add: isspace_def)
  then show ?case
    using assms(4) pos
    by (subst scan_loop.simps)
      (auto simp: find_line_end [OF Nil(2)] nth_after lines_text_def Let_def hd_conv_nth)
next
  case (Cons l' ls)
  define R where "R = lines_text (l' # ls) @ r"
  have pos: "length a < size_sub (length (a @ l @ NL # R)) 1" using Cons.prems(1) by (cases l) auto
  have l': "l' \<noteq> []" "NL \<notin> set l'" "isspace (hd l')" "cont_ok ls" using Cons.prems(3) by (auto simp: cont_ok_def)
  obtain c l'' where c: "l' = c # l''" using l'(1) by (cases l') auto
  have R: "R \<noteq> []" "R ! 0 = hd l'" "hd l' \<noteq> NL" using l'(2) by (auto simp: lines_text_def R_def c)
  then have "scan_loop (a @ l @ NL # R) (length a) idx es ss
      = scan_loop (a @ l @ NL # R) (length a + length l + 1) idx es ss"
    using pos l'(3) by (subst scan_loop.simps) (simp add: find_line_end [OF Cons.prems(2)] nth_after)
  also have "\<dots> = scan_loop ((a @ l @ [NL]) @ l' @ NL # lines_text ls @ r) (length (a @ l @ [NL])) idx es ss"
    by (simp add: lines_text_def R_def)
  finally show ?case
    using Cons.IH [OF l'(1,2,4), of "a @ l @ [NL]"] by (simp add: lines_text_def R_def)
qed

fun offsets :: "nat \<Rightarrow> string list \<Rightarrow> nat list" where
  "offsets b [] = []"
| "offsets b (t # ts) = (b + length t) # offsets (b + length t) ts"

lemma scan_fields_text:
  assumes "\<forall>ls\<in>set fs. field_lines_ok ls" "fs \<noteq> []" "r = [] \<or> hd r = NL"
  shows "fst (scan_loop (a @ concat (map lines_text fs) @ r) (length a) idx es ss)
    = es @ offsets (length a) (map lines_text fs)"
  using assms(1,2)
proof (induction fs arbitrary: a idx es ss)
  case (Cons f fs)
  obtain l ls where f: "f = l # ls" and l: "l \<noteq> []" "NL \<notin> set l" "cont_ok ls"
    using Cons.prems(1) by (cases f) (auto simp: field_lines_ok_def)
  have split: "a @ concat (map lines_text (f # fs)) @ r = a @ l @ NL # lines_text ls @ concat (map lines_text fs) @ r"
    by (simp add: f lines_text_def)
  have text_f: "l @ NL # lines_text ls = lines_text f" by (simp add: f lines_text_def)
  define R where "R = concat (map lines_text fs) @ r"
  show ?case
  proof (cases fs)
    case Nil
    have "a @ l @ NL # lines_text ls @ r = a @ lines_text f @ r" by (simp add: text_f [symmetric])
    with Nil assms(3) scan_field [OF l, of r a idx es ss] show ?thesis
      by (auto simp: text_f)
  next
    case (Cons f' fs')
    then have R: "R \<noteq> []" "\<not> isspace (hd R)" "hd R \<noteq> NL"
      using Cons.prems(1) by (auto simp: R_def field_lines_ok_def lines_text_def isspace_def neq_Nil_conv)
    have buf: "a @ concat (map lines_text (f # fs)) @ r = a @ lines_text f @ R"
      "a @ l @ NL # lines_text ls @ R = a @ lines_text f @ R"
      by (simp_all add: text_f [symmetric] R_def)
    have "scan_loop (a @ lines_text f @ R) (length a) idx es ss
      = scan_loop (a @ lines_text f @ R) (length (a @ lines_text f)) (idx + 1)
          (es @ [length (a @ lines_text f)]) (ss @ [idx])"
      using scan_field [OF l, of R a idx es ss] R unfolding buf(2) by (simp add: text_f Let_def)
    then show ?thesis
      using Cons.IH [of "a @ lines_text f"] Cons.prems Cons unfolding buf(1) R_def [symmetric] by simp
  qed
qed simp

lemma offsets_nth:
  "i < length ts \<Longrightarrow> offsets b ts ! i = b + length (concat (take (Suc i) ts))"
  by (induction ts arbitrary: b i) (auto simp: nth_Cons split: nat.split)

lemma length_offsets [simp]: "length (offsets b ts) = length ts"
  by (induction ts arbitrary: b) auto

lemma scan_text:
  assumes "\<forall>ls\<in>set fs. field_lines_ok ls" "fs \<noteq> []" "r = [] \<or> hd r = NL"
  shows "rp_size (scan srt (concat (map lines_text fs) @ r)) = length fs"
    and "i < length fs \<Longrightarrow> rp_field (scan srt (concat (map lines_text fs) @ r)) i = lines_text (fs ! i)"
proof -
  define buf where "buf = concat (map lines_text fs) @ r"
  let ?ts = "map lines_text fs" and ?rp = "scan srt buf"
  have ends: "ends ?rp = offsets 0 ?ts"
    using scan_fields_text [OF assms, of "[]" 0 "[]" "[]"] by (simp add: scan_fields buf_def)
  show "rp_size (scan srt (concat (map lines_text fs) @ r)) = length fs"
    using ends by (simp add: rp_size_def buf_def)
  assume i: "i < length fs"
  let ?b = "if i = 0 then 0 else ends ?rp ! (i - 1)"
  have b: "?b = length (concat (take i ?ts))"
    using i by (auto simp: ends offsets_nth)
  have e: "ends ?rp ! i = length (concat (take i ?ts) @ lines_text (fs ! i))"
    using i by (simp add: ends offsets_nth take_Suc_conv_app_nth)
  have "buf = (concat (take i ?ts) @ lines_text (fs ! i)) @ concat (drop (Suc i) ?ts) @ r"
    using i unfolding buf_def
    by (metis append.assoc concat.simps(2) concat_append id_take_nth_drop length_map nth_map)
  then have "drop ?b (take (ends ?rp ! i) buf) = lines_text (fs ! i)"
    unfolding b e by (metis append_eq_conv_conj)
  moreover have "i < rp_size ?rp" using i by (simp add: rp_size_def ends)
  ultimately have "rp_field ?rp i = lines_text (fs ! i)"
    using field_piece [of i ?rp] ends_ok_sorted [OF scan_ends] by (simp add: scan_fields(2))
  then show "rp_field (scan srt (concat (map lines_text fs) @ r)) i = lines_text (fs ! i)"
    by (simp add: buf_def)
qed

subsection \<open>Looking a field up\<close>

lemma skip_spaces_eq: "skip_spaces res pos = pos + length (takeWhile isspace (drop pos res))"
proof (induction res pos rule: skip_spaces.induct)
  case (1 res pos)
  show ?case
  proof (cases "pos < length res")
    case True
    then have "drop pos res = res ! pos # drop (pos + 1) res" by (simp add: Cons_nth_drop_Suc)
    with 1 True show ?thesis by (subst skip_spaces.simps) auto
  next
    case False
    then show ?thesis by (subst skip_spaces.simps) simp
  qed
qed

lemma trim_end_eq: "trim_end res = rev (dropWhile isspace (rev res))"
proof (induction res rule: rev_induct)
  case Nil
  then show ?case by (simp add: trim_end.simps)
next
  case (snoc c res)
  then show ?case by (subst trim_end.simps) simp
qed

definition trimmed :: "string \<Rightarrow> string" where
  "trimmed v = rev (dropWhile isspace (rev (dropWhile isspace v)))"

lemma lookup_idx_field:
  assumes "rp_field rp i = n @ CHR '':'' # v" "CHR '':'' \<notin> set n"
  shows "rp_name rp i = n" and "lookup_idx rp i = trimmed v"
proof -
  have pos: "str_find (n @ CHR '':'' # v) '':'' 0 = Some (length n)"
    using assms(2) by (simp add: str_find_0 find_sub_char_append)
  then show "rp_name rp i = n" by (simp add: rp_name_def assms(1) substr_def)
  have "drop (length (takeWhile isspace v)) v = dropWhile isspace v" by (metis dropWhile_eq_drop)
  with pos show "lookup_idx rp i = trimmed v"
    by (simp add: lookup_idx_def assms(1) skip_spaces_eq trim_end_eq trimmed_def substr_from_def)
qed

lemma lookup_written:
  assumes "sorter srt" and "\<forall>ls\<in>set fs. field_lines_ok ls" and "r = [] \<or> hd r = NL"
    and "map lines_text fs = map (\<lambda>(n, v). n @ '':'' @ v) nvs" and "\<forall>(n, v)\<in>set nvs. CHR '':'' \<notin> set n"
    and "distinct (map fst nvs)" and "(n, v) \<in> set nvs"
  shows "rp_size (scan srt (concat (map lines_text fs) @ r)) = length nvs
    \<and> lookup (scan srt (concat (map lines_text fs) @ r)) n = trimmed v"
proof -
  let ?rp = "scan srt (concat (map lines_text fs) @ r)"
  have len: "length fs = length nvs" using assms(4) by (metis length_map)
  then have "fs \<noteq> []" using assms(7) by auto
  note fields = scan_text [OF assms(2) this assms(3), where srt = srt]
  have field: "rp_field ?rp i = fst (nvs ! i) @ CHR '':'' # snd (nvs ! i)" if "i < length nvs" for i
  proof -
    have "lines_text (fs ! i) = (case nvs ! i of (n, v) \<Rightarrow> n @ '':'' @ v)"
      using assms(4) that len by (metis nth_map)
    with fields(2) that len show ?thesis by (simp add: case_prod_beta)
  qed
  have colon: "CHR '':'' \<notin> set (fst (nvs ! i))" if "i < length nvs" for i
    using assms(5) that by (auto simp: case_prod_beta)
  obtain j where j: "j < length nvs" "nvs ! j = (n, v)" using assms(7) by (auto simp: in_set_conv_nth)
  have name_j: "rp_name ?rp j = n" using lookup_idx_field(1) [OF field [OF j(1)] colon [OF j(1)]] j by simp
  let ?k = "index ?rp n"
  have "?k < rp_size ?rp" and "rp_name ?rp ?k = n"
    using sorter.index_found [OF assms(1), of j "concat (map lines_text fs) @ r"] name_j j fields(1) len by simp_all
  then have k: "?k < length nvs" "fst (nvs ! ?k) = n"
    using lookup_idx_field(1) [OF field colon] fields(1) len by auto
  then have "?k = j" using assms(6) j by (metis (no_types, lifting) fst_conv length_map nth_eq_iff_index_eq nth_map)
  then have "lookup ?rp n = trimmed v"
    using lookup_idx_field(2) [OF field [OF j(1)] colon [OF j(1)]] j by (simp add: lookup_def)
  with fields(1) len show ?thesis by simp
qed

text \<open>
  C18: in a record that is written as a sequence of fields, each of them \<open>name: value\<close> lines, with
  different names, the parser finds exactly these fields - whatever follows an empty line is
  not read - and looking up a name gives its value without the spaces around it.
\<close>

theorem lookup_written_field:
  assumes "sorter srt" and "\<forall>ls\<in>set fs. field_lines_ok ls" and "r = [] \<or> hd r = NL"
    and "map lines_text fs = map (\<lambda>(n, v). n @ '':'' @ v) nvs" and "\<forall>(n, v)\<in>set nvs. CHR '':'' \<notin> set n"
    and "distinct (map fst nvs)" and "(n, v) \<in> set nvs"
  shows "rp_size (scan srt (concat (map lines_text fs) @ r)) = length nvs
    \<and> lookup (scan srt (concat (map lines_text fs) @ r)) n = trimmed v"
  using lookup_written [OF assms] .

theorem lookup_written_field_witness:
  "lookup (scan insertion_sort (sample_record @ NL # ''C: 4'')) ''A'' = ''2 '' @ [NL] @ '' 3''"
proof -
  let ?fs = "[[''B: 1''], [''A:  2 '', '' 3'']]"
  have fs: "\<forall>ls\<in>set ?fs. field_lines_ok ls" by code_simp
  have sample: "concat (map lines_text ?fs) = sample_record" by code_simp
  have v: "trimmed (''  2 '' @ [NL] @ '' 3'' @ [NL]) = ''2 '' @ [NL] @ '' 3''" by code_simp
  show ?thesis
    using lookup_written_field [OF insertion.sorter_axioms fs,
        of "NL # ''C: 4''" "[(''B'', '' 1'' @ [NL]), (''A'', ''  2 '' @ [NL] @ '' 3'' @ [NL])]"
        "''A''" "''  2 '' @ [NL] @ '' 3'' @ [NL]"]
    unfolding sample v by (simp add: lines_text_def)
qed

subsection \<open>Records that end in a single character\<close>

lemma scan_loop_stops: "scan_loop (a @ [c]) (length a) idx es ss = (es, ss)"
  by (subst scan_loop.simps) simp

lemma scan_field_last:
  assumes "l \<noteq> []" "NL \<notin> set l" "cont_ok ls" "c \<noteq> NL"
  shows "scan_loop (a @ l @ NL # lines_text ls @ [c]) (length a) idx es ss =
    (if isspace c then (es, ss) else (es @ [length (a @ l @ NL # lines_text ls)], ss @ [idx]))"
  using assms(1-3)
proof (induction ls arbitrary: a l)
  case Nil
  have pos: "length a < size_sub (length (a @ l @ NL # [c])) 1" using Nil(1) by (cases l) auto
  have stop: "scan_loop (a @ l @ NL # [c]) (Suc (length a + length l)) idx es ss = (es, ss)" for idx es ss
    using scan_loop_stops [of "a @ l @ [NL]" c] by simp
  show ?case
    using pos assms(4)
    by (subst scan_loop.simps) (simp add: find_line_end [OF Nil(2)] nth_after lines_text_def stop)
next
  case (Cons l' ls)
  define R where "R = lines_text (l' # ls) @ [c]"
  have pos: "length a < size_sub (length (a @ l @ NL # R)) 1" using Cons.prems(1) by (cases l) auto
  have l': "l' \<noteq> []" "NL \<notin> set l'" "isspace (hd l')" "cont_ok ls" using Cons.prems(3) by (auto simp: cont_ok_def)
  obtain d l'' where d: "l' = d # l''" using l'(1) by (cases l') auto
  have R: "R \<noteq> []" "R ! 0 = hd l'" "hd l' \<noteq> NL" using l'(2) by (auto simp: lines_text_def R_def d)
  then have "scan_loop (a @ l @ NL # R) (length a) idx es ss
      = scan_loop (a @ l @ NL # R) (length a + length l + 1) idx es ss"
    using pos l'(3) by (subst scan_loop.simps) (simp add: find_line_end [OF Cons.prems(2)] nth_after)
  also have "\<dots> = scan_loop ((a @ l @ [NL]) @ l' @ NL # lines_text ls @ [c]) (length (a @ l @ [NL])) idx es ss"
    by (simp add: lines_text_def R_def)
  finally show ?case
    using Cons.IH [OF l'(1,2,4), of "a @ l @ [NL]"] by (simp add: lines_text_def R_def)
qed

lemma scan_fields_last:
  assumes "\<forall>ls\<in>set fs. field_lines_ok ls" "fs \<noteq> []" "c \<noteq> NL"
  shows "length (fst (scan_loop (a @ concat (map lines_text fs) @ [c]) (length a) idx es ss))
    = length es + (if isspace c then length fs - 1 else length fs)"
  using assms(1,2)
proof (induction fs arbitrary: a idx es ss)
  case (Cons f fs)
  obtain l ls where f: "f = l # ls" and l: "l \<noteq> []" "NL \<notin> set l" "cont_ok ls"
    using Cons.prems(1) by (cases f) (auto simp: field_lines_ok_def)
  have text_f: "l @ NL # lines_text ls = lines_text f" by (simp add: f lines_text_def)
  define R where "R = concat (map lines_text fs) @ [c]"
  have buf: "a @ concat (map lines_text (f # fs)) @ [c] = a @ lines_text f @ R"
    "a @ l @ NL # lines_text ls @ R = a @ lines_text f @ R"
    by (simp_all add: text_f [symmetric] R_def)
  show ?case
  proof (cases fs)
    case Nil
    then have "R = [c]" by (simp add: R_def)
    with scan_field_last [OF l assms(3), of a idx es ss]
    have "scan_loop (a @ lines_text f @ R) (length a) idx es ss =
      (if isspace c then (es, ss) else (es @ [length (a @ lines_text f)], ss @ [idx]))"
      unfolding buf(2) [symmetric] by (simp add: text_f)
    then show ?thesis unfolding buf(1) by (simp add: Nil)
  next
    case (Cons f' fs')
    then have R: "R \<noteq> []" "\<not> isspace (hd R)" "hd R \<noteq> NL"
      using Cons.prems(1) by (auto simp: R_def field_lines_ok_def lines_text_def isspace_def neq_Nil_conv)
    have "scan_loop (a @ lines_text f @ R) (length a) idx es ss
      = scan_loop (a @ lines_text f @ R) (length (a @ lines_text f)) (idx + 1)
          (es @ [length (a @ lines_text f)]) (ss @ [idx])"
      using scan_field [OF l, of R a idx es ss] R unfolding buf(2) by (simp add: text_f Let_def)
    then show ?thesis
      using Cons.IH [of "a @ lines_text f"] Cons.prems Cons unfolding buf(1) R_def [symmetric] by simp
  qed
qed simp

text \<open>
  the loop of \<open>scan\<close> stops one character before the end of the buffer.  A last line of one
  character without a newline is therefore never looked at: when it starts a field that field is
  missing, and when it continues the last field, that whole field is missing.
\<close>

theorem last_character_not_scanned:
  assumes "\<forall>ls\<in>set fs. field_lines_ok ls" and "fs \<noteq> []" and "c \<noteq> NL"
  shows "rp_size (scan srt (concat (map lines_text fs) @ [c])) = (if isspace c then length fs - 1 else length fs)"
  using scan_fields_last [OF assms, of "[]" 0 "[]" "[]"] by (simp add: rp_size_def scan_fields)

theorem last_character_not_scanned_witness:
  "rp_size (scan insertion_sort (''B: 1'' @ [NL] @ '' '')) = 0 \<and> rp_size (scan insertion_sort (''B: 1'' @ [NL] @ ''x'')) = 1"
proof -
  have "\<forall>ls\<in>set [[''B: 1'']]. field_lines_ok ls" by code_simp
  from last_character_not_scanned [OF this, of "CHR '' ''" insertion_sort]
    last_character_not_scanned [OF this, of "CHR ''x''" insertion_sort]
  show ?thesis by (simp add: lines_text_def isspace_def)
qed

end
