(* ===== verification/PackageRecord.thy ===== *)
theory PackageRecord
  imports RecordParser StdContainers StdConv
begin

section \<open>The fields of a Debian package (ept/apt/packagerecord.cc)\<close>

text \<open>
  \<open>PackageRecord\<close> reads the fields of a scanned record: strings with a default, sizes, booleans, the
  two parts of a description, and the \<open>Tag\<close> field, whose items may have alternatives in braces and
  are parsed by the state machine of \<open>Tagparser\<close>.
\<close>

subsection \<open>Values with a default\<close>

definition parseBool :: "bool \<Rightarrow> string \<Rightarrow> bool" where
  "parseBool def str =
     (if str = ''no'' \<or> str = ''false'' \<or> str = ''without'' \<or> str = ''off'' \<or> str = ''disable'' then False
      else if str = ''yes'' \<or> str = ''true'' \<or> str = ''with'' \<or> str = ''on'' \<or> str = ''enable'' then True
      else def)"

definition parseString :: "string \<Rightarrow> string \<Rightarrow> string" where
  "parseString def str = (if str = [] then def else str)"

definition parseSize :: "nat \<Rightarrow> string \<Rightarrow> nat" where
  "parseSize def str = (if str = [] then def else strtoul10 str)"

definition parseShortDescription :: "string \<Rightarrow> string \<Rightarrow> string" where
  "parseShortDescription def str =
     (if str = [] then def
      else case str_find str [NL] 0 of None \<Rightarrow> str | Some pos \<Rightarrow> substr str 0 pos)"

definition parseLongDescription :: "string \<Rightarrow> string \<Rightarrow> string" where
  "parseLongDescription def str =
     (if str = [] then def
      else case str_find str [NL] 0 of
        None \<Rightarrow> str
      | Some pos \<Rightarrow> substr_from str (skip_spaces str (pos + 1)))"

subsection \<open>Tagparser\<close>

record tagparser =
  res :: "string oset"
  cur_tag :: string
  has_braces :: bool

datatype tag_state = SEP | TAG | BRACES

function expand_loop :: "string \<Rightarrow> string \<Rightarrow> nat \<Rightarrow> string oset \<Rightarrow> string oset" where
  "expand_loop tag pre bgn r =
     (case str_find tag '','' bgn of
        Some en \<Rightarrow> expand_loop tag pre (en + 1) (oset_insert (pre @ substr tag bgn (size_sub en bgn)) r)
      | None \<Rightarrow> oset_insert (pre @ substr tag bgn (size_sub (size_sub (length tag) 1) bgn)) r)"
  by pat_completeness auto
termination
proof (relation "measure (\<lambda>(tag, pre, bgn, r). length tag - bgn)", goal_cases)
  case (2 tag pre bgn r en)
  with str_find_SomeD(1,2) [OF 2] show ?case by auto
qed simp

declare expand_loop.simps [simp del]

definition expand_tag_braces :: "string \<Rightarrow> tagparser \<Rightarrow> tagparser" where
  "expand_tag_braces tag p =
     (case str_find tag ''{'' 0 of
        None \<Rightarrow> p
      | Some bgn \<Rightarrow> p\<lparr>res := expand_loop tag (substr tag 0 bgn) (bgn + 1) (res p)\<rparr>)"

definition reset_tag :: "tagparser \<Rightarrow> tagparser" where
  "reset_tag p = p\<lparr>cur_tag := [], has_braces := False\<rparr>"

definition have_tag :: "tagparser \<Rightarrow> tagparser" where
  "have_tag p =
     reset_tag (if has_braces p then expand_tag_braces (cur_tag p) p
                else p\<lparr>res := oset_insert (cur_tag p) (res p)\<rparr>)"

definition tag_sep :: "char \<Rightarrow> bool" where
  "tag_sep c \<longleftrightarrow> c = CHR '' '' \<or> c = TAB \<or> c = NL \<or> c = CHR '',''"

definition push_char :: "char \<Rightarrow> tagparser \<Rightarrow> tagparser" where
  "push_char c p = p\<lparr>cur_tag := cur_tag p @ [c]\<rparr>"

text \<open>\<open>*c\<close> for an iterator that may be at the end, where the terminating null character is read\<close>

definition peek :: "string \<Rightarrow> char" where
  "peek cs = (case cs of [] \<Rightarrow> NUL | c # _ \<Rightarrow> c)"

function tag_loop :: "tag_state \<Rightarrow> tagparser \<Rightarrow> string \<Rightarrow> tagparser" where
  "tag_loop st p [] = p"
| "tag_loop SEP p (c # cs) = (if tag_sep c then tag_loop SEP p cs else tag_loop TAG p (c # cs))"
| "tag_loop TAG p (c # cs) =
     (if tag_sep c then tag_loop SEP (have_tag p) cs
      else if c = CHR ''{'' then tag_loop BRACES ((push_char c p)\<lparr>has_braces := True\<rparr>) cs
      else tag_loop TAG (push_char c p) cs)"
| "tag_loop BRACES p (c # cs) =
     tag_loop (if peek cs = CHR ''}'' then TAG else BRACES) (push_char c p) cs"
  by pat_completeness auto
termination
  by (relation "measure (\<lambda>(st, p, cs). 2 * length cs + (if st = SEP then 1 else 0))") auto

definition tag_parse :: "string \<Rightarrow> tagparser \<Rightarrow> tagparser" where
  "tag_parse s p =
     (let p' = tag_loop SEP (reset_tag p) s in if cur_tag p' \<noteq> [] then have_tag p' else p')"

definition parseTags :: "string oset \<Rightarrow> string \<Rightarrow> string oset" where
  "parseTags def str =
     (if str = [] then def
      else res (tag_parse str \<lparr>res = [], cur_tag = [], has_braces = False\<rparr>))"

subsection \<open>The accessors\<close>

definition pkg_package :: "string \<Rightarrow> record_parser \<Rightarrow> string" where
  "pkg_package def rp = parseString def (lookup rp ''Package'')"

definition pkg_priority :: "string \<Rightarrow> record_parser \<Rightarrow> string" where
  "pkg_priority def rp = parseString def (lookup rp ''Priority'')"

definition pkg_section :: "string \<Rightarrow> record_parser \<Rightarrow> string" where
  "pkg_section def rp = parseString def (lookup rp ''Section'')"

definition pkg_installedSize :: "nat \<Rightarrow> record_parser \<Rightarrow> nat" where
  "pkg_installedSize def rp = parseSize def (lookup rp ''Installed-Size'')"

definition pkg_maintainer :: "string \<Rightarrow> record_parser \<Rightarrow> string" where
  "pkg_maintainer def rp = parseString def (lookup rp ''Maintainer'')"

definition pkg_architecture :: "string \<Rightarrow> record_parser \<Rightarrow> string" where
  "pkg_architecture def rp = parseString def (lookup rp ''Architecture'')"

definition pkg_source :: "string \<Rightarrow> record_parser \<Rightarrow> string" where
  "pkg_source def rp = parseString def (lookup rp ''Source'')"

definition pkg_version :: "string \<Rightarrow> record_parser \<Rightarrow> string" where
  "pkg_version def rp = parseString def (lookup rp ''Version'')"

definition pkg_replaces :: "string \<Rightarrow> record_parser \<Rightarrow> string" where
  "pkg_replaces def rp = parseString def (lookup rp ''Replaces'')"

definition pkg_depends :: "string \<Rightarrow> record_parser \<Rightarrow> string" where
  "pkg_depends def rp = parseString def (lookup rp ''Depends'')"

definition pkg_preDepends :: "string \<Rightarrow> record_parser \<Rightarrow> string" where
  "pkg_preDepends def rp = parseString def (lookup rp ''Pre-Depends'')"

definition pkg_recommends :: "string \<Rightarrow> record_parser \<Rightarrow> string" where
  "pkg_recommends def rp = parseString def (lookup rp ''Recommends'')"

definition pkg_suggests :: "string \<Rightarrow> record_parser \<Rightarrow> string" where
  "pkg_suggests def rp = parseString def (lookup rp ''Suggests'')"

definition pkg_enhances :: "string \<Rightarrow> record_parser \<Rightarrow> string" where
  "pkg_enhances def rp = parseString def (lookup rp ''Enhances'')"

definition pkg_provides :: "string \<Rightarrow> record_parser \<Rightarrow> string" where
  "pkg_provides def rp = parseString def (lookup rp ''Provides'')"

definition pkg_conflicts :: "string \<Rightarrow> record_parser \<Rightarrow> string" where
  "pkg_conflicts def rp = parseString def (lookup rp ''Conflicts'')"

definition pkg_filename :: "string \<Rightarrow> record_parser \<Rightarrow> string" where
  "pkg_filename def rp = parseString def (lookup rp ''Filename'')"

definition pkg_packageSize :: "nat \<Rightarrow> record_parser \<Rightarrow> nat" where
  "pkg_packageSize def rp = parseSize def (lookup rp ''Size'')"

definition pkg_md5sum :: "string \<Rightarrow> record_parser \<Rightarrow> string" where
  "pkg_md5sum def rp = parseString def (lookup rp ''MD5sum'')"

definition pkg_sha1 :: "string \<Rightarrow> record_parser \<Rightarrow> string" where
  "pkg_sha1 def rp = parseString def (lookup rp ''SHA1'')"

definition pkg_sha256 :: "string \<Rightarrow> record_parser \<Rightarrow> string" where
  "pkg_sha256 def rp = parseString def (lookup rp ''SHA256'')"

definition pkg_description :: "string \<Rightarrow> record_parser \<Rightarrow> string" where
  "pkg_description def rp = parseString def (lookup rp ''Description'')"

definition pkg_shortDescription :: "string \<Rightarrow> record_parser \<Rightarrow> string" where
  "pkg_shortDescription def rp = parseShortDescription def (lookup rp ''Description'')"

definition pkg_longDescription :: "string \<Rightarrow> record_parser \<Rightarrow> string" where
  "pkg_longDescription def rp = parseLongDescription def (lookup rp ''Description'')"

definition pkg_buildEssential :: "bool \<Rightarrow> record_parser \<Rightarrow> bool" where
  "pkg_buildEssential def rp = parseBool def (lookup rp ''Build-Essential'')"

definition pkg_tag :: "string oset \<Rightarrow> record_parser \<Rightarrow> string oset" where
  "pkg_tag def rp = parseTags def (lookup rp ''Tag'')"

subsection \<open>The tags of a well-formed field\<close>

text \<open>An item of the field: a tag, or a prefix with alternatives in braces.\<close>

datatype tag_item = Plain string | Braces string "string list"

definition plain_char :: "char \<Rightarrow> bool" where
  "plain_char c \<longleftrightarrow> \<not> tag_sep c \<and> c \<noteq> CHR ''{''"

fun item_ok :: "tag_item \<Rightarrow> bool" where
  "item_ok (Plain t) \<longleftrightarrow> t \<noteq> [] \<and> (\<forall>c\<in>set t. plain_char c)"
| "item_ok (Braces pre ts) \<longleftrightarrow> (\<forall>c\<in>set pre. plain_char c) \<and> ts \<noteq> [] \<and> ts \<noteq> [[]]
     \<and> (\<forall>t\<in>set ts. CHR '','' \<notin> set t \<and> CHR ''}'' \<notin> set t)"

fun comma_join :: "string list \<Rightarrow> string" where
  "comma_join [] = []"
| "comma_join [t] = t"
| "comma_join (t # u # ts) = t @ CHR '','' # comma_join (u # ts)"

fun item_text :: "tag_item \<Rightarrow> string" where
  "item_text (Plain t) = t"
| "item_text (Braces pre ts) = pre @ ''{'' @ comma_join ts @ ''}''"

fun item_tags :: "tag_item \<Rightarrow> string list" where
  "item_tags (Plain t) = [t]"
| "item_tags (Braces pre ts) = map (\<lambda>t. pre @ t) ts"

abbreviation tp :: "string oset \<Rightarrow> string \<Rightarrow> bool \<Rightarrow> tagparser" where
  "tp r t b \<equiv> \<lparr>res = r, cur_tag = t, has_braces = b\<rparr>"

fun braced :: "tag_item \<Rightarrow> bool" where
  "braced (Plain t) = False"
| "braced (Braces pre ts) = True"

lemma tag_loop_plain:
  "\<forall>c\<in>set t. plain_char c \<Longrightarrow> tag_loop TAG (tp r t' b) (t @ cs) = tag_loop TAG (tp r (t' @ t) b) cs"
  by (induction t arbitrary: t') (auto simp: plain_char_def push_char_def)

lemma tag_loop_braces:
  "x \<noteq> [] \<Longrightarrow> CHR ''}'' \<notin> set x \<Longrightarrow>
    tag_loop BRACES (tp r t b) (x @ CHR ''}'' # cs) = tag_loop TAG (tp r (t @ x) b) (CHR ''}'' # cs)"
proof (induction x arbitrary: t)
  case (Cons c x)
  show ?case
  proof (cases x)
    case Nil
    then show ?thesis by (simp add: peek_def push_char_def)
  next
    case (Cons d y)
    then have "peek (x @ CHR ''}'' # cs) \<noteq> CHR ''}''" using Cons.prems by (auto simp: peek_def)
    then show ?thesis using Cons.IH [of "t @ [c]"] Cons.prems Cons by (simp add: push_char_def)
  qed
qed simp

lemma comma_join_not_Nil: "ts \<noteq> [] \<Longrightarrow> ts \<noteq> [[]] \<Longrightarrow> comma_join ts \<noteq> []"
  by (cases ts rule: comma_join.cases) auto

lemma set_comma_join: "c \<in> set (comma_join ts) \<Longrightarrow> c = CHR '','' \<or> (\<exists>t\<in>set ts. c \<in> set t)"
  by (induction ts rule: comma_join.induct) auto

lemma tag_loop_item:
  assumes "item_ok i"
  shows "tag_loop TAG (tp r [] False) (item_text i @ cs) = tag_loop TAG (tp r (item_text i) (braced i)) cs"
proof (cases i)
  case (Plain t)
  with assms show ?thesis by (simp add: tag_loop_plain)
next
  case (Braces pre ts)
  have "comma_join ts \<noteq> []" "CHR ''}'' \<notin> set (comma_join ts)"
    using assms by (auto simp: Braces comma_join_not_Nil dest: set_comma_join)
  moreover have "\<not> tag_sep CHR ''{''" "\<not> tag_sep CHR ''}''" by (simp_all add: tag_sep_def)
  ultimately show ?thesis
    using assms Braces by (simp add: tag_loop_plain tag_loop_braces push_char_def)
qed

lemma expand_items:
  assumes "ts \<noteq> []" "\<forall>t\<in>set ts. CHR '','' \<notin> set t"
  shows "expand_loop (a @ comma_join ts @ ''}'') pre (length a) r = fold oset_insert (map (\<lambda>t. pre @ t) ts) r"
  using assms
proof (induction ts arbitrary: a r rule: comma_join.induct)
  case 1
  then show ?case by simp
next
  case (2 t)
  then have "str_find (a @ t @ ''}'') '','' (length a) = None"
    by (simp add: str_find_def find_sub_char_None)
  moreover have "size_sub (size_sub (length (a @ t @ ''}'')) 1) (length a) = length t" by simp
  moreover have "substr (a @ t @ ''}'') (length a) (length t) = t" by (simp add: substr_def)
  ultimately show ?case by (subst expand_loop.simps) (simp del: length_append)
next
  case (3 t u ts)
  let ?tag = "a @ comma_join (t # u # ts) @ ''}''"
  have "str_find ?tag '','' (length a) = Some (length a + length t)"
    using "3.prems" by (simp add: str_find_def find_sub_char_append)
  moreover have "substr ?tag (length a) (length t) = t" by (simp add: substr_def)
  moreover have "expand_loop ?tag pre (length a + length t + 1) (oset_insert (pre @ t) r)
      = fold oset_insert (map (\<lambda>t. pre @ t) (u # ts)) (oset_insert (pre @ t) r)"
    using "3.IH" [of "a @ t @ '',''" "oset_insert (pre @ t) r"] "3.prems" by simp
  ultimately show ?case by (subst expand_loop.simps) simp
qed

lemma have_tag_item:
  assumes "item_ok i"
  shows "have_tag (tp r (item_text i) (braced i)) = tp (fold oset_insert (item_tags i) r) [] False"
proof (cases i)
  case (Plain t)
  then show ?thesis by (simp add: have_tag_def reset_tag_def)
next
  case (Braces pre ts)
  have "CHR ''{'' \<notin> set pre" using assms Braces by (auto simp: plain_char_def)
  then have "str_find (item_text i) ''{'' 0 = Some (length pre)"
    by (simp add: Braces str_find_0 find_sub_char_append)
  moreover have "expand_loop (item_text i) pre (length pre + 1) r = fold oset_insert (item_tags i) r"
    using expand_items [of ts "pre @ ''{''" pre r] assms Braces by simp
  moreover have "substr (item_text i) 0 (length pre) = pre" by (simp add: Braces substr_def)
  ultimately show ?thesis
    by (simp add: have_tag_def reset_tag_def expand_tag_braces_def Braces)
qed

lemma tag_loop_seps:
  "\<forall>c\<in>set s. tag_sep c \<Longrightarrow> tag_loop SEP p (s @ cs) = tag_loop SEP p cs"
  by (induction s) auto

lemma tag_loop_start:
  assumes "item_ok i"
  shows "tag_loop SEP p (item_text i @ cs) = tag_loop TAG p (item_text i @ cs)"
proof -
  have start: "\<not> tag_sep c" if "pre @ y = c # t" "\<forall>c\<in>set pre. plain_char c" "y = [] \<or> \<not> tag_sep (hd y)" for pre y c t
    using that by (cases pre) (auto simp: plain_char_def)
  obtain c t where t: "item_text i = c # t" using assms by (cases i; cases "item_text i") auto
  have "\<not> tag_sep c"
  proof (cases i)
    case (Plain u)
    with assms t show ?thesis using start [of u "[]" c t] by simp
  next
    case (Braces pre ts)
    have "\<not> tag_sep CHR ''{''" by (simp add: tag_sep_def)
    with Braces assms t show ?thesis using start [of pre "''{'' @ comma_join ts @ ''}''" c t] by simp
  qed
  then show ?thesis by (simp add: t)
qed

definition tag_end :: "tagparser \<Rightarrow> string oset" where
  "tag_end p = res (if cur_tag p \<noteq> [] then have_tag p else p)"

lemma item_text_not_Nil: "item_ok i \<Longrightarrow> item_text i \<noteq> []"
  by (cases i) auto

lemma tag_loop_items:
  assumes "item_ok i" "\<forall>(s, j)\<in>set js. s \<noteq> [] \<and> (\<forall>c\<in>set s. tag_sep c) \<and> item_ok j" "\<forall>c\<in>set trail. tag_sep c"
  shows "tag_end (tag_loop TAG (tp r (item_text i) (braced i)) (concat (map (\<lambda>(s, j). s @ item_text j) js) @ trail))
    = fold oset_insert (concat (map item_tags (i # map snd js))) r"
  using assms(1,2)
proof (induction js arbitrary: i r)
  case Nil
  show ?case
  proof (cases trail)
    case Nil
    then show ?thesis
      using Nil.prems by (simp add: tag_end_def item_text_not_Nil have_tag_item)
  next
    case (Cons c cs)
    then show ?thesis
      using Nil.prems assms(3) tag_loop_seps [of cs _ "[]"] by (simp add: tag_end_def have_tag_item)
  qed
next
  case (Cons sj js)
  obtain s j where sj: "sj = (s, j)" by (cases sj)
  obtain c s' where s: "s = c # s'" "tag_sep c" "\<forall>c\<in>set s'. tag_sep c" "item_ok j"
    using Cons.prems(2) by (cases s) (auto simp: sj)
  show ?case
    using s Cons.prems(2) Cons.IH [OF s(4)]
    by (simp add: sj have_tag_item [OF Cons.prems(1)] tag_loop_seps tag_loop_start tag_loop_item)
qed

text \<open>
  C23: a \<open>Tag\<close> field made of items between separators - spaces, tabs, newlines and commas, also
  before the first and after the last one - yields exactly the tags that its items stand for:
  a plain item itself, an item with braces its prefix before each of the alternatives.
\<close>

theorem parseTags_expands:
  assumes "item_ok i" and "\<forall>(s, j)\<in>set js. s \<noteq> [] \<and> (\<forall>c\<in>set s. tag_sep c) \<and> item_ok j"
    and "\<forall>c\<in>set lead. tag_sep c" and "\<forall>c\<in>set trail. tag_sep c"
  shows "parseTags def (lead @ item_text i @ concat (map (\<lambda>(s, j). s @ item_text j) js) @ trail)
    = oset_of_list (concat (map item_tags (i # map snd js)))"
  using tag_loop_items [OF assms(1,2,4), of "[]"] item_text_not_Nil [OF assms(1)]
  by (simp add: parseTags_def tag_parse_def reset_tag_def tag_loop_seps [OF assms(3)] tag_loop_start [OF assms(1)]
      tag_loop_item [OF assms(1)] tag_end_def Let_def oset_of_list_def)

theorem parseTags_expands_witness:
  "parseTags [] ''role::{app,lib}, use::edit'' = [''role::app'', ''role::lib'', ''use::edit'']"
  using parseTags_expands [of "Braces ''role::'' [''app'', ''lib'']" "[('', '', Plain ''use::edit'')]" "[]" "[]" "[]"]
  by (simp add: plain_char_def tag_sep_def oset_of_list_def)

text \<open>
  the state machine tests for the closing brace only after it has taken a character, so an
  empty pair of braces is not closed where it ends: everything up to the end of the field is
  taken for alternatives, and the tags after it are not found.
\<close>

theorem empty_braces_swallow_the_rest:
  assumes "\<forall>c\<in>set pre. plain_char c" and "CHR ''}'' \<notin> set rest"
  shows "parseTags def (pre @ ''{}'' @ rest) = expand_loop (pre @ ''{}'' @ rest) pre (length pre + 1) []"
proof -
  have all: "tag_loop BRACES (tp r t b) x = tp r (t @ x) b" if "CHR ''}'' \<notin> set (tl x)" for r t b x
    using that
  proof (induction x arbitrary: t)
    case (Cons c x)
    then have "peek x \<noteq> CHR ''}''" by (cases x) (auto simp: peek_def)
    moreover have "CHR ''}'' \<notin> set (tl x)" using Cons.prems by (cases x) auto
    ultimately show ?case using Cons.IH [of "t @ [c]"] by (simp add: push_char_def)
  qed simp
  have b: "\<not> tag_sep CHR ''{''" by (simp add: tag_sep_def)
  have "tag_loop SEP (tp [] [] False) (pre @ ''{}'' @ rest) = tag_loop TAG (tp [] [] False) (pre @ ''{}'' @ rest)"
    using assms(1) b by (cases pre) (auto simp: plain_char_def)
  also have "\<dots> = tp [] (pre @ ''{}'' @ rest) True"
    using b all [of "CHR ''}'' # rest" "[]" "pre @ ''{''" True] assms(2)
    by (simp add: tag_loop_plain [OF assms(1)] push_char_def del: tag_loop.simps(4))
  finally have loop: "tag_loop SEP (tp [] [] False) (pre @ ''{}'' @ rest) = tp [] (pre @ ''{}'' @ rest) True" .
  have "CHR ''{'' \<notin> set pre" using assms(1) by (auto simp: plain_char_def)
  then have "str_find (pre @ ''{}'' @ rest) ''{'' 0 = Some (length pre)"
    by (simp add: str_find_0 find_sub_char_append)
  then show ?thesis
    using loop by (simp add: parseTags_def tag_parse_def reset_tag_def have_tag_def expand_tag_braces_def substr_def)
qed

theorem empty_braces_swallow_the_rest_witness:
  "parseTags [] ''a{}, use::edit'' = [''a use::edi'', ''a}'']"
proof -
  have "parseTags [] ''a{}, use::edit'' = expand_loop ''a{}, use::edit'' ''a'' 2 []"
    using empty_braces_swallow_the_rest [of "''a''" "'', use::edit''" "[]"]
    by (simp add: plain_char_def tag_sep_def numeral_2_eq_2)
  also have "\<dots> = [''a use::edi'', ''a}'']" by code_simp
  finally show ?thesis .
qed

text \<open>
  text after the closing brace of an item is not kept apart from the alternatives: the brace
  becomes part of the tag and the last character of the item is dropped in its place.
\<close>

theorem text_after_braces_misread:
  assumes "\<forall>c\<in>set pre. plain_char c" and "t \<noteq> []" and "CHR '','' \<notin> set t" and "CHR ''}'' \<notin> set t"
    and "suf \<noteq> []" and "\<forall>c\<in>set suf. plain_char c"
  shows "parseTags def (pre @ ''{'' @ t @ ''}'' @ suf) = [pre @ t @ ''}'' @ butlast suf]"
proof -
  have b: "\<not> tag_sep CHR ''{''" "\<not> tag_sep CHR ''}''" by (simp_all add: tag_sep_def)
  let ?tag = "pre @ ''{'' @ t @ ''}'' @ suf"
  have "tag_loop SEP (tp [] [] False) ?tag = tag_loop TAG (tp [] [] False) ?tag"
    using assms(1) b by (cases pre) (auto simp: plain_char_def)
  also have "\<dots> = tag_loop TAG (tp [] (pre @ ''{'' @ t @ ''}'') True) (suf @ [])"
    using b by (simp add: tag_loop_plain [OF assms(1)] push_char_def tag_loop_braces [OF assms(2,4)])
  also have "\<dots> = tp [] ?tag True"
    by (simp only: tag_loop_plain [OF assms(6)]) simp
  finally have loop: "tag_loop SEP (tp [] [] False) ?tag = tp [] ?tag True" .
  have "CHR ''{'' \<notin> set pre" using assms(1) by (auto simp: plain_char_def)
  then have brace: "str_find ?tag ''{'' 0 = Some (length pre)"
    by (simp add: str_find_0 find_sub_char_append)
  have "CHR '','' \<notin> set suf" using assms(6) by (auto simp: plain_char_def tag_sep_def)
  with assms(3) have "str_find ?tag '','' (length pre + 1) = None"
    by (simp add: str_find_def find_sub_char_None)
  moreover have "substr ?tag (length pre + 1) (size_sub (size_sub (length ?tag) 1) (length pre + 1)) = t @ ''}'' @ butlast suf"
    using assms(5) by (cases suf rule: rev_cases) (simp_all add: substr_def)
  ultimately have "expand_loop ?tag pre (length pre + 1) [] = [pre @ t @ ''}'' @ butlast suf]"
    by (subst expand_loop.simps) simp
  with loop brace show ?thesis
    by (simp add: parseTags_def tag_parse_def reset_tag_def have_tag_def expand_tag_braces_def substr_def)
qed

theorem text_after_braces_misread_witness: "parseTags [] ''a{x}bc'' = [''ax}b'']"
  using text_after_braces_misread [of "''a''" "''x''" "''bc''" "[]"] by (simp add: plain_char_def tag_sep_def)

subsection \<open>Sizes\<close>

text \<open>
  a size written in decimal is read back, whatever text follows the number (\<open>apt\<close> writes
  none); a number of 2 to the 64th or more is read as the largest \<open>size_t\<close>.
\<close>

theorem parseSize_decimal:
  assumes "r = [] \<or> \<not> isdigit (hd r)"
  shows "parseSize def (decimal n @ r) = (if n < size_modulus then n else size_modulus - 1)"
  using strtoul_decimal [OF assms, of n] by (auto simp: parseSize_def size_modulus_def)

theorem parseSize_decimal_witness: "parseSize 0 (''1234'' @ '' kB'') = 1234"
proof -
  have "decimal 1234 = ''1234''" by code_simp
  with parseSize_decimal [of "'' kB''" 0 1234] show ?thesis by (simp add: isdigit_def size_modulus_def)
qed

subsection \<open>The accessors on a written record\<close>

lemma lookup_all_written:
  assumes "sorter srt" and "\<forall>ls\<in>set fs. field_lines_ok ls" and "fs \<noteq> []" and "r = [] \<or> hd r = NL"
    and "map lines_text fs = map (\<lambda>(n, v). n @ '':'' @ v) nvs" and "\<forall>(n, v)\<in>set nvs. CHR '':'' \<notin> set n"
    and "distinct (map fst nvs)"
  shows "lookup (scan srt (concat (map lines_text fs) @ r)) n = (case map_of nvs n of None \<Rightarrow> [] | Some v \<Rightarrow> trimmed v)"
    (is "lookup ?rp n = _")
proof (cases "map_of nvs n")
  case (Some v)
  then have "(n, v) \<in> set nvs" by (rule map_of_SomeD)
  from lookup_written [OF assms(1,2,4-7) this] Some show ?thesis by simp
next
  case None
  have len: "length fs = length nvs" using assms(5) by (metis length_map)
  note fields = scan_text [OF assms(2,3,4), where srt = srt]
  have "rp_name ?rp i \<noteq> n" if "i < rp_size ?rp" for i
  proof -
    have i: "i < length nvs" using that fields(1) len by simp
    obtain m v where mv: "nvs ! i = (m, v)" by (cases "nvs ! i")
    then have m: "(m, v) \<in> set nvs" using i by (metis nth_mem)
    have "lines_text (fs ! i) = m @ CHR '':'' # v"
      using assms(5) i len mv by (metis (mono_tags, lifting) append_Cons append_Nil case_prod_conv nth_map)
    then have "rp_name ?rp i = m"
      using lookup_idx_field(1) [of ?rp i m v] fields(2) i len assms(6) m by auto
    moreover have "m \<noteq> n" using None m by (force simp: map_of_eq_None_iff)
    ultimately show ?thesis by simp
  qed
  then have "index ?rp n = rp_size ?rp" by (rule sorter.index_absent [OF assms(1)])
  then show ?thesis by (simp add: None lookup_def lookup_idx_def rp_field_def rp_size_def str_simps)
qed

text \<open>
  on a record that is written as a sequence of fields with different names, the accessors
  return the values of the fields they name, converted, and the default for a field that is not
  there: one accessor of every type.
\<close>

theorem accessors_of_written_record:
  assumes "sorter srt" and "\<forall>ls\<in>set fs. field_lines_ok ls" and "fs \<noteq> []" and "r = [] \<or> hd r = NL"
    and "map lines_text fs = map (\<lambda>(n, v). n @ '':'' @ v) nvs" and "\<forall>(n, v)\<in>set nvs. CHR '':'' \<notin> set n"
    and "distinct (map fst nvs)"
  shows "let rp = scan srt (concat (map lines_text fs) @ r);
             val = (\<lambda>n. case map_of nvs n of None \<Rightarrow> [] | Some v \<Rightarrow> trimmed v)
    in pkg_package d rp = parseString d (val ''Package'')
      \<and> pkg_installedSize k rp = parseSize k (val ''Installed-Size'')
      \<and> pkg_buildEssential b rp = parseBool b (val ''Build-Essential'')
      \<and> pkg_shortDescription d rp = parseShortDescription d (val ''Description'')
      \<and> pkg_longDescription d rp = parseLongDescription d (val ''Description'')
      \<and> pkg_tag ts rp = parseTags ts (val ''Tag'')"
  using lookup_all_written [OF assms]
  by (simp add: Let_def pkg_package_def pkg_installedSize_def pkg_buildEssential_def
      pkg_shortDescription_def pkg_longDescription_def pkg_tag_def)

theorem accessors_of_written_record_witness:
  "pkg_installedSize 0 (scan insertion_sort (''Package: apt'' @ [NL] @ ''Installed-Size: 42'' @ [NL])) = 42"
proof -
  let ?fs = "[[''Package: apt''], [''Installed-Size: 42'']]"
  let ?nvs = "[(''Package'', '' apt'' @ [NL]), (''Installed-Size'', '' 42'' @ [NL])]"
  have fs: "\<forall>ls\<in>set ?fs. field_lines_ok ls" by code_simp
  have "decimal 42 = ''42''" by code_simp
  then have v: "parseSize 0 ''42'' = 42"
    using strtoul_decimal [of "[]" 42] by (simp add: parseSize_def size_modulus_def)
  have trim: "trimmed ('' 42'' @ [NL]) = ''42''" by code_simp
  have layout: "map lines_text ?fs = map (\<lambda>(n, v). n @ '':'' @ v) ?nvs" by (simp add: lines_text_def)
  have names: "\<forall>(n, v)\<in>set ?nvs. CHR '':'' \<notin> set n" "distinct (map fst ?nvs)" by simp_all
  have buf: "concat (map lines_text ?fs) @ [] = ''Package: apt'' @ [NL] @ ''Installed-Size: 42'' @ [NL]"
    by (simp add: lines_text_def)
  have val: "map_of ?nvs ''Installed-Size'' = Some ('' 42'' @ [NL])" by simp
  note all = accessors_of_written_record [OF insertion.sorter_axioms fs _ _ layout names, of "[]" "[]" 0 False "[]",
      unfolded buf Let_def val option.case trim v]
  from all show ?thesis by blast
qed

end
