(* ===== verification/Versions.thy ===== *)
theory Versions
  imports Prelude
begin

section \<open>Package versions (ept/apt/version.cc)\<close>

text \<open>
  A \<open>Version\<close> is a package name with a version.  Its order compares the names and then the
  versions with \<open>debVS.CmpVersion\<close> of libapt-pkg, which is an argument of the model.
\<close>

record version =
  m_name :: string
  m_version :: string

definition version_isValid :: "version \<Rightarrow> bool" where
  "version_isValid v \<longleftrightarrow> m_name v \<noteq> [] \<and> m_version v \<noteq> []"

definition upstreamVersion :: "version \<Rightarrow> string" where
  "upstreamVersion v =
     (let start = (case str_find (m_version v) '':'' 0 of None \<Rightarrow> 0 | Some p \<Rightarrow> p + 1);
          en = (case rfind_char (m_version v) CHR ''-'' of None \<Rightarrow> length (m_version v) | Some p \<Rightarrow> p)
      in substr (m_version v) start (size_sub en start))"

definition version_eq :: "version \<Rightarrow> version \<Rightarrow> bool" where
  "version_eq a b \<longleftrightarrow> m_name a = m_name b \<and> m_version a = m_version b"

definition version_neq :: "version \<Rightarrow> version \<Rightarrow> bool" where
  "version_neq a b \<longleftrightarrow> m_name a \<noteq> m_name b \<or> m_version a \<noteq> m_version b"

definition version_le :: "(string \<Rightarrow> string \<Rightarrow> int) \<Rightarrow> version \<Rightarrow> version \<Rightarrow> bool" where
  "version_le CmpVersion a b =
     (if m_name a < m_name b then True
      else if m_name a = m_name b then CmpVersion (m_version a) (m_version b) \<le> 0
      else False)"

definition version_less :: "(string \<Rightarrow> string \<Rightarrow> int) \<Rightarrow> version \<Rightarrow> version \<Rightarrow> bool" where
  "version_less CmpVersion a b =
     (if m_name a < m_name b then True
      else if m_name a = m_name b then CmpVersion (m_version a) (m_version b) < 0
      else False)"

definition version_ge :: "(string \<Rightarrow> string \<Rightarrow> int) \<Rightarrow> version \<Rightarrow> version \<Rightarrow> bool" where
  "version_ge CmpVersion a b =
     (if m_name a > m_name b then True
      else if m_name a = m_name b then CmpVersion (m_version a) (m_version b) \<ge> 0
      else False)"

definition version_greater :: "(string \<Rightarrow> string \<Rightarrow> int) \<Rightarrow> version \<Rightarrow> version \<Rightarrow> bool" where
  "version_greater CmpVersion a b =
     (if m_name a > m_name b then True
      else if m_name a = m_name b then CmpVersion (m_version a) (m_version b) > 0
      else False)"

subsection \<open>The upstream version\<close>

text \<open>The forms of a Debian version: an optional epoch, the upstream version, an optional revision.\<close>

definition version_text :: "string option \<Rightarrow> string \<Rightarrow> string option \<Rightarrow> string" where
  "version_text epoch upstream revision =
     (case epoch of None \<Rightarrow> [] | Some e \<Rightarrow> e @ '':'') @ upstream
       @ (case revision of None \<Rightarrow> [] | Some r \<Rightarrow> ''-'' @ r)"

text \<open>
  the upstream part of a version is found whether or not it has an epoch and a revision: the
  epoch ends at the first colon, so only an upstream version without an epoch must not have one,
  and the revision starts at the last hyphen, so only one without a revision must not have one.
\<close>

theorem upstreamVersion_correct:
  assumes "case epoch of None \<Rightarrow> CHR '':'' \<notin> set upstream | Some e \<Rightarrow> CHR '':'' \<notin> set e"
    and "case revision of None \<Rightarrow> CHR ''-'' \<notin> set (version_text epoch upstream None) | Some r \<Rightarrow> CHR ''-'' \<notin> set r"
    and "epoch = None \<longrightarrow> (case revision of None \<Rightarrow> True | Some r \<Rightarrow> CHR '':'' \<notin> set r)"
  shows "upstreamVersion \<lparr>m_name = n, m_version = version_text epoch upstream revision\<rparr> = upstream"
proof -
  let ?v = "version_text epoch upstream revision"
  have start: "(case str_find ?v '':'' 0 of None \<Rightarrow> 0 | Some p \<Rightarrow> p + 1)
      = length (case epoch of None \<Rightarrow> [] | Some e \<Rightarrow> e @ '':'')"
    using assms(1,3) by (auto simp: version_text_def str_find_0 find_sub_char_append find_sub_char_None
        split: option.splits)
  have en: "(case rfind_char ?v CHR ''-'' of None \<Rightarrow> length ?v | Some p \<Rightarrow> p)
      = length (version_text epoch upstream None)"
  proof (cases revision)
    case None
    with assms(2) show ?thesis by (simp add: rfind_char_None)
  next
    case (Some r)
    have "?v = version_text epoch upstream None @ CHR ''-'' # r" by (simp add: Some version_text_def)
    with assms(2) Some rfind_char_append [of "CHR ''-''" r] show ?thesis by simp
  qed
  show ?thesis
    unfolding upstreamVersion_def version.select_convs start en Let_def
    by (cases epoch) (simp_all add: version_text_def substr_def)
qed

theorem upstreamVersion_correct_witness:
  "upstreamVersion \<lparr>m_name = ''a'', m_version = ''1:10.0-rc-2''\<rparr> = ''10.0-rc''"
  using upstreamVersion_correct [of "''10.0-rc''" "Some ''1''" "Some ''2''" "''a''"]
  by (simp add: version_text_def)

subsection \<open>The order\<close>

text \<open>
  What libapt-pkg documents of \<open>CmpVersion\<close>: the sign of the result is that of a comparison, so
  swapping the arguments negates it and \<open>\<le> 0\<close> is transitive.
\<close>

definition cmp_laws :: "(string \<Rightarrow> string \<Rightarrow> int) \<Rightarrow> bool" where
  "cmp_laws cmp \<longleftrightarrow> (\<forall>a b. sgn (cmp b a) = - sgn (cmp a b))
     \<and> (\<forall>a b c. cmp a b \<le> 0 \<longrightarrow> cmp b c \<le> 0 \<longrightarrow> cmp a c \<le> 0)"

lemma cmp_sign:
  assumes "cmp_laws cmp"
  shows "cmp a b < 0 \<longleftrightarrow> cmp b a > 0" "cmp a b \<le> 0 \<longleftrightarrow> cmp b a \<ge> 0" "cmp a a = 0"
proof -
  have s: "sgn (cmp b a) = - sgn (cmp a b)" for a b using assms unfolding cmp_laws_def by blast
  show "cmp a b < 0 \<longleftrightarrow> cmp b a > 0" using s [of b a] by (auto simp: sgn_if split: if_splits)
  show "cmp a b \<le> 0 \<longleftrightarrow> cmp b a \<ge> 0" using s [of b a] by (auto simp: sgn_if split: if_splits)
  show "cmp a a = 0" using s [of a a] by (auto simp: sgn_if split: if_splits)
qed

lemma cmp_trans: "cmp_laws cmp \<Longrightarrow> cmp a b \<le> 0 \<Longrightarrow> cmp b c \<le> 0 \<Longrightarrow> cmp a c \<le> 0"
  unfolding cmp_laws_def by blast

lemma version_le_iff:
  "version_le cmp a b \<longleftrightarrow> m_name a < m_name b \<or> m_name a = m_name b \<and> cmp (m_version a) (m_version b) \<le> 0"
  by (simp add: version_le_def)

text \<open>
  with a comparison of versions that is one, the four operators are one total order up to
  versions that compare equal: \<open>\<le>\<close> is reflexive, transitive and total, \<open>\<ge>\<close> is its converse, and
  the strict operators are the complements of the converses.
\<close>

theorem version_order_total:
  assumes "cmp_laws cmp"
  shows "version_le cmp a a \<and> (version_le cmp a b \<or> version_le cmp b a)
    \<and> (version_le cmp a b \<longrightarrow> version_le cmp b c \<longrightarrow> version_le cmp a c)
    \<and> (version_ge cmp a b \<longleftrightarrow> version_le cmp b a) \<and> (version_greater cmp a b \<longleftrightarrow> version_less cmp b a)
    \<and> (version_less cmp a b \<longleftrightarrow> \<not> version_le cmp b a) \<and> (version_eq a b \<longrightarrow> version_le cmp a b \<and> version_le cmp b a)"
proof -
  note s = cmp_sign [OF assms]
  have "version_le cmp a b \<longrightarrow> version_le cmp b c \<longrightarrow> version_le cmp a c"
    unfolding version_le_iff using cmp_trans [OF assms, of "m_version a" "m_version b" "m_version c"]
      less_trans [of "m_name a" "m_name b" "m_name c"] by metis
  moreover have "version_le cmp a b \<or> version_le cmp b a"
    using s(2) [of "m_version a" "m_version b"] by (auto simp: version_le_def)
  moreover have "version_ge cmp a b \<longleftrightarrow> version_le cmp b a" "version_greater cmp a b \<longleftrightarrow> version_less cmp b a"
    using s(1,2) [of "m_version b" "m_version a"] by (auto simp: version_le_def version_ge_def version_less_def version_greater_def)
  moreover have "version_less cmp a b \<longleftrightarrow> \<not> version_le cmp b a"
    using s(1) [of "m_version a" "m_version b"] by (auto simp: version_le_def version_less_def)
  ultimately show ?thesis using s(3) by (auto simp: version_le_def version_eq_def)
qed

theorem version_order_total_witness:
  "version_less (\<lambda>a b. int (length a) - int (length b)) \<lparr>m_name = ''a'', m_version = ''1''\<rparr> \<lparr>m_name = ''a'', m_version = ''10''\<rparr>
    \<and> \<not> version_le (\<lambda>a b. int (length a) - int (length b)) \<lparr>m_name = ''a'', m_version = ''10''\<rparr> \<lparr>m_name = ''a'', m_version = ''1''\<rparr>"
proof -
  let ?cmp = "\<lambda>a b. int (length a) - int (length b)"
  have "cmp_laws ?cmp" by (auto simp: cmp_laws_def sgn_if)
  moreover have "version_less ?cmp \<lparr>m_name = ''a'', m_version = ''1''\<rparr> \<lparr>m_name = ''a'', m_version = ''10''\<rparr>"
    by (simp add: version_less_def)
  ultimately show ?thesis
    using version_order_total [of ?cmp "\<lparr>m_name = ''a'', m_version = ''1''\<rparr>" "\<lparr>m_name = ''a'', m_version = ''10''\<rparr>"] by blast
qed

end
