(* ===== verification/Paths.thy ===== *)
theory Paths
  imports StrUtil
begin

section \<open>Path names and splitting (ept/utils/string.cc)\<close>

text \<open>
  \<open>basename\<close>, \<open>dirname\<close>, \<open>appendpath\<close> and \<open>joinpath\<close>, the iterator of \<open>Split\<close>, and \<open>normpath\<close>, which
  walks over it.  Splitting with empty tokens skipped on an empty separator never ends, so the
  iterator is a partial function; \<open>normpath\<close> is \<open>None\<close> where it takes the last element of an
  empty vector.
\<close>

subsection \<open>Path names\<close>

definition basename :: "string \<Rightarrow> string" where
  "basename pathname =
     (case rfind_char pathname CHR ''/'' of None \<Rightarrow> pathname | Some pos \<Rightarrow> substr_from pathname (pos + 1))"

text \<open>\<open>while (end > 0 && pathname[end - 1] == '/') --end;\<close>\<close>

fun skip_slashes :: "string \<Rightarrow> nat \<Rightarrow> nat" where
  "skip_slashes pathname 0 = 0"
| "skip_slashes pathname (Suc e) = (if pathname ! e = CHR ''/'' then skip_slashes pathname e else Suc e)"

definition dirname :: "string \<Rightarrow> string" where
  "dirname pathname =
     (if pathname = [] then ''.''
      else let e = skip_slashes pathname (length pathname)
        in if e = 0 then ''/''
           else case rfind_char_upto pathname CHR ''/'' (e - 1) of
             None \<Rightarrow> ''.''
           | Some e1 \<Rightarrow>
               (let e2 = skip_slashes pathname e1
                in if e2 = 0 then ''/'' else substr pathname 0 e2))"

definition appendpath :: "string \<Rightarrow> string \<Rightarrow> string" where
  "appendpath dest path2 =
     (if path2 = [] then dest
      else if dest = [] then path2
      else if last dest = CHR ''/'' then
        (if hd path2 = CHR ''/'' then dest @ substr_from path2 1 else dest @ path2)
      else (if hd path2 = CHR ''/'' then dest @ path2 else dest @ ''/'' @ path2))"

text \<open>The variant for C strings, which tests the first character for the terminating null.\<close>

definition appendpath_cstr :: "string \<Rightarrow> string \<Rightarrow> string" where
  "appendpath_cstr dest path2 =
     (case path2 of
        [] \<Rightarrow> dest
      | c # path2' \<Rightarrow>
          if dest = [] then path2
          else if last dest = CHR ''/'' then (if c = CHR ''/'' then dest @ path2' else dest @ path2)
          else if c = CHR ''/'' then dest @ path2
          else dest @ [CHR ''/''] @ path2)"

text \<open>The variadic templates.\<close>

definition appendpaths :: "string \<Rightarrow> string list \<Rightarrow> string" where
  "appendpaths dest components = fold (\<lambda>path2 dest. appendpath dest path2) components dest"

definition joinpath :: "string list \<Rightarrow> string" where
  "joinpath components = appendpaths [] components"

definition joinpath2 :: "string \<Rightarrow> string \<Rightarrow> string" where
  "joinpath2 path1 path2 = appendpath path1 path2"

subsection \<open>Split\<close>

record split_iter =
  live :: bool
  cur :: string
  nxt :: "nat option"

partial_function (option) skip_separators :: "string \<Rightarrow> string \<Rightarrow> nat \<Rightarrow> nat option" where
  "skip_separators str sep e =
     (if e + length sep \<le> length str then
        (if substr str e (length sep) \<noteq> sep then Some e
         else skip_separators str sep (e + length sep))
      else Some e)"

definition split_next :: "string \<Rightarrow> string \<Rightarrow> bool \<Rightarrow> split_iter \<Rightarrow> split_iter option" where
  "split_next str sep skip_empty it =
     (if \<not> live it then Some it
      else case nxt it of
        None \<Rightarrow> Some (it\<lparr>live := False\<rparr>)
      | Some e \<Rightarrow>
          if e = length str then Some (it\<lparr>cur := [], nxt := None\<rparr>)
          else
            (case (if sep = [] then Some (e + 1) else str_find str sep e) of
               None \<Rightarrow> Some (it\<lparr>cur := substr_from str e, nxt := None\<rparr>)
             | Some tok_end \<Rightarrow>
                 (let it1 = it\<lparr>cur := substr str e (size_sub tok_end e), nxt := Some (tok_end + length sep)\<rparr>
                  in if skip_empty then
                       (case skip_separators str sep (tok_end + length sep) of
                          None \<Rightarrow> None
                        | Some e' \<Rightarrow> Some (it1\<lparr>nxt := (if e' = length str then None else Some e')\<rparr>))
                     else Some it1)))"

definition split_begin :: "string \<Rightarrow> string \<Rightarrow> bool \<Rightarrow> split_iter option" where
  "split_begin str sep skip_empty =
     (case (if skip_empty then skip_separators str sep 0 else Some 0) of
        None \<Rightarrow> None
      | Some e \<Rightarrow> split_next str sep skip_empty \<lparr>live = True, cur = [], nxt = Some e\<rparr>)"

definition split_remainder :: "string \<Rightarrow> split_iter \<Rightarrow> string" where
  "split_remainder str it = (case nxt it of None \<Rightarrow> [] | Some e \<Rightarrow> substr_from str e)"

text \<open>\<open>a == b\<close> for iterators over one \<open>Split\<close>\<close>

definition split_eq :: "split_iter \<Rightarrow> split_iter \<Rightarrow> bool" where
  "split_eq a b =
     (if \<not> live a \<and> \<not> live b then True else if live a \<noteq> live b then False else nxt a = nxt b)"

definition split_end :: split_iter where
  "split_end = \<lparr>live = False, cur = [], nxt = Some 0\<rparr>"

text \<open>A loop over all the tokens.\<close>

partial_function (option) split_loop ::
  "string \<Rightarrow> string \<Rightarrow> bool \<Rightarrow> split_iter \<Rightarrow> string list \<Rightarrow> string list option" where
  "split_loop str sep skip_empty it toks =
     (if split_eq it split_end then Some toks
      else case split_next str sep skip_empty it of
        None \<Rightarrow> None
      | Some it' \<Rightarrow> split_loop str sep skip_empty it' (toks @ [cur it]))"

definition split_tokens :: "string \<Rightarrow> string \<Rightarrow> bool \<Rightarrow> string list option" where
  "split_tokens str sep skip_empty =
     (case split_begin str sep skip_empty of
        None \<Rightarrow> None
      | Some it \<Rightarrow> split_loop str sep skip_empty it [])"

subsection \<open>normpath\<close>

text \<open>The loop over the components; \<open>st.back()\<close> of an empty vector is undefined.\<close>

fun norm_loop :: "string list \<Rightarrow> string list \<Rightarrow> string list option" where
  "norm_loop st [] = Some st"
| "norm_loop st (i # is) =
     (if i = ''.'' \<or> i = [] then norm_loop st is
      else if i = ''..'' then
        (if st = [] then None
         else if last st = ''..'' then norm_loop (st @ [i]) is
         else if last st = ''/'' then norm_loop st is
         else norm_loop (butlast st) is)
      else norm_loop (st @ [i]) is)"

definition normpath :: "string \<Rightarrow> string option" where
  "normpath pathname =
     (case split_tokens pathname ''/'' False of
        None \<Rightarrow> None
      | Some toks \<Rightarrow>
          (case norm_loop (if pathname \<noteq> [] \<and> hd pathname = CHR ''/'' then [''/''] else []) toks of
             None \<Rightarrow> None
           | Some st \<Rightarrow> Some (if st = [] then ''.'' else appendpaths [] st)))"

subsection \<open>Directory and file name\<close>

abbreviation slashes :: "nat \<Rightarrow> string" where "slashes k \<equiv> replicate k CHR ''/''"

lemma skip_slashes_back:
  "skip_slashes (a @ slashes k @ b) (length a + k) = skip_slashes (a @ slashes k @ b) (length a)"
proof (induction k arbitrary: b)
  case (Suc k)
  have "a @ slashes (Suc k) @ b = a @ slashes k @ CHR ''/'' # b" by (simp add: replicate_app_Cons_same)
  moreover have "(a @ slashes k @ CHR ''/'' # b) ! (length a + k) = CHR ''/''" by (simp add: nth_append)
  ultimately show ?case using Suc.IH [of "CHR ''/'' # b"] by simp
qed simp

lemma skip_slashes_stop:
  "a \<noteq> [] \<Longrightarrow> last a \<noteq> CHR ''/'' \<Longrightarrow> skip_slashes (a @ b) (length a) = length a"
  by (cases a rule: rev_cases) (auto simp: nth_append)

lemma path_pieces:
  assumes "d \<noteq> []" and "last d \<noteq> CHR ''/''" and "b \<noteq> []" and "CHR ''/'' \<notin> set b"
  shows "joinpath2 d b = d @ ''/'' @ b \<and> basename (d @ slashes (Suc k) @ b) = b
    \<and> dirname (d @ slashes (Suc k) @ b @ slashes j) = d"
proof -
  have "hd b \<noteq> CHR ''/''" using assms(3,4) hd_in_set by metis
  then have join: "joinpath2 d b = d @ ''/'' @ b" using assms by (simp add: joinpath2_def appendpath_def)
  have "d @ slashes (Suc k) @ b = (d @ slashes k) @ CHR ''/'' # b" by (simp add: replicate_app_Cons_same)
  then have base: "basename (d @ slashes (Suc k) @ b) = b"
    using rfind_char_append [OF assms(4), of "d @ slashes k"] by (simp add: basename_def substr_from_def)
  let ?p = "d @ slashes (Suc k) @ b @ slashes j"
  have last_b: "last (d @ slashes (Suc k) @ b) \<noteq> CHR ''/''" using assms(3,4) last_in_set [OF assms(3)] by (auto simp del: last_in_set)
  have "skip_slashes (x @ slashes j) (length x + j) = length x" if "x \<noteq> []" "last x \<noteq> CHR ''/''" for x
    using skip_slashes_back [of x j "[]"] skip_slashes_stop [OF that, of "slashes j"] by simp
  from this [OF _ last_b] have "skip_slashes ?p (length ?p) = length (d @ slashes (Suc k) @ b)"
    using assms(1) by (simp add: add.assoc del: skip_slashes.simps)
  moreover have "rfind_char_upto ?p CHR ''/'' (length (d @ slashes (Suc k) @ b) - 1) = Some (length d + k)"
  proof -
    have "take (Suc (length (d @ slashes (Suc k) @ b) - 1)) ?p = (d @ slashes k) @ CHR ''/'' # b"
      using assms(3) by (simp add: replicate_app_Cons_same)
    then show ?thesis using rfind_char_append [OF assms(4), of "d @ slashes k"] by (simp add: rfind_char_upto_def)
  qed
  moreover have "skip_slashes ?p (length d + k) = length d"
    using skip_slashes_back [of d k "CHR ''/'' # b @ slashes j"] skip_slashes_stop [OF assms(1,2), of "slashes (Suc k) @ b @ slashes j"]
    by (simp add: replicate_app_Cons_same)
  ultimately have "dirname ?p = d" using assms(1) by (simp add: dirname_def substr_def Let_def)
  with join base show ?thesis by simp
qed

lemma skip_slashes_name: "b \<noteq> [] \<Longrightarrow> CHR ''/'' \<notin> set b \<Longrightarrow> skip_slashes (a @ b) (length (a @ b)) = length (a @ b)"
  using skip_slashes_stop [of "a @ b" "[]"] last_in_set [of b] by (metis append.right_neutral append_is_Nil_conv last_appendR)

lemma dirname_root:
  assumes "b \<noteq> []" and "CHR ''/'' \<notin> set b"
  shows "dirname (CHR ''/'' # b) = ''/''"
proof -
  have "skip_slashes (CHR ''/'' # b) (Suc (length b)) = Suc (length b)"
    using skip_slashes_name [OF assms, of "''/''"] by simp
  with rfind_char_append [OF assms(2), of "[]"] show ?thesis
    by (simp add: dirname_def rfind_char_upto_def Let_def del: skip_slashes.simps(2))
qed

lemma dirname_single:
  assumes "b \<noteq> []" and "CHR ''/'' \<notin> set b"
  shows "dirname b = ''.''"
  using skip_slashes_name [OF assms, of "[]"] rfind_char_None [OF assms(2)] assms(1)
  by (simp add: dirname_def rfind_char_upto_def Let_def)

text \<open>
  for a directory \<open>d\<close> that does not end in a slash and a name \<open>b\<close> without one, \<open>joinpath\<close> puts
  one slash between them, and \<open>dirname\<close> and \<open>basename\<close> take the path apart again; \<open>dirname\<close> also
  when there are several slashes between or after them.
\<close>

theorem dirname_basename_joinpath:
  assumes "d \<noteq> []" and "last d \<noteq> CHR ''/''" and "b \<noteq> []" and "CHR ''/'' \<notin> set b"
  shows "joinpath2 d b = d @ ''/'' @ b \<and> basename (d @ slashes (Suc k) @ b) = b
    \<and> dirname (d @ slashes (Suc k) @ b @ slashes j) = d"
  using assms by (rule path_pieces)

theorem dirname_basename_joinpath_witness:
  "dirname ''usr/share//doc/'' = ''usr/share'' \<and> basename ''usr/share//doc'' = ''doc''"
  using dirname_basename_joinpath [of "''usr/share''" "''doc''" 1 1] by simp

subsection \<open>Splitting\<close>

text \<open>The reference: cut at the first separator, again and again.\<close>

function split_ref :: "string \<Rightarrow> string \<Rightarrow> string list" where
  "split_ref sep s =
     (if sep = [] then [s]
      else case find_sub sep s of None \<Rightarrow> [s] | Some i \<Rightarrow> take i s # split_ref sep (drop (i + length sep) s))"
  by pat_completeness auto
termination
proof (relation "measure (\<lambda>(sep, s). length s)", goal_cases)
  case (2 sep s i)
  then show ?case using find_sub_SomeD [of sep s i] by (cases sep) auto
qed simp

declare split_ref.simps [simp del]

lemma split_ref_not_Nil [simp]: "split_ref sep s \<noteq> []"
  by (subst split_ref.simps) (simp split: option.split)

lemma join_split_ref: "str_join sep (split_ref sep s) = s"
proof (induction sep s rule: split_ref.induct)
  case (1 sep s)
  show ?case
  proof (cases "sep = [] \<or> find_sub sep s = None")
    case True
    then show ?thesis by (subst split_ref.simps) auto
  next
    case False
    then obtain i where i: "sep \<noteq> []" "find_sub sep s = Some i" by auto
    obtain t ts where ts: "split_ref sep (drop (i + length sep) s) = t # ts"
      by (cases "split_ref sep (drop (i + length sep) s)") auto
    have "split_ref sep s = take i s # t # ts" using i ts by (subst split_ref.simps) simp
    then have "str_join sep (split_ref sep s) = take i s @ sep @ str_join sep (t # ts)" by simp
    also have "\<dots> = take i s @ sep @ drop (i + length sep) s" using 1 [OF i] ts by simp
    finally show ?thesis using find_sub_split [OF i(2)] by simp
  qed
qed

lemma find_sub_take: "find_sub sep s = Some i \<Longrightarrow> sep \<noteq> [] \<Longrightarrow> find_sub sep (take i s) = None"
proof (rule ccontr)
  assume i: "find_sub sep s = Some i" "sep \<noteq> []" and "find_sub sep (take i s) \<noteq> None"
  then obtain j where j: "find_sub sep (take i s) = Some j" by auto
  from find_sub_SomeD [OF j] have le: "j + length sep \<le> length (take i s)" and "prefix sep (drop j (take i s))" by auto
  then have "prefix sep (drop j s)" by (metis append_take_drop_id drop_append prefix_prefix prefix_order.trans prefixI)
  moreover have "j < i" using le i(2) by (cases sep) auto
  ultimately show False using find_sub_before [OF i(1)] by blast
qed

lemma split_ref_tokens: "sep \<noteq> [] \<Longrightarrow> t \<in> set (split_ref sep s) \<Longrightarrow> find_sub sep t = None"
proof (induction sep s rule: split_ref.induct)
  case (1 sep s)
  then show ?case
    using find_sub_take [of sep s] split_ref.simps [of sep s]
    by (cases "find_sub sep s") auto
qed

lemma split_ref_join_char:
  "ts \<noteq> [] \<Longrightarrow> \<forall>t\<in>set ts. c \<notin> set t \<Longrightarrow> split_ref [c] (str_join [c] ts) = ts"
proof (induction ts rule: induct_list012)
  case (2 t)
  then show ?case by (subst split_ref.simps) (simp add: find_sub_char_None)
next
  case (3 t u ts)
  define j where "j = str_join [c] (u # ts)"
  have "str_join [c] (t # u # ts) = t @ c # j" by (simp add: j_def)
  moreover have "c \<notin> set t" using 3 by simp
  moreover have "split_ref [c] j = u # ts" unfolding j_def using "3.IH"(2) "3.prems"(2) by simp
  ultimately show ?case by (subst split_ref.simps) (simp add: find_sub_char_append)
qed simp

lemma split_next_eq:
  assumes "sep \<noteq> []" "e \<le> length str"
  shows "split_next str sep False \<lparr>live = True, cur = c, nxt = Some e\<rparr> =
    Some (case find_sub sep (drop e str) of
        None \<Rightarrow> \<lparr>live = True, cur = drop e str, nxt = None\<rparr>
      | Some i \<Rightarrow> \<lparr>live = True, cur = take i (drop e str), nxt = Some (e + i + length sep)\<rparr>)"
  using assms by (auto simp: split_next_def str_find_def substr_def substr_from_def Let_def split: option.split)

lemma split_loop_last: "split_loop str sep b \<lparr>live = True, cur = c, nxt = None\<rparr> toks = Some (toks @ [c])"
  by (subst split_loop.simps, simp add: split_eq_def split_end_def split_next_def)
    (subst split_loop.simps, simp add: split_eq_def split_end_def)

lemma split_loop_eq:
  assumes "sep \<noteq> []" "e \<le> length str"
  shows "split_loop str sep False \<lparr>live = True, cur = c, nxt = Some e\<rparr> toks = Some (toks @ c # split_ref sep (drop e str))"
  using assms(2)
proof (induction "length str - e" arbitrary: e c toks rule: less_induct)
  case less
  show ?case
  proof (cases "find_sub sep (drop e str)")
    case None
    with assms(1) less.prems show ?thesis
      by (subst split_loop.simps, subst split_ref.simps)
        (simp add: split_eq_def split_end_def split_next_eq split_loop_last)
  next
    case (Some i)
    from find_sub_SomeD [OF Some] have i: "e + i + length sep \<le> length str" using less.prems by auto
    moreover have "length str - (e + i + length sep) < length str - e" using i assms(1) by (cases sep) auto
    ultimately have "split_loop str sep False \<lparr>live = True, cur = take i (drop e str), nxt = Some (e + i + length sep)\<rparr> (toks @ [c])
      = Some ((toks @ [c]) @ take i (drop e str) # split_ref sep (drop (e + i + length sep) str))"
      by (intro less.hyps) auto
    with Some assms(1) less.prems show ?thesis
      by (subst split_loop.simps, subst split_ref.simps)
        (simp add: split_eq_def split_end_def split_next_eq add.commute add.left_commute)
  qed
qed

lemma split_tokens_eq: "sep \<noteq> [] \<Longrightarrow> split_tokens str sep False = Some (split_ref sep str)"
proof -
  assume sep: "sep \<noteq> []"
  show ?thesis
  proof (cases "find_sub sep str")
    case None
    with sep show ?thesis
      by (subst split_ref.simps) (simp add: split_tokens_def split_begin_def split_next_eq split_loop_last)
  next
    case (Some i)
    from find_sub_SomeD [OF Some] have "i + length sep \<le> length str" by simp
    with Some sep show ?thesis
      by (subst split_ref.simps) (simp add: split_tokens_def split_begin_def split_next_eq split_loop_eq)
  qed
qed

text \<open>
  C31: splitting on a separator that is not empty ends, no token contains the separator, and
  joining the tokens gives the string back; for a separator of one character the tokens of a
  joined string are the strings that were joined.
\<close>

theorem split_join_roundtrip:
  assumes "sep \<noteq> []"
  shows "(\<exists>toks. split_tokens str sep False = Some toks \<and> str_join sep toks = str
      \<and> list_all (\<lambda>t. find_sub sep t = None) toks)
    \<and> (sep = [c] \<and> ts \<noteq> [] \<and> (\<forall>t\<in>set ts. c \<notin> set t) \<longrightarrow> split_tokens (str_join sep ts) sep False = Some ts)"
  using split_tokens_eq [OF assms] join_split_ref split_ref_tokens [OF assms] split_ref_join_char
  by (auto simp: list_all_iff)

theorem split_join_roundtrip_witness:
  "split_tokens (str_join '','' [''a'', [], ''b'']) '','' False = Some [''a'', [], ''b'']"
  using split_join_roundtrip [of "'',''" "[]" "CHR '',''" "[''a'', [], ''b'']"] by simp

subsection \<open>Skipping empty tokens\<close>

abbreviation nonempty :: "string list \<Rightarrow> string list" where
  "nonempty ts \<equiv> filter (\<lambda>t. t \<noteq> []) ts"

lemma split_ref_sep: "sep \<noteq> [] \<Longrightarrow> prefix sep s \<Longrightarrow> split_ref sep s = [] # split_ref sep (drop (length sep) s)"
  by (subst split_ref.simps; cases s) auto

lemma substr_prefix: "e + length sep \<le> length str \<Longrightarrow> substr str e (length sep) = sep \<longleftrightarrow> prefix sep (drop e str)"
  by (metis append_eq_conv_conj append_take_drop_id prefix_def substr_def)

lemma skip_separators_eq:
  assumes "sep \<noteq> []" "e \<le> length str"
  shows "\<exists>e'. skip_separators str sep e = Some e' \<and> e' \<le> length str \<and> \<not> prefix sep (drop e' str)
    \<and> nonempty (split_ref sep (drop e str)) = nonempty (split_ref sep (drop e' str))"
  using assms(2)
proof (induction "length str - e" arbitrary: e rule: less_induct)
  case less
  show ?case
  proof (cases "prefix sep (drop e str)")
    case True
    then have len: "e + length sep \<le> length str"
      using less.prems by (auto dest: prefix_length_le)
    moreover have "length str - (e + length sep) < length str - e" using len assms(1) by (cases sep) auto
    ultimately obtain e' where "skip_separators str sep (e + length sep) = Some e'" "e' \<le> length str"
      "\<not> prefix sep (drop e' str)"
      "nonempty (split_ref sep (drop (e + length sep) str)) = nonempty (split_ref sep (drop e' str))"
      using less.hyps by blast
    moreover have "skip_separators str sep e = skip_separators str sep (e + length sep)"
      using True len by (subst skip_separators.simps) (simp add: substr_prefix)
    moreover have "nonempty (split_ref sep (drop e str)) = nonempty (split_ref sep (drop (e + length sep) str))"
      using split_ref_sep [OF assms(1) True] by (simp add: add.commute)
    ultimately show ?thesis by auto
  next
    case False
    then have "skip_separators str sep e = Some e"
      by (subst skip_separators.simps) (simp add: substr_prefix)
    with False less.prems show ?thesis by auto
  qed
qed

text \<open>What the iterator holds after a token at \<open>e\<close>, where no separator starts.\<close>

lemma split_next_skip:
  assumes "sep \<noteq> []" "e < length str" "\<not> prefix sep (drop e str)"
  shows "\<exists>t x. split_next str sep True \<lparr>live = True, cur = c, nxt = Some e\<rparr> = Some \<lparr>live = True, cur = t, nxt = x\<rparr>
    \<and> (case x of
         None \<Rightarrow> nonempty (split_ref sep (drop e str)) = [t]
       | Some e' \<Rightarrow> e < e' \<and> e' < length str \<and> \<not> prefix sep (drop e' str)
           \<and> nonempty (split_ref sep (drop e str)) = t # nonempty (split_ref sep (drop e' str)))"
proof (cases "find_sub sep (drop e str)")
  case None
  with assms(1,2) show ?thesis
    by (subst split_ref.simps) (simp add: split_next_def str_find_def substr_from_def)
next
  case (Some i)
  from find_sub_SomeD [OF Some] have i: "e + i + length sep \<le> length str" "prefix sep (drop i (drop e str))"
    using assms(2) by auto
  then have "i \<noteq> 0" using assms(3) by (metis drop_0)
  obtain e' where e': "skip_separators str sep (e + i + length sep) = Some e'" "e' \<le> length str"
    "\<not> prefix sep (drop e' str)"
    "nonempty (split_ref sep (drop (e + i + length sep) str)) = nonempty (split_ref sep (drop e' str))"
    using skip_separators_eq [OF assms(1) i(1)] by blast
  have "e + i + length sep \<le> e'"
  proof -
    have "skip_separators str sep k = Some l \<Longrightarrow> k \<le> l" for k l
    proof (rule skip_separators.raw_induct [of "\<lambda>str sep k l. k \<le> l", rotated])
      fix f str sep k l
      assume IH: "\<And>str sep k l. f str sep k = Some l \<Longrightarrow> k \<le> l"
        and run: "(if k + length sep \<le> length str then
            (if substr str k (length sep) \<noteq> sep then Some k else f str sep (k + length sep))
          else Some k) = Some l"
      show "k \<le> l" using run IH [of str sep "k + length sep" l] by (simp split: if_splits)
    qed
    with e'(1) show ?thesis by blast
  qed
  then have "e < e'" using \<open>i \<noteq> 0\<close> by simp
  have ref: "nonempty (split_ref sep (drop e str)) = take i (drop e str) # nonempty (split_ref sep (drop e' str))"
    using Some assms(1,2) e'(4) \<open>i \<noteq> 0\<close> i(1)
    by (subst split_ref.simps) (simp add: add.commute add.left_commute)
  have next_: "split_next str sep True \<lparr>live = True, cur = c, nxt = Some e\<rparr> =
    Some \<lparr>live = True, cur = take i (drop e str), nxt = (if e' = length str then None else Some e')\<rparr>"
    using Some assms(1,2) e'(1) by (simp add: split_next_def str_find_def substr_def Let_def)
  show ?thesis
  proof (cases "e' = length str")
    case True
    then have "nonempty (split_ref sep (drop e' str)) = []"
      using assms(1) by (subst split_ref.simps) simp
    with next_ ref True show ?thesis by auto
  next
    case False
    with next_ ref e'(2,3) \<open>e < e'\<close> show ?thesis by auto
  qed
qed

lemma split_loop_skip:
  assumes "sep \<noteq> []" "e < length str" "\<not> prefix sep (drop e str)"
  shows "split_loop str sep True \<lparr>live = True, cur = c, nxt = Some e\<rparr> toks
    = Some (toks @ c # nonempty (split_ref sep (drop e str)))"
  using assms(2,3)
proof (induction "length str - e" arbitrary: e c toks rule: less_induct)
  case less
  obtain t x where t: "split_next str sep True \<lparr>live = True, cur = c, nxt = Some e\<rparr> = Some \<lparr>live = True, cur = t, nxt = x\<rparr>"
    and x: "case x of
         None \<Rightarrow> nonempty (split_ref sep (drop e str)) = [t]
       | Some e' \<Rightarrow> e < e' \<and> e' < length str \<and> \<not> prefix sep (drop e' str)
           \<and> nonempty (split_ref sep (drop e str)) = t # nonempty (split_ref sep (drop e' str))"
    using split_next_skip [OF assms(1) less.prems] by blast
  have step: "split_loop str sep True \<lparr>live = True, cur = c, nxt = Some e\<rparr> toks
      = split_loop str sep True \<lparr>live = True, cur = t, nxt = x\<rparr> (toks @ [c])"
    by (subst split_loop.simps) (simp add: split_eq_def split_end_def t)
  show ?case
  proof (cases x)
    case None
    with x show ?thesis by (simp add: step split_loop_last)
  next
    case (Some e')
    with x less.prems have "length str - e' < length str - e" by auto
    with Some x less.hyps [of e' t "toks @ [c]"] show ?thesis by (simp add: step)
  qed
qed

lemma split_tokens_no_sep: "split_tokens str [] True = None"
proof -
  have "skip_separators str [] e \<noteq> Some e'" if "e \<le> length str" for e e'
  proof
    assume "skip_separators str [] e = Some e'"
    then have "[] \<noteq> ([] :: string) \<or> \<not> e \<le> length str"
    proof (rule skip_separators.raw_induct [of "\<lambda>str sep e e'. sep \<noteq> [] \<or> \<not> e \<le> length str", rotated])
      fix f str sep k l
      assume IH: "\<And>str sep k l. f str sep k = Some l \<Longrightarrow> sep \<noteq> [] \<or> \<not> k \<le> length str"
        and run: "(if k + length sep \<le> length str then
            (if substr str k (length sep) \<noteq> sep then Some k else f str sep (k + length sep))
          else Some k) = Some l"
      show "sep \<noteq> [] \<or> \<not> k \<le> length str"
      proof (cases "sep = [] \<and> k \<le> length str")
        case True
        with run have "f str sep k = Some l" by (simp add: substr_def)
        from IH [OF this] show ?thesis .
      qed blast
    qed
    with that show False by simp
  qed
  then have "skip_separators str [] 0 = None" by (meson le0 not_None_eq)
  then show ?thesis by (simp add: split_tokens_def split_begin_def)
qed

lemma split_tokens_skip:
  assumes "sep \<noteq> []"
  shows "split_tokens str sep True =
    Some (if nonempty (split_ref sep str) = [] then [[]] else nonempty (split_ref sep str))"
proof -
  obtain e where e: "skip_separators str sep 0 = Some e" "e \<le> length str" "\<not> prefix sep (drop e str)"
    "nonempty (split_ref sep str) = nonempty (split_ref sep (drop e str))"
    using skip_separators_eq [OF assms, of 0 str] by auto
  show ?thesis
  proof (cases "e = length str")
    case True
    have "split_ref sep [] = [[]]" using assms by (subst split_ref.simps) simp
    with True e(4) have "nonempty (split_ref sep str) = []" by simp
    with e(1) True assms show ?thesis
      by (simp add: split_tokens_def split_begin_def split_next_def split_loop_last)
  next
    case less: False
    obtain t x where t: "split_next str sep True \<lparr>live = True, cur = [], nxt = Some e\<rparr> = Some \<lparr>live = True, cur = t, nxt = x\<rparr>"
      and x: "case x of
         None \<Rightarrow> nonempty (split_ref sep (drop e str)) = [t]
       | Some e' \<Rightarrow> e < e' \<and> e' < length str \<and> \<not> prefix sep (drop e' str)
           \<and> nonempty (split_ref sep (drop e str)) = t # nonempty (split_ref sep (drop e' str))"
      using split_next_skip [OF assms, of e str "[]"] less e(2,3) by auto
    show ?thesis
    proof (cases x)
      case None
      with t x e(1,4) assms show ?thesis by (simp add: split_tokens_def split_begin_def split_loop_last)
    next
      case (Some e')
      with t x e(1,4) assms show ?thesis
        by (simp add: split_tokens_def split_begin_def split_loop_skip)
    qed
  qed
qed

text \<open>
  splitting with empty tokens skipped gives the tokens that are not empty - except that a
  string with no such token, like an empty string or one that is all separators, gives one empty
  token and not none; and with an empty separator the loop over the tokens never starts.
\<close>

theorem split_skip_empty:
  "split_tokens str sep True =
    (if sep = [] then None
     else if nonempty (split_ref sep str) = [] then Some [[]] else Some (nonempty (split_ref sep str)))"
  using split_tokens_no_sep split_tokens_skip by simp

subsection \<open>Normalising\<close>

text \<open>The components of a path with the current and parent directories resolved.\<close>

fun resolve :: "string list \<Rightarrow> string list \<Rightarrow> string list" where
  "resolve st [] = st"
| "resolve st (i # is) =
     (if i = ''.'' \<or> i = [] then resolve st is
      else if i = ''..'' then resolve (butlast st) is
      else resolve (st @ [i]) is)"

text \<open>Whether the components lead above a directory that is \<open>n\<close> levels deep.\<close>

fun climbs :: "nat \<Rightarrow> string list \<Rightarrow> bool" where
  "climbs n [] = False"
| "climbs n (i # is) =
     (if i = ''.'' \<or> i = [] then climbs n is
      else if i = ''..'' then n = 0 \<or> climbs (n - 1) is
      else climbs (n + 1) is)"

definition plain_component :: "string \<Rightarrow> bool" where
  "plain_component c \<longleftrightarrow> c \<noteq> [] \<and> c \<noteq> ''.'' \<and> c \<noteq> ''..'' \<and> CHR ''/'' \<notin> set c"

lemma component_cases:
  assumes "CHR ''/'' \<notin> set i"
  obtains (skip) "i = ''.'' \<or> i = []" | (up) "i = ''..''" | (plain) "plain_component i"
  using assms by (auto simp: plain_component_def)

lemma plain_facts:
  "plain_component c \<Longrightarrow> c \<noteq> []" "plain_component c \<Longrightarrow> c \<noteq> ''.''" "plain_component c \<Longrightarrow> c \<noteq> ''..''"
  "plain_component c \<Longrightarrow> c \<noteq> ''/''" "plain_component c \<Longrightarrow> CHR ''/'' \<notin> set c"
  by (auto simp: plain_component_def)

lemma plain_ends:
  assumes "plain_component c"
  shows "hd c \<noteq> CHR ''/''" "last c \<noteq> CHR ''/''"
  using plain_facts(1,5) [OF assms] by (metis hd_in_set, metis last_in_set)

lemma plain_stack:
  assumes "\<forall>c\<in>set st. plain_component c"
  shows "\<forall>c\<in>set (butlast st). plain_component c" and "st \<noteq> [] \<Longrightarrow> last st \<noteq> ''..''" and "st \<noteq> [] \<Longrightarrow> last st \<noteq> ''/''"
  using assms plain_facts(3,4) by (blast dest: in_set_butlastD, metis last_in_set, metis last_in_set)

lemma resolve_plain:
  "\<forall>c\<in>set st. plain_component c \<Longrightarrow> \<forall>c\<in>set toks. CHR ''/'' \<notin> set c \<Longrightarrow> \<forall>c\<in>set (resolve st toks). plain_component c"
proof (induction toks arbitrary: st)
  case (Cons i "is")
  then have "CHR ''/'' \<notin> set i" "\<forall>c\<in>set is. CHR ''/'' \<notin> set c" by simp_all
  note IH = Cons.IH [OF _ this(2)]
  from \<open>CHR ''/'' \<notin> set i\<close> show ?case
  proof (cases rule: component_cases)
    case skip
    with IH [OF Cons.prems(1)] show ?thesis by auto
  next
    case up
    with IH [OF plain_stack(1) [OF Cons.prems(1)]] show ?thesis by simp
  next
    case plain
    with IH [of "st @ [i]"] Cons.prems(1) show ?thesis by (simp add: plain_facts)
  qed
qed simp

lemma resolve_id: "\<forall>c\<in>set toks. plain_component c \<Longrightarrow> resolve st toks = st @ toks"
  by (induction toks arbitrary: st) (auto simp: plain_facts)

lemma norm_loop_absolute:
  "\<forall>c\<in>set st. plain_component c \<Longrightarrow> \<forall>c\<in>set toks. CHR ''/'' \<notin> set c \<Longrightarrow>
    norm_loop (''/'' # st) toks = Some (''/'' # resolve st toks)"
proof (induction toks arbitrary: st)
  case (Cons i "is")
  note st = plain_stack [OF Cons.prems(1)]
  have IH: "norm_loop (''/'' # st') is = Some (''/'' # resolve st' is)" if "\<forall>c\<in>set st'. plain_component c" for st'
    using Cons.IH [OF that] Cons.prems(2) by simp
  have "CHR ''/'' \<notin> set i" using Cons.prems(2) by simp
  then show ?case
  proof (cases rule: component_cases)
    case skip
    with IH [OF Cons.prems(1)] show ?thesis by auto
  next
    case up
    with IH [OF st(1)] IH [of "[]"] st(2,3) show ?thesis by (cases "st = []") simp_all
  next
    case plain
    with IH [of "st @ [i]"] Cons.prems(1) show ?thesis by (simp add: plain_facts)
  qed
qed simp

lemma norm_loop_relative:
  "\<forall>c\<in>set st. plain_component c \<Longrightarrow> \<forall>c\<in>set toks. CHR ''/'' \<notin> set c \<Longrightarrow>
    norm_loop st toks = (if climbs (length st) toks then None else Some (resolve st toks))"
proof (induction toks arbitrary: st)
  case (Cons i "is")
  note st = plain_stack [OF Cons.prems(1)]
  have IH: "norm_loop st' is = (if climbs (length st') is then None else Some (resolve st' is))"
    if "\<forall>c\<in>set st'. plain_component c" for st'
    using Cons.IH [OF that] Cons.prems(2) by simp
  have "CHR ''/'' \<notin> set i" using Cons.prems(2) by simp
  then show ?case
  proof (cases rule: component_cases)
    case skip
    with IH [OF Cons.prems(1)] show ?thesis by auto
  next
    case up
    with IH [OF st(1)] st(2,3) show ?thesis by (cases "st = []") simp_all
  next
    case plain
    with IH [of "st @ [i]"] Cons.prems(1) show ?thesis by (simp add: plain_facts)
  qed
qed simp

lemma appendpaths_Cons: "appendpaths d (c # cs) = appendpaths (appendpath d c) cs"
  by (simp add: appendpaths_def)

lemma appendpaths_plain:
  "\<forall>c\<in>set cs. plain_component c \<Longrightarrow> d \<noteq> [] \<Longrightarrow> last d \<noteq> CHR ''/'' \<Longrightarrow>
    appendpaths d cs = d @ concat (map (\<lambda>c. ''/'' @ c) cs)"
proof (induction cs arbitrary: d)
  case Nil
  then show ?case by (simp add: appendpaths_def)
next
  case (Cons c cs)
  then have c: "c \<noteq> []" "hd c \<noteq> CHR ''/''" "last c \<noteq> CHR ''/''" by (simp_all add: plain_facts plain_ends)
  then show ?case
    using Cons.IH [of "d @ ''/'' @ c"] Cons.prems by (simp add: appendpaths_def appendpath_def)
qed

lemma appendpaths_join:
  assumes "\<forall>c\<in>set cs. plain_component c"
  shows "cs \<noteq> [] \<Longrightarrow> appendpaths [] cs = str_join ''/'' cs" and "appendpaths [] (''/'' # cs) = ''/'' @ str_join ''/'' cs"
proof -
  have c: "c \<noteq> []" "hd c \<noteq> CHR ''/''" "last c \<noteq> CHR ''/''" if "c \<in> set cs" for c
    using assms that by (simp_all add: plain_facts plain_ends)
  show "appendpaths [] cs = str_join ''/'' cs" if ne: "cs \<noteq> []"
  proof -
    obtain d ds where cs: "cs = d # ds" using ne by (cases cs) auto
    have "appendpath [] d = d" by (simp add: appendpath_def)
    with assms c [of d] appendpaths_plain [of ds d] show ?thesis by (simp add: cs appendpaths_Cons)
  qed
  show "appendpaths [] (''/'' # cs) = ''/'' @ str_join ''/'' cs"
  proof (cases cs)
    case Nil
    then show ?thesis by (simp add: appendpaths_def appendpath_def)
  next
    case (Cons d ds)
    have "appendpath [] ''/'' = ''/''" "appendpath ''/'' d = ''/'' @ d"
      using c [of d] by (simp_all add: Cons appendpath_def)
    with assms c [of d] appendpaths_plain [of ds "''/'' @ d"] show ?thesis
      by (simp add: Cons appendpaths_Cons)
  qed
qed

lemma split_slash: "c \<in> set (split_ref ''/'' p) \<Longrightarrow> CHR ''/'' \<notin> set c"
  using split_ref_tokens [of "''/''" c p] by (auto simp: find_sub_char split: if_splits)

lemma split_leading_slash: "split_ref ''/'' (CHR ''/'' # p) = [] # split_ref ''/'' p"
  by (subst split_ref.simps) simp

lemma normpath_abs: "normpath (CHR ''/'' # p) = Some (''/'' @ str_join ''/'' (resolve [] (split_ref ''/'' p)))"
proof -
  have "\<forall>c\<in>set (resolve [] (split_ref ''/'' p)). plain_component c"
    by (rule resolve_plain) (auto dest: split_slash)
  then show ?thesis
    using norm_loop_absolute [of "[]" "split_ref ''/'' p"] split_slash
    by (simp add: normpath_def split_tokens_eq split_leading_slash appendpaths_join(2))
qed

lemma normpath_joined:
  assumes "\<forall>c\<in>set cs. plain_component c"
  shows "normpath (CHR ''/'' # str_join ''/'' cs) = Some (CHR ''/'' # str_join ''/'' cs)"
proof -
  have "\<forall>c\<in>set cs. CHR ''/'' \<notin> set c" using assms by (simp add: plain_facts)
  then have "resolve [] (split_ref ''/'' (str_join ''/'' cs)) = cs"
    using split_ref_join_char [of cs "CHR ''/''"] resolve_id [OF assms, of "[]"]
    by (cases "cs = []") (simp_all add: split_ref.simps [of _ "[]"])
  then show ?thesis using normpath_abs [of "str_join ''/'' cs"] by simp
qed

text \<open>
  C21: an absolute path is always normalised, to a slash and its resolved components, where the
  parent of the root is the root, and normalising the result changes nothing.  A relative path
  is normalised in the same way as long as it does not climb above its starting point; if it
  does, the code takes the last element of an empty vector.
\<close>

theorem normpath_correct:
  "(\<exists>cs. normpath (CHR ''/'' # p) = Some (''/'' @ str_join ''/'' cs) \<and> cs = resolve [] (split_ref ''/'' p)
      \<and> list_all plain_component cs \<and> normpath (''/'' @ str_join ''/'' cs) = Some (''/'' @ str_join ''/'' cs))
    \<and> (p \<noteq> [] \<and> hd p \<noteq> CHR ''/'' \<longrightarrow> normpath p =
        (let cs = resolve [] (split_ref ''/'' p)
         in if climbs 0 (split_ref ''/'' p) then None else Some (if cs = [] then ''.'' else str_join ''/'' cs)))"
proof (intro conjI impI)
  let ?cs = "resolve [] (split_ref ''/'' p)"
  have plain: "\<forall>c\<in>set ?cs. plain_component c"
    by (rule resolve_plain) (auto dest: split_slash)
  then show "\<exists>cs. normpath (CHR ''/'' # p) = Some (''/'' @ str_join ''/'' cs) \<and> cs = ?cs
      \<and> list_all plain_component cs \<and> normpath (''/'' @ str_join ''/'' cs) = Some (''/'' @ str_join ''/'' cs)"
    using normpath_abs [of p] normpath_joined [OF plain] by (simp add: list_all_iff)
  assume "p \<noteq> [] \<and> hd p \<noteq> CHR ''/''"
  then show "normpath p = (let cs = ?cs
      in if climbs 0 (split_ref ''/'' p) then None else Some (if cs = [] then ''.'' else str_join ''/'' cs))"
    using norm_loop_relative [of "[]" "split_ref ''/'' p"] split_slash appendpaths_join(1) [OF plain]
    by (simp add: normpath_def split_tokens_eq)
qed

theorem normpath_correct_witness:
  "normpath ''a/b/../c//.'' = Some ''a/c'' \<and> normpath ''a/../..'' = None"
proof -
  have "split_ref ''/'' ''a/b/../c//.'' = [''a'', ''b'', ''..'', ''c'', [], ''.'']"
    "split_ref ''/'' ''a/../..'' = [''a'', ''..'', ''..'']" by code_simp+
  with normpath_correct [of "''a/b/../c//.''"] normpath_correct [of "''a/../..''"] show ?thesis by simp
qed

end
