(* ===== verification/Codecs.thy ===== *)
theory Codecs
  imports StdConv
begin

section \<open>Encodings of strings (ept/utils/string.cc)\<close>

text \<open>
  C string escapes, URL encoding and Base64.  The locale \<open>codec\<close> is what a pair of an encoder and a
  decoder promises its users; the URL encoding and Base64 interpret it.  Reading outside the
  table of \<open>invbase64\<close> is \<open>None\<close>.
\<close>

locale codec =
  fixes enc :: "string \<Rightarrow> string"
    and dec :: "string \<Rightarrow> string option"
  assumes dec_enc: "dec (enc s) = Some s"
begin

lemma enc_inj: "enc s = enc t \<longleftrightarrow> s = t"
  by (metis dec_enc option.inject)

lemma enc_dec_enc: "map_option enc (dec (enc s)) = Some (enc s)"
  by (simp add: dec_enc)

end

subsection \<open>C strings\<close>

fun encode_cstring :: "string \<Rightarrow> string" where
  "encode_cstring [] = []"
| "encode_cstring (c # cs) =
     (if c = NL then [CHR 0x5C, CHR ''n'']
      else if c = TAB then [CHR 0x5C, CHR ''t'']
      else if c = NUL \<or> iscntrl c then [CHR 0x5C, CHR ''x''] @ hex2 (byte_of c)
      else if c = CHR 0x22 \<or> c = CHR 0x5C then CHR 0x5C # [c]
      else [c]) @ encode_cstring cs"

text \<open>
  The loop of \<open>decode_cstring\<close> with the result so far and the characters consumed.  A char is
  what is left of an \<open>int\<close> modulo 256.
\<close>

function decode_cstring_loop :: "string \<Rightarrow> string \<Rightarrow> nat \<Rightarrow> string \<times> nat" where
  "decode_cstring_loop [] res n = (res, n)"
| "decode_cstring_loop (c # cs) res n =
     (if c = CHR 0x22 then (res, n + 1)
      else if c = CHR 0x5C \<and> cs \<noteq> [] then
        (if hd cs = CHR ''n'' then decode_cstring_loop (tl cs) (res @ [NL]) (n + 2)
         else if hd cs = CHR ''t'' then decode_cstring_loop (tl cs) (res @ [TAB]) (n + 2)
         else if hd cs = CHR ''x'' then
           (let ds = takeWhile isxdigit (take 2 (tl cs))
            in decode_cstring_loop (drop (length ds) (tl cs))
                 (res @ [byte_char (nat (atoi (''0x'' @ ds) mod 256))]) (n + 2 + length ds))
         else decode_cstring_loop (tl cs) (res @ [hd cs]) (n + 2))
      else decode_cstring_loop cs (res @ [c]) (n + 1))"
  by pat_completeness auto
termination by (relation "measure (\<lambda>(cs, res, n). length cs)") (auto simp: Let_def)

definition decode_cstring :: "string \<Rightarrow> string \<times> nat" where
  "decode_cstring str = decode_cstring_loop str [] 0"

subsection \<open>URL encoding\<close>

definition url_safe :: "char \<Rightarrow> bool" where
  "url_safe c \<longleftrightarrow> isdigit c \<or> isupper c \<or> islower c \<or> c = CHR ''-'' \<or> c = CHR ''_'' \<or> c = CHR ''!''
     \<or> c = CHR ''*'' \<or> c = CHR 0x27 \<or> c = CHR ''('' \<or> c = CHR '')''"

fun encode_url :: "string \<Rightarrow> string" where
  "encode_url [] = []"
| "encode_url (c # cs) = (if url_safe c then [c] else ''%'' @ hex2 (byte_of c)) @ encode_url cs"

function decode_url_loop :: "string \<Rightarrow> nat \<Rightarrow> string \<Rightarrow> string" where
  "decode_url_loop str i res =
     (if i < length str then
        (if str ! i = CHR ''%'' then
           (if size_sub (length str) 2 \<le> i then res
            else decode_url_loop str (i + 3) (res @ [byte_char (strtoul16 (substr str (i + 1) 2) mod 256)]))
         else decode_url_loop str (i + 1) (res @ [str ! i]))
      else res)"
  by pat_completeness auto
termination by (relation "measure (\<lambda>(str, i, res). length str - i)") auto

declare decode_url_loop.simps [simp del]

definition decode_url :: "string \<Rightarrow> string" where
  "decode_url str = decode_url_loop str 0 []"

subsection \<open>Base64\<close>

definition base64 :: string where
  "base64 = ''ABCDEFGHIJKLMNOPQRSTUVWXYZabcdefghijklmnopqrstuvwxyz0123456789+/''"

definition invbase64_data :: "nat list" where
  "invbase64_data = [62, 0, 0, 0, 63, 52, 53, 54, 55, 56, 57, 58, 59, 60, 61, 0, 0, 0, 0, 0, 0, 0, 0, 1, 2, 3, 4, 5, 6, 7,
     8, 9, 10, 11, 12, 13, 14, 15, 16, 17, 18, 19, 20, 21, 22, 23, 24, 25, 0, 0, 0, 0, 0, 0, 26, 27, 28, 29, 30, 31, 32,
     33, 34, 35, 36, 37, 38, 39, 40, 41, 42, 43, 44, 45, 46, 47, 48, 49, 50, 51]"

text \<open>A \<open>char\<close> is signed: bytes from 128 on are negative and below 43.\<close>

definition invbase64 :: "char \<Rightarrow> nat option" where
  "invbase64 c =
     (if byte_of c < (43::nat) \<or> (128::nat) \<le> byte_of c then Some 0
      else if 43 + length invbase64_data < byte_of c then Some 0
      else if byte_of c - 43 < length invbase64_data then Some (invbase64_data ! (byte_of c - 43))
      else None)"

definition encode_triplet :: "string \<Rightarrow> nat" where
  "encode_triplet s =
     (let b = (\<lambda>k. byte_of (s ! k))
      in if 3 < length s then or (or (push_bit 16 (b 0)) (push_bit 8 (b 1))) (b 2)
         else (let e0 = push_bit 16 (b 0);
                   e1 = (if 1 < length s then or e0 (push_bit 8 (b 1)) else e0)
               in if 2 < length s then or e1 (b 2) else e1))"

definition sextets :: "nat \<Rightarrow> string" where
  "sextets e = map (\<lambda>j. base64 ! (and (drop_bit j e) 63)) [18, 12, 6, 0]"

text \<open>The loop over the triplets, on what is left of the string from position \<open>i\<close> on.\<close>

function encode_base64_loop :: "string \<Rightarrow> string \<Rightarrow> string" where
  "encode_base64_loop s res =
     (if s = [] then res else encode_base64_loop (drop 3 s) (res @ sextets (encode_triplet s)))"
  by pat_completeness auto
termination by (relation "measure (\<lambda>(s, res). length s)") auto

declare encode_base64_loop.simps [simp del]

definition encode_base64 :: "string \<Rightarrow> string" where
  "encode_base64 str =
     (let res = encode_base64_loop str []
      in if length str mod 3 \<noteq> 0
         then fold (\<lambda>i res. res[length res - i - 1 := CHR ''='']) [0..<3 - length str mod 3] res
         else res)"

definition decode_quad :: "string \<Rightarrow> nat option" where
  "decode_quad s =
     (let v = (\<lambda>k. if k < length s then invbase64 (s ! k) else Some 0)
      in case (v 0, v 1, v 2, v 3) of
           (Some a, Some b, Some c, Some d) \<Rightarrow> Some (push_bit 18 a + push_bit 12 b + push_bit 6 c + d)
         | _ \<Rightarrow> None)"

definition octets :: "nat \<Rightarrow> string" where
  "octets e = [byte_char (and (drop_bit 16 e) 255), byte_char (and (drop_bit 8 e) 255), byte_char (and e 255)]"

function decode_base64_loop :: "string \<Rightarrow> string \<Rightarrow> string option" where
  "decode_base64_loop s res =
     (if s = [] then Some res
      else case decode_quad s of
        None \<Rightarrow> None
      | Some e \<Rightarrow> decode_base64_loop (drop 4 s) (res @ octets e))"
  by pat_completeness auto
termination by (relation "measure (\<lambda>(s, res). length s)") auto

declare decode_base64_loop.simps [simp del]

text \<open>The loop that removes a character for every \<open>=\<close> at the end.\<close>

fun unpad_loop :: "string \<Rightarrow> nat \<Rightarrow> string \<Rightarrow> string" where
  "unpad_loop str 0 res = (if str ! 0 = CHR ''='' then butlast res else res)"
| "unpad_loop str (Suc i) res =
     (if str ! Suc i = CHR ''='' then
        (let res' = (if res \<noteq> [] then butlast res else res)
         in if res' = [] then res' else unpad_loop str i res')
      else res)"

definition decode_base64 :: "string \<Rightarrow> string option" where
  "decode_base64 str =
     (case decode_base64_loop str [] of
        None \<Rightarrow> None
      | Some res \<Rightarrow> Some (if str \<noteq> [] then unpad_loop str (length str - 1) res else res))"

subsection \<open>C string escapes read back\<close>

lemma atoi_hex: "atoi (''0x'' @ ds) = 0"
  by (simp add: atoi_def isspace_def isdigit_def decimal_value_def digit_val_def)

text \<open>What is left of a character: a control character other than newline and tab is not kept.\<close>

definition cstring_kept :: "char \<Rightarrow> char" where
  "cstring_kept c = (if c \<noteq> NL \<and> c \<noteq> TAB \<and> (c = NUL \<or> iscntrl c) then NUL else c)"

lemma takeWhile_hex2: "n < 256 \<Longrightarrow> takeWhile isxdigit (hex2 n) = hex2 n"
  using hex_digit_facts(1) [of "n div 16"] hex_digit_facts(1) [of "n mod 16"] by (simp add: hex2_def)

lemma decode_cstring_encoded:
  "decode_cstring_loop (encode_cstring s @ r) res n =
     decode_cstring_loop r (res @ map cstring_kept s) (n + length (encode_cstring s))"
proof (induction s arbitrary: res n)
  case (Cons c s)
  have byte: "byte_of c < (256::nat)" by (rule nat_of_char_less_256)
  have len: "length (hex2 k) = 2" for k by (simp add: hex2_def)
  consider (nl) "c = NL" | (tab) "c = TAB" | (ctl) "c \<noteq> NL" "c \<noteq> TAB" "c = NUL \<or> iscntrl c"
    | (esc) "c = CHR 0x22 \<or> c = CHR 0x5C" "\<not> iscntrl c"
    | (plain) "c \<noteq> NL" "c \<noteq> TAB" "\<not> (c = NUL \<or> iscntrl c)" "c \<noteq> CHR 0x22" "c \<noteq> CHR 0x5C" by blast
  then show ?case
  proof cases
    case nl
    then show ?thesis by (simp add: Cons.IH cstring_kept_def)
  next
    case tab
    then show ?thesis by (simp add: Cons.IH cstring_kept_def)
  next
    case ctl
    then have kept: "cstring_kept c = NUL" by (simp add: cstring_kept_def)
    have enc: "encode_cstring (c # s) = CHR 0x5C # CHR ''x'' # hex2 (byte_of c) @ encode_cstring s"
      using ctl by simp
    have "decode_cstring_loop (encode_cstring (c # s) @ r) res n
      = decode_cstring_loop (encode_cstring s @ r) (res @ [byte_char 0]) (Suc (Suc (Suc (Suc n))))"
      using takeWhile_hex2 [OF byte] atoi_hex [of "hex2 (byte_of c)"]
      unfolding enc by (simp add: Let_def len del: takeWhile_eq_all_conv)
    moreover have "byte_char (0 :: nat) = NUL" by code_simp
    ultimately show ?thesis unfolding enc by (simp add: Cons.IH kept len)
  next
    case esc
    then show ?thesis by (auto simp: Cons.IH cstring_kept_def)
  next
    case plain
    then show ?thesis by (simp add: Cons.IH cstring_kept_def)
  qed
qed simp

text \<open>
  what \<open>encode_cstring\<close> produces is read back up to the closing quote, with the number of
  characters consumed - but a control character other than newline and tab comes back as a null
  character: its escape is handed to \<open>atoi\<close>, which stops at the \<open>x\<close> of \<open>0x\<close>.
\<close>

theorem decode_encode_cstring:
  "decode_cstring (encode_cstring s @ CHR 0x22 # r) = (map cstring_kept s, length (encode_cstring s) + 1)
    \<and> decode_cstring (encode_cstring s) = (map cstring_kept s, length (encode_cstring s))"
  using decode_cstring_encoded [of s "CHR 0x22 # r" "[]" 0] decode_cstring_encoded [of s "[]" "[]" 0]
  by (simp add: decode_cstring_def)

subsection \<open>URL encoding read back\<close>

lemma decode_url_encoded: "decode_url_loop (a @ encode_url s) (length a) res = res @ s"
proof (induction s arbitrary: a res)
  case Nil
  then show ?case by (simp add: decode_url_loop.simps)
next
  case (Cons c s)
  have byte: "byte_of c < (256::nat)" by (rule nat_of_char_less_256)
  show ?case
  proof (cases "url_safe c")
    case True
    then have "c \<noteq> CHR ''%''" by (auto simp: url_safe_def cchars)
    with True Cons.IH [of "a @ [c]" "res @ [c]"] show ?thesis by (subst decode_url_loop.simps) simp
  next
    case False
    let ?e = "''%'' @ hex2 (byte_of c)"
    have "substr (a @ ?e @ encode_url s) (length a + 1) 2 = hex2 (byte_of c)"
      by (simp add: substr_def hex2_def)
    moreover have "length ?e = 3" by (simp add: hex2_def)
    moreover have "char_of (strtoul16 (hex2 (byte_of c)) mod 256) = c"
      by (simp add: strtoul16_hex2 [OF byte])
    ultimately show ?thesis
      using False Cons.IH [of "a @ ?e" "res @ [c]"]
      by (subst decode_url_loop.simps) (simp add: hex2_def numeral_3_eq_3)
  qed
qed

interpretation url: codec encode_url "\<lambda>s. Some (decode_url s)"
  using decode_url_encoded [of "[]"] by unfold_locales (simp add: decode_url_def)

text \<open>
  every string is recovered from its URL encoding, so different strings have different
  encodings, and the encoding consists of safe characters, percent signs and digits.
\<close>

theorem decode_encode_url:
  "decode_url (encode_url s) = s \<and> (encode_url s = encode_url t \<longleftrightarrow> s = t)
    \<and> list_all (\<lambda>c. url_safe c \<or> c = CHR ''%'') (encode_url s)"
proof -
  have digit: "url_safe (hex_digit n)" if "n < 16" for n
    using hex_digit_facts(1) [OF that] by (auto simp: url_safe_def cchars)
  have "list_all (\<lambda>c. url_safe c \<or> c = CHR ''%'') (encode_url s)"
  proof (induction s)
    case (Cons c s)
    have "byte_of c div 16 < (16::nat)" "byte_of c mod 16 < (16::nat)"
      using nat_of_char_less_256 [of c] by (simp_all add: less_mult_imp_div_less)
    with Cons digit show ?case by (simp add: hex2_def)
  qed simp
  with url.dec_enc [of s] url.enc_inj [of s t] show ?thesis by simp
qed

subsection \<open>Base64 read back\<close>

lemma and_63: "and (x :: nat) 63 = x mod 64" and and_255: "and (x :: nat) 255 = x mod 256"
proof -
  have "(63 :: nat) = mask 6" "(255 :: nat) = mask 8" by (simp_all add: mask_eq_exp_minus_1)
  then show "and x 63 = x mod 64" "and x 255 = x mod 256"
    by (simp_all only: take_bit_eq_mask [symmetric] take_bit_eq_mod) simp_all
qed

lemma or_low: "y < 2 ^ k \<Longrightarrow> or (push_bit k x) y = push_bit k x + (y :: nat)"
proof -
  assume "y < 2 ^ k"
  then have "y = take_bit k y" by (simp add: take_bit_nat_eq_self)
  moreover have "and (push_bit k x) (take_bit k y) = 0"
    by (rule bit_eqI) (auto simp: bit_simps)
  ultimately have "and (push_bit k x) y = 0" by simp
  then show ?thesis by (metis disjunctive_add_eq_or)
qed

lemma triplet_value:
  assumes "a < 256" "b < 256" "c < 256"
  shows "or (or (push_bit 16 a) (push_bit 8 b)) c = a * 65536 + b * 256 + (c :: nat)"
    and "or (push_bit 16 a) (push_bit 8 b) = a * 65536 + b * 256"
proof -
  have "push_bit 8 b < (2 ^ 16 :: nat)" using assms(2) by (simp add: push_bit_eq_mult)
  from or_low [OF this, of a] have ab: "or (push_bit 16 a) (push_bit 8 b) = push_bit 8 (a * 256 + b)"
    by (simp add: push_bit_eq_mult)
  then show "or (push_bit 16 a) (push_bit 8 b) = a * 65536 + b * 256" by (simp add: push_bit_eq_mult)
  show "or (or (push_bit 16 a) (push_bit 8 b)) c = a * 65536 + b * 256 + c"
    unfolding ab using or_low [of c 8 "a * 256 + b"] assms(3) by (simp add: push_bit_eq_mult)
qed

lemma base64_inverse:
  assumes "k < 64"
  shows "invbase64 (base64 ! k) = Some k" and "base64 ! k \<noteq> CHR ''=''"
proof -
  have "list_all (\<lambda>k. invbase64 (base64 ! k) = Some k \<and> base64 ! k \<noteq> CHR ''='') [0..<64]"
    by code_simp
  with assms show "invbase64 (base64 ! k) = Some k" "base64 ! k \<noteq> CHR ''=''" by (auto simp: list_all_iff)
qed

abbreviation b24 :: "char \<Rightarrow> char \<Rightarrow> char \<Rightarrow> nat" where
  "b24 a b c \<equiv> byte_of a * 65536 + byte_of b * 256 + byte_of c"

abbreviation sextet :: "nat \<Rightarrow> nat \<Rightarrow> char" where
  "sextet e k \<equiv> base64 ! (e div k mod 64)"

lemma sextets_eq: "sextets e = [sextet e 262144, sextet e 4096, sextet e 64, base64 ! (e mod 64)]"
  by (simp add: sextets_def and_63 drop_bit_eq_div)

lemma encode_triplet_eq:
  "encode_triplet (a # b # c # s) = b24 a b c"
  "encode_triplet [a, b] = b24 a b NUL"
  "encode_triplet [a] = b24 a NUL NUL"
  using triplet_value [of "byte_of a" "byte_of b" "byte_of c"]
  by (simp_all add: encode_triplet_def Let_def push_bit_eq_mult)

lemma encode_base64_loop_res: "encode_base64_loop s res = res @ encode_base64_loop s []"
proof (induction "length s" arbitrary: s res rule: less_induct)
  case less
  show ?case
  proof (cases "s = []")
    case True
    then show ?thesis by (simp add: encode_base64_loop.simps)
  next
    case False
    then have "length (drop 3 s) < length s" by (cases s) auto
    note IH = less [OF this]
    from False show ?thesis
      by (subst (1 2) encode_base64_loop.simps)
        (simp add: IH [of "res @ sextets (encode_triplet s)"] IH [of "sextets (encode_triplet s)"])
  qed
qed

lemma encode_base64_loop_eqs:
  "encode_base64_loop [] [] = []"
  "encode_base64_loop [a] [] = sextets (b24 a NUL NUL)"
  "encode_base64_loop [a, b] [] = sextets (b24 a b NUL)"
  "encode_base64_loop (a # b # c # s) [] = sextets (b24 a b c) @ encode_base64_loop s []"
  by (subst encode_base64_loop.simps; simp add: encode_triplet_eq encode_base64_loop.simps [of "[]"];
    subst encode_base64_loop_res; simp)+

lemma encode_base64_eqs:
  "encode_base64 [] = []"
  "encode_base64 [a] = [sextet (b24 a NUL NUL) 262144, sextet (b24 a NUL NUL) 4096] @ ''==''"
  "encode_base64 [a, b] = [sextet (b24 a b NUL) 262144, sextet (b24 a b NUL) 4096, sextet (b24 a b NUL) 64] @ ''=''"
  by (simp_all add: encode_base64_def encode_base64_loop_eqs sextets_eq Let_def upt_rec)

abbreviation put_pads :: "nat list \<Rightarrow> string \<Rightarrow> string" where
  "put_pads is res \<equiv> fold (\<lambda>i res. res[length res - i - 1 := CHR ''='']) is res"

lemma put_pads_append: "k \<le> length ys \<Longrightarrow> put_pads [0..<k] (xs @ ys) = xs @ put_pads [0..<k] ys
    \<and> length (put_pads [0..<k] ys) = length ys"
  by (induction k) (auto simp: list_update_append)

lemma encode_base64_long: "s \<noteq> [] \<Longrightarrow> 4 \<le> length (encode_base64_loop s [])"
  by (subst encode_base64_loop.simps, simp, subst encode_base64_loop_res) (simp add: sextets_eq)

lemma encode_base64_triplet: "encode_base64 (a # b # c # s) = sextets (b24 a b c) @ encode_base64 s"
proof (cases "s = []")
  case True
  then show ?thesis by (simp add: encode_base64_def encode_base64_loop_eqs)
next
  case False
  then have "3 - length s mod 3 \<le> length (encode_base64_loop s [])" using encode_base64_long [of s] by simp
  then show ?thesis
    using put_pads_append [of "3 - length s mod 3" "encode_base64_loop s []" "sextets (b24 a b c)"]
    by (simp add: encode_base64_def encode_base64_loop_eqs Let_def mod_Suc_eq)
qed

lemma sum_sextets:
  "(e :: nat) < 16777216 \<Longrightarrow>
    e div 262144 mod 64 * 262144 + e div 4096 mod 64 * 4096 + e div 64 mod 64 * 64 + e mod 64 = e
    \<and> e div 262144 mod 64 = e div 262144"
proof -
  assume "e < 16777216"
  then have "e div 262144 < 64" by (simp add: less_mult_imp_div_less)
  then have "e div 262144 mod 64 = e div 262144" by simp
  moreover have "e = e div 64 * 64 + e mod 64" "e div 64 = e div 4096 * 64 + e div 64 mod 64"
    "e div 4096 = e div 262144 * 64 + e div 4096 mod 64"
    using div_mult_mod_eq [of e 64] div_mult_mod_eq [of "e div 64" 64] div_mult_mod_eq [of "e div 4096" 64]
    by (simp_all add: div_mult2_eq [symmetric])
  ultimately show ?thesis by (intro conjI; linarith)
qed

lemma inv_pad: "invbase64 CHR ''='' = Some 0"
  by code_simp

lemma decode_quad_values:
  assumes "invbase64 w = Some a" "invbase64 x = Some b" "invbase64 y = Some c" "invbase64 z = Some d"
  shows "decode_quad (w # x # y # z # t) = Some (a * 262144 + b * 4096 + c * 64 + d)"
  using assms by (simp add: decode_quad_def push_bit_eq_mult)

lemma inv_sextet: "invbase64 (sextet e k) = Some (e div k mod 64)" "invbase64 (base64 ! (e mod 64)) = Some (e mod 64)"
  by (simp_all add: base64_inverse(1))

lemma decode_quad_eqs:
  assumes "e < 16777216"
  shows "decode_quad (sextets e @ t) = Some e"
    and "e mod 64 = 0 \<Longrightarrow> decode_quad [sextet e 262144, sextet e 4096, sextet e 64, CHR ''=''] = Some e"
    and "e mod 4096 = 0 \<Longrightarrow> decode_quad [sextet e 262144, sextet e 4096, CHR ''='', CHR ''=''] = Some e"
proof -
  note sum = sum_sextets [OF assms, THEN conjunct1]
  show "decode_quad (sextets e @ t) = Some e"
    using decode_quad_values [OF inv_sextet(1) inv_sextet(1) inv_sextet(1) inv_sextet(2), of e 262144 e 4096 e 64 e t]
    unfolding sum by (simp add: sextets_eq)
  show "decode_quad [sextet e 262144, sextet e 4096, sextet e 64, CHR ''=''] = Some e" if "e mod 64 = 0"
  proof -
    have "e div 262144 mod 64 * 262144 + e div 4096 mod 64 * 4096 + e div 64 mod 64 * 64 + 0 = e"
      using sum that by linarith
    then show ?thesis
      using decode_quad_values [OF inv_sextet(1) inv_sextet(1) inv_sextet(1) inv_pad, of e 262144 e 4096 e 64 "[]"]
      by (simp only:)
  qed
  show "decode_quad [sextet e 262144, sextet e 4096, CHR ''='', CHR ''=''] = Some e" if "e mod 4096 = 0"
  proof -
    have "e mod 64 = e mod 4096 mod 64" by (simp add: mod_mod_cancel)
    moreover have "e div 64 mod 64 = e mod 4096 div 64"
      using mod_mult2_eq [of e 64 64] by simp
    ultimately have "e div 64 mod 64 = 0" "e mod 64 = 0" using that by simp_all
    then have "e div 262144 mod 64 * 262144 + e div 4096 mod 64 * 4096 + 0 * 64 + 0 = e"
      using sum by linarith
    then show ?thesis
      using decode_quad_values [OF inv_sextet(1) inv_sextet(1) inv_pad inv_pad, of e 262144 e 4096 "[]"] by (simp only:)
  qed
qed

lemma octets_b24: "octets (b24 a b c) = [a, b, c]"
proof -
  have byte: "byte_of x \<le> (255 :: nat)" for x using nat_of_char_less_256 [of x] by linarith
  have "b24 a b c div 65536 = byte_of a"
  proof (rule div_nat_eqI)
    show "b24 a b c < 65536 * Suc (byte_of a)" using byte [of b] byte [of c] by simp
  qed simp
  moreover have "b24 a b c div 256 = byte_of a * 256 + byte_of b"
  proof (rule div_nat_eqI)
    show "b24 a b c < 256 * Suc (byte_of a * 256 + byte_of b)" using byte [of c] by simp
  qed simp
  moreover have "b24 a b c mod 256 = byte_of c"
  proof -
    have "b24 a b c = byte_of c + (byte_of a * 256 + byte_of b) * 256" by simp
    then show ?thesis by (simp only: mod_mult_self1) simp
  qed
  ultimately show ?thesis by (simp add: octets_def and_255 drop_bit_eq_div)
qed

lemma b24_less: "b24 a b c < 16777216"
  using nat_of_char_less_256 [of a] nat_of_char_less_256 [of b] nat_of_char_less_256 [of c] by linarith

lemma decode_base64_block:
  assumes "decode_quad (q @ t) = Some (b24 a b c)" "length q = 4"
  shows "decode_base64_loop (q @ t) res = decode_base64_loop t (res @ [a, b, c])"
  using assms by (subst decode_base64_loop.simps) (auto simp: octets_b24)

text \<open>How many padding characters an encoding ends in.\<close>

definition pads :: "string \<Rightarrow> nat" where
  "pads s = (3 - length s mod 3) mod 3"

lemma decode_encoded_base64:
  "(s \<noteq> [] \<longrightarrow> (\<exists>p x. encode_base64 s = p @ [x] @ replicate (pads s) CHR ''='' \<and> x \<noteq> CHR ''=''))
    \<and> decode_base64_loop (encode_base64 s) res = Some (res @ s @ replicate (pads s) NUL)"
proof (induction s arbitrary: res rule: length_induct)
  case (1 s)
  have nil: "decode_base64_loop [] r = Some r" for r by (simp add: decode_base64_loop.simps)
  have not_pad: "base64 ! (k mod 64) \<noteq> CHR ''=''" for k by (rule base64_inverse(2)) simp
  consider "s = []" | (one) a where "s = [a]" | (two) a b where "s = [a, b]"
    | (three) a b c s' where "s = a # b # c # s'"
    by (metis list.exhaust)
  then show ?case
  proof cases
    case 1
    then show ?thesis by (simp add: encode_base64_eqs pads_def nil)
  next
    case one
    have "b24 a NUL NUL mod 4096 = 0" by simp
    note q = decode_quad_eqs(3) [OF b24_less this]
    show ?thesis
      using decode_base64_block [of _ "[]", OF _ , of _ a NUL NUL res] q not_pad
      by (simp add: one encode_base64_eqs pads_def nil numeral_2_eq_2)
  next
    case two
    have "b24 a b NUL mod 64 = 0" by simp
    note q = decode_quad_eqs(2) [OF b24_less this]
    show ?thesis
      using decode_base64_block [of _ "[]", OF _ , of _ a b NUL res] q not_pad
      by (simp add: two encode_base64_eqs pads_def nil)
  next
    case three
    have less: "length s' < length s" by (simp add: three)
    have loop: "decode_base64_loop (sextets (b24 a b c) @ t) res = decode_base64_loop t (res @ [a, b, c])" for t
      by (rule decode_base64_block [OF decode_quad_eqs(1) [OF b24_less]]) (simp add: sextets_eq)
    have pads: "pads s = pads s'" by (simp add: pads_def three mod_Suc_eq)
    show ?thesis
    proof (cases "s' = []")
      case True
      then show ?thesis using loop [of "[]"] not_pad
        by (simp add: three encode_base64_triplet encode_base64_eqs pads_def nil sextets_eq)
    next
      case False
      with 1 less obtain p x where "encode_base64 s' = p @ [x] @ replicate (pads s') CHR ''=''" "x \<noteq> CHR ''=''" by blast
      then have "encode_base64 s = (sextets (b24 a b c) @ p) @ [x] @ replicate (pads s) CHR ''=''" "x \<noteq> CHR ''=''"
        by (simp_all add: three encode_base64_triplet pads [unfolded three])
      moreover have "decode_base64_loop (encode_base64 s) res = Some (res @ s @ replicate (pads s) NUL)"
        using 1 less loop [of "encode_base64 s'"] by (simp add: three encode_base64_triplet pads [unfolded three])
      ultimately show ?thesis by blast
    qed
  qed
qed

lemma unpad_stop: "str ! i \<noteq> CHR ''='' \<Longrightarrow> unpad_loop str i res = res"
  by (cases i) auto

lemma unpad_pads:
  assumes "x \<noteq> CHR ''=''" "s \<noteq> []"
  shows "unpad_loop (p @ [x] @ replicate k CHR ''='') (length p + k) (s @ replicate k c) = s"
proof (induction k)
  case 0
  then show ?case using assms(1) by (simp add: unpad_stop)
next
  case (Suc k)
  let ?str = "p @ [x] @ replicate k CHR ''=''"
  have app: "p @ [x] @ replicate (Suc k) CHR ''='' = ?str @ ''=''" by (simp add: replicate_append_same)
  have shrink: "unpad_loop (u @ ''='') i r = unpad_loop u i r" if "i < length u" for u i r
    using that by (induction i arbitrary: r) (auto simp: nth_append Let_def)
  have "(?str @ ''='') ! Suc (length p + k) = CHR ''=''" by (simp add: nth_append)
  then have "unpad_loop (?str @ ''='') (Suc (length p + k)) (s @ replicate (Suc k) c)
      = unpad_loop (?str @ ''='') (length p + k) (s @ replicate k c)"
    using assms(2) by (simp add: butlast_append replicate_append_same [symmetric])
  also have "\<dots> = s" using shrink [of "length p + k" ?str] Suc by simp
  finally show ?case unfolding app by simp
qed

lemma decode_encode: "decode_base64 (encode_base64 s) = Some s"
proof (cases "s = []")
  case True
  then show ?thesis by (simp add: decode_base64_def encode_base64_eqs decode_base64_loop.simps)
next
  case False
  then obtain p x where e: "encode_base64 s = p @ [x] @ replicate (pads s) CHR ''=''" "x \<noteq> CHR ''=''"
    and d: "decode_base64_loop (encode_base64 s) [] = Some (s @ replicate (pads s) NUL)"
    using decode_encoded_base64 [of s "[]"] by auto
  show ?thesis
    unfolding decode_base64_def d using unpad_pads [OF e(2) False, of p "pads s" NUL] by (simp add: e(1))
qed

interpretation b64: codec encode_base64 decode_base64
  by unfold_locales (rule decode_encode)

text \<open>
  C22: every string is recovered from its Base64 encoding, whatever padding it needs, and
  different strings have different encodings; the decoder reads outside its table exactly for
  the character after \<open>z\<close>, which no encoding contains.
\<close>

theorem decode_encode_base64:
  "decode_base64 (encode_base64 s) = Some s \<and> (encode_base64 s = encode_base64 t \<longleftrightarrow> s = t)
    \<and> (invbase64 c = None \<longleftrightarrow> c = CHR ''{'')"
proof -
  have "invbase64 c = None \<longleftrightarrow> byte_of c = (123 :: nat)"
    by (auto simp: invbase64_def invbase64_data_def)
  also have "\<dots> \<longleftrightarrow> c = CHR ''{''"
    using of_char_eq_iff [of c "CHR ''{''", where ?'a = nat] by simp
  finally show ?thesis using b64.dec_enc [of s] b64.enc_inj [of s t] by simp
qed

text \<open>
  a percent sign alone is decoded to a null character, while a cut-off escape at the end of a
  longer string is dropped as the comment in the code says: \<open>size() - 2\<close> wraps around.
\<close>

theorem decode_url_lone_percent:
  assumes "\<forall>c\<in>set s. c \<noteq> CHR ''%''" and "length r < 2"
  shows "decode_url (s @ ''%'' @ r) = (if s = [] \<and> r = [] then [NUL] else s)"
proof -
  have "decode_url_loop (a @ s @ ''%'' @ r) (length a) res
    = (if a = [] \<and> s = [] \<and> r = [] then res @ [NUL] else res @ s)" for a res
    using assms(1)
  proof (induction s arbitrary: a res)
    case Nil
    show ?case
    proof (cases "a = [] \<and> r = []")
      case True
      have "strtoul16 [] = 0" by (simp add: strtoul16_def hex_value_def size_modulus_def)
      moreover have "byte_char (0 :: nat) = NUL" by code_simp
      ultimately show ?thesis
        using True by (subst decode_url_loop.simps) (simp add: size_sub_def size_modulus_def substr_def decode_url_loop.simps)
    next
      case False
      then have "2 \<le> length (a @ ''%'' @ r)" by (cases a; cases r) auto
      then show ?thesis
        using False assms(2) by (subst decode_url_loop.simps) auto
    qed
  next
    case (Cons c s)
    then show ?case
      using Cons.IH [of "a @ [c]" "res @ [c]"] by (subst decode_url_loop.simps) simp
  qed
  from this [of "[]" "[]"] show ?thesis by (simp add: decode_url_def)
qed

theorem decode_url_lone_percent_witness:
  "decode_url ''%'' = [NUL] \<and> decode_url ''a%4'' = ''a''"
  using decode_url_lone_percent [of "[]" "[]"] decode_url_lone_percent [of "''a''" "''4''"] by simp

end
