(* ===== verification/SysQueries.thy ===== *)
theory SysQueries
  imports Outcome Paths
begin

section \<open>Asking the file system (ept/utils/sys.cc)\<close>

text \<open>
  The functions of \<open>sys.cc\<close> that only ask: the \<open>stat\<close> family, \<open>access\<close>, \<open>abspath\<close> and \<open>which\<close>.
  The system calls are arguments: \<open>stat(2)\<close> gives an error number or the fields of the
  structure that the code reads, \<open>access(2)\<close> whether it returned 0.
\<close>

datatype file_type = S_IFDIR | S_IFBLK | S_IFCHR | S_IFIFO | S_IFLNK | S_IFREG | S_IFSOCK

record file_stat =
  st_type :: file_type
  st_mtime :: int
  st_size :: nat
  st_ino :: nat

subsection \<open>The stat family\<close>

definition cannot_stat :: "errno \<Rightarrow> string \<Rightarrow> sys_error" where
  "cannot_stat e pathname = SystemError e (''cannot stat '' @ pathname)"

definition sys_stat :: "(string \<Rightarrow> errno + file_stat) \<Rightarrow> string \<Rightarrow> (sys_error, file_stat option) outcome" where
  "sys_stat stat2 pathname =
     (case stat2 pathname of
        Inl e \<Rightarrow> if e = ENOENT then Returned None else Thrown (cannot_stat e pathname)
      | Inr st \<Rightarrow> Returned (Some st))"

definition sys_stat_into :: "(string \<Rightarrow> errno + file_stat) \<Rightarrow> string \<Rightarrow> (sys_error, file_stat) outcome" where
  "sys_stat_into stat2 pathname =
     (case stat2 pathname of
        Inl e \<Rightarrow> Thrown (cannot_stat e pathname)
      | Inr st \<Rightarrow> Returned st)"

definition common_stat_body ::
  "(file_type \<Rightarrow> bool) \<Rightarrow> (string \<Rightarrow> errno + file_stat) \<Rightarrow> string \<Rightarrow> (sys_error, bool) outcome" where
  "common_stat_body testfunc stat2 pathname =
     (case stat2 pathname of
        Inl e \<Rightarrow> if e = ENOENT then Returned False else Thrown (cannot_stat e pathname)
      | Inr st \<Rightarrow> Returned (testfunc (st_type st)))"

definition sys_isdir :: "(string \<Rightarrow> errno + file_stat) \<Rightarrow> string \<Rightarrow> (sys_error, bool) outcome" where
  "sys_isdir = common_stat_body (\<lambda>t. t = S_IFDIR)"

definition sys_isblk :: "(string \<Rightarrow> errno + file_stat) \<Rightarrow> string \<Rightarrow> (sys_error, bool) outcome" where
  "sys_isblk = common_stat_body (\<lambda>t. t = S_IFBLK)"

definition sys_ischr :: "(string \<Rightarrow> errno + file_stat) \<Rightarrow> string \<Rightarrow> (sys_error, bool) outcome" where
  "sys_ischr = common_stat_body (\<lambda>t. t = S_IFCHR)"

definition sys_isfifo :: "(string \<Rightarrow> errno + file_stat) \<Rightarrow> string \<Rightarrow> (sys_error, bool) outcome" where
  "sys_isfifo = common_stat_body (\<lambda>t. t = S_IFIFO)"

definition sys_islnk :: "(string \<Rightarrow> errno + file_stat) \<Rightarrow> string \<Rightarrow> (sys_error, bool) outcome" where
  "sys_islnk = common_stat_body (\<lambda>t. t = S_IFLNK)"

definition sys_isreg :: "(string \<Rightarrow> errno + file_stat) \<Rightarrow> string \<Rightarrow> (sys_error, bool) outcome" where
  "sys_isreg = common_stat_body (\<lambda>t. t = S_IFREG)"

definition sys_issock :: "(string \<Rightarrow> errno + file_stat) \<Rightarrow> string \<Rightarrow> (sys_error, bool) outcome" where
  "sys_issock = common_stat_body (\<lambda>t. t = S_IFSOCK)"

definition timestamp :: "(string \<Rightarrow> errno + file_stat) \<Rightarrow> string \<Rightarrow> (sys_error, int) outcome" where
  "timestamp stat2 f = bind_outcome (sys_stat_into stat2 f) (\<lambda>st. Returned (st_mtime st))"

definition timestamp_or :: "(string \<Rightarrow> errno + file_stat) \<Rightarrow> string \<Rightarrow> int \<Rightarrow> (sys_error, int) outcome" where
  "timestamp_or stat2 f def =
     bind_outcome (sys_stat stat2 f) (\<lambda>st. Returned (case st of None \<Rightarrow> def | Some s \<Rightarrow> st_mtime s))"

definition file_size :: "(string \<Rightarrow> errno + file_stat) \<Rightarrow> string \<Rightarrow> (sys_error, nat) outcome" where
  "file_size stat2 f = bind_outcome (sys_stat_into stat2 f) (\<lambda>st. Returned (st_size st))"

definition file_size_or :: "(string \<Rightarrow> errno + file_stat) \<Rightarrow> string \<Rightarrow> nat \<Rightarrow> (sys_error, nat) outcome" where
  "file_size_or stat2 f def =
     bind_outcome (sys_stat stat2 f) (\<lambda>st. Returned (case st of None \<Rightarrow> def | Some s \<Rightarrow> st_size s))"

definition inode :: "(string \<Rightarrow> errno + file_stat) \<Rightarrow> string \<Rightarrow> (sys_error, nat) outcome" where
  "inode stat2 f = bind_outcome (sys_stat_into stat2 f) (\<lambda>st. Returned (st_ino st))"

definition inode_or :: "(string \<Rightarrow> errno + file_stat) \<Rightarrow> string \<Rightarrow> nat \<Rightarrow> (sys_error, nat) outcome" where
  "inode_or stat2 f def =
     bind_outcome (sys_stat stat2 f) (\<lambda>st. Returned (case st of None \<Rightarrow> def | Some s \<Rightarrow> st_ino s))"

subsection \<open>access, abspath and which\<close>

datatype access_mode = F_OK | X_OK

definition sys_access :: "(string \<Rightarrow> access_mode \<Rightarrow> errno option) \<Rightarrow> string \<Rightarrow> access_mode \<Rightarrow> bool" where
  "sys_access access2 s m \<longleftrightarrow> access2 s m = None"

definition sys_exists :: "(string \<Rightarrow> access_mode \<Rightarrow> errno option) \<Rightarrow> string \<Rightarrow> bool" where
  "sys_exists access2 f = sys_access access2 f F_OK"

definition sys_getcwd :: "errno + string \<Rightarrow> (sys_error, string) outcome" where
  "sys_getcwd cwd =
     (case cwd of
        Inl e \<Rightarrow> Thrown (SystemError e ''cannot get the current working directory'')
      | Inr str \<Rightarrow> Returned str)"

definition abspath :: "errno + string \<Rightarrow> string \<Rightarrow> (sys_error, string) outcome" where
  "abspath cwd pathname =
     (if pathname \<noteq> [] \<and> hd pathname = CHR ''/'' then of_option (normpath pathname)
      else bind_outcome (sys_getcwd cwd) (\<lambda>d. of_option (normpath (joinpath2 d pathname))))"

text \<open>The loop of \<open>which\<close> over the directories of \<open>$PATH\<close>.\<close>

fun which_loop ::
  "(string \<Rightarrow> access_mode \<Rightarrow> errno option) \<Rightarrow> errno + string \<Rightarrow> string \<Rightarrow> string list \<Rightarrow> (sys_error, string) outcome" where
  "which_loop access2 cwd name [] = Returned name"
| "which_loop access2 cwd name (i # is) =
     (let candidate = joinpath2 i name
      in if sys_access access2 candidate X_OK then abspath cwd candidate
         else which_loop access2 cwd name is)"

text \<open>\<open>None\<close> stands for a loop that does not end; the separator is not empty, so there is none.\<close>

definition which ::
  "(string \<Rightarrow> access_mode \<Rightarrow> errno option) \<Rightarrow> errno + string \<Rightarrow> string option \<Rightarrow> string
    \<Rightarrow> (sys_error, string) outcome option" where
  "which access2 cwd path name =
     (if CHR ''/'' \<in> set name then Some (abspath cwd name)
      else case path of
        None \<Rightarrow> Some (Returned name)
      | Some p \<Rightarrow> map_option (which_loop access2 cwd name) (split_tokens p '':'' True))"

subsection \<open>Which file types are told apart\<close>

text \<open>
  by what the type tests return, a path that exists has exactly one of the types directory,
  block device, character device, FIFO, regular file and socket, a path that does not exist has
  none, and any other failure of \<open>stat\<close> is thrown.  Since \<open>stat(2)\<close> follows symbolic links,
  \<open>islnk\<close> never returns true.
\<close>

theorem file_tests_partition:
  assumes "\<forall>p st. stat2 p = Inr st \<longrightarrow> st_type st \<noteq> S_IFLNK"
  shows "let tests = map (\<lambda>f. f stat2 p) [sys_isdir, sys_isblk, sys_ischr, sys_isfifo, sys_isreg, sys_issock]
    in sys_islnk stat2 p \<noteq> Returned True
      \<and> (case stat2 p of
           Inr st \<Rightarrow> length (filter (\<lambda>r. r = Returned True) tests) = 1 \<and> sys_islnk stat2 p = Returned False
         | Inl ENOENT \<Rightarrow> list_all (\<lambda>r. r = Returned False) tests
         | Inl e \<Rightarrow> list_all (\<lambda>r. r = Thrown (cannot_stat e p)) tests)"
proof -
  note tests = sys_isdir_def sys_isblk_def sys_ischr_def sys_isfifo_def sys_isreg_def sys_issock_def sys_islnk_def
    common_stat_body_def
  show ?thesis
  proof (cases "stat2 p")
    case (Inl e)
    then show ?thesis by (cases e) (simp_all add: tests)
  next
    case (Inr st)
    with assms have "st_type st \<noteq> S_IFLNK" by blast
    with Inr show ?thesis by (cases "st_type st") (simp_all add: tests)
  qed
qed

subsection \<open>Absolute paths\<close>

lemma split_ref_append: "split_ref [c] (a @ c # b) = split_ref [c] a @ split_ref [c] b"
proof -
  have no: "\<forall>t\<in>set (split_ref [c] s). c \<notin> set t" for s
    using split_ref_tokens [of "[c]" _ s] by (metis find_sub_char list.discI option.discI)
  have join: "str_join [c] (ts @ us) = str_join [c] ts @ c # str_join [c] us" if "ts \<noteq> []" "us \<noteq> []" for ts us
    using that by (cases ts; cases us) auto
  have "str_join [c] (split_ref [c] a @ split_ref [c] b) = a @ c # b"
    using join [OF split_ref_not_Nil split_ref_not_Nil] by (simp add: join_split_ref)
  with split_ref_join_char [of "split_ref [c] a @ split_ref [c] b" c] no show ?thesis by auto
qed

lemma resolve_append: "resolve st (a @ b) = resolve (resolve st a) b"
  by (induction a arbitrary: st) auto

text \<open>The components of the absolute path that a path stands for when the working directory is \<open>/w\<close>.\<close>

definition abs_components :: "string \<Rightarrow> string \<Rightarrow> string list" where
  "abs_components w p =
     resolve (if p \<noteq> [] \<and> hd p = CHR ''/'' then [] else resolve [] (split_ref ''/'' w)) (split_ref ''/'' p)"

lemma resolve_joined:
  assumes "p = [] \<or> hd p \<noteq> CHR ''/''"
  shows "resolve [] (split_ref ''/'' (joinpath2 (CHR ''/'' # w) p)) = abs_components w p"
proof -
  note slash = split_leading_slash
  have empty: "split_ref ''/'' [] = [[]]" by (subst split_ref.simps) simp
  have dup: "resolve [] (split_ref ''/'' (a @ ''/'')) = resolve [] (split_ref ''/'' a)" for a
    using split_ref_append [of "CHR ''/''" a "[]"] by (simp add: resolve_append empty)
  show ?thesis
  proof (cases p)
    case Nil
    then show ?thesis by (simp add: joinpath2_def appendpath_def abs_components_def slash empty)
  next
    case (Cons c q)
    with assms have c: "c \<noteq> CHR ''/''" by simp
    have tail: "split_ref ''/'' (CHR ''/'' # w @ CHR ''/'' # p) = [] # split_ref ''/'' w @ split_ref ''/'' p"
      using split_ref_append [of "CHR ''/''" "CHR ''/'' # w" p] by (simp add: slash)
    show ?thesis
    proof (cases "last (CHR ''/'' # w) = CHR ''/''")
      case False
      with Cons c tail show ?thesis
        by (simp add: joinpath2_def appendpath_def abs_components_def resolve_append)
    next
      case True
      show ?thesis
      proof (cases w rule: rev_cases)
        case Nil
        with Cons c show ?thesis
          by (simp add: joinpath2_def appendpath_def abs_components_def resolve_append slash empty)
      next
        case (snoc v d)
        with True have d: "w = v @ ''/''" by simp
        with Cons c have "joinpath2 (CHR ''/'' # w) p = CHR ''/'' # v @ CHR ''/'' # p"
          by (simp add: joinpath2_def appendpath_def)
        with d Cons c show ?thesis
          using split_ref_append [of "CHR ''/''" "CHR ''/'' # v" p] split_ref_append [of "CHR ''/''" v "[]"]
          by (simp add: abs_components_def resolve_append slash empty)
      qed
    qed
  qed
qed

lemma abspath_components:
  assumes "cwd = Inr (CHR ''/'' # w)"
  shows "abspath cwd p = Returned (''/'' @ str_join ''/'' (abs_components w p))"
proof (cases "p \<noteq> [] \<and> hd p = CHR ''/''")
  case True
  then obtain q where q: "p = CHR ''/'' # q" by (cases p) auto
  then show ?thesis by (simp add: abspath_def normpath_abs abs_components_def split_leading_slash)
next
  case False
  have "\<exists>t. joinpath2 (CHR ''/'' # w) p = CHR ''/'' # t"
    by (auto simp: joinpath2_def appendpath_def)
  then obtain t where t: "joinpath2 (CHR ''/'' # w) p = CHR ''/'' # t" by blast
  have "resolve [] (split_ref ''/'' t) = abs_components w p"
    using resolve_joined [of p w] False by (auto simp: t split_leading_slash)
  with False assms t show ?thesis by (auto simp: abspath_def sys_getcwd_def normpath_abs)
qed

text \<open>
  with a current directory that is absolute, \<open>abspath\<close> always returns a normalised absolute
  path: the path's components resolved from the root or, for a relative path, from the components
  of the current directory, never above the root; applied to its own result it changes nothing.
\<close>

theorem abspath_resolves:
  assumes "cwd = Inr (CHR ''/'' # w)"
  shows "\<exists>r. abspath cwd p = Returned r \<and> r = ''/'' @ str_join ''/'' (abs_components w p)
    \<and> list_all plain_component (abs_components w p) \<and> abspath cwd' r = Returned r"
proof -
  have *: "\<forall>c\<in>set (resolve [] (split_ref ''/'' q)). plain_component c" for q
    by (rule resolve_plain) (auto dest: split_slash)
  have "\<forall>c\<in>set (abs_components w p). plain_component c"
    unfolding abs_components_def by (rule resolve_plain) (use * in \<open>auto dest: split_slash\<close>)
  moreover from this have "abspath cwd' (''/'' @ str_join ''/'' (abs_components w p))
      = Returned (''/'' @ str_join ''/'' (abs_components w p))"
    using normpath_joined [of "abs_components w p"] by (simp add: abspath_def)
  ultimately show ?thesis using abspath_components [OF assms] by (simp add: list_all_iff)
qed

theorem abspath_resolves_witness: "abspath (Inr ''/home/x'') ''../y//z/.'' = Returned ''/home/y/z''"
proof -
  have "abs_components ''home/x'' ''../y//z/.'' = [''home'', ''y'', ''z'']" by code_simp
  with abspath_resolves [of "Inr ''/home/x''" "''home/x''" "''../y//z/.''"] show ?thesis by simp
qed

text \<open>
  \<open>which\<close> returns the absolute path of the name in the first directory of \<open>$PATH\<close> that has it
  as an executable, and the name itself if there is none.  An empty \<open>$PATH\<close> is not an empty list of
  directories: the name is then looked for in the current directory.
\<close>

theorem which_searches_path:
  assumes "cwd = Inr (CHR ''/'' # w)" and "CHR ''/'' \<notin> set name"
    and "dirs \<noteq> []" and "\<forall>d\<in>set dirs. d \<noteq> [] \<and> CHR '':'' \<notin> set d"
  shows "which access2 cwd (Some (str_join '':'' dirs)) name =
      Some (case find (\<lambda>d. access2 (joinpath2 d name) X_OK = None) dirs of
          None \<Rightarrow> Returned name
        | Some d \<Rightarrow> Returned (''/'' @ str_join ''/'' (abs_components w (joinpath2 d name))))
    \<and> which access2 cwd (Some []) name =
      Some (if access2 name X_OK = None then Returned (''/'' @ str_join ''/'' (abs_components w name))
            else Returned name)"
proof
  have loop: "which_loop access2 cwd name ds =
      (case find (\<lambda>d. access2 (joinpath2 d name) X_OK = None) ds of
          None \<Rightarrow> Returned name
        | Some d \<Rightarrow> Returned (''/'' @ str_join ''/'' (abs_components w (joinpath2 d name))))" for ds
    by (induction ds) (auto simp: Let_def sys_access_def abspath_components [OF assms(1)])
  have "split_ref '':'' (str_join '':'' dirs) = dirs"
    using assms(3,4) by (intro split_ref_join_char) auto
  moreover have "nonempty dirs = dirs" using assms(4) by (simp add: filter_id_conv)
  ultimately have "split_tokens (str_join '':'' dirs) '':'' True = Some dirs"
    using assms(3) by (simp add: split_tokens_skip)
  then show "which access2 cwd (Some (str_join '':'' dirs)) name = Some (case find (\<lambda>d. access2 (joinpath2 d name) X_OK = None) dirs of
          None \<Rightarrow> Returned name
        | Some d \<Rightarrow> Returned (''/'' @ str_join ''/'' (abs_components w (joinpath2 d name))))"
    using assms(2) by (simp add: which_def loop)
  have "split_ref '':'' [] = [[]]" by (subst split_ref.simps) simp
  then have "split_tokens [] '':'' True = Some [[]]" by (simp add: split_tokens_skip)
  moreover have "joinpath2 [] name = name" by (simp add: joinpath2_def appendpath_def)
  ultimately show "which access2 cwd (Some []) name =
      Some (if access2 name X_OK = None then Returned (''/'' @ str_join ''/'' (abs_components w name))
            else Returned name)"
    using assms(2) by (simp add: which_def sys_access_def abspath_components [OF assms(1)])
qed

theorem which_searches_path_witness:
  "which (\<lambda>p m. if p = ''/usr/bin/apt'' then None else Some ENOENT) (Inr ''/root'')
     (Some ''/bin:/usr/bin'') ''apt'' = Some (Returned ''/usr/bin/apt'')"
proof -
  let ?acc = "\<lambda>p m. if p = ''/usr/bin/apt'' then None else Some ENOENT"
  have join: "joinpath2 ''/bin'' ''apt'' = ''/bin/apt''" "joinpath2 ''/usr/bin'' ''apt'' = ''/usr/bin/apt''"
    by (simp_all add: joinpath2_def appendpath_def)
  have "abs_components ''root'' ''/usr/bin/apt'' = [''usr'', ''bin'', ''apt'']" by code_simp
  moreover have "str_join '':'' [''/bin'', ''/usr/bin''] = ''/bin:/usr/bin''" by simp
  ultimately show ?thesis
    using which_searches_path [of "Inr ''/root''" "''root''" "''apt''" "[''/bin'', ''/usr/bin'']" ?acc] join
    by simp
qed

theorem file_tests_partition_witness:
  "sys_islnk (\<lambda>p. Inr \<lparr>st_type = S_IFREG, st_mtime = 0, st_size = 0, st_ino = 1\<rparr>) ''x'' \<noteq> Returned True"
  using file_tests_partition [of "\<lambda>p. Inr \<lparr>st_type = S_IFREG, st_mtime = 0, st_size = 0, st_ino = 1\<rparr>" "''x''"]
  by (simp add: Let_def)

end
