(* ===== verification/SysFiles.thy ===== *)
theory SysFiles
  imports SysQueries "HOL-Library.Word"
begin

unbundle bit_operations_syntax

section \<open>File descriptors and files (ept/utils/sys.cc)\<close>

text \<open>
  \<open>sys.cc\<close> wraps file descriptors and memory maps in objects, and reads and writes whole files.
  The system calls are a record of functions on a state of the world that the model passes
  along; an error number is a result, not a part of the state.
\<close>

datatype open_flags = O_RDONLY | O_WRONLY_CREAT

record 'w posix =
  px_open :: "string \<Rightarrow> open_flags \<Rightarrow> 32 word \<Rightarrow> 'w \<Rightarrow> (errno + int) \<times> 'w"
  px_close :: "int \<Rightarrow> 'w \<Rightarrow> errno option \<times> 'w"
  px_write :: "int \<Rightarrow> string \<Rightarrow> 'w \<Rightarrow> (errno + nat) \<times> 'w"
  px_fchmod :: "int \<Rightarrow> 32 word \<Rightarrow> 'w \<Rightarrow> errno option \<times> 'w"
  px_umask :: "32 word \<Rightarrow> 'w \<Rightarrow> 32 word \<times> 'w"
  px_mkstemp :: "string \<Rightarrow> 'w \<Rightarrow> (errno + int \<times> string) \<times> 'w"
  px_rename :: "string \<Rightarrow> string \<Rightarrow> 'w \<Rightarrow> errno option \<times> 'w"
  px_unlink :: "string \<Rightarrow> 'w \<Rightarrow> errno option \<times> 'w"
  px_rmdir :: "string \<Rightarrow> 'w \<Rightarrow> errno option \<times> 'w"
  px_fstat :: "int \<Rightarrow> 'w \<Rightarrow> errno + file_stat"
  px_mmap :: "int \<Rightarrow> nat \<Rightarrow> 'w \<Rightarrow> (errno + nat) \<times> 'w"
  px_load :: "nat \<Rightarrow> nat \<Rightarrow> 'w \<Rightarrow> string"
  px_munmap :: "nat option \<Rightarrow> nat \<Rightarrow> 'w \<Rightarrow> errno option \<times> 'w"

subsection \<open>MMap\<close>

text \<open>A memory map; \<open>None\<close> is the address \<open>MAP_FAILED\<close>.\<close>

record mmap_obj =
  mm_addr :: "nat option"
  mm_length :: nat

definition mmap_new :: "nat \<Rightarrow> nat \<Rightarrow> mmap_obj" where
  "mmap_new addr len = \<lparr>mm_addr = Some addr, mm_length = len\<rparr>"

text \<open>Moving from an object: the new object and what is left in the old one.\<close>

definition mmap_move :: "mmap_obj \<Rightarrow> mmap_obj \<times> mmap_obj" where
  "mmap_move m = (\<lparr>mm_addr = mm_addr m, mm_length = mm_length m\<rparr>, m\<lparr>mm_addr := None, mm_length := 0\<rparr>)"

definition mmap_munmap :: "'w posix \<Rightarrow> mmap_obj \<Rightarrow> 'w \<Rightarrow> (sys_error, unit) outcome \<times> mmap_obj \<times> 'w" where
  "mmap_munmap px m w =
     (case px_munmap px (mm_addr m) (mm_length m) w of
        (Some e, w') \<Rightarrow> (Thrown (SystemError e ''cannot unmap memory''), m, w')
      | (None, w') \<Rightarrow> (Returned (), m\<lparr>mm_addr := None\<rparr>, w'))"

text \<open>\<open>m = std::move(n)\<close>; \<open>self\<close> says whether the two are the same object.\<close>

definition mmap_assign ::
  "'w posix \<Rightarrow> bool \<Rightarrow> mmap_obj \<Rightarrow> mmap_obj \<Rightarrow> 'w \<Rightarrow> (sys_error, unit) outcome \<times> mmap_obj \<times> mmap_obj \<times> 'w" where
  "mmap_assign px self m n w =
     (if self then (Returned (), m, n, w)
      else (case mmap_munmap px m w of
         (Returned _, m1, w1) \<Rightarrow> (Returned (), m1\<lparr>mm_addr := mm_addr n, mm_length := mm_length n\<rparr>,
            n\<lparr>mm_addr := None, mm_length := 0\<rparr>, w1)
       | (Thrown e, m1, w1) \<Rightarrow> (Thrown e, m1, n, w1)
       | (Undefined, m1, w1) \<Rightarrow> (Undefined, m1, n, w1)))"

definition mmap_destroy :: "'w posix \<Rightarrow> mmap_obj \<Rightarrow> 'w \<Rightarrow> 'w" where
  "mmap_destroy px m w = (if mm_addr m \<noteq> None then snd (px_munmap px (mm_addr m) (mm_length m) w) else w)"

subsection \<open>FileDescriptor and NamedFileDescriptor\<close>

record named_fd =
  nfd :: int
  nfd_name :: string

definition nfd_error :: "named_fd \<Rightarrow> errno \<Rightarrow> string \<Rightarrow> sys_error" where
  "nfd_error f e desc = SystemError e (nfd_name f @ '': '' @ desc)"

definition nfd_move :: "named_fd \<Rightarrow> named_fd \<times> named_fd" where
  "nfd_move f = (\<lparr>nfd = nfd f, nfd_name = nfd_name f\<rparr>, f\<lparr>nfd := -1, nfd_name := []\<rparr>)"

definition nfd_assign :: "bool \<Rightarrow> named_fd \<Rightarrow> named_fd \<Rightarrow> named_fd \<times> named_fd" where
  "nfd_assign self f g =
     (if self then (f, g)
      else (f\<lparr>nfd := nfd g, nfd_name := nfd_name g\<rparr>, g\<lparr>nfd := -1, nfd_name := []\<rparr>))"

definition nfd_close :: "'w posix \<Rightarrow> named_fd \<Rightarrow> 'w \<Rightarrow> (sys_error, unit) outcome \<times> named_fd \<times> 'w" where
  "nfd_close px f w =
     (if nfd f = -1 then (Returned (), f, w)
      else (case px_close px (nfd f) w of
         (Some e, w') \<Rightarrow> (Thrown (nfd_error f e ''cannot close''), f, w')
       | (None, w') \<Rightarrow> (Returned (), f\<lparr>nfd := -1\<rparr>, w')))"

definition nfd_fstat :: "'w posix \<Rightarrow> named_fd \<Rightarrow> 'w \<Rightarrow> (sys_error, file_stat) outcome" where
  "nfd_fstat px f w =
     (case px_fstat px (nfd f) w of Inl e \<Rightarrow> Thrown (nfd_error f e ''cannot stat'') | Inr st \<Rightarrow> Returned st)"

definition nfd_fchmod :: "'w posix \<Rightarrow> named_fd \<Rightarrow> 32 word \<Rightarrow> 'w \<Rightarrow> (sys_error, unit) outcome \<times> 'w" where
  "nfd_fchmod px f mode w =
     (case px_fchmod px (nfd f) mode w of
        (Some e, w') \<Rightarrow> (Thrown (nfd_error f e ''cannot fchmod''), w')
      | (None, w') \<Rightarrow> (Returned (), w'))"

definition nfd_write :: "'w posix \<Rightarrow> named_fd \<Rightarrow> string \<Rightarrow> 'w \<Rightarrow> (sys_error, nat) outcome \<times> 'w" where
  "nfd_write px f buf w =
     (case px_write px (nfd f) buf w of
        (Inl e, w') \<Rightarrow> (Thrown (nfd_error f e ''cannot write''), w')
      | (Inr res, w') \<Rightarrow> (Returned res, w'))"

text \<open>The loop of \<open>write_all\<close>; \<open>None\<close> is a loop that does not end.\<close>

partial_function (option) write_all_loop ::
  "'w posix \<Rightarrow> named_fd \<Rightarrow> string \<Rightarrow> nat \<Rightarrow> 'w \<Rightarrow> ((sys_error, unit) outcome \<times> 'w) option" where
  "write_all_loop px f buf written w =
     (if written < length buf then
        (case nfd_write px f (drop written buf) w of
           (Returned n, w') \<Rightarrow> write_all_loop px f buf (written + n) w'
         | (Thrown e, w') \<Rightarrow> Some (Thrown e, w')
         | (Undefined, w') \<Rightarrow> Some (Undefined, w'))
      else Some (Returned (), w))"

definition write_all :: "'w posix \<Rightarrow> named_fd \<Rightarrow> string \<Rightarrow> 'w \<Rightarrow> ((sys_error, unit) outcome \<times> 'w) option" where
  "write_all px f buf w = write_all_loop px f buf 0 w"

definition nfd_mmap :: "'w posix \<Rightarrow> named_fd \<Rightarrow> nat \<Rightarrow> 'w \<Rightarrow> (sys_error, mmap_obj) outcome \<times> 'w" where
  "nfd_mmap px f len w =
     (case px_mmap px (nfd f) len w of
        (Inl e, w') \<Rightarrow> (Thrown (nfd_error f e ''cannot mmap''), w')
      | (Inr res, w') \<Rightarrow> (Returned (mmap_new res len), w'))"

subsection \<open>File\<close>

definition file_open ::
  "'w posix \<Rightarrow> string \<Rightarrow> open_flags \<Rightarrow> 32 word \<Rightarrow> 'w \<Rightarrow> (sys_error, named_fd) outcome \<times> 'w" where
  "file_open px pathname flags mode w =
     (case px_open px pathname flags mode w of
        (Inl e, w') \<Rightarrow> (Thrown (SystemError e (''cannot open file '' @ pathname)), w')
      | (Inr fd, w') \<Rightarrow> (Returned \<lparr>nfd = fd, nfd_name = pathname\<rparr>, w'))"

text \<open>The destructor closes the descriptor and does not look at the result.\<close>

definition file_destroy :: "'w posix \<Rightarrow> named_fd \<Rightarrow> 'w \<Rightarrow> 'w" where
  "file_destroy px f w = (if nfd f \<noteq> -1 then snd (px_close px (nfd f) w) else w)"

definition file_mkstemp :: "'w posix \<Rightarrow> string \<Rightarrow> 'w \<Rightarrow> (sys_error, named_fd) outcome \<times> 'w" where
  "file_mkstemp px pref w =
     (case px_mkstemp px (pref @ ''XXXXXX'') w of
        (Inl e, w') \<Rightarrow> (Thrown (SystemError e (''cannot create temporary file '' @ pref @ ''XXXXXX'')), w')
      | (Inr (fd, fbuf), w') \<Rightarrow> (Returned \<lparr>nfd = fd, nfd_name = fbuf\<rparr>, w'))"

subsection \<open>Whole files\<close>

definition read_file :: "'w posix \<Rightarrow> string \<Rightarrow> 'w \<Rightarrow> (sys_error, string) outcome \<times> 'w" where
  "read_file px f w =
     (case file_open px f O_RDONLY 0 w of
        (Returned inp, w1) \<Rightarrow>
          (case nfd_fstat px inp w1 of
             Returned st \<Rightarrow>
               (case nfd_mmap px inp (st_size st) w1 of
                  (Returned src, w2) \<Rightarrow>
                    (of_option (map_option (\<lambda>a. px_load px a (st_size st) w2) (mm_addr src)),
                      file_destroy px inp (mmap_destroy px src w2))
                | (Thrown e, w2) \<Rightarrow> (Thrown e, file_destroy px inp w2)
                | (Undefined, w2) \<Rightarrow> (Undefined, w2))
           | Thrown e \<Rightarrow> (Thrown e, file_destroy px inp w1)
           | Undefined \<Rightarrow> (Undefined, w1))
      | (Thrown e, w1) \<Rightarrow> (Thrown e, w1)
      | (Undefined, w1) \<Rightarrow> (Undefined, w1))"

text \<open>\<open>write_all\<close>, \<open>close\<close> and what follows on a file, closing it again when one of them throws.\<close>

definition write_and_close ::
  "'w posix \<Rightarrow> named_fd \<Rightarrow> string \<Rightarrow> ('w \<Rightarrow> (sys_error, unit) outcome \<times> 'w) \<Rightarrow> 'w
    \<Rightarrow> ((sys_error, unit) outcome \<times> 'w) option" where
  "write_and_close px f data rest w =
     (case write_all px f data w of
        None \<Rightarrow> None
      | Some (Returned _, w1) \<Rightarrow>
          (case nfd_close px f w1 of
             (Returned _, f', w2) \<Rightarrow> (case rest w2 of (r, w3) \<Rightarrow> Some (r, file_destroy px f' w3))
           | (Thrown e, f', w2) \<Rightarrow> Some (Thrown e, file_destroy px f' w2)
           | (Undefined, f', w2) \<Rightarrow> Some (Undefined, w2))
      | Some (Thrown e, w1) \<Rightarrow> Some (Thrown e, file_destroy px f w1)
      | Some (Undefined, w1) \<Rightarrow> Some (Undefined, w1))"

definition write_file ::
  "'w posix \<Rightarrow> string \<Rightarrow> string \<Rightarrow> 32 word \<Rightarrow> 'w \<Rightarrow> ((sys_error, unit) outcome \<times> 'w) option" where
  "write_file px f data mode w =
     (case file_open px f O_WRONLY_CREAT mode w of
        (Returned out, w1) \<Rightarrow> write_and_close px out data (\<lambda>w. (Returned (), w)) w1
      | (Thrown e, w1) \<Rightarrow> Some (Thrown e, w1)
      | (Undefined, w1) \<Rightarrow> Some (Undefined, w1))"

definition rename_over :: "'w posix \<Rightarrow> string \<Rightarrow> string \<Rightarrow> 'w \<Rightarrow> (sys_error, unit) outcome \<times> 'w" where
  "rename_over px tmp f w =
     (case px_rename px tmp f w of
        (Some e, w') \<Rightarrow> (Thrown (SystemError e (''cannot rename '' @ tmp @ '' to '' @ f)), w')
      | (None, w') \<Rightarrow> (Returned (), w'))"

definition write_file_atomically ::
  "'w posix \<Rightarrow> string \<Rightarrow> string \<Rightarrow> 32 word \<Rightarrow> 'w \<Rightarrow> ((sys_error, unit) outcome \<times> 'w) option" where
  "write_file_atomically px f data mode w =
     (case file_mkstemp px f w of
        (Returned out, w1) \<Rightarrow>
          (let (mask, w2) = px_umask px 511 w1;
               w3 = snd (px_umask px mask w2)
           in case nfd_fchmod px out (mode AND NOT mask) w3 of
             (Returned _, w4) \<Rightarrow> write_and_close px out data (rename_over px (nfd_name out) f) w4
           | (Thrown e, w4) \<Rightarrow> Some (Thrown e, file_destroy px out w4)
           | (Undefined, w4) \<Rightarrow> Some (Undefined, w4))
      | (Thrown e, w1) \<Rightarrow> Some (Thrown e, w1)
      | (Undefined, w1) \<Rightarrow> Some (Undefined, w1))"

definition unlink_ifexists :: "'w posix \<Rightarrow> string \<Rightarrow> 'w \<Rightarrow> (sys_error, bool) outcome \<times> 'w" where
  "unlink_ifexists px f w =
     (case px_unlink px f w of
        (Some e, w') \<Rightarrow> (if e \<noteq> ENOENT then Thrown (SystemError e (''cannot unlink '' @ f)) else Returned False, w')
      | (None, w') \<Rightarrow> (Returned True, w'))"

definition rename_ifexists :: "'w posix \<Rightarrow> string \<Rightarrow> string \<Rightarrow> 'w \<Rightarrow> (sys_error, bool) outcome \<times> 'w" where
  "rename_ifexists px src dst w =
     (case px_rename px src dst w of
        (Some e, w') \<Rightarrow>
          (if e \<noteq> ENOENT then Thrown (SystemError e (''cannot rename '' @ src @ '' to '' @ dst)) else Returned False, w')
      | (None, w') \<Rightarrow> (Returned True, w'))"

definition sys_unlink :: "'w posix \<Rightarrow> string \<Rightarrow> 'w \<Rightarrow> (sys_error, unit) outcome \<times> 'w" where
  "sys_unlink px f w =
     (case px_unlink px f w of
        (Some e, w') \<Rightarrow> (Thrown (SystemError e (''cannot unlink '' @ f)), w')
      | (None, w') \<Rightarrow> (Returned (), w'))"

definition sys_rmdir :: "'w posix \<Rightarrow> string \<Rightarrow> 'w \<Rightarrow> (sys_error, unit) outcome \<times> 'w" where
  "sys_rmdir px f w =
     (case px_rmdir px f w of
        (Some e, w') \<Rightarrow> (Thrown (SystemError e (''cannot rmdir '' @ f)), w')
      | (None, w') \<Rightarrow> (Returned (), w'))"

subsection \<open>What the code relies on\<close>

text \<open>
  A file system as far as these functions can see it: names of files, their contents and
  permissions, and where the open descriptors stand.
\<close>

record fs =
  fs_names :: "string \<Rightarrow> nat option"
  fs_data :: "nat \<Rightarrow> string"
  fs_mode :: "nat \<Rightarrow> 32 word"
  fs_fds :: "int \<Rightarrow> (nat \<times> nat) option"
  fs_umask :: "32 word"

definition file_content :: "fs \<Rightarrow> string \<Rightarrow> string option" where
  "file_content v p = map_option (fs_data v) (fs_names v p)"

definition overwrite :: "string \<Rightarrow> nat \<Rightarrow> string \<Rightarrow> string" where
  "overwrite d off b = take off d @ b @ drop (off + length b) d"

lemma overwrite_twice:
  "off \<le> length d \<Longrightarrow> overwrite (overwrite d off a) (off + length a) b = overwrite d off (a @ b)"
  by (simp add: overwrite_def ac_simps)

text \<open>
  What \<open>write_file_atomically\<close> can leave behind: nothing, the new file, or a temporary file.
\<close>

definition wrote :: "fs \<Rightarrow> string \<Rightarrow> nat \<Rightarrow> string \<Rightarrow> 32 word \<Rightarrow> (int \<Rightarrow> (nat \<times> nat) option) \<Rightarrow> fs" where
  "wrote v p i d m fds = v\<lparr>fs_names := (fs_names v)(p \<mapsto> i), fs_data := (fs_data v)(i := d),
     fs_mode := (fs_mode v)(i := m), fs_fds := fds\<rparr>"

text \<open>
  The documented behaviour of the system calls on a state of the world in order.  A write may
  take any part of the data, but not nothing; a temporary file is new; renaming is atomic.
\<close>

locale posix_fs =
  fixes px :: "'w posix"
    and view :: "'w \<Rightarrow> fs"
    and sane :: "'w \<Rightarrow> bool"
  assumes write_error: "sane w \<Longrightarrow> fs_fds (view w) fd = Some (i, off) \<Longrightarrow> px_write px fd buf w = (Inl e, w') \<Longrightarrow>
      sane w' \<and> view w' = view w"
    and write_some: "sane w \<Longrightarrow> fs_fds (view w) fd = Some (i, off) \<Longrightarrow> px_write px fd buf w = (Inr n, w') \<Longrightarrow>
      sane w' \<and> n \<le> length buf \<and> (buf \<noteq> [] \<longrightarrow> 0 < n)
      \<and> view w' = (view w)\<lparr>fs_data := (fs_data (view w))(i := overwrite (fs_data (view w) i) off (take n buf)),
            fs_fds := (fs_fds (view w))(fd \<mapsto> (i, off + n))\<rparr>"
    and create_error: "sane w \<Longrightarrow> px_open px p fl mode w = (Inl e, w') \<Longrightarrow> sane w' \<and> view w' = view w"
    and create_old: "sane w \<Longrightarrow> px_open px p fl mode w = (Inr fd, w') \<Longrightarrow> fs_names (view w) p = Some i \<Longrightarrow>
      sane w' \<and> fd \<noteq> -1 \<and> view w' = (view w)\<lparr>fs_fds := (fs_fds (view w))(fd \<mapsto> (i, 0))\<rparr>"
    and create_new: "sane w \<Longrightarrow> px_open px p O_WRONLY_CREAT mode w = (Inr fd, w') \<Longrightarrow> fs_names (view w) p = None \<Longrightarrow>
      sane w' \<and> fd \<noteq> -1 \<and> (\<exists>i. (\<forall>q. fs_names (view w) q \<noteq> Some i)
        \<and> view w' = (view w)\<lparr>fs_names := (fs_names (view w))(p \<mapsto> i), fs_data := (fs_data (view w))(i := []),
              fs_mode := (fs_mode (view w))(i := mode AND NOT (fs_umask (view w))),
              fs_fds := (fs_fds (view w))(fd \<mapsto> (i, 0))\<rparr>)"
    and open_missing: "sane w \<Longrightarrow> px_open px p O_RDONLY mode w = (Inr fd, w') \<Longrightarrow> fs_names (view w) p \<noteq> None"
    and close_keeps: "sane w \<Longrightarrow> px_close px fd w = (r, w') \<Longrightarrow>
      sane w' \<and> (\<exists>fds. view w' = (view w)\<lparr>fs_fds := fds\<rparr>)"
    and fchmod_error: "sane w \<Longrightarrow> px_fchmod px fd mode w = (Some e, w') \<Longrightarrow> sane w' \<and> view w' = view w"
    and fchmod_mode: "sane w \<Longrightarrow> fs_fds (view w) fd = Some (i, off) \<Longrightarrow> px_fchmod px fd mode w = (None, w') \<Longrightarrow>
      sane w' \<and> view w' = (view w)\<lparr>fs_mode := (fs_mode (view w))(i := mode)\<rparr>"
    and umask_set: "sane w \<Longrightarrow> px_umask px m w = (old, w') \<Longrightarrow>
      sane w' \<and> old = fs_umask (view w) \<and> view w' = (view w)\<lparr>fs_umask := m AND 511\<rparr>"
    and umask_low: "sane w \<Longrightarrow> fs_umask (view w) AND 511 = fs_umask (view w)"
    and mkstemp_error: "sane w \<Longrightarrow> px_mkstemp px t w = (Inl e, w') \<Longrightarrow> sane w' \<and> view w' = view w"
    and mkstemp_new: "sane w \<Longrightarrow> px_mkstemp px (p @ ''XXXXXX'') w = (Inr (fd, tmp), w') \<Longrightarrow>
      sane w' \<and> fd \<noteq> -1 \<and> fs_names (view w) tmp = None \<and> prefix p tmp \<and> length tmp = length p + 6
      \<and> (\<exists>i. (\<forall>q. fs_names (view w) q \<noteq> Some i)
        \<and> view w' = (view w)\<lparr>fs_names := (fs_names (view w))(tmp \<mapsto> i), fs_data := (fs_data (view w))(i := []),
              fs_mode := (fs_mode (view w))(i := 384), fs_fds := (fs_fds (view w))(fd \<mapsto> (i, 0))\<rparr>)"
    and rename_error: "sane w \<Longrightarrow> px_rename px src dst w = (Some e, w') \<Longrightarrow> sane w' \<and> view w' = view w"
    and rename_moves: "sane w \<Longrightarrow> px_rename px src dst w = (None, w') \<Longrightarrow> fs_names (view w) src = Some i \<Longrightarrow>
      sane w' \<and> view w' = (view w)\<lparr>fs_names := (fs_names (view w))(src := None, dst := Some i)\<rparr>"
    and fstat_size: "sane w \<Longrightarrow> fs_fds (view w) fd = Some (i, off) \<Longrightarrow> px_fstat px fd w = Inr st \<Longrightarrow>
      st_size st = length (fs_data (view w) i)"
    and mmap_load: "sane w \<Longrightarrow> fs_fds (view w) fd = Some (i, off) \<Longrightarrow> px_mmap px fd n w = (Inr a, w') \<Longrightarrow>
      sane w' \<and> view w' = view w \<and> n \<noteq> 0 \<and> px_load px a n w' = take n (fs_data (view w) i)"
    and mmap_error: "sane w \<Longrightarrow> px_mmap px fd n w = (Inl e, w') \<Longrightarrow> sane w' \<and> view w' = view w"
    and munmap_keeps: "sane w \<Longrightarrow> px_munmap px adr n w = (r, w') \<Longrightarrow> sane w' \<and> view w' = view w"
begin

text \<open>The file that \<open>write_all\<close> writes to, from the position of the descriptor on.\<close>

lemma write_all_loop_ok:
  assumes "sane w" and "fs_fds (view w) (nfd f) = Some (i, off)" and "written \<le> length buf" and "off \<le> length (fs_data (view w) i)"
  shows "\<exists>r w'. write_all_loop px f buf written w = Some (r, w') \<and> sane w'
    \<and> (case r of
        Returned _ \<Rightarrow> view w' = (view w)\<lparr>fs_data := (fs_data (view w))(i := overwrite (fs_data (view w) i) off (drop written buf)),
            fs_fds := (fs_fds (view w))(nfd f \<mapsto> (i, off + (length buf - written)))\<rparr>
      | Thrown e \<Rightarrow> (\<exists>d fds. view w' = (view w)\<lparr>fs_data := (fs_data (view w))(i := d), fs_fds := fds\<rparr>)
      | Undefined \<Rightarrow> False)"
  using assms
proof (induction "length buf - written" arbitrary: written off w rule: less_induct)
  case less
  show ?case
  proof (cases "written < length buf")
    case False
    then have "overwrite (fs_data (view w) i) off (drop written buf) = fs_data (view w) i" by (simp add: overwrite_def)
    then have "(fs_data (view w))(i := overwrite (fs_data (view w) i) off (drop written buf)) = fs_data (view w)" by simp
    moreover have "(fs_fds (view w))(nfd f \<mapsto> (i, off + (length buf - written))) = fs_fds (view w)"
      using False less.prems(2) by auto
    ultimately show ?thesis using False less.prems(1) by (subst write_all_loop.simps) simp
  next
    case True
    obtain r w1 where wr: "px_write px (nfd f) (drop written buf) w = (r, w1)" by fastforce
    show ?thesis
    proof (cases r)
      case (Inl e)
      have "view w1 = (view w)\<lparr>fs_data := (fs_data (view w))(i := fs_data (view w) i), fs_fds := fs_fds (view w)\<rparr>"
        using write_error [OF less.prems(1,2)] wr Inl by simp
      then have "\<exists>d fds. view w1 = (view w)\<lparr>fs_data := (fs_data (view w))(i := d), fs_fds := fds\<rparr>" by blast
      moreover have "sane w1" using write_error [OF less.prems(1,2)] wr Inl by simp
      ultimately show ?thesis using True wr Inl by (subst write_all_loop.simps) (simp add: nfd_write_def)
    next
      case (Inr n)
      from write_some [OF less.prems(1,2) wr [unfolded Inr]] have w1: "sane w1" "n \<le> length buf - written" "0 < n"
        "view w1 = (view w)\<lparr>fs_data := (fs_data (view w))(i := overwrite (fs_data (view w) i) off (take n (drop written buf))),
            fs_fds := (fs_fds (view w))(nfd f \<mapsto> (i, off + n))\<rparr>"
        using True by auto
      let ?d = "fs_data (view w) i"
      have hyps: "length buf - (written + n) < length buf - written" "fs_fds (view w1) (nfd f) = Some (i, off + n)"
        "written + n \<le> length buf" "off + n \<le> length (fs_data (view w1) i)"
        using w1(2-4) True less.prems(4) by (auto simp: overwrite_def)
      obtain r' w' where IH: "write_all_loop px f buf (written + n) w1 = Some (r', w')" "sane w'"
        and res: "case r' of
          Returned _ \<Rightarrow> view w' = (view w1)\<lparr>fs_data := (fs_data (view w1))(i := overwrite (fs_data (view w1) i) (off + n) (drop (written + n) buf)),
            fs_fds := (fs_fds (view w1))(nfd f \<mapsto> (i, off + n + (length buf - (written + n))))\<rparr>
        | Thrown e \<Rightarrow> (\<exists>d fds. view w' = (view w1)\<lparr>fs_data := (fs_data (view w1))(i := d), fs_fds := fds\<rparr>)
        | Undefined \<Rightarrow> False"
        using less.hyps [OF hyps(1) w1(1) hyps(2-4)] by blast
      have "take n (drop written buf) @ drop (written + n) buf = drop written buf"
        by (metis add.commute append_take_drop_id drop_drop)
      then have ov: "overwrite (overwrite ?d off (take n (drop written buf))) (off + n) (drop (written + n) buf)
          = overwrite ?d off (drop written buf)"
        using overwrite_twice [OF less.prems(4), of "take n (drop written buf)" "drop (written + n) buf"] w1(2) by simp
      have len: "off + n + (length buf - (written + n)) = off + (length buf - written)" using w1(2) by simp
      have "case r' of
          Returned _ \<Rightarrow> view w' = (view w)\<lparr>fs_data := (fs_data (view w))(i := overwrite ?d off (drop written buf)),
            fs_fds := (fs_fds (view w))(nfd f \<mapsto> (i, off + (length buf - written)))\<rparr>
        | Thrown e \<Rightarrow> (\<exists>d fds. view w' = (view w)\<lparr>fs_data := (fs_data (view w))(i := d), fs_fds := fds\<rparr>)
        | Undefined \<Rightarrow> False"
        using res [unfolded len] by (cases r') (simp_all add: w1(4) ov)
      with True wr Inr IH show ?thesis by (subst write_all_loop.simps) (simp add: nfd_write_def)
    qed
  qed
qed

lemma file_destroy_keeps:
  "sane w \<Longrightarrow> sane (file_destroy px f w) \<and> (\<exists>fds. view (file_destroy px f w) = (view w)\<lparr>fs_fds := fds\<rparr>)"
proof -
  assume w: "sane w"
  have "\<exists>fds. view w = (view w)\<lparr>fs_fds := fds\<rparr>" by (rule exI [of _ "fs_fds (view w)"]) simp
  then show ?thesis
    using close_keeps [OF w, of "nfd f" "fst (px_close px (nfd f) w)" "snd (px_close px (nfd f) w)"] w
    by (simp add: file_destroy_def)
qed

text \<open>
  Writing data to a new descriptor and closing it; \<open>rest\<close> runs in a state in which the file has the
  data, and if it does not run, only the contents of the file have changed.
\<close>

lemma write_and_close_ok:
  assumes "sane w" and "fs_fds (view w) (nfd f) = Some (i, 0)"
  shows "(\<exists>w1 fds r w2 f'. sane w1
        \<and> view w1 = (view w)\<lparr>fs_data := (fs_data (view w))(i := overwrite (fs_data (view w) i) 0 data), fs_fds := fds\<rparr>
        \<and> rest w1 = (r, w2) \<and> write_and_close px f data rest w = Some (r, file_destroy px f' w2))
    \<or> (\<exists>w' d fds e. write_and_close px f data rest w = Some (Thrown e, w') \<and> sane w'
        \<and> view w' = (view w)\<lparr>fs_data := (fs_data (view w))(i := d), fs_fds := fds\<rparr>)"
proof -
  obtain r w1 where wr: "write_all px f data w = Some (r, w1)" "sane w1"
    and r: "case r of
        Returned _ \<Rightarrow> view w1 = (view w)\<lparr>fs_data := (fs_data (view w))(i := overwrite (fs_data (view w) i) 0 data),
            fs_fds := (fs_fds (view w))(nfd f \<mapsto> (i, length data))\<rparr>
      | Thrown e \<Rightarrow> (\<exists>d fds. view w1 = (view w)\<lparr>fs_data := (fs_data (view w))(i := d), fs_fds := fds\<rparr>)
      | Undefined \<Rightarrow> False"
    using write_all_loop_ok [OF assms(1,2) le0 le0, of data, unfolded drop_0 add_0 diff_zero]
    unfolding write_all_def by blast
  obtain fds1 where destroyed: "sane (file_destroy px f w1)" "view (file_destroy px f w1) = (view w1)\<lparr>fs_fds := fds1\<rparr>"
    using file_destroy_keeps [OF wr(2)] by blast
  show ?thesis
  proof (cases r)
    case (Thrown e)
    with r obtain d fds where "view w1 = (view w)\<lparr>fs_data := (fs_data (view w))(i := d), fs_fds := fds\<rparr>" by auto
    with destroyed have "view (file_destroy px f w1) = (view w)\<lparr>fs_data := (fs_data (view w))(i := d), fs_fds := fds1\<rparr>" by simp
    with wr(1) Thrown destroyed(1) show ?thesis by (auto simp: write_and_close_def)
  next
    case Undefined
    with r show ?thesis by simp
  next
    case (Returned u)
    obtain c f' w2 where cl: "nfd_close px f w1 = (c, f', w2)" by (metis prod_cases3)
    have w2: "sane w2 \<and> (\<exists>fds. view w2 = (view w1)\<lparr>fs_fds := fds\<rparr>) \<and> c \<noteq> Undefined"
    proof (cases "nfd f = -1")
      case True
      have "view w1 = (view w1)\<lparr>fs_fds := fs_fds (view w1)\<rparr>" by simp
      with True cl wr(2) show ?thesis by (auto simp: nfd_close_def intro!: exI [of _ "fs_fds (view w1)"])
    next
      case False
      then show ?thesis using cl close_keeps [OF wr(2), of "nfd f"]
        by (auto simp: nfd_close_def split: prod.splits option.splits)
    qed
    then obtain fds2 where view2: "view w2 = (view w)\<lparr>fs_data := (fs_data (view w))(i := overwrite (fs_data (view w) i) 0 data), fs_fds := fds2\<rparr>"
      using r Returned by auto
    show ?thesis
    proof (cases c)
      case (Returned v)
      obtain r3 w3 where "rest w2 = (r3, w3)" by fastforce
      moreover from this have "write_and_close px f data rest w = Some (r3, file_destroy px f' w3)"
        using wr(1) \<open>r = Returned u\<close> cl Returned by (simp add: write_and_close_def)
      ultimately show ?thesis using w2 view2 by blast
    next
      case (Thrown e)
      obtain fds3 where "sane (file_destroy px f' w2)" "view (file_destroy px f' w2) = (view w2)\<lparr>fs_fds := fds3\<rparr>"
        using file_destroy_keeps w2 by blast
      moreover from this(2) view2 have "view (file_destroy px f' w2)
          = (view w)\<lparr>fs_data := (fs_data (view w))(i := overwrite (fs_data (view w) i) 0 data), fs_fds := fds3\<rparr>" by simp
      moreover have "write_and_close px f data rest w = Some (Thrown e, file_destroy px f' w2)"
        using wr(1) \<open>r = Returned u\<close> cl Thrown by (simp add: write_and_close_def)
      ultimately show ?thesis by blast
    next
      case Undefined
      with w2 show ?thesis by simp
    qed
  qed
qed

lemma write_atomically_view:
  assumes "sane w"
  shows "\<exists>r w'. write_file_atomically px f data mode w = Some (r, w') \<and> sane w'
    \<and> ((\<exists>e e'. r = Thrown e \<and> fst (px_mkstemp px (f @ ''XXXXXX'') w) = Inl e' \<and> view w' = view w)
      \<or> (\<exists>fd tmp i fds. fst (px_mkstemp px (f @ ''XXXXXX'') w) = Inr (fd, tmp) \<and> (\<forall>q. fs_names (view w) q \<noteq> Some i)
          \<and> fs_names (view w) tmp = None \<and> prefix f tmp \<and> length tmp = length f + 6
          \<and> (r = Returned () \<and> view w' = wrote (view w) f i data (mode AND NOT (fs_umask (view w))) fds
            \<or> (\<exists>e d m. r = Thrown e \<and> view w' = wrote (view w) tmp i d m fds))))"
proof -
  obtain mk w1 where mk: "px_mkstemp px (f @ ''XXXXXX'') w = (mk, w1)" by fastforce
  show ?thesis
  proof (cases mk)
    case (Inl e)
    with mk mkstemp_error [OF assms] show ?thesis by (auto simp: write_file_atomically_def file_mkstemp_def)
  next
    case (Inr ft)
    then obtain fd tmp where ft: "mk = Inr (fd, tmp)" by (cases ft) auto
    from mkstemp_new [OF assms mk [unfolded ft]] obtain i where new: "sane w1" "fd \<noteq> -1" "fs_names (view w) tmp = None"
      "prefix f tmp" "length tmp = length f + 6" "\<forall>q. fs_names (view w) q \<noteq> Some i"
      and v1: "view w1 = wrote (view w) tmp i [] 384 ((fs_fds (view w))(fd \<mapsto> (i, 0)))"
      by (auto simp: wrote_def)
    let ?out = "\<lparr>nfd = fd, nfd_name = tmp\<rparr>"
    obtain mask w2 where um1: "px_umask px 511 w1 = (mask, w2)" by fastforce
    obtain m2 w3 where um2: "px_umask px mask w2 = (m2, w3)" by fastforce
    from umask_set [OF new(1) um1] have u1: "sane w2" "mask = fs_umask (view w)" "view w2 = (view w1)\<lparr>fs_umask := 511\<rparr>"
      using v1 by (auto simp: wrote_def)
    from umask_set [OF u1(1) um2] have u2: "sane w3" "view w3 = (view w2)\<lparr>fs_umask := mask AND 511\<rparr>" by auto
    have v3: "view w3 = wrote (view w) tmp i [] 384 ((fs_fds (view w))(fd \<mapsto> (i, 0)))"
      using u1 u2(2) v1 umask_low [OF assms] by (simp add: wrote_def)
    let ?m = "mode AND NOT mask"
    have unfold: "write_file_atomically px f data mode w =
       (case nfd_fchmod px ?out ?m w3 of
          (Returned _, w4) \<Rightarrow> write_and_close px ?out data (rename_over px tmp f) w4
        | (Thrown e, w4) \<Rightarrow> Some (Thrown e, file_destroy px ?out w4)
        | (Undefined, w4) \<Rightarrow> Some (Undefined, w4))"
    proof -
      obtain c w' where "nfd_fchmod px ?out ?m w3 = (c, w')" by fastforce
      with mk ft um1 um2 show ?thesis
        by (cases c) (simp_all add: write_file_atomically_def file_mkstemp_def Let_def)
    qed
    obtain ch w4 where ch: "px_fchmod px fd ?m w3 = (ch, w4)" by fastforce
    have left: ?thesis if "write_file_atomically px f data mode w = Some (Thrown e, w')" "sane w'"
      "view w' = wrote (view w) tmp i d m fds" for e w' d m fds
      using that mk ft new(3-6) by fastforce
    show ?thesis
    proof (cases ch)
      case (Some e)
      have w4: "sane w4" "view w4 = view w3" using fchmod_error [OF u2(1)] ch Some by auto
      obtain fds where "sane (file_destroy px ?out w4)" "view (file_destroy px ?out w4) = (view w4)\<lparr>fs_fds := fds\<rparr>"
        using file_destroy_keeps [OF w4(1)] by blast
      then show ?thesis using ch Some w4(2) v3
        by (intro left [of _ "file_destroy px ?out w4" "[]" 384 fds]) (simp_all add: unfold nfd_fchmod_def wrote_def)
    next
      case None
      have "fs_fds (view w3) fd = Some (i, 0)" using v3 by (simp add: wrote_def)
      from fchmod_mode [OF u2(1) this ch [unfolded None]] have w4: "sane w4"
        "view w4 = wrote (view w) tmp i [] ?m ((fs_fds (view w))(fd \<mapsto> (i, 0)))"
        using v3 by (simp_all add: wrote_def)
      have wac: "write_file_atomically px f data mode w = write_and_close px ?out data (rename_over px tmp f) w4"
        using ch None by (simp add: unfold nfd_fchmod_def)
      have "fs_fds (view w4) (nfd ?out) = Some (i, 0)" using w4(2) by (simp add: wrote_def)
      from write_and_close_ok [OF w4(1) this, of data "rename_over px tmp f"]
      consider (renamed) w5 fds r w6 f' where "sane w5"
          "view w5 = (view w4)\<lparr>fs_data := (fs_data (view w4))(i := overwrite (fs_data (view w4) i) 0 data), fs_fds := fds\<rparr>"
          "rename_over px tmp f w5 = (r, w6)"
          "write_and_close px ?out data (rename_over px tmp f) w4 = Some (r, file_destroy px f' w6)"
        | (failed) w' d fds e where "write_and_close px ?out data (rename_over px tmp f) w4 = Some (Thrown e, w')" "sane w'"
          "view w' = (view w4)\<lparr>fs_data := (fs_data (view w4))(i := d), fs_fds := fds\<rparr>"
        by blast
      then show ?thesis
      proof cases
        case failed
        then show ?thesis using w4(2)
          by (intro left [of e w' d ?m fds]) (simp_all add: wac wrote_def)
      next
        case renamed
        have v5: "view w5 = wrote (view w) tmp i data ?m fds"
          using renamed(2) w4(2) by (simp add: wrote_def overwrite_def)
        obtain rn w6' where rn: "px_rename px tmp f w5 = (rn, w6')" by fastforce
        with renamed(3) have w6: "w6' = w6" by (auto simp: rename_over_def split: option.splits)
        show ?thesis
        proof (cases rn)
          case (Some e)
          have "sane w6" "view w6 = view w5" using rename_error [OF renamed(1)] rn Some w6 by auto
          moreover from this obtain fds' where "sane (file_destroy px f' w6)" "view (file_destroy px f' w6) = (view w6)\<lparr>fs_fds := fds'\<rparr>"
            using file_destroy_keeps by blast
          moreover obtain e' where "r = Thrown e'" using renamed(3) rn Some by (auto simp: rename_over_def)
          ultimately show ?thesis using renamed(4) v5
            by (intro left [of e' "file_destroy px f' w6" data ?m fds']) (simp_all add: wac wrote_def)
        next
          case None
          have "fs_names (view w5) tmp = Some i" using v5 by (simp add: wrote_def)
          from rename_moves [OF renamed(1) rn [unfolded None] this] w6 have "sane w6"
            "view w6 = (view w5)\<lparr>fs_names := (fs_names (view w5))(tmp := None, f := Some i)\<rparr>" by auto
          moreover from this obtain fds' where "sane (file_destroy px f' w6)" "view (file_destroy px f' w6) = (view w6)\<lparr>fs_fds := fds'\<rparr>"
            using file_destroy_keeps by blast
          moreover have "(fs_names (view w))(tmp := None) = fs_names (view w)" using new(3) by auto
          ultimately have fin: "sane (file_destroy px f' w6)"
            "view (file_destroy px f' w6) = wrote (view w) f i data (mode AND NOT (fs_umask (view w))) fds'"
            using v5 u1(2) by (simp_all add: wrote_def)
          have "write_file_atomically px f data mode w = Some (Returned (), file_destroy px f' w6)"
            using renamed(3,4) rn None by (simp add: wac rename_over_def)
          with fin mk ft new(3-6) show ?thesis by fastforce
        qed
      qed
    qed
  qed
qed

lemma write_file_content:
  assumes "sane w"
  shows "\<exists>r w'. write_file px f data mode w = Some (r, w') \<and> r \<noteq> Undefined \<and> sane w'
    \<and> (r = Returned () \<longrightarrow> file_content (view w') f =
          Some (data @ drop (length data) (case file_content (view w) f of None \<Rightarrow> [] | Some d \<Rightarrow> d)))"
proof -
  obtain op w1 where op: "px_open px f O_WRONLY_CREAT mode w = (op, w1)" by fastforce
  show ?thesis
  proof (cases op)
    case (Inl e)
    with op create_error [OF assms] show ?thesis by (auto simp: write_file_def file_open_def)
  next
    case (Inr fd)
    have "\<exists>i. sane w1 \<and> fs_fds (view w1) fd = Some (i, 0) \<and> fs_names (view w1) f = Some i
        \<and> fs_data (view w1) i = (case file_content (view w) f of None \<Rightarrow> [] | Some d \<Rightarrow> d)"
    proof (cases "fs_names (view w) f")
      case None
      with create_new [OF assms op [unfolded Inr]] show ?thesis by (auto simp: file_content_def)
    next
      case (Some i)
      with create_old [OF assms op [unfolded Inr]] show ?thesis by (auto simp: file_content_def)
    qed
    then obtain i where w1: "sane w1" "fs_fds (view w1) fd = Some (i, 0)" "fs_names (view w1) f = Some i"
      and old: "fs_data (view w1) i = (case file_content (view w) f of None \<Rightarrow> [] | Some d \<Rightarrow> d)" by blast
    let ?out = "\<lparr>nfd = fd, nfd_name = f\<rparr>" and ?rest = "\<lambda>w. (Returned (), w)"
    have run: "write_file px f data mode w = write_and_close px ?out data ?rest w1"
      using op Inr by (simp add: write_file_def file_open_def)
    have "fs_fds (view w1) (nfd ?out) = Some (i, 0)" using w1(2) by simp
    from write_and_close_ok [OF w1(1) this, of data ?rest]
    consider (success) w2 fds f' where "sane w2"
        "view w2 = (view w1)\<lparr>fs_data := (fs_data (view w1))(i := overwrite (fs_data (view w1) i) 0 data), fs_fds := fds\<rparr>"
        "write_and_close px ?out data ?rest w1 = Some (Returned (), file_destroy px f' w2)"
      | (failed) w' e where "write_and_close px ?out data ?rest w1 = Some (Thrown e, w')" "sane w'"
      by auto
    then show ?thesis
    proof cases
      case failed
      then show ?thesis by (simp add: run)
    next
      case success
      from file_destroy_keeps [OF success(1)] obtain fds' where "sane (file_destroy px f' w2)"
        "view (file_destroy px f' w2) = (view w2)\<lparr>fs_fds := fds'\<rparr>" by blast
      with success(2,3) w1(3) old show ?thesis by (simp add: run file_content_def overwrite_def)
    qed
  qed
qed

lemma read_file_content:
  assumes "sane w" and "read_file px f w = (r, w')"
  shows "r \<noteq> Undefined" and "r = Returned s \<Longrightarrow> file_content (view w) f = Some s \<and> s \<noteq> []"
proof -
  have "r \<noteq> Undefined \<and> (r = Returned s \<longrightarrow> file_content (view w) f = Some s \<and> s \<noteq> [])"
  proof -
    obtain op w1 where op: "px_open px f O_RDONLY 0 w = (op, w1)" by fastforce
    show ?thesis
    proof (cases op)
      case (Inl e)
      with op assms(2) show ?thesis by (auto simp: read_file_def file_open_def)
    next
      case (Inr fd)
      from open_missing [OF assms(1) op [unfolded Inr]] obtain i where i: "fs_names (view w) f = Some i" by blast
      from create_old [OF assms(1) op [unfolded Inr] i] have w1: "sane w1" "fs_fds (view w1) fd = Some (i, 0)"
        "fs_data (view w1) = fs_data (view w)" by auto
      show ?thesis
      proof (cases "px_fstat px fd w1")
        case (Inl e)
        with op Inr assms(2) show ?thesis by (auto simp: read_file_def file_open_def nfd_fstat_def)
      next
        case st: (Inr st)
        obtain mm w2 where mm: "px_mmap px fd (st_size st) w1 = (mm, w2)" by fastforce
        show ?thesis
        proof (cases mm)
          case (Inl e)
          with op Inr st mm assms(2) show ?thesis
            by (auto simp: read_file_def file_open_def nfd_fstat_def nfd_mmap_def)
        next
          case a: (Inr a)
          from mmap_load [OF w1(1,2) mm [unfolded a]] fstat_size [OF w1(1,2) st]
          have "px_load px a (st_size st) w2 = fs_data (view w) i" "fs_data (view w) i \<noteq> []"
            using w1(3) by auto
          with op Inr st mm a assms(2) i show ?thesis
            by (auto simp: read_file_def file_open_def nfd_fstat_def nfd_mmap_def mmap_new_def file_content_def)
        qed
      qed
    qed
  qed
  then show "r \<noteq> Undefined" and "r = Returned s \<Longrightarrow> file_content (view w) f = Some s \<and> s \<noteq> []" by blast+
qed

end

subsection \<open>The files of a program\<close>

text \<open>
  C6: replacing a file atomically always comes to an end, however the system splits the writes.
  When it succeeds the file has exactly the new data and the mode without the bits of the umask,
  and no other file has changed; when it fails, the file and all others have their old contents,
  except that a temporary file, named like the file with six more characters, can be left.
  The umask is what it was.
\<close>

theorem write_file_atomically_atomic:
  assumes "posix_fs px view sane" and "sane w"
  shows "\<exists>r w'. write_file_atomically px f data mode w = Some (r, w') \<and> fs_umask (view w') = fs_umask (view w)
    \<and> (case r of
        Returned _ \<Rightarrow> file_content (view w') f = Some data
          \<and> map_option (fs_mode (view w')) (fs_names (view w') f) = Some (mode AND NOT (fs_umask (view w)))
          \<and> (\<forall>p. p \<noteq> f \<longrightarrow> file_content (view w') p = file_content (view w) p)
      | Thrown e \<Rightarrow> file_content (view w') f = file_content (view w) f
          \<and> (\<forall>p. file_content (view w') p \<noteq> file_content (view w) p \<longrightarrow>
               file_content (view w) p = None \<and> prefix f p \<and> length p = length f + 6)
      | Undefined \<Rightarrow> False)"
proof -
  from posix_fs.write_atomically_view [OF assms, of f data mode] obtain r w' where
    run: "write_file_atomically px f data mode w = Some (r, w')"
    and res: "(\<exists>e. r = Thrown e \<and> view w' = view w)
      \<or> (\<exists>tmp i fds. (\<forall>q. fs_names (view w) q \<noteq> Some i) \<and> fs_names (view w) tmp = None
          \<and> prefix f tmp \<and> length tmp = length f + 6
          \<and> (r = Returned () \<and> view w' = wrote (view w) f i data (mode AND NOT (fs_umask (view w))) fds
            \<or> (\<exists>e d m. r = Thrown e \<and> view w' = wrote (view w) tmp i d m fds)))"
    by blast
  have other: "file_content (wrote (view w) p i d m fds) q = file_content (view w) q"
    if "\<forall>q. fs_names (view w) q \<noteq> Some i" "q \<noteq> p" for p i d m fds q
    using that by (cases "fs_names (view w) q") (auto simp: file_content_def wrote_def)
  from res show ?thesis
  proof (elim disjE exE conjE)
    fix e
    assume "r = Thrown e" "view w' = view w"
    with run show ?thesis by simp
  next
    fix tmp i fds
    assume new: "\<forall>q. fs_names (view w) q \<noteq> Some i" "fs_names (view w) tmp = None" "prefix f tmp" "length tmp = length f + 6"
      and "r = Returned ()" "view w' = wrote (view w) f i data (mode AND NOT (fs_umask (view w))) fds"
    with run other [OF new(1)] show ?thesis by (auto simp: file_content_def wrote_def)
  next
    fix tmp i fds e d m
    assume new: "\<forall>q. fs_names (view w) q \<noteq> Some i" "fs_names (view w) tmp = None" "prefix f tmp" "length tmp = length f + 6"
      and thrown: "r = Thrown e" "view w' = wrote (view w) tmp i d m fds"
    have "f \<noteq> tmp" using new(4) by auto
    then have "file_content (view w') f = file_content (view w) f" using other [OF new(1)] thrown(2) by simp
    moreover have "p = tmp" if "file_content (view w') p \<noteq> file_content (view w) p" for p
      using other [OF new(1), of p tmp] that thrown(2) by auto
    moreover have "file_content (view w) tmp = None" using new(2) by (simp add: file_content_def)
    ultimately show ?thesis using run thrown new(3,4) by (auto simp: wrote_def)
  qed
qed

text \<open>
  when anything fails after the temporary file has been created, it stays in the directory.
\<close>

theorem failed_write_leaves_temporary:
  assumes "posix_fs px view sane" and "sane w" and "fst (px_mkstemp px (f @ ''XXXXXX'') w) = Inr (fd, tmp)"
    and "write_file_atomically px f data mode w = Some (Thrown e, w')"
  shows "file_content (view w) tmp = None \<and> file_content (view w') tmp \<noteq> None"
  using posix_fs.write_atomically_view [OF assms(1,2), of f data mode] assms(3,4)
  by (auto simp: file_content_def wrote_def)

text \<open>
  \<open>write_file\<close> does not empty a file that exists: when it succeeds, the file begins with the
  data, and what the old contents have beyond its length is still there.
\<close>

theorem write_file_keeps_tail:
  assumes "posix_fs px view sane" and "sane w"
  shows "\<exists>r w'. write_file px f data mode w = Some (r, w') \<and> r \<noteq> Undefined
    \<and> (r = Returned () \<longrightarrow> file_content (view w') f =
          Some (data @ drop (length data) (case file_content (view w) f of None \<Rightarrow> [] | Some d \<Rightarrow> d)))"
  using posix_fs.write_file_content [OF assms, of f data mode] by blast

text \<open>
  C30: reading a file that has been replaced atomically gives the data that was written, if it gives
  anything; a file that is empty is never read, because nothing cannot be mapped.
\<close>

theorem write_then_read_file:
  assumes "posix_fs px view sane" and "sane w" and "write_file_atomically px f data mode w = Some (Returned (), w1)"
    and "read_file px f w1 = (r, w2)"
  shows "r \<noteq> Undefined \<and> (r = Returned s \<longrightarrow> s = data \<and> data \<noteq> [])"
proof -
  from posix_fs.write_atomically_view [OF assms(1,2), of f data mode] assms(3)
  have "sane w1" "file_content (view w1) f = Some data"
    by (auto simp: file_content_def wrote_def)
  with posix_fs.read_file_content [OF assms(1) _ assms(4)] show ?thesis by auto
qed

text \<open>
  assigning to a map that has been moved from throws, if unmapping nothing is the error that the
  manual says it is, and what was to be assigned is not moved; assigning to a map that is mapped
  unmaps it once and moves.
\<close>

theorem mmap_assign_moved_from:
  assumes "px_munmap px None 0 w = (Some EINVAL, w)" and "px_munmap px (Some a) k w' = (None, u)"
  shows "mmap_assign px False (snd (mmap_move m)) n w
      = (Thrown (SystemError EINVAL ''cannot unmap memory''), snd (mmap_move m), n, w)
    \<and> mmap_assign px False \<lparr>mm_addr = Some a, mm_length = k\<rparr> n w' = (Returned (), fst (mmap_move n), snd (mmap_move n), u)"
  using assms by (cases m; cases n) (simp add: mmap_assign_def mmap_munmap_def mmap_move_def)

subsection \<open>A file system in memory\<close>

text \<open>
  A file system that keeps the contracts.  \<open>mem_chunks\<close> says how much each write takes, 0 standing for
  an error; when it is empty, writes are complete.
\<close>

record mem =
  mem_fs :: fs
  mem_ino :: nat
  mem_fd :: nat
  mem_chunks :: "nat list"

definition mem_sane :: "mem \<Rightarrow> bool" where
  "mem_sane w \<longleftrightarrow> (\<forall>p i. fs_names (mem_fs w) p = Some i \<longrightarrow> i < mem_ino w) \<and> fs_umask (mem_fs w) AND 511 = fs_umask (mem_fs w)"

definition mem_opened :: "nat \<Rightarrow> mem \<Rightarrow> mem" where
  "mem_opened i w = w\<lparr>mem_fs := (mem_fs w)\<lparr>fs_fds := (fs_fds (mem_fs w))(int (mem_fd w) \<mapsto> (i, 0))\<rparr>, mem_fd := Suc (mem_fd w)\<rparr>"

definition mem_create :: "string \<Rightarrow> 32 word \<Rightarrow> mem \<Rightarrow> mem" where
  "mem_create p m w = mem_opened (mem_ino w) (w\<lparr>mem_ino := Suc (mem_ino w),
     mem_fs := wrote (mem_fs w) p (mem_ino w) [] m (fs_fds (mem_fs w))\<rparr>)"

definition mem_posix :: "mem posix" where
  "mem_posix = \<lparr>
     px_open = (\<lambda>p fl m w. case fs_names (mem_fs w) p of
         Some i \<Rightarrow> (Inr (int (mem_fd w)), mem_opened i w)
       | None \<Rightarrow> if fl = O_RDONLY then (Inl ENOENT, w)
           else (Inr (int (mem_fd w)), mem_create p (m AND NOT (fs_umask (mem_fs w))) w)),
     px_close = (\<lambda>fd w. (None, w\<lparr>mem_fs := (mem_fs w)\<lparr>fs_fds := (fs_fds (mem_fs w))(fd := None)\<rparr>\<rparr>)),
     px_write = (\<lambda>fd buf w. case fs_fds (mem_fs w) fd of
         None \<Rightarrow> (Inl (OtherErrno 9), w)
       | Some (i, off) \<Rightarrow>
           (let k = (case mem_chunks w of [] \<Rightarrow> length buf | k # _ \<Rightarrow> min k (length buf));
                w = w\<lparr>mem_chunks := tl (mem_chunks w)\<rparr>
            in if k = 0 \<and> buf \<noteq> [] then (Inl (OtherErrno 28), w)
               else (Inr k, w\<lparr>mem_fs := (mem_fs w)\<lparr>
                  fs_data := (fs_data (mem_fs w))(i := overwrite (fs_data (mem_fs w) i) off (take k buf)),
                  fs_fds := (fs_fds (mem_fs w))(fd \<mapsto> (i, off + k))\<rparr>\<rparr>))),
     px_fchmod = (\<lambda>fd m w. case fs_fds (mem_fs w) fd of
         None \<Rightarrow> (Some (OtherErrno 9), w)
       | Some (i, off) \<Rightarrow> (None, w\<lparr>mem_fs := (mem_fs w)\<lparr>fs_mode := (fs_mode (mem_fs w))(i := m)\<rparr>\<rparr>)),
     px_umask = (\<lambda>m w. (fs_umask (mem_fs w), w\<lparr>mem_fs := (mem_fs w)\<lparr>fs_umask := m AND 511\<rparr>\<rparr>)),
     px_mkstemp = (\<lambda>t w. let tmp = take (length t - 6) t @ ''000000''
        in if fs_names (mem_fs w) tmp \<noteq> None then (Inl EEXIST, w)
           else (Inr (int (mem_fd w), tmp), mem_create tmp 384 w)),
     px_rename = (\<lambda>src dst w. case fs_names (mem_fs w) src of
         None \<Rightarrow> (Some ENOENT, w)
       | Some i \<Rightarrow> (None, w\<lparr>mem_fs := (mem_fs w)\<lparr>fs_names := (fs_names (mem_fs w))(src := None, dst := Some i)\<rparr>\<rparr>)),
     px_unlink = (\<lambda>p w. if fs_names (mem_fs w) p = None then (Some ENOENT, w)
        else (None, w\<lparr>mem_fs := (mem_fs w)\<lparr>fs_names := (fs_names (mem_fs w))(p := None)\<rparr>\<rparr>)),
     px_rmdir = (\<lambda>p w. (Some ENOTDIR, w)),
     px_fstat = (\<lambda>fd w. case fs_fds (mem_fs w) fd of
         None \<Rightarrow> Inl (OtherErrno 9)
       | Some (i, off) \<Rightarrow> Inr \<lparr>st_type = S_IFREG, st_mtime = 0, st_size = length (fs_data (mem_fs w) i), st_ino = i\<rparr>),
     px_mmap = (\<lambda>fd n w. case fs_fds (mem_fs w) fd of
         None \<Rightarrow> (Inl (OtherErrno 9), w)
       | Some (i, off) \<Rightarrow> if n = 0 then (Inl EINVAL, w) else (Inr i, w)),
     px_load = (\<lambda>a n w. take n (fs_data (mem_fs w) a)),
     px_munmap = (\<lambda>a n w. (if a = None \<or> n = 0 then Some EINVAL else None, w))\<rparr>"

interpretation memory: posix_fs mem_posix mem_fs mem_sane
  by unfold_locales
    (auto simp: mem_posix_def mem_sane_def mem_opened_def mem_create_def wrote_def Let_def less_Suc_eq and.assoc
      split: option.splits if_splits list.splits)

text \<open>A directory with one file, under a umask of 022, and a run that writes in pieces or fails.\<close>

definition mem_start :: "nat list \<Rightarrow> mem" where
  "mem_start chunks = \<lparr>mem_fs = \<lparr>fs_names = [''f'' \<mapsto> 0], fs_data = (\<lambda>i. if i = 0 then ''old contents'' else []),
     fs_mode = (\<lambda>_. 438), fs_fds = (\<lambda>_. None), fs_umask = 18\<rparr>, mem_ino = 1, mem_fd = 3, mem_chunks = chunks\<rparr>"

lemma mem_start_sane: "mem_sane (mem_start chunks)"
  by (simp add: mem_sane_def mem_start_def)

lemmas file_defs = write_file_atomically_def write_file_def file_mkstemp_def file_open_def write_and_close_def
  write_all_def nfd_write_def nfd_close_def nfd_fchmod_def rename_over_def file_destroy_def read_file_def nfd_fstat_def
  nfd_mmap_def mmap_new_def mmap_destroy_def

lemmas mem_defs = mem_posix_def mem_opened_def mem_create_def wrote_def overwrite_def mem_start_def file_content_def

theorem write_file_atomically_atomic_witness:
  "\<exists>r w'. write_file_atomically mem_posix ''f'' ''new'' 438 (mem_start [1, 2]) = Some (r, w') \<and> fs_umask (mem_fs w') = 18"
  using write_file_atomically_atomic [OF memory.posix_fs_axioms mem_start_sane, of "''f''" "''new''" 438 "[1, 2]"]
  by (fastforce simp: mem_start_def)

lemma mem_atomic_run:
  "\<exists>w. write_file_atomically mem_posix ''f'' ''new'' 438 (mem_start [1, 2]) = Some (Returned (), w)"
  by (simp add: file_defs mem_defs write_all_loop.simps Let_def)

lemma mem_failing_run:
  "\<exists>w e. write_file_atomically mem_posix ''f'' ''new'' 438 (mem_start [0]) = Some (Thrown e, w)"
  by (simp add: file_defs mem_defs write_all_loop.simps Let_def)

lemma mem_mkstemp_start: "fst (px_mkstemp mem_posix (''f'' @ ''XXXXXX'') (mem_start chunks)) = Inr (3, ''f000000'')"
  by (simp add: mem_defs Let_def)

theorem failed_write_leaves_temporary_witness:
  "\<exists>e w. write_file_atomically mem_posix ''f'' ''new'' 438 (mem_start [0]) = Some (Thrown e, w)
    \<and> file_content (mem_fs w) ''f000000'' \<noteq> None"
proof -
  obtain w e where run: "write_file_atomically mem_posix ''f'' ''new'' 438 (mem_start [0]) = Some (Thrown e, w)"
    using mem_failing_run by blast
  show ?thesis
    using failed_write_leaves_temporary [OF memory.posix_fs_axioms mem_start_sane mem_mkstemp_start run] run by blast
qed

theorem write_file_keeps_tail_witness:
  "\<exists>w. write_file mem_posix ''f'' ''new'' 438 (mem_start [1, 2]) = Some (Returned (), w)
    \<and> file_content (mem_fs w) ''f'' = Some ''new contents''"
proof -
  have run: "\<exists>w. write_file mem_posix ''f'' ''new'' 438 (mem_start [1, 2]) = Some (Returned (), w)"
    by (simp add: file_defs mem_defs write_all_loop.simps Let_def)
  have old: "file_content (mem_fs (mem_start [1, 2])) ''f'' = Some ''old contents''"
    by (simp add: mem_start_def file_content_def)
  show ?thesis
    using write_file_keeps_tail [OF memory.posix_fs_axioms mem_start_sane, of "''f''" "''new''" 438 "[1, 2]"] run old
    by auto
qed

theorem write_then_read_file_witness:
  "\<exists>w w'. write_file_atomically mem_posix ''f'' ''new'' 438 (mem_start [1, 2]) = Some (Returned (), w)
    \<and> read_file mem_posix ''f'' w = (Returned ''new'', w')"
proof -
  obtain w where run: "write_file_atomically mem_posix ''f'' ''new'' 438 (mem_start [1, 2]) = Some (Returned (), w)"
    using mem_atomic_run by blast
  then have "\<exists>s w'. read_file mem_posix ''f'' w = (Returned s, w')"
    by (auto simp: file_defs mem_defs write_all_loop.simps Let_def)
  then obtain s w' where read: "read_file mem_posix ''f'' w = (Returned s, w')" by blast
  with write_then_read_file [OF memory.posix_fs_axioms mem_start_sane run read] have "s = ''new''" by simp
  with run read show ?thesis by blast
qed

theorem mmap_assign_moved_from_witness:
  "fst (mmap_assign mem_posix False (snd (mmap_move \<lparr>mm_addr = Some 0, mm_length = 3\<rparr>))
      \<lparr>mm_addr = Some 1, mm_length = 3\<rparr> (mem_start [])) = Thrown (SystemError EINVAL ''cannot unmap memory'')"
proof -
  have unmap: "px_munmap mem_posix None 0 (mem_start []) = (Some EINVAL, mem_start [])"
    "px_munmap mem_posix (Some 0) 3 (mem_start []) = (None, mem_start [])"
    by (simp_all add: mem_posix_def)
  show ?thesis
    using mmap_assign_moved_from [OF unmap, of "\<lparr>mm_addr = Some 0, mm_length = 3\<rparr>" "\<lparr>mm_addr = Some 1, mm_length = 3\<rparr>"]
    by simp
qed

end
