(* ===== verification/SysDirs.thy ===== *)
theory SysDirs
  imports SysFiles
begin

section \<open>Making directories (ept/utils/sys.cc)\<close>

text \<open>
  \<open>mkdir_ifmissing\<close> tries five times, because a name may be in the way that \<open>stat\<close> does not find:
  a directory just removed, or a symbolic link to nothing.  \<open>makedirs\<close> calls it for every
  directory on the way, the outermost first.  \<open>mkdir(2)\<close> and \<open>stat(2)\<close> are arguments on a state of
  the world, in which other processes may act with every call of \<open>mkdir\<close>.
\<close>

record 'w dir_calls =
  dc_mkdir :: "string \<Rightarrow> 32 word \<Rightarrow> 'w \<Rightarrow> errno option \<times> 'w"
  dc_stat :: "string \<Rightarrow> 'w \<Rightarrow> errno + file_stat"

fun mkdir_loop :: "'w dir_calls \<Rightarrow> string \<Rightarrow> 32 word \<Rightarrow> nat \<Rightarrow> 'w \<Rightarrow> (sys_error, unit) outcome \<times> 'w" where
  "mkdir_loop dc path mode 0 w = (Thrown (RuntimeError (path @ '' exists and looks like a dangling symlink'')), w)"
| "mkdir_loop dc path mode (Suc i) w =
     (case dc_mkdir dc path mode w of
        (None, w1) \<Rightarrow> (Returned (), w1)
      | (Some e, w1) \<Rightarrow>
          if e \<noteq> EEXIST \<and> e \<noteq> EISDIR then (Thrown (SystemError e (''cannot create directory '' @ path)), w1)
          else (case sys_stat (\<lambda>p. dc_stat dc p w1) path of
              Returned None \<Rightarrow> mkdir_loop dc path mode i w1
            | Returned (Some st) \<Rightarrow>
                if st_type st \<noteq> S_IFDIR then (Thrown (RuntimeError (path @ '' exists but is not a directory'')), w1)
                else (Returned (), w1)
            | Thrown e' \<Rightarrow> (Thrown e', w1)
            | Undefined \<Rightarrow> (Undefined, w1)))"

definition mkdir_ifmissing :: "'w dir_calls \<Rightarrow> string \<Rightarrow> 32 word \<Rightarrow> 'w \<Rightarrow> (sys_error, unit) outcome \<times> 'w" where
  "mkdir_ifmissing dc path mode w = mkdir_loop dc path mode 5 w"

text \<open>\<open>dirname\<close> gives a shorter path, or one of the two at which \<open>makedirs\<close> ends.\<close>

lemma skip_slashes_le: "skip_slashes p e \<le> e"
  by (induction p e rule: skip_slashes.induct) auto

lemma dirname_shorter: "dirname p = ''/'' \<or> dirname p = ''.'' \<or> length (dirname p) < length p"
proof (cases "p = [] \<or> rfind_char_upto p CHR ''/'' (skip_slashes p (length p) - 1) = None")
  case False
  then obtain e where e: "rfind_char_upto p CHR ''/'' (skip_slashes p (length p) - 1) = Some e" by auto
  then obtain n xs ys where "take n p = xs @ CHR ''/'' # ys" "e = length xs"
    by (auto simp: rfind_char_upto_def elim!: rfind_char_SomeE)
  then have "e < length (take n p)" by simp
  then have "e < length p" by simp
  with skip_slashes_le [of p e] e False show ?thesis
    by (auto simp: dirname_def Let_def substr_def)
qed (auto simp: dirname_def Let_def)

function makedirs :: "'w dir_calls \<Rightarrow> string \<Rightarrow> 32 word \<Rightarrow> 'w \<Rightarrow> (sys_error, unit) outcome \<times> 'w" where
  "makedirs dc path mode w =
     (if path = ''/'' \<or> path = ''.'' then (Returned (), w)
      else case makedirs dc (dirname path) mode w of
          (Returned _, w1) \<Rightarrow> mkdir_ifmissing dc path mode w1
        | r \<Rightarrow> r)"
  by pat_completeness auto

termination
  by (relation "measure (\<lambda>(dc, path, mode, w). if path = ''/'' \<or> path = ''.'' then 0 else Suc (length path))")
    (use dirname_shorter in \<open>auto split: if_splits\<close>)


declare makedirs.simps [simp del]

subsection \<open>One directory\<close>

definition is_dir :: "'w dir_calls \<Rightarrow> 'w \<Rightarrow> string \<Rightarrow> bool" where
  "is_dir dc w p \<longleftrightarrow> (case dc_stat dc p w of Inl e \<Rightarrow> False | Inr st \<Rightarrow> st_type st = S_IFDIR)"

text \<open>When nothing else changes the file system, the five attempts are one.\<close>

lemma mkdir_loop_quiet:
  assumes "dc_mkdir dc path mode w = (Some e, w)" and "e = EEXIST \<or> e = EISDIR"
  shows "mkdir_loop dc path mode (Suc i) w = (case dc_stat dc path w of
      Inl e' \<Rightarrow> (if e' = ENOENT then Thrown (RuntimeError (path @ '' exists and looks like a dangling symlink''))
          else Thrown (cannot_stat e' path), w)
    | Inr st \<Rightarrow> (if st_type st = S_IFDIR then Returned ()
          else Thrown (RuntimeError (path @ '' exists but is not a directory'')), w))"
  using assms by (induction i) (auto simp: sys_stat_def split: sum.splits)

text \<open>
  as long as nothing else changes the file system, \<open>mkdir_ifmissing\<close> makes the directory, or
  finds that it is there, or throws for one of three reasons: the error of \<open>mkdir\<close>, something that is
  not a directory, or a name that \<open>stat\<close> cannot follow; the last after five attempts.
\<close>

theorem mkdir_ifmissing_classifies:
  assumes "\<And>e w'. dc_mkdir dc path mode w = (Some e, w') \<Longrightarrow> w' = w"
  shows "mkdir_ifmissing dc path mode w = (case dc_mkdir dc path mode w of
      (None, w') \<Rightarrow> (Returned (), w')
    | (Some e, w') \<Rightarrow>
        (if e \<noteq> EEXIST \<and> e \<noteq> EISDIR then Thrown (SystemError e (''cannot create directory '' @ path))
         else case dc_stat dc path w of
             Inl e' \<Rightarrow> if e' = ENOENT then Thrown (RuntimeError (path @ '' exists and looks like a dangling symlink''))
               else Thrown (cannot_stat e' path)
           | Inr st \<Rightarrow> if st_type st = S_IFDIR then Returned ()
               else Thrown (RuntimeError (path @ '' exists but is not a directory'')), w))"
proof (cases "dc_mkdir dc path mode w")
  case (Pair r w')
  show ?thesis
  proof (cases r)
    case (Some e)
    with assms Pair have "w' = w" by simp
    with Pair Some mkdir_loop_quiet [of dc path mode w e 4] show ?thesis
      by (auto simp: mkdir_ifmissing_def numeral_eq_Suc split: sum.splits)
  qed (use Pair in \<open>simp add: mkdir_ifmissing_def numeral_eq_Suc\<close>)
qed

subsection \<open>All directories on the way\<close>

text \<open>The directories that \<open>makedirs\<close> makes sure of, the outermost first, and one after the other.\<close>

function dir_chain :: "string \<Rightarrow> string list" where
  "dir_chain path = (if path = ''/'' \<or> path = ''.'' then [] else dir_chain (dirname path) @ [path])"
  by pat_completeness auto

termination
  by (relation "measure (\<lambda>path. if path = ''/'' \<or> path = ''.'' then 0 else Suc (length path))")
    (use dirname_shorter in \<open>auto split: if_splits\<close>)

declare dir_chain.simps [simp del]

fun mkdir_each :: "'w dir_calls \<Rightarrow> 32 word \<Rightarrow> string list \<Rightarrow> 'w \<Rightarrow> (sys_error, unit) outcome \<times> 'w" where
  "mkdir_each dc mode [] w = (Returned (), w)"
| "mkdir_each dc mode (p # ps) w =
     (case mkdir_ifmissing dc p mode w of (Returned _, w1) \<Rightarrow> mkdir_each dc mode ps w1 | r \<Rightarrow> r)"

lemma mkdir_each_append: "mkdir_each dc mode (ps @ qs) w =
    (case mkdir_each dc mode ps w of (Returned _, w1) \<Rightarrow> mkdir_each dc mode qs w1 | r \<Rightarrow> r)"
  by (induction ps arbitrary: w) (auto split: prod.splits outcome.splits)

lemma makedirs_each: "makedirs dc path mode w = mkdir_each dc mode (dir_chain path) w"
proof (induction dc path mode w rule: makedirs.induct)
  case (1 dc path mode w)
  have one: "mkdir_each dc mode [path] w1 = mkdir_ifmissing dc path mode w1" for w1
    by (simp split: prod.splits outcome.splits)
  from 1 show ?case
    by (subst makedirs.simps, subst dir_chain.simps) (simp add: mkdir_each_append one del: mkdir_each.simps(2) split: prod.splits outcome.splits)
qed

text \<open>For a path of plain names the chain is the path cut after each of them.\<close>

definition under :: "string \<Rightarrow> string list \<Rightarrow> string" where
  "under b cs = b @ concat (map ((#) CHR ''/'') cs)"

lemma under_append [simp]: "under b (cs @ [c]) = under b cs @ CHR ''/'' # c"
  by (simp add: under_def)

lemma under_end:
  assumes "\<forall>c\<in>set cs. plain_component c" and "b = [] \<or> plain_component b"
  shows "under b cs = [] \<and> b = [] \<and> cs = [] \<or> under b cs \<noteq> [] \<and> last (under b cs) \<noteq> CHR ''/''"
proof (cases cs rule: rev_cases)
  case (snoc ds c)
  with assms(1) have "c \<noteq> []" "CHR ''/'' \<notin> set c" by (auto simp: plain_component_def)
  then have "last c \<noteq> CHR ''/''" using last_in_set by metis
  with snoc \<open>c \<noteq> []\<close> show ?thesis by auto
next
  case Nil
  have "last b \<noteq> CHR ''/''" if "plain_component b" using that last_in_set by (metis plain_component_def)
  with Nil assms(2) show ?thesis by (auto simp: under_def plain_component_def)
qed

lemma dir_chain_under:
  assumes "\<forall>c\<in>set cs. plain_component c" and "b = [] \<or> plain_component b" and "b \<noteq> [] \<or> cs \<noteq> []"
  shows "dir_chain (under b cs) = (if b = [] then [] else [b]) @ map (\<lambda>k. under b (take (Suc k) cs)) [0..<length cs]"
  using assms
proof (induction cs rule: rev_induct)
  case Nil
  then have "b \<noteq> ''/''" "b \<noteq> ''.''" "dirname b = ''.''" "b \<noteq> []"
    using dirname_single [of b] by (auto simp: plain_component_def)
  then show ?case by (simp add: dir_chain.simps [of b] dir_chain.simps [of "''.''"] under_def)
next
  case (snoc c cs)
  have c: "c \<noteq> []" "CHR ''/'' \<notin> set c" using snoc.prems(1) by (auto simp: plain_component_def)
  let ?p = "under b cs @ CHR ''/'' # c"
  have p: "?p \<noteq> ''/''" "?p \<noteq> ''.''" using c by (auto simp: append_eq_Cons_conv)
  have chain: "map (\<lambda>k. under b (take (Suc k) (cs @ [c]))) [0..<length (cs @ [c])]
      = map (\<lambda>k. under b (take (Suc k) cs)) [0..<length cs] @ [?p]" by simp
  from under_end [of cs b] snoc.prems(1,2)
  consider "under b cs = []" "b = []" "cs = []" | "under b cs \<noteq> []" "last (under b cs) \<noteq> CHR ''/''" by auto
  then show ?case
  proof cases
    case 1
    with p c dirname_root [of c] show ?thesis
      by (simp add: dir_chain.simps [of "CHR ''/'' # c"] dir_chain.simps [of "''/''"] under_def)
  next
    case 2
    with path_pieces [OF 2 c, of 0 0] have "dirname ?p = under b cs" by simp
    moreover from 2 have "b \<noteq> [] \<or> cs \<noteq> []" by (auto simp: under_def)
    ultimately show ?thesis using snoc.IH snoc.prems p chain by (simp add: dir_chain.simps [of ?p])
  qed
qed

lemma dir_chain_components:
  assumes "\<forall>c\<in>set cs. plain_component c" and "cs \<noteq> []" and "root = [] \<or> root = ''/''"
  shows "dir_chain (root @ str_join ''/'' cs) = map (\<lambda>k. root @ str_join ''/'' (take (Suc k) cs)) [0..<length cs]"
proof -
  obtain d ds where cs: "cs = d # ds" using assms(2) by (cases cs) auto
  have abs: "CHR ''/'' # str_join ''/'' (c # es) = under [] (c # es)" and rel: "str_join ''/'' (c # es) = under c es" for c es
    by (simp_all add: under_def)
  from assms(3) show ?thesis
  proof
    assume root: "root = []"
    have "d \<noteq> []" "plain_component d" "\<forall>c\<in>set ds. plain_component c" using assms(1) cs by (auto simp: plain_component_def)
    with dir_chain_under [of ds d] have "dir_chain (under d ds) = d # map (\<lambda>k. under d (take (Suc k) ds)) [0..<length ds]" by simp
    also have "\<dots> = map (\<lambda>k. under d (take k ds)) [0..<Suc (length ds)]" by (subst map_upt_Suc) (simp add: under_def)
    finally show ?thesis by (simp add: cs root rel del: str_join_simps)
  next
    assume "root = ''/''"
    with dir_chain_under [of cs "[]"] assms(1) cs show ?thesis
      by (simp add: abs del: str_join_simps)
  qed
qed

text \<open>What \<open>makedirs\<close> relies on: directories that are there stay, and \<open>mkdir\<close> makes one.\<close>

locale dir_world =
  fixes dc :: "'w dir_calls"
  assumes mkdir_made: "dc_mkdir dc p mode w = (None, w') \<Longrightarrow> is_dir dc w' p"
    and mkdir_keeps: "dc_mkdir dc p mode w = (e, w') \<Longrightarrow> is_dir dc w q \<Longrightarrow> is_dir dc w' q"
begin

lemma mkdir_loop_makes:
  "mkdir_loop dc p mode i w = (r, w') \<Longrightarrow>
    r \<noteq> Undefined \<and> (r = Returned () \<longrightarrow> is_dir dc w' p) \<and> (\<forall>q. is_dir dc w q \<longrightarrow> is_dir dc w' q)"
proof (induction i arbitrary: w)
  case (Suc i)
  obtain e w1 where mk: "dc_mkdir dc p mode w = (e, w1)" by fastforce
  then have keep: "is_dir dc w1 q" if "is_dir dc w q" for q using mkdir_keeps that by blast
  show ?case
  proof (cases e)
    case None
    with Suc.prems mk mkdir_made keep show ?thesis by auto
  next
    case (Some e')
    with Suc.prems Suc.IH [of w1] mk keep show ?thesis
      by (auto simp: sys_stat_def is_dir_def [of dc w' p] split: if_splits sum.splits)
  qed
qed auto

lemma mkdir_each_makes:
  assumes "mkdir_each dc mode ps w = (r, w')"
  shows "r \<noteq> Undefined \<and> (\<forall>q. is_dir dc w q \<longrightarrow> is_dir dc w' q)
    \<and> (\<exists>k\<le>length ps. (\<forall>j<k. is_dir dc w' (ps ! j))
        \<and> (r = Returned () \<and> k = length ps \<or> k < length ps \<and> (\<exists>w1 e. r = Thrown e \<and> mkdir_ifmissing dc (ps ! k) mode w1 = (r, w'))))"
  using assms
proof (induction ps arbitrary: w)
  case (Cons p ps)
  obtain r1 w1 where one: "mkdir_ifmissing dc p mode w = (r1, w1)" by fastforce
  from mkdir_loop_makes [OF one [unfolded mkdir_ifmissing_def]]
  have made: "r1 \<noteq> Undefined" "r1 = Returned () \<longrightarrow> is_dir dc w1 p" "\<forall>q. is_dir dc w q \<longrightarrow> is_dir dc w1 q" by auto
  show ?case
  proof (cases r1)
    case (Returned u)
    with Cons.prems one have "mkdir_each dc mode ps w1 = (r, w')" by simp
    from Cons.IH [OF this] obtain k where k: "r \<noteq> Undefined" "\<forall>q. is_dir dc w1 q \<longrightarrow> is_dir dc w' q" "k \<le> length ps"
      "\<forall>j<k. is_dir dc w' (ps ! j)"
      "r = Returned () \<and> k = length ps \<or> k < length ps \<and> (\<exists>w1 e. r = Thrown e \<and> mkdir_ifmissing dc (ps ! k) mode w1 = (r, w'))"
      by blast
    have "\<forall>j<Suc k. is_dir dc w' ((p # ps) ! j)"
      using k(2,4) made(2) Returned by (auto simp: less_Suc_eq_0_disj)
    with k made(3) show ?thesis by (intro conjI exI [of _ "Suc k"]) auto
  next
    case (Thrown e)
    with Cons.prems one made(3) show ?thesis by (intro conjI exI [of _ 0]) auto
  qed (use made in simp)
qed auto

end

text \<open>
  C25: \<open>makedirs\<close> ends; it makes sure of one directory after the other, and returns when all of them
  are directories; when it throws, it is for the first that could not be made, and those before it
  are there.  No directory is lost.
\<close>

theorem makedirs_makes_chain:
  assumes "dir_world dc" and "\<forall>c\<in>set cs. plain_component c" and "cs \<noteq> []" and "root = [] \<or> root = ''/''"
    and "makedirs dc (root @ str_join ''/'' cs) mode w = (r, w')"
  shows "r \<noteq> Undefined \<and> (\<forall>q. is_dir dc w q \<longrightarrow> is_dir dc w' q)
    \<and> (\<exists>k\<le>length cs. (\<forall>j<k. is_dir dc w' (root @ str_join ''/'' (take (Suc j) cs)))
        \<and> (r = Returned () \<and> k = length cs
          \<or> k < length cs \<and> (\<exists>w1. mkdir_ifmissing dc (root @ str_join ''/'' (take (Suc k) cs)) mode w1 = (r, w') \<and> r \<noteq> Returned ())))"
proof -
  let ?ps = "map (\<lambda>k. root @ str_join ''/'' (take (Suc k) cs)) [0..<length cs]"
  from assms(5) have "mkdir_each dc mode ?ps w = (r, w')"
    by (simp add: makedirs_each dir_chain_components [OF assms(2-4)])
  from dir_world.mkdir_each_makes [OF assms(1) this] obtain k where k: "r \<noteq> Undefined" "\<forall>q. is_dir dc w q \<longrightarrow> is_dir dc w' q"
    "k \<le> length ?ps" "\<forall>j<k. is_dir dc w' (?ps ! j)"
    and res: "r = Returned () \<and> k = length ?ps
      \<or> k < length ?ps \<and> (\<exists>w1 e. r = Thrown e \<and> mkdir_ifmissing dc (?ps ! k) mode w1 = (r, w'))"
    by blast
  then have "\<forall>j<k. is_dir dc w' (root @ str_join ''/'' (take (Suc j) cs))" by auto
  moreover from res have "r = Returned () \<and> k = length cs
      \<or> k < length cs \<and> (\<exists>w1. mkdir_ifmissing dc (root @ str_join ''/'' (take (Suc k) cs)) mode w1 = (r, w') \<and> r \<noteq> Returned ())"
    by auto
  ultimately show ?thesis using k by (intro conjI exI [of _ k]) auto
qed

subsection \<open>Directories in memory\<close>

text \<open>
  Names with a type, or a symbolic link to nothing; \<open>mkdir\<close> makes a directory in a directory.
\<close>

datatype mem_entry = MemFile file_type | MemDangling

definition mem_stat :: "string \<Rightarrow> (string \<Rightarrow> mem_entry option) \<Rightarrow> errno + file_stat" where
  "mem_stat p w = (case w p of
       Some (MemFile t) \<Rightarrow> Inr \<lparr>st_type = t, st_mtime = 0, st_size = 0, st_ino = 0\<rparr>
     | _ \<Rightarrow> Inl ENOENT)"

definition mem_dirs :: "(string \<Rightarrow> mem_entry option) dir_calls" where
  "mem_dirs = \<lparr>
     dc_mkdir = (\<lambda>p mode w.
        if w p \<noteq> None then (Some EEXIST, w)
        else if w (dirname p) = Some (MemFile S_IFDIR) then (None, w(p \<mapsto> MemFile S_IFDIR))
        else if w (dirname p) = Some (MemFile S_IFREG) then (Some ENOTDIR, w)
        else (Some ENOENT, w)),
     dc_stat = mem_stat\<rparr>"

interpretation memdir: dir_world mem_dirs
  by unfold_locales (auto simp: mem_dirs_def mem_stat_def is_dir_def split: if_splits option.splits mem_entry.splits)

definition mem_tree :: "string \<Rightarrow> mem_entry option" where
  "mem_tree = [''/'' \<mapsto> MemFile S_IFDIR, ''/srv'' \<mapsto> MemFile S_IFDIR, ''/srv/f'' \<mapsto> MemFile S_IFREG, ''/srv/l'' \<mapsto> MemDangling]"

theorem mkdir_ifmissing_classifies_witness:
  "mkdir_ifmissing mem_dirs ''/srv/l'' 511 mem_tree
      = (Thrown (RuntimeError ''/srv/l exists and looks like a dangling symlink''), mem_tree)
    \<and> mkdir_ifmissing mem_dirs ''/srv/f'' 511 mem_tree
      = (Thrown (RuntimeError ''/srv/f exists but is not a directory''), mem_tree)
    \<and> mkdir_ifmissing mem_dirs ''/srv'' 511 mem_tree = (Returned (), mem_tree)"
proof -
  have calls: "dc_mkdir mem_dirs p 511 mem_tree = (Some EEXIST, mem_tree)" if "mem_tree p \<noteq> None" for p
    using that by (simp add: mem_dirs_def)
  have there: "mem_tree ''/srv/l'' = Some MemDangling" "mem_tree ''/srv/f'' = Some (MemFile S_IFREG)"
    "mem_tree ''/srv'' = Some (MemFile S_IFDIR)"
    by (simp_all add: mem_tree_def)
  have stats: "dc_stat mem_dirs p w = mem_stat p w" for p w by (simp add: mem_dirs_def)
  show ?thesis
    using mkdir_ifmissing_classifies [of mem_dirs "''/srv/l''" 511 mem_tree]
      mkdir_ifmissing_classifies [of mem_dirs "''/srv/f''" 511 mem_tree]
      mkdir_ifmissing_classifies [of mem_dirs "''/srv''" 511 mem_tree]
    by (simp add: calls there stats mem_stat_def)
qed

lemma mem_makes_a_b:
  "\<exists>w. makedirs mem_dirs ''/srv/a/b'' 511 mem_tree = (Returned (), w)"
proof -
  have "makedirs mem_dirs (''/'' @ str_join ''/'' [''srv'', ''a'', ''b'']) 511 mem_tree
      = mkdir_each mem_dirs 511 [''/srv'', ''/srv/a'', ''/srv/a/b''] mem_tree"
    by (subst makedirs_each, subst dir_chain_components) (auto simp: plain_component_def upt_rec)
  moreover have "dirname ''/srv/a'' = ''/srv''" "dirname ''/srv/a/b'' = ''/srv/a''"
    using path_pieces [of "''/srv''" "''a''" 0 0] path_pieces [of "''/srv/a''" "''b''" 0 0] by simp_all
  ultimately show ?thesis
    by (simp add: mkdir_ifmissing_def numeral_eq_Suc mem_dirs_def mem_stat_def mem_tree_def sys_stat_def)
qed

theorem makedirs_makes_chain_witness:
  "\<exists>w. makedirs mem_dirs ''/srv/a/b'' 511 mem_tree = (Returned (), w)
    \<and> is_dir mem_dirs w ''/srv/a'' \<and> is_dir mem_dirs w ''/srv/a/b''"
proof -
  obtain w where run: "makedirs mem_dirs ''/srv/a/b'' 511 mem_tree = (Returned (), w)"
    using mem_makes_a_b by blast
  have plain: "\<forall>c\<in>set [''srv'', ''a'', ''b'']. plain_component c" by (simp add: plain_component_def)
  have "makedirs mem_dirs (''/'' @ str_join ''/'' [''srv'', ''a'', ''b'']) 511 mem_tree = (Returned (), w)"
    using run by simp
  from makedirs_makes_chain [OF memdir.dir_world_axioms plain _ _ this]
  have all: "\<forall>j<3. is_dir mem_dirs w (''/'' @ str_join ''/'' (take (Suc j) [''srv'', ''a'', ''b'']))" by auto
  from all [rule_format, of 1] all [rule_format, of 2] run show ?thesis by (simp add: numeral_2_eq_2)
qed

end
