(* ===== verification/SysTree.thy ===== *)
theory SysTree
  imports SysFiles
begin

section \<open>Directories as objects and rmtree (ept/utils/sys.cc)\<close>

text \<open>
  A \<open>Path\<close> is a descriptor opened with \<open>O_PATH\<close> and the path it was opened by; its iterator walks a
  stream of directory entries, and \<open>rmtree\<close> removes everything below a path and the path itself.
  The system calls are a record of functions on a state of the world; an error number stands for
  the value of \<open>errno\<close> after the call.  Memory is taken to suffice for the entry of an iterator.
\<close>

datatype at_flags = O_PATH | O_DIRECTORY

text \<open>An entry of a directory; \<open>None\<close> as its type is \<open>DT_UNKNOWN\<close>.\<close>

record dirent =
  d_ino :: nat
  d_type :: "file_type option"
  d_name :: string

record 'w tree_calls =
  tc_posix :: "'w posix"
  tc_open :: "string \<Rightarrow> 'w \<Rightarrow> (errno + int) \<times> 'w"
  tc_openat :: "int \<Rightarrow> string \<Rightarrow> at_flags \<Rightarrow> 'w \<Rightarrow> (errno + int) \<times> 'w"
  tc_fdopendir :: "int \<Rightarrow> 'w \<Rightarrow> (errno + nat) \<times> 'w"
  tc_readdir :: "nat \<Rightarrow> 'w \<Rightarrow> (errno + dirent option) \<times> 'w"
  tc_closedir :: "nat \<Rightarrow> 'w \<Rightarrow> 'w"
  tc_fstatat :: "int \<Rightarrow> string \<Rightarrow> bool \<Rightarrow> 'w \<Rightarrow> errno + file_stat"
  tc_unlinkat :: "int \<Rightarrow> string \<Rightarrow> bool \<Rightarrow> 'w \<Rightarrow> errno option \<times> 'w"

subsection \<open>Path\<close>

definition path_openat :: "'w tree_calls \<Rightarrow> named_fd \<Rightarrow> string \<Rightarrow> at_flags \<Rightarrow> 'w \<Rightarrow> (sys_error, int) outcome \<times> 'w" where
  "path_openat tc p name flags w =
     (case tc_openat tc (nfd p) name flags w of
        (Inl e, w1) \<Rightarrow> (Thrown (nfd_error p e ''cannot openat''), w1)
      | (Inr fd, w1) \<Rightarrow> (Returned fd, w1))"

definition path_open :: "'w tree_calls \<Rightarrow> string \<Rightarrow> 'w \<Rightarrow> (sys_error, named_fd) outcome \<times> 'w" where
  "path_open tc path w =
     (let p = \<lparr>nfd = -1, nfd_name = path\<rparr>
      in case tc_open tc path w of
           (Inl e, w1) \<Rightarrow> (Thrown (nfd_error p e ''cannot open path''), w1)
         | (Inr fd, w1) \<Rightarrow> (Returned (p\<lparr>nfd := fd\<rparr>), w1))"

definition path_sub :: "'w tree_calls \<Rightarrow> named_fd \<Rightarrow> string \<Rightarrow> 'w \<Rightarrow> (sys_error, named_fd) outcome \<times> 'w" where
  "path_sub tc parent name w =
     (case path_openat tc parent name O_PATH w of
        (Returned fd, w1) \<Rightarrow> (Returned \<lparr>nfd = fd, nfd_name = joinpath2 (nfd_name parent) name\<rparr>, w1)
      | (Thrown e, w1) \<Rightarrow> (Thrown e, w1)
      | (Undefined, w1) \<Rightarrow> (Undefined, w1))"

definition path_destroy :: "'w tree_calls \<Rightarrow> named_fd \<Rightarrow> 'w \<Rightarrow> 'w" where
  "path_destroy tc p w = (if nfd p \<noteq> -1 then snd (px_close (tc_posix tc) (nfd p) w) else w)"

text \<open>The second descriptor is not closed when it cannot be made a stream.\<close>

definition path_fdopendir :: "'w tree_calls \<Rightarrow> named_fd \<Rightarrow> 'w \<Rightarrow> (sys_error, nat) outcome \<times> 'w" where
  "path_fdopendir tc p w =
     (case tc_openat tc (nfd p) ''.'' O_DIRECTORY w of
        (Inl e, w1) \<Rightarrow> (Thrown (nfd_error p e ''cannot open directory''), w1)
      | (Inr fd1, w1) \<Rightarrow>
          (case tc_fdopendir tc fd1 w1 of
             (Inl e, w2) \<Rightarrow> (Thrown (nfd_error p e ''cannot fdopendir''), w2)
           | (Inr res, w2) \<Rightarrow> (Returned res, w2)))"

definition path_fstatat :: "'w tree_calls \<Rightarrow> named_fd \<Rightarrow> string \<Rightarrow> 'w \<Rightarrow> (sys_error, file_stat) outcome" where
  "path_fstatat tc p name w =
     (case tc_fstatat tc (nfd p) name False w of
        Inl e \<Rightarrow> Thrown (nfd_error p e ''cannot fstatat'') | Inr st \<Rightarrow> Returned st)"

definition path_lstatat :: "'w tree_calls \<Rightarrow> named_fd \<Rightarrow> string \<Rightarrow> 'w \<Rightarrow> (sys_error, file_stat) outcome" where
  "path_lstatat tc p name w =
     (case tc_fstatat tc (nfd p) name True w of
        Inl e \<Rightarrow> Thrown (nfd_error p e ''cannot fstatat'') | Inr st \<Rightarrow> Returned st)"

definition path_unlinkat :: "'w tree_calls \<Rightarrow> named_fd \<Rightarrow> string \<Rightarrow> 'w \<Rightarrow> (sys_error, unit) outcome \<times> 'w" where
  "path_unlinkat tc p name w =
     (case tc_unlinkat tc (nfd p) name False w of
        (Some e, w1) \<Rightarrow> (Thrown (nfd_error p e ''cannot unlinkat''), w1)
      | (None, w1) \<Rightarrow> (Returned (), w1))"

definition path_rmdirat :: "'w tree_calls \<Rightarrow> named_fd \<Rightarrow> string \<Rightarrow> 'w \<Rightarrow> (sys_error, unit) outcome \<times> 'w" where
  "path_rmdirat tc p name w =
     (case tc_unlinkat tc (nfd p) name True w of
        (Some e, w1) \<Rightarrow> (Thrown (nfd_error p e ''cannot unlinkat''), w1)
      | (None, w1) \<Rightarrow> (Returned (), w1))"

subsection \<open>Path::iterator\<close>

record dir_iter =
  di_path :: "named_fd option"
  di_dir :: "nat option"
  di_entry :: "dirent option"

definition end_iter :: dir_iter where
  "end_iter = \<lparr>di_path = None, di_dir = None, di_entry = None\<rparr>"

text \<open>The move constructor takes the stream and the entry, but not the path.\<close>

definition iter_move :: "dir_iter \<Rightarrow> dir_iter \<times> dir_iter" where
  "iter_move i = (\<lparr>di_path = None, di_dir = di_dir i, di_entry = di_entry i\<rparr>, i\<lparr>di_dir := None, di_entry := None\<rparr>)"

definition iter_destroy :: "'w tree_calls \<Rightarrow> dir_iter \<Rightarrow> 'w \<Rightarrow> 'w" where
  "iter_destroy tc i w = (case di_dir i of None \<Rightarrow> w | Some d \<Rightarrow> tc_closedir tc d w)"

definition dir_iter_eq :: "dir_iter \<Rightarrow> dir_iter \<Rightarrow> (sys_error, bool) outcome" where
  "dir_iter_eq i j =
     (if di_dir i = None \<and> di_dir j = None then Returned True
      else if di_dir i = None \<or> di_dir j = None then Returned False
      else case (di_entry i, di_entry j) of
          (Some a, Some b) \<Rightarrow> Returned (d_ino a = d_ino b)
        | _ \<Rightarrow> Undefined)"

definition dir_iter_neq :: "dir_iter \<Rightarrow> dir_iter \<Rightarrow> (sys_error, bool) outcome" where
  "dir_iter_neq i j =
     (if di_dir i = None \<and> di_dir j = None then Returned False
      else if di_dir i = None \<or> di_dir j = None then Returned True
      else case (di_entry i, di_entry j) of
          (Some a, Some b) \<Rightarrow> Returned (d_ino a \<noteq> d_ino b)
        | _ \<Rightarrow> Undefined)"

definition dir_iter_incr :: "'w tree_calls \<Rightarrow> dir_iter \<Rightarrow> 'w \<Rightarrow> (sys_error, unit) outcome \<times> dir_iter \<times> 'w" where
  "dir_iter_incr tc i w =
     (case di_dir i of
        None \<Rightarrow> (Undefined, i, w)
      | Some d \<Rightarrow>
          (case tc_readdir tc d w of
             (Inl e, w1) \<Rightarrow>
               (case di_path i of
                  None \<Rightarrow> Undefined
                | Some p \<Rightarrow> Thrown (nfd_error p e ''cannot readdir_r''), i, w1)
           | (Inr None, w1) \<Rightarrow> (Returned (), i\<lparr>di_entry := None, di_dir := None\<rparr>, tc_closedir tc d w1)
           | (Inr (Some ent), w1) \<Rightarrow> (Returned (), i\<lparr>di_entry := Some ent\<rparr>, w1)))"

text \<open>When the first entry cannot be read, the constructor throws and the stream stays open.\<close>

definition iter_construct :: "'w tree_calls \<Rightarrow> named_fd \<Rightarrow> 'w \<Rightarrow> (sys_error, dir_iter) outcome \<times> 'w" where
  "iter_construct tc dir w =
     (case path_fdopendir tc dir w of
        (Returned d, w1) \<Rightarrow>
          (case dir_iter_incr tc \<lparr>di_path = Some dir, di_dir = Some d, di_entry = None\<rparr> w1 of
             (Returned _, i, w2) \<Rightarrow> (Returned i, w2)
           | (Thrown e, i, w2) \<Rightarrow> (Thrown e, w2)
           | (Undefined, i, w2) \<Rightarrow> (Undefined, w2))
      | (Thrown e, w1) \<Rightarrow> (Thrown e, w1)
      | (Undefined, w1) \<Rightarrow> (Undefined, w1))"

definition path_begin :: "'w tree_calls \<Rightarrow> named_fd \<Rightarrow> 'w \<Rightarrow> (sys_error, dir_iter) outcome \<times> 'w" where
  "path_begin tc p w = (if nfd p = -1 then (Returned end_iter, w) else iter_construct tc p w)"

definition path_end :: dir_iter where
  "path_end = end_iter"

text \<open>
  The tests of an entry, which all have the same body: the type of the entry when it is known (the
  platform has \<open>d_type\<close>), and otherwise what \<open>stat\<close> says, which follows links.
\<close>

definition entry_test :: "file_type \<Rightarrow> 'w tree_calls \<Rightarrow> dir_iter \<Rightarrow> 'w \<Rightarrow> (sys_error, bool) outcome" where
  "entry_test t tc i w =
     (case di_entry i of
        None \<Rightarrow> Undefined
      | Some ent \<Rightarrow>
          if d_type ent = Some t then Returned True
          else if d_type ent \<noteq> None then Returned False
          else (case di_path i of
              None \<Rightarrow> Undefined
            | Some p \<Rightarrow> bind_outcome (path_fstatat tc p (d_name ent) w) (\<lambda>st. Returned (st_type st = t))))"

definition entry_isdir :: "'w tree_calls \<Rightarrow> dir_iter \<Rightarrow> 'w \<Rightarrow> (sys_error, bool) outcome" where
  "entry_isdir = entry_test S_IFDIR"

definition entry_isblk :: "'w tree_calls \<Rightarrow> dir_iter \<Rightarrow> 'w \<Rightarrow> (sys_error, bool) outcome" where
  "entry_isblk = entry_test S_IFBLK"

definition entry_ischr :: "'w tree_calls \<Rightarrow> dir_iter \<Rightarrow> 'w \<Rightarrow> (sys_error, bool) outcome" where
  "entry_ischr = entry_test S_IFCHR"

definition entry_isfifo :: "'w tree_calls \<Rightarrow> dir_iter \<Rightarrow> 'w \<Rightarrow> (sys_error, bool) outcome" where
  "entry_isfifo = entry_test S_IFIFO"

definition entry_islnk :: "'w tree_calls \<Rightarrow> dir_iter \<Rightarrow> 'w \<Rightarrow> (sys_error, bool) outcome" where
  "entry_islnk = entry_test S_IFLNK"

definition entry_isreg :: "'w tree_calls \<Rightarrow> dir_iter \<Rightarrow> 'w \<Rightarrow> (sys_error, bool) outcome" where
  "entry_isreg = entry_test S_IFREG"

definition entry_issock :: "'w tree_calls \<Rightarrow> dir_iter \<Rightarrow> 'w \<Rightarrow> (sys_error, bool) outcome" where
  "entry_issock = entry_test S_IFSOCK"

subsection \<open>rmtree\<close>

text \<open>
  The loop over the entries of a path and the \<open>rmdir\<close> after it.  The iterator is destroyed when the
  loop ends and when an exception leaves it, and so is the \<open>Path\<close> of a subdirectory, which \<open>rmtree\<close>
  is called on.  \<open>None\<close> is a call that does not end.
\<close>

partial_function (option) rmtree_loop ::
  "'w tree_calls \<Rightarrow> named_fd \<Rightarrow> dir_iter \<Rightarrow> 'w \<Rightarrow> ((sys_error, unit) outcome \<times> 'w) option" where
  "rmtree_loop tc p i w =
     (case dir_iter_neq i path_end of
        Returned go \<Rightarrow>
          if \<not> go then Some (sys_rmdir (tc_posix tc) (nfd_name p) (iter_destroy tc i w))
          else (case di_entry i of
             None \<Rightarrow> Some (Undefined, w)
           | Some ent \<Rightarrow>
               Option.bind
                 (if d_name ent = ''.'' \<or> d_name ent = ''..'' then Some (Returned (), w)
                  else case entry_isdir tc i w of
                      Returned dir \<Rightarrow>
                        if dir then
                          (case path_sub tc p (d_name ent) w of
                             (Returned sub, w1) \<Rightarrow>
                               Option.bind
                                 (case path_begin tc sub w1 of
                                    (Returned j, w2) \<Rightarrow> rmtree_loop tc sub j w2
                                  | (Thrown e, w2) \<Rightarrow> Some (Thrown e, w2)
                                  | (Undefined, w2) \<Rightarrow> Some (Undefined, w2))
                                 (\<lambda>(r, w3). Some (r, path_destroy tc sub w3))
                           | (Thrown e, w1) \<Rightarrow> Some (Thrown e, w1)
                           | (Undefined, w1) \<Rightarrow> Some (Undefined, w1))
                        else Some (path_unlinkat tc p (d_name ent) w)
                    | Thrown e \<Rightarrow> Some (Thrown e, w)
                    | Undefined \<Rightarrow> Some (Undefined, w))
                 (\<lambda>(r, w4).
                    case r of
                      Returned _ \<Rightarrow>
                        (case dir_iter_incr tc i w4 of
                           (Returned _, i', w5) \<Rightarrow> rmtree_loop tc p i' w5
                         | (Thrown e, i', w5) \<Rightarrow> Some (Thrown e, iter_destroy tc i' w5)
                         | (Undefined, i', w5) \<Rightarrow> Some (Undefined, w5))
                    | Thrown e \<Rightarrow> Some (Thrown e, iter_destroy tc i w4)
                    | Undefined \<Rightarrow> Some (Undefined, w4)))
      | Thrown e \<Rightarrow> Some (Thrown e, w)
      | Undefined \<Rightarrow> Some (Undefined, w))"

definition path_rmtree :: "'w tree_calls \<Rightarrow> named_fd \<Rightarrow> 'w \<Rightarrow> ((sys_error, unit) outcome \<times> 'w) option" where
  "path_rmtree tc p w =
     (case path_begin tc p w of
        (Returned i, w1) \<Rightarrow> rmtree_loop tc p i w1
      | (Thrown e, w1) \<Rightarrow> Some (Thrown e, w1)
      | (Undefined, w1) \<Rightarrow> Some (Undefined, w1))"

definition rmtree :: "'w tree_calls \<Rightarrow> string \<Rightarrow> 'w \<Rightarrow> ((sys_error, unit) outcome \<times> 'w) option" where
  "rmtree tc path w =
     (case path_open tc path w of
        (Returned p, w1) \<Rightarrow>
          (case path_rmtree tc p w1 of
             None \<Rightarrow> None
           | Some (r, w2) \<Rightarrow> Some (r, path_destroy tc p w2))
      | (Thrown e, w1) \<Rightarrow> Some (Thrown e, w1)
      | (Undefined, w1) \<Rightarrow> Some (Undefined, w1))"

text \<open>What the loop does with one entry.\<close>

definition remove_entry ::
  "'w tree_calls \<Rightarrow> named_fd \<Rightarrow> dir_iter \<Rightarrow> dirent \<Rightarrow> 'w \<Rightarrow> ((sys_error, unit) outcome \<times> 'w) option" where
  "remove_entry tc p i ent w =
     (if d_name ent = ''.'' \<or> d_name ent = ''..'' then Some (Returned (), w)
      else case entry_isdir tc i w of
          Returned dir \<Rightarrow>
            if dir then
              (case path_sub tc p (d_name ent) w of
                 (Returned sub, w1) \<Rightarrow>
                   Option.bind (path_rmtree tc sub w1) (\<lambda>(r, w3). Some (r, path_destroy tc sub w3))
               | (Thrown e, w1) \<Rightarrow> Some (Thrown e, w1)
               | (Undefined, w1) \<Rightarrow> Some (Undefined, w1))
            else Some (path_unlinkat tc p (d_name ent) w)
        | Thrown e \<Rightarrow> Some (Thrown e, w)
        | Undefined \<Rightarrow> Some (Undefined, w))"

lemma rmtree_loop_unfold:
  "rmtree_loop tc p i w =
     (case dir_iter_neq i path_end of
        Returned go \<Rightarrow>
          if \<not> go then Some (sys_rmdir (tc_posix tc) (nfd_name p) (iter_destroy tc i w))
          else (case di_entry i of
             None \<Rightarrow> Some (Undefined, w)
           | Some ent \<Rightarrow>
               Option.bind (remove_entry tc p i ent w)
                 (\<lambda>(r, w4).
                    case r of
                      Returned _ \<Rightarrow>
                        (case dir_iter_incr tc i w4 of
                           (Returned _, i', w5) \<Rightarrow> rmtree_loop tc p i' w5
                         | (Thrown e, i', w5) \<Rightarrow> Some (Thrown e, iter_destroy tc i' w5)
                         | (Undefined, i', w5) \<Rightarrow> Some (Undefined, w5))
                    | Thrown e \<Rightarrow> Some (Thrown e, iter_destroy tc i w4)
                    | Undefined \<Rightarrow> Some (Undefined, w4)))
      | Thrown e \<Rightarrow> Some (Thrown e, w)
      | Undefined \<Rightarrow> Some (Undefined, w))"
  unfolding path_rmtree_def remove_entry_def by (rule rmtree_loop.simps)

subsection \<open>What rmtree relies on\<close>

text \<open>
  What names there are and of which type, what the open descriptors stand for, and what the open
  streams have still to give, with the descriptor that they own.
\<close>

record tree_view =
  tv_kind :: "string \<Rightarrow> file_type option"
  tv_fds :: "int \<Rightarrow> string option"
  tv_dirs :: "nat \<Rightarrow> (int \<times> dirent list) option"

definition below :: "string \<Rightarrow> string \<Rightarrow> bool" where
  "below p q \<longleftrightarrow> q = p \<or> prefix (p @ ''/'') q"

text \<open>
  The entries that a directory is read to have: all names in it, and the two dots.  On a file system that is
  \<open>typed\<close> every entry comes with its type; on others the type may be \<open>DT_UNKNOWN\<close>.
\<close>

definition lists :: "bool \<Rightarrow> tree_view \<Rightarrow> string \<Rightarrow> dirent list \<Rightarrow> bool" where
  "lists typed v p es \<longleftrightarrow> distinct (map d_name es)
     \<and> (\<forall>n. plain_component n \<longrightarrow> (tv_kind v (p @ ''/'' @ n) \<noteq> None \<longleftrightarrow> n \<in> d_name ` set es))
     \<and> (\<forall>ent\<in>set es. d_name ent = ''.'' \<or> d_name ent = ''..''
          \<or> plain_component (d_name ent)
              \<and> (d_type ent = tv_kind v (p @ ''/'' @ d_name ent) \<or> \<not> typed \<and> d_type ent = None))"

text \<open>
  The documented behaviour of the system calls while nobody else acts.  A stream gives the entries
  that were there when it was opened.  \<open>fstatat\<close> gives the type of what is not a symbolic link; nothing is
  said of its answer for a link, which it follows.
\<close>

locale tree_fs =
  fixes tc :: "'w tree_calls"
    and view :: "'w \<Rightarrow> tree_view"
    and sane :: "'w \<Rightarrow> bool"
    and typed :: bool
  assumes open_dir: "sane w \<Longrightarrow> tv_kind (view w) p = Some S_IFDIR \<Longrightarrow> tc_open tc p w = (Inr fd, w') \<Longrightarrow>
      sane w' \<and> fd \<noteq> -1 \<and> tv_fds (view w) fd = None \<and> view w' = (view w)\<lparr>tv_fds := (tv_fds (view w))(fd \<mapsto> p)\<rparr>"
    and open_error: "sane w \<Longrightarrow> tc_open tc p w = (Inl e, w') \<Longrightarrow> sane w' \<and> view w' = view w"
    and openat_dir: "sane w \<Longrightarrow> tv_fds (view w) d = Some p \<Longrightarrow> plain_component n \<Longrightarrow>
      tv_kind (view w) (p @ ''/'' @ n) = Some S_IFDIR \<Longrightarrow> tc_openat tc d n O_PATH w = (Inr fd, w') \<Longrightarrow>
      sane w' \<and> fd \<noteq> -1 \<and> tv_fds (view w) fd = None
      \<and> view w' = (view w)\<lparr>tv_fds := (tv_fds (view w))(fd \<mapsto> p @ ''/'' @ n)\<rparr>"
    and openat_self: "sane w \<Longrightarrow> tv_fds (view w) d = Some p \<Longrightarrow> tc_openat tc d ''.'' O_DIRECTORY w = (Inr fd, w') \<Longrightarrow>
      sane w' \<and> tv_fds (view w) fd = None \<and> view w' = (view w)\<lparr>tv_fds := (tv_fds (view w))(fd \<mapsto> p)\<rparr>"
    and openat_error: "sane w \<Longrightarrow> tc_openat tc d n fl w = (Inl e, w') \<Longrightarrow> sane w' \<and> view w' = view w"
    and fdopendir_lists: "sane w \<Longrightarrow> tv_fds (view w) fd = Some p \<Longrightarrow> tc_fdopendir tc fd w = (Inr h, w') \<Longrightarrow>
      sane w' \<and> tv_dirs (view w) h = None
      \<and> (\<exists>es. lists typed (view w) p es \<and> view w' = (view w)\<lparr>tv_dirs := (tv_dirs (view w))(h \<mapsto> (fd, es))\<rparr>)"
    and fdopendir_error: "sane w \<Longrightarrow> tc_fdopendir tc fd w = (Inl e, w') \<Longrightarrow> sane w' \<and> view w' = view w"
    and readdir_end: "sane w \<Longrightarrow> tv_dirs (view w) h = Some (fd, []) \<Longrightarrow> tc_readdir tc h w = (Inr x, w') \<Longrightarrow>
      sane w' \<and> x = None \<and> view w' = view w"
    and readdir_next: "sane w \<Longrightarrow> tv_dirs (view w) h = Some (fd, ent # es) \<Longrightarrow> tc_readdir tc h w = (Inr x, w') \<Longrightarrow>
      sane w' \<and> x = Some ent \<and> view w' = (view w)\<lparr>tv_dirs := (tv_dirs (view w))(h \<mapsto> (fd, es))\<rparr>"
    and readdir_error: "sane w \<Longrightarrow> tc_readdir tc h w = (Inl e, w') \<Longrightarrow> sane w' \<and> view w' = view w"
    and fstatat_kind: "sane w \<Longrightarrow> tv_fds (view w) d = Some p \<Longrightarrow> plain_component n \<Longrightarrow>
      tc_fstatat tc d n False w = Inr st \<Longrightarrow> tv_kind (view w) (p @ ''/'' @ n) \<noteq> Some S_IFLNK \<Longrightarrow>
      tv_kind (view w) (p @ ''/'' @ n) = Some (st_type st)"
    and closedir_closes: "sane w \<Longrightarrow> tv_dirs (view w) h = Some (fd, es) \<Longrightarrow>
      sane (tc_closedir tc h w) \<and> view (tc_closedir tc h w)
        = (view w)\<lparr>tv_dirs := (tv_dirs (view w))(h := None), tv_fds := (tv_fds (view w))(fd := None)\<rparr>"
    and close_closes: "sane w \<Longrightarrow> px_close (tc_posix tc) fd w = (y, w') \<Longrightarrow>
      sane w' \<and> view w' = (view w)\<lparr>tv_fds := (tv_fds (view w))(fd := None)\<rparr>"
    and unlinkat_removes: "sane w \<Longrightarrow> tv_fds (view w) d = Some p \<Longrightarrow> plain_component n \<Longrightarrow>
      tc_unlinkat tc d n False w = (None, w') \<Longrightarrow>
      sane w' \<and> view w' = (view w)\<lparr>tv_kind := (tv_kind (view w))(p @ ''/'' @ n := None)\<rparr>"
    and unlinkat_error: "sane w \<Longrightarrow> tc_unlinkat tc d n rm w = (Some e, w') \<Longrightarrow> sane w' \<and> view w' = view w"
    and rmdir_removes: "sane w \<Longrightarrow> px_rmdir (tc_posix tc) p w = (None, w') \<Longrightarrow>
      sane w' \<and> (\<forall>q. prefix (p @ ''/'') q \<longrightarrow> tv_kind (view w) q = None)
      \<and> view w' = (view w)\<lparr>tv_kind := (tv_kind (view w))(p := None)\<rparr>"
    and rmdir_error: "sane w \<Longrightarrow> px_rmdir (tc_posix tc) p w = (Some e, w') \<Longrightarrow> sane w' \<and> view w' = view w"
    and only_dirs_hold: "sane w \<Longrightarrow> tv_kind (view w) q \<noteq> None \<Longrightarrow> p \<noteq> [] \<Longrightarrow> prefix (p @ ''/'') q \<Longrightarrow>
      tv_kind (view w) p = Some S_IFDIR"
    and finite_tree: "sane w \<Longrightarrow> finite {q. tv_kind (view w) q \<noteq> None}"

subsection \<open>Removing a tree\<close>

text \<open>Between two states, only names below a path have gone; handles that were open are as they were.\<close>

definition removed :: "string \<Rightarrow> tree_view \<Rightarrow> tree_view \<Rightarrow> bool" where
  "removed p v v' \<longleftrightarrow> (\<forall>q. tv_kind v' q = tv_kind v q \<or> below p q \<and> tv_kind v' q = None)"

definition handles_kept :: "int set \<Rightarrow> nat set \<Rightarrow> tree_view \<Rightarrow> tree_view \<Rightarrow> bool" where
  "handles_kept F H v v' \<longleftrightarrow> (\<forall>f. f \<notin> F \<and> tv_fds v f \<noteq> None \<longrightarrow> tv_fds v' f = tv_fds v f)
     \<and> (\<forall>h. h \<notin> H \<and> tv_dirs v h \<noteq> None \<longrightarrow> tv_dirs v' h = tv_dirs v h)"

definition gone :: "string \<Rightarrow> tree_view \<Rightarrow> bool" where
  "gone p v \<longleftrightarrow> (\<forall>q. below p q \<longrightarrow> tv_kind v q = None)"

definition things :: "tree_view \<Rightarrow> string \<Rightarrow> string set" where
  "things v p = {q. below p q \<and> tv_kind v q \<noteq> None}"

lemma removed_refl [simp]: "removed p v v"
  by (simp add: removed_def)

lemma removed_trans:
  assumes "removed p v v1" and "removed p v1 v2"
  shows "removed p v v2"
  unfolding removed_def
proof
  fix q
  from assms [unfolded removed_def, rule_format, of q]
  show "tv_kind v2 q = tv_kind v q \<or> below p q \<and> tv_kind v2 q = None" by auto
qed

lemma removed_handles [simp]:
  "removed p v (v'\<lparr>tv_fds := a\<rparr>) = removed p v v'" "removed p v (v'\<lparr>tv_dirs := b\<rparr>) = removed p v v'"
  "removed p (v\<lparr>tv_fds := a\<rparr>) v' = removed p v v'" "removed p (v\<lparr>tv_dirs := b\<rparr>) v' = removed p v v'"
  by (simp_all add: removed_def)

lemma handles_kept_refl [simp]: "handles_kept F H v v"
  by (simp add: handles_kept_def)

lemma handles_kept_trans: "handles_kept F H v v1 \<Longrightarrow> handles_kept F H v1 v2 \<Longrightarrow> handles_kept F H v v2"
  by (simp add: handles_kept_def)

lemma handles_kept_mono: "handles_kept F H v v' \<Longrightarrow> F \<subseteq> F' \<Longrightarrow> H \<subseteq> H' \<Longrightarrow> handles_kept F' H' v v'"
  by (auto simp: handles_kept_def)

lemma below_child: "below (p @ ''/'' @ n) q \<Longrightarrow> below p q"
  by (auto simp: below_def prefix_def)

lemma not_below_child: "n \<noteq> [] \<Longrightarrow> \<not> below (p @ ''/'' @ n) p"
  by (auto simp: below_def prefix_def)

lemma below_sibling:
  assumes "below (p @ ''/'' @ n) (p @ ''/'' @ m)" and "CHR ''/'' \<notin> set m"
  shows "m = n"
  using assms by (auto simp: below_def prefix_def)

lemma removed_child: "removed (p @ ''/'' @ n) v v' \<Longrightarrow> removed p v v'"
  using below_child by (auto simp: removed_def)

lemma things_removed: "removed p v v' \<Longrightarrow> things v' q \<subseteq> things v q"
  by (auto simp: things_def removed_def) (metis option.distinct(1))+

text \<open>After a child has gone, the entries after it are those that are left.\<close>

lemma lists_step:
  assumes "lists typed v p (ent # es)" and "plain_component (d_name ent)"
    and "removed (p @ ''/'' @ d_name ent) v v'" and "gone (p @ ''/'' @ d_name ent) v'"
  shows "lists typed v' p es"
proof -
  let ?n = "d_name ent"
  have away: "tv_kind v' (p @ ''/'' @ m) = tv_kind v (p @ ''/'' @ m)" if "plain_component m" "m \<noteq> ?n" for m
    using assms(3) that below_sibling [of p ?n m] by (auto simp: removed_def plain_component_def)
  have self: "tv_kind v' (p @ ''/'' @ ?n) = None"
    using assms(4) by (simp add: gone_def below_def)
  show ?thesis unfolding lists_def
  proof (intro conjI allI impI ballI)
    show "distinct (map d_name es)" using assms(1) by (simp add: lists_def)
    show "tv_kind v' (p @ ''/'' @ m) \<noteq> None \<longleftrightarrow> m \<in> d_name ` set es" if m: "plain_component m" for m
    proof (cases "m = ?n")
      case True
      with self assms(1) show ?thesis by (auto simp: lists_def)
    next
      case False
      with away [OF m False] assms(1) m show ?thesis by (auto simp: lists_def)
    qed
    show "d_name e = ''.'' \<or> d_name e = ''..'' \<or> plain_component (d_name e)
        \<and> (d_type e = tv_kind v' (p @ ''/'' @ d_name e) \<or> \<not> typed \<and> d_type e = None)"
      if "e \<in> set es" for e
    proof -
      have "?n \<notin> d_name ` set es" using assms(1) by (simp add: lists_def)
      with that have "d_name e \<noteq> ?n" by (metis imageI)
      with away [of "d_name e"] assms(1) that show ?thesis by (auto simp: lists_def)
    qed
  qed
qed

lemma lists_dots:
  assumes "lists typed v p (ent # es)" and "d_name ent = ''.'' \<or> d_name ent = ''..''"
  shows "lists typed v p es"
  using assms by (auto simp: lists_def plain_component_def)

lemma lists_handles [simp]:
  "lists typed (v\<lparr>tv_fds := a\<rparr>) p es = lists typed v p es" "lists typed (v\<lparr>tv_dirs := b\<rparr>) p es = lists typed v p es"
  by (simp_all add: lists_def)

text \<open>
  The condition under which \<open>rmtree\<close> stays in its tree: either the entries come with their types, or there are no
  symbolic links in the tree.
\<close>

definition links_known :: "bool \<Rightarrow> tree_view \<Rightarrow> string \<Rightarrow> bool" where
  "links_known typed v p \<longleftrightarrow> typed \<or> (\<forall>q. below p q \<longrightarrow> tv_kind v q \<noteq> Some S_IFLNK)"

lemma links_known_removed: "links_known typed v p \<Longrightarrow> removed q v v' \<Longrightarrow> links_known typed v' p"
  by (auto simp: links_known_def removed_def) (metis option.distinct(1))

lemma links_known_child: "links_known typed v p \<Longrightarrow> links_known typed v (p @ ''/'' @ n)"
  using below_child by (auto simp: links_known_def)

lemma links_known_handles [simp]:
  "links_known typed (v\<lparr>tv_fds := a\<rparr>) p = links_known typed v p" "links_known typed (v\<lparr>tv_dirs := b\<rparr>) p = links_known typed v p"
  by (simp_all add: links_known_def)

text \<open>A \<open>Path\<close> of a directory, its iterator with the entries to come, and what a removal does.\<close>

definition at_path :: "bool \<Rightarrow> named_fd \<Rightarrow> tree_view \<Rightarrow> bool" where
  "at_path typed p v \<longleftrightarrow> links_known typed v (nfd_name p) \<and> nfd p \<noteq> -1 \<and> tv_fds v (nfd p) = Some (nfd_name p) \<and> tv_kind v (nfd_name p) = Some S_IFDIR
     \<and> nfd_name p \<noteq> [] \<and> last (nfd_name p) \<noteq> CHR ''/''"

definition at_iter :: "bool \<Rightarrow> named_fd \<Rightarrow> dir_iter \<Rightarrow> dirent list \<Rightarrow> int set \<Rightarrow> nat set \<Rightarrow> tree_view \<Rightarrow> bool" where
  "at_iter typed p i es F H v \<longleftrightarrow> lists typed v (nfd_name p) es
     \<and> (case es of
          [] \<Rightarrow> di_dir i = None
        | ent # es' \<Rightarrow> \<exists>f h. di_path i = Some p \<and> di_dir i = Some h \<and> di_entry i = Some ent
            \<and> tv_dirs v h = Some (f, es') \<and> f \<noteq> nfd p \<and> f \<in> F \<and> h \<in> H)"

definition pruned :: "string \<Rightarrow> int set \<Rightarrow> nat set \<Rightarrow> tree_view \<Rightarrow> (sys_error, unit) outcome \<Rightarrow> tree_view \<Rightarrow> bool" where
  "pruned p F H v r v' \<longleftrightarrow> r \<noteq> Undefined \<and> removed p v v' \<and> handles_kept F H v v' \<and> (r = Returned () \<longrightarrow> gone p v')"

lemma handles_kept_fresh:
  assumes "handles_kept F H v v'" and "\<forall>f\<in>F. tv_fds v f = None" and "\<forall>h\<in>H. tv_dirs v h = None"
  shows "handles_kept {} {} v v'"
  unfolding handles_kept_def
proof (intro conjI allI impI)
  fix f
  assume f: "f \<notin> {} \<and> tv_fds v f \<noteq> None"
  then have "f \<notin> F" using assms(2) by auto
  then show "tv_fds v' f = tv_fds v f" using assms(1) f by (simp add: handles_kept_def)
next
  fix h
  assume h: "h \<notin> {} \<and> tv_dirs v h \<noteq> None"
  then have "h \<notin> H" using assms(3) by auto
  then show "tv_dirs v' h = tv_dirs v h" using assms(1) h by (simp add: handles_kept_def)
qed

lemma pruned_before:
  assumes "pruned p F H v1 r v'" and "removed p v v1" and "handles_kept F H v v1"
  shows "pruned p F H v r v'"
  using assms by (auto simp: pruned_def intro: removed_trans handles_kept_trans)

context tree_fs
begin

lemma entry_kind:
  assumes "sane w" and "at_path typed p (view w)" and "at_iter typed p i (ent # es) F H (view w)"
    and "d_name ent \<noteq> ''.''" and "d_name ent \<noteq> ''..''"
  shows "plain_component (d_name ent) \<and> tv_kind (view w) (nfd_name p @ ''/'' @ d_name ent) \<noteq> None
    \<and> (entry_isdir tc i w = Returned (tv_kind (view w) (nfd_name p @ ''/'' @ d_name ent) = Some S_IFDIR)
       \<or> (\<exists>e. entry_isdir tc i w = Thrown e))"
proof -
  let ?c = "nfd_name p @ ''/'' @ d_name ent"
  have n: "plain_component (d_name ent)" and type: "d_type ent = tv_kind (view w) ?c \<or> \<not> typed \<and> d_type ent = None"
    and i: "di_entry i = Some ent" "di_path i = Some p"
    using assms(3-5) by (auto simp: at_iter_def lists_def)
  from n have there: "tv_kind (view w) ?c \<noteq> None"
    using assms(3) by (auto simp: at_iter_def lists_def)
  have "entry_isdir tc i w = Returned (tv_kind (view w) ?c = Some S_IFDIR) \<or> (\<exists>e. entry_isdir tc i w = Thrown e)"
  proof (cases "d_type ent")
    case None
    with type there have "\<not> typed" by auto
    moreover have "below (nfd_name p) ?c" by (simp add: below_def)
    ultimately have "tv_kind (view w) ?c \<noteq> Some S_IFLNK"
      using assms(2) by (auto simp: at_path_def links_known_def)
    moreover have "tv_fds (view w) (nfd p) = Some (nfd_name p)" using assms(2) by (simp add: at_path_def)
    ultimately show ?thesis
      using fstatat_kind [OF assms(1) _ n, of "nfd p" "nfd_name p"] i None
      by (auto simp: entry_isdir_def entry_test_def path_fstatat_def split: sum.splits)
  next
    case (Some t)
    with type there i show ?thesis by (auto simp: entry_isdir_def entry_test_def)
  qed
  with n there show ?thesis by blast
qed

text \<open>A subdirectory is opened below its parent, and unlinking removes one name.\<close>

lemma sub_opened:
  assumes "sane w" and "at_path typed p (view w)" and "plain_component n" and "tv_kind (view w) (nfd_name p @ ''/'' @ n) = Some S_IFDIR"
    and "path_sub tc p n w = (r, w1)"
  shows "sane w1 \<and> (\<exists>e. r = Thrown e \<and> view w1 = view w
    \<or> (\<exists>fd. r = Returned \<lparr>nfd = fd, nfd_name = nfd_name p @ ''/'' @ n\<rparr> \<and> fd \<noteq> -1 \<and> tv_fds (view w) fd = None
        \<and> view w1 = (view w)\<lparr>tv_fds := (tv_fds (view w))(fd \<mapsto> nfd_name p @ ''/'' @ n)\<rparr>
        \<and> at_path typed \<lparr>nfd = fd, nfd_name = nfd_name p @ ''/'' @ n\<rparr> (view w1)))"
proof -
  have p: "tv_fds (view w) (nfd p) = Some (nfd_name p)" "nfd_name p \<noteq> []" "last (nfd_name p) \<noteq> CHR ''/''"
    using assms(2) by (simp_all add: at_path_def)
  have n: "n \<noteq> []" "CHR ''/'' \<notin> set n" using assms(3) by (auto simp: plain_component_def)
  then have join: "joinpath2 (nfd_name p) n = nfd_name p @ ''/'' @ n" and end_n: "last n \<noteq> CHR ''/''"
    using path_pieces [OF p(2,3) n] last_in_set by (simp, metis)
  obtain x w' where call: "tc_openat tc (nfd p) n O_PATH w = (x, w')" by fastforce
  show ?thesis
  proof (cases x)
    case (Inl e)
    with assms(5) call openat_error [OF assms(1)] show ?thesis
      by (auto simp: path_sub_def path_openat_def)
  next
    case (Inr fd)
    from openat_dir [OF assms(1) p(1) assms(3,4) call [unfolded Inr]]
    have "sane w'" "fd \<noteq> -1" "tv_fds (view w) fd = None"
      "view w' = (view w)\<lparr>tv_fds := (tv_fds (view w))(fd \<mapsto> nfd_name p @ ''/'' @ n)\<rparr>" by auto
    moreover have "r = Returned \<lparr>nfd = fd, nfd_name = nfd_name p @ ''/'' @ n\<rparr>" "w1 = w'"
      using assms(5) call Inr join by (simp_all add: path_sub_def path_openat_def)
    moreover have "links_known typed (view w) (nfd_name p @ ''/'' @ n)"
      using assms(2) by (simp only: at_path_def links_known_child)
    ultimately show ?thesis using assms(4) n(1) end_n by (simp add: at_path_def)
  qed
qed

lemma unlinked:
  assumes "sane w" and "at_path typed p (view w)" and "plain_component n" and "tv_kind (view w) (nfd_name p @ ''/'' @ n) \<noteq> Some S_IFDIR"
    and "path_unlinkat tc p n w = (r, w1)"
  shows "sane w1 \<and> pruned (nfd_name p @ ''/'' @ n) {} {} (view w) r (view w1)"
proof -
  let ?c = "nfd_name p @ ''/'' @ n"
  obtain x w' where call: "tc_unlinkat tc (nfd p) n False w = (x, w')" by fastforce
  show ?thesis
  proof (cases x)
    case None
    have fd: "tv_fds (view w) (nfd p) = Some (nfd_name p)" using assms(2) by (simp add: at_path_def)
    from unlinkat_removes [OF assms(1) fd assms(3) call [unfolded None]]
    have w': "sane w'" "view w' = (view w)\<lparr>tv_kind := (tv_kind (view w))(?c := None)\<rparr>" by auto
    have "tv_kind (view w) q = None" if "prefix (?c @ ''/'') q" for q
      using only_dirs_hold [OF assms(1), of q ?c] that assms(4) by (cases "tv_kind (view w) q") auto
    with w' assms(5) call None show ?thesis
      by (auto simp: path_unlinkat_def pruned_def removed_def handles_kept_def gone_def below_def)
  next
    case (Some e)
    with assms(5) call unlinkat_error [OF assms(1)] show ?thesis by (auto simp: path_unlinkat_def pruned_def)
  qed
qed

text \<open>One entry, when subdirectories with less below them are removed as they should.\<close>

lemma remove_entry_ok:
  assumes sane: "sane w" and p: "at_path typed p (view w)" and it: "at_iter typed p i (ent # es) F H (view w)"
    and smaller: "\<And>sub w. sane w \<Longrightarrow> at_path typed sub (view w) \<Longrightarrow> things (view w) (nfd_name sub) \<subset> things (view w0) (nfd_name p) \<Longrightarrow>
      \<exists>r w'. path_rmtree tc sub w = Some (r, w') \<and> sane w' \<and> pruned (nfd_name sub) {} {} (view w) r (view w')"
    and start: "things (view w) (nfd_name p) \<subseteq> things (view w0) (nfd_name p)"
  shows "\<exists>r w'. remove_entry tc p i ent w = Some (r, w') \<and> sane w' \<and> r \<noteq> Undefined \<and> at_path typed p (view w')
    \<and> removed (nfd_name p) (view w) (view w') \<and> handles_kept {} {} (view w) (view w')
    \<and> (r = Returned () \<longrightarrow> lists typed (view w') (nfd_name p) es)"
proof (cases "d_name ent = ''.'' \<or> d_name ent = ''..''")
  case True
  with it lists_dots [of typed "view w" "nfd_name p" ent es] sane p show ?thesis
    by (auto simp: remove_entry_def at_iter_def)
next
  case False
  let ?n = "d_name ent" and ?P = "nfd_name p"
  let ?c = "?P @ ''/'' @ ?n"
  from entry_kind [OF sane p it] False have n: "plain_component ?n" and there: "tv_kind (view w) ?c \<noteq> None"
    and test: "entry_isdir tc i w = Returned (tv_kind (view w) ?c = Some S_IFDIR) \<or> (\<exists>e. entry_isdir tc i w = Thrown e)"
    by auto
  have n_ne: "?n \<noteq> []" using n by (simp add: plain_component_def)
  have finish: ?thesis if run: "remove_entry tc p i ent w = Some (r, w')" and w': "sane w'"
      and pr: "pruned ?c {} {} (view w) r (view w')" for r w'
  proof -
    from pr have "removed ?c (view w) (view w')" "handles_kept {} {} (view w) (view w')" "r \<noteq> Undefined"
      "r = Returned () \<longrightarrow> gone ?c (view w')" by (simp_all add: pruned_def)
    moreover from this(1) have "tv_kind (view w') ?P = tv_kind (view w) ?P"
      using not_below_child [OF n_ne, of ?P] by (auto simp: removed_def)
    moreover have "links_known typed (view w') ?P"
      using p links_known_removed [OF _ calculation(1)] by (simp add: at_path_def)
    moreover have "lists typed (view w) ?P (ent # es)" using it by (simp add: at_iter_def)
    ultimately show ?thesis
      using run w' p lists_step [of typed "view w" ?P ent es "view w'"] n removed_child
      by (auto simp: at_path_def handles_kept_def)
  qed
  show ?thesis
  proof (cases "\<exists>e. entry_isdir tc i w = Thrown e")
    case True
    then obtain e where "remove_entry tc p i ent w = Some (Thrown e, w)"
      using \<open>\<not> (?n = ''.'' \<or> ?n = ''..'')\<close> by (auto simp: remove_entry_def)
    moreover have "pruned ?c {} {} (view w) (Thrown e) (view w)" by (simp add: pruned_def)
    ultimately show ?thesis using finish sane by blast
  next
    case False
    with test have isdir: "entry_isdir tc i w = Returned (tv_kind (view w) ?c = Some S_IFDIR)" by blast
    show ?thesis
  proof (cases "tv_kind (view w) ?c = Some S_IFDIR")
    case False
    obtain r w' where call: "path_unlinkat tc p ?n w = (r, w')" by fastforce
    with False isdir \<open>\<not> (?n = ''.'' \<or> ?n = ''..'')\<close> have "remove_entry tc p i ent w = Some (r, w')"
      by (simp add: remove_entry_def)
    with unlinked [OF sane p n False call] finish show ?thesis by blast
  next
    case True
    obtain r1 w1 where sub: "path_sub tc p ?n w = (r1, w1)" by fastforce
    from sub_opened [OF sane p n True sub] consider (failed) e where "sane w1" "r1 = Thrown e" "view w1 = view w"
      | (opened) fd where "sane w1" "r1 = Returned \<lparr>nfd = fd, nfd_name = ?c\<rparr>" "fd \<noteq> -1" "tv_fds (view w) fd = None"
        "view w1 = (view w)\<lparr>tv_fds := (tv_fds (view w))(fd \<mapsto> ?c)\<rparr>" "at_path typed \<lparr>nfd = fd, nfd_name = ?c\<rparr> (view w1)"
      by blast
    then show ?thesis
    proof cases
      case failed
      with sub True isdir \<open>\<not> (?n = ''.'' \<or> ?n = ''..'')\<close> have "remove_entry tc p i ent w = Some (Thrown e, w1)"
        by (simp add: remove_entry_def)
      moreover have "pruned ?c {} {} (view w) (Thrown e) (view w1)" using failed by (simp add: pruned_def)
      ultimately show ?thesis using finish failed(1) by blast
    next
      case opened
      let ?s = "\<lparr>nfd = fd, nfd_name = ?c\<rparr>"
      have "things (view w1) ?c \<subset> things (view w) ?P"
        using below_child [of ?P ?n] not_below_child [OF n_ne, of ?P] p opened(5)
        by (auto simp: things_def at_path_def below_def [of ?P ?P])
      then have "things (view w1) (nfd_name ?s) \<subset> things (view w0) ?P" using start by auto
      from smaller [OF opened(1,6) this] obtain r w2 where rec: "path_rmtree tc ?s w1 = Some (r, w2)" "sane w2"
        "pruned ?c {} {} (view w1) r (view w2)" by auto
      obtain x w3 where close: "px_close (tc_posix tc) fd w2 = (x, w3)" by fastforce
      from close_closes [OF rec(2) close] have w3: "sane w3" "view w3 = (view w2)\<lparr>tv_fds := (tv_fds (view w2))(fd := None)\<rparr>" by auto
      have "remove_entry tc p i ent w = Some (r, w3)"
        using sub opened(2,3) rec(1) close True isdir \<open>\<not> (?n = ''.'' \<or> ?n = ''..'')\<close>
        by (simp add: remove_entry_def path_destroy_def)
      moreover have "pruned ?c {} {} (view w) r (view w3)"
        using rec(3) opened(4,5) w3(2) by (auto simp: pruned_def handles_kept_def gone_def)
      ultimately show ?thesis using finish w3(1) by blast
    qed
  qed
  qed
qed

text \<open>The next entry, with the stream closed at the end of the directory.\<close>

lemma next_entry:
  assumes sane: "sane w" and p: "at_path typed p (view w)" and lists: "lists typed (view w) (nfd_name p) es"
    and it: "di_path i = Some p" "di_dir i = Some h" "tv_dirs (view w) h = Some (f, es)" "f \<noteq> nfd p" "f \<in> F" "h \<in> H"
    and incr: "dir_iter_incr tc i w = (r, i', w')"
  shows "sane w' \<and> tv_kind (view w') = tv_kind (view w) \<and> handles_kept F H (view w) (view w')
    \<and> ((\<exists>e. r = Thrown e \<and> i' = i \<and> view w' = view w) \<or> r = Returned () \<and> at_path typed p (view w') \<and> at_iter typed p i' es F H (view w'))"
proof -
  obtain x w1 where call: "tc_readdir tc h w = (x, w1)" by fastforce
  show ?thesis
  proof (cases x)
    case (Inl e)
    with call readdir_error [OF sane] it incr show ?thesis by (auto simp: dir_iter_incr_def)
  next
    case (Inr y)
    show ?thesis
    proof (cases es)
      case Nil
      with readdir_end [OF sane] it(3) call Inr have w1: "sane w1" "y = None" "view w1 = view w" by auto
      from closedir_closes [OF w1(1)] w1(3) it(3) Nil
      have closed: "sane (tc_closedir tc h w1)" "view (tc_closedir tc h w1)
          = (view w)\<lparr>tv_dirs := (tv_dirs (view w))(h := None), tv_fds := (tv_fds (view w))(f := None)\<rparr>" by auto
      have "r = Returned ()" "di_dir i' = None" "w' = tc_closedir tc h w1"
        using incr it(2) call Inr w1(2) by (auto simp: dir_iter_incr_def)
      with closed p lists Nil it(4-6) show ?thesis by (auto simp: at_path_def at_iter_def handles_kept_def)
    next
      case (Cons ent es')
      with readdir_next [OF sane] it(3) call Inr have w1: "sane w1" "y = Some ent"
        "view w1 = (view w)\<lparr>tv_dirs := (tv_dirs (view w))(h \<mapsto> (f, es'))\<rparr>" by auto
      have "r = Returned ()" "i' = i\<lparr>di_entry := Some ent\<rparr>" "w' = w1"
        using incr it(2) call Inr w1(2) by (auto simp: dir_iter_incr_def)
      with w1 p lists Cons it show ?thesis by (auto simp: at_path_def at_iter_def handles_kept_def)
    qed
  qed
qed

lemma iter_destroyed:
  assumes "sane w" and "di_dir i = Some h" and "tv_dirs (view w) h = Some (f, es)" and "f \<in> F" and "h \<in> H"
  shows "sane (iter_destroy tc i w) \<and> tv_kind (view (iter_destroy tc i w)) = tv_kind (view w)
    \<and> handles_kept F H (view w) (view (iter_destroy tc i w))"
  using closedir_closes [OF assms(1,3)] assms(2,4,5) by (auto simp: iter_destroy_def handles_kept_def)

lemma removed_kind: "tv_kind v' = tv_kind v1 \<Longrightarrow> removed p v v' = removed p v v1"
  by (simp add: removed_def)

lemma rmtree_loop_ok:
  assumes smaller: "\<And>sub w. sane w \<Longrightarrow> at_path typed sub (view w) \<Longrightarrow> things (view w) (nfd_name sub) \<subset> things (view w0) (nfd_name p) \<Longrightarrow>
      \<exists>r w'. path_rmtree tc sub w = Some (r, w') \<and> sane w' \<and> pruned (nfd_name sub) {} {} (view w) r (view w')"
    and "sane w" and "at_path typed p (view w)" and "at_iter typed p i es F H (view w)"
    and "things (view w) (nfd_name p) \<subseteq> things (view w0) (nfd_name p)"
  shows "\<exists>r w'. rmtree_loop tc p i w = Some (r, w') \<and> sane w' \<and> pruned (nfd_name p) F H (view w) r (view w')"
  using assms(2-5)
proof (induction es arbitrary: i w)
  case Nil
  then have "rmtree_loop tc p i w = Some (sys_rmdir (tc_posix tc) (nfd_name p) w)"
    by (simp add: rmtree_loop_unfold dir_iter_neq_def path_end_def end_iter_def at_iter_def iter_destroy_def)
  moreover obtain x w1 where call: "px_rmdir (tc_posix tc) (nfd_name p) w = (x, w1)" by fastforce
  ultimately show ?case
    using rmdir_removes [OF Nil.prems(1)] rmdir_error [OF Nil.prems(1)]
    by (cases x) (auto simp: sys_rmdir_def pruned_def removed_def handles_kept_def gone_def below_def)
next
  case (Cons ent es)
  let ?P = "nfd_name p"
  from Cons.prems(3) obtain f h where it: "di_path i = Some p" "di_dir i = Some h" "di_entry i = Some ent"
    "tv_dirs (view w) h = Some (f, es)" "f \<noteq> nfd p" "f \<in> F" "h \<in> H"
    by (auto simp: at_iter_def)
  from remove_entry_ok [OF Cons.prems(1-3) smaller Cons.prems(4)] obtain r1 w1 where
    one: "remove_entry tc p i ent w = Some (r1, w1)" "sane w1" "r1 \<noteq> Undefined" "at_path typed p (view w1)"
    "removed ?P (view w) (view w1)" "handles_kept {} {} (view w) (view w1)" "r1 = Returned () \<longrightarrow> lists typed (view w1) ?P es"
    by blast
  have kept1: "handles_kept F H (view w) (view w1)" using one(6) by (rule handles_kept_mono) auto
  have dir1: "tv_dirs (view w1) h = Some (f, es)" using one(6) it(4) by (auto simp: handles_kept_def)
  have loop: "rmtree_loop tc p i w = (case r1 of
      Returned _ \<Rightarrow> (case dir_iter_incr tc i w1 of
          (Returned _, i', w5) \<Rightarrow> rmtree_loop tc p i' w5
        | (Thrown e, i', w5) \<Rightarrow> Some (Thrown e, iter_destroy tc i' w5)
        | (Undefined, i', w5) \<Rightarrow> Some (Undefined, w5))
    | Thrown e \<Rightarrow> Some (Thrown e, iter_destroy tc i w1)
    | Undefined \<Rightarrow> Some (Undefined, w1))"
    using it(2,3) one(1) by (simp add: rmtree_loop_unfold [of tc p i w] dir_iter_neq_def path_end_def end_iter_def)
  have stop: ?case if "rmtree_loop tc p i w = Some (Thrown e, iter_destroy tc i w2)" "sane w2" "removed ?P (view w) (view w2)"
      "handles_kept F H (view w) (view w2)" "tv_dirs (view w2) h = Some (f, es)" for e w2
  proof -
    let ?w = "iter_destroy tc i w2"
    from iter_destroyed [OF that(2) it(2) that(5) it(6,7)]
    have d: "sane ?w" "tv_kind (view ?w) = tv_kind (view w2)" "handles_kept F H (view w2) (view ?w)" by auto
    have "pruned ?P F H (view w) (Thrown e) (view ?w)"
      using that(3) handles_kept_trans [OF that(4) d(3)] by (simp add: pruned_def removed_kind [OF d(2)])
    with that(1) d(1) show ?thesis by blast
  qed
  show ?case
  proof (cases r1)
    case (Thrown e)
    with stop [of e w1] loop one kept1 dir1 show ?thesis by simp
  next
    case (Returned u)
    then have l: "lists typed (view w1) ?P es" using one(7) by simp
    obtain r2 i' w2 where incr: "dir_iter_incr tc i w1 = (r2, i', w2)" by (metis prod_cases3)
    from next_entry [OF one(2,4) l it(1,2) dir1 it(5-7) incr]
    have w2: "sane w2" "tv_kind (view w2) = tv_kind (view w1)" "handles_kept F H (view w1) (view w2)"
      and r2: "(\<exists>e. r2 = Thrown e \<and> i' = i \<and> view w2 = view w1)
        \<or> r2 = Returned () \<and> at_path typed p (view w2) \<and> at_iter typed p i' es F H (view w2)" by auto
    have upto: "removed ?P (view w) (view w2)" "handles_kept F H (view w) (view w2)"
      using one(5) handles_kept_trans [OF kept1 w2(3)] by (simp_all add: removed_kind [OF w2(2)])
    from r2 show ?thesis
    proof (elim disjE exE conjE)
      fix e
      assume "r2 = Thrown e" "i' = i" "view w2 = view w1"
      with stop [of e w2] loop Returned incr w2(1) upto dir1 show ?thesis by simp
    next
      assume r2: "r2 = Returned ()" and next2: "at_path typed p (view w2)" "at_iter typed p i' es F H (view w2)"
      have "things (view w2) ?P \<subseteq> things (view w0) ?P"
        using things_removed [OF upto(1), of ?P] Cons.prems(4) by blast
      from Cons.IH [OF w2(1) next2 this] obtain r w' where "rmtree_loop tc p i' w2 = Some (r, w')" "sane w'"
        "pruned ?P F H (view w2) r (view w')" by blast
      with loop Returned incr r2 pruned_before [OF _ upto] show ?thesis by auto
    qed
  qed (use one(3) in simp)
qed

text \<open>Opening the stream of a directory.\<close>

lemma path_begin_ok:
  assumes sane: "sane w" and p: "at_path typed p (view w)" and start: "path_begin tc p w = (r, w')"
  shows "sane w' \<and> tv_kind (view w') = tv_kind (view w) \<and> at_path typed p (view w') \<and> handles_kept {} {} (view w) (view w')
    \<and> ((\<exists>e. r = Thrown e)
      \<or> (\<exists>i es F H. r = Returned i \<and> at_iter typed p i es F H (view w') \<and> (\<forall>f\<in>F. tv_fds (view w) f = None) \<and> (\<forall>h\<in>H. tv_dirs (view w) h = None)))"
proof -
  have fd: "nfd p \<noteq> -1" "tv_fds (view w) (nfd p) = Some (nfd_name p)" using p by (simp_all add: at_path_def)
  obtain x w1 where opened: "tc_openat tc (nfd p) ''.'' O_DIRECTORY w = (x, w1)" by fastforce
  show ?thesis
  proof (cases x)
    case (Inl e)
    with opened openat_error [OF sane] fd p start show ?thesis
      by (auto simp: path_begin_def iter_construct_def path_fdopendir_def)
  next
    case (Inr f)
    from openat_self [OF sane fd(2) opened [unfolded Inr]]
    have w1: "sane w1" "tv_fds (view w) f = None" "view w1 = (view w)\<lparr>tv_fds := (tv_fds (view w))(f \<mapsto> nfd_name p)\<rparr>" by auto
    have f: "f \<noteq> nfd p" "tv_fds (view w1) f = Some (nfd_name p)" using w1 fd by auto
    have p1: "at_path typed p (view w1)" using p w1(3) by (auto simp: at_path_def)
    obtain y w2 where stream: "tc_fdopendir tc f w1 = (y, w2)" by fastforce
    show ?thesis
    proof (cases y)
      case (Inl e)
      with opened Inr stream fdopendir_error [OF w1(1)] fd p1 w1 start show ?thesis
        by (auto simp: path_begin_def iter_construct_def path_fdopendir_def handles_kept_def)
    next
      case Inr': (Inr h)
      from fdopendir_lists [OF w1(1) f(2) stream [unfolded Inr']] obtain es where w2: "sane w2" "tv_dirs (view w1) h = None"
        "lists typed (view w1) (nfd_name p) es" "view w2 = (view w1)\<lparr>tv_dirs := (tv_dirs (view w1))(h \<mapsto> (f, es))\<rparr>" by blast
      let ?i = "\<lparr>di_path = Some p, di_dir = Some h, di_entry = None\<rparr>"
      obtain r2 i' w3 where incr: "dir_iter_incr tc ?i w2 = (r2, i', w3)" by (metis prod_cases3)
      have p2: "at_path typed p (view w2)" and l2: "lists typed (view w2) (nfd_name p) es" using p1 w2 by (auto simp: at_path_def)
      have it: "di_path ?i = Some p" "di_dir ?i = Some h" "tv_dirs (view w2) h = Some (f, es)" using w2(4) by simp_all
      have res: "path_begin tc p w = (case r2 of Returned _ \<Rightarrow> (Returned i', w3) | Thrown e \<Rightarrow> (Thrown e, w3) | Undefined \<Rightarrow> (Undefined, w3))"
        using fd opened Inr stream Inr' incr
        by (simp add: path_begin_def iter_construct_def path_fdopendir_def split: outcome.splits)
      from next_entry [OF w2(1) p2 l2 it f(1) _ _ incr, of "{f}" "{h}"]
      have w3: "sane w3" "tv_kind (view w3) = tv_kind (view w2)" "handles_kept {f} {h} (view w2) (view w3)"
        and r2: "(\<exists>e. r2 = Thrown e \<and> i' = ?i \<and> view w3 = view w2) \<or> r2 = Returned () \<and> at_path typed p (view w3) \<and> at_iter typed p i' es {f} {h} (view w3)"
        by auto
      have "handles_kept {f} {h} (view w) (view w3)"
        using w3(3) w1(2,3) w2(2,4) by (auto simp: handles_kept_def)
      then have kept: "handles_kept {} {} (view w) (view w3)"
        using w1(2,3) w2(2) by (intro handles_kept_fresh [of "{f}" "{h}"]) auto
      have fresh: "\<forall>f\<in>{f}. tv_fds (view w) f = None" "\<forall>h\<in>{h}. tv_dirs (view w) h = None"
        using w1(2,3) w2(2) by auto
      have same: "tv_kind (view w3) = tv_kind (view w)" using w3(2) w2(4) w1(3) by simp
      from r2 show ?thesis
      proof (elim disjE exE conjE)
        fix e
        assume "r2 = Thrown e" "view w3 = view w2"
        with res start w3(1) same kept p2 show ?thesis by auto
      next
        assume "r2 = Returned ()" "at_path typed p (view w3)" "at_iter typed p i' es {f} {h} (view w3)"
        with res start w3(1) same kept fresh show ?thesis by auto
      qed
    qed
  qed
qed

lemma path_rmtree_ok:
  "sane w \<Longrightarrow> at_path typed p (view w) \<Longrightarrow>
    \<exists>r w'. path_rmtree tc p w = Some (r, w') \<and> sane w' \<and> pruned (nfd_name p) {} {} (view w) r (view w')"
proof (induction "card (things (view w) (nfd_name p))" arbitrary: p w rule: less_induct)
  case less
  let ?P = "nfd_name p"
  have fin: "finite (things (view w) ?P)"
    using finite_tree [OF less.prems(1)] by (auto simp: things_def elim: rev_finite_subset)
  have smaller: "\<exists>r w'. path_rmtree tc sub w1 = Some (r, w') \<and> sane w' \<and> pruned (nfd_name sub) {} {} (view w1) r (view w')"
    if "sane w1" "at_path typed sub (view w1)" "things (view w1) (nfd_name sub) \<subset> things (view w) ?P" for sub w1
    using less.hyps [OF psubset_card_mono [OF fin that(3)] that(1,2)] .
  obtain r1 w1 where start: "path_begin tc p w = (r1, w1)" by fastforce
  from path_begin_ok [OF less.prems start]
  have w1: "sane w1" "tv_kind (view w1) = tv_kind (view w)" "at_path typed p (view w1)" "handles_kept {} {} (view w) (view w1)"
    and r1: "(\<exists>e. r1 = Thrown e) \<or> (\<exists>i es F H. r1 = Returned i \<and> at_iter typed p i es F H (view w1)
        \<and> (\<forall>f\<in>F. tv_fds (view w) f = None) \<and> (\<forall>h\<in>H. tv_dirs (view w) h = None))" by auto
  from r1 show ?case
  proof (elim disjE exE conjE)
    fix e
    assume "r1 = Thrown e"
    with start w1 show ?thesis by (auto simp: path_rmtree_def pruned_def removed_kind [OF w1(2)])
  next
    fix i es F H
    assume i: "r1 = Returned i" "at_iter typed p i es F H (view w1)"
      and fresh: "\<forall>f\<in>F. tv_fds (view w) f = None" "\<forall>h\<in>H. tv_dirs (view w) h = None"
    have "things (view w1) ?P \<subseteq> things (view w) ?P" using w1(2) by (simp add: things_def)
    from rmtree_loop_ok [OF smaller w1(1,3) i(2) this] obtain r w' where loop: "rmtree_loop tc p i w1 = Some (r, w')" "sane w'"
      "pruned ?P F H (view w1) r (view w')" by blast
    have "pruned ?P F H (view w) r (view w')"
      by (rule pruned_before [OF loop(3)]) (use handles_kept_mono [OF w1(4), of F H] in \<open>simp_all add: removed_kind [OF w1(2)]\<close>)
    then have "pruned ?P {} {} (view w) r (view w')"
      using handles_kept_fresh [OF _ fresh] by (simp add: pruned_def)
    with loop start i(1) show ?thesis by (auto simp: path_rmtree_def)
  qed
qed

lemma rmtree_ok:
  assumes sane: "sane w" and dir: "tv_kind (view w) p = Some S_IFDIR" and path: "p \<noteq> []" "last p \<noteq> CHR ''/''"
    and links: "links_known typed (view w) p"
  shows "\<exists>r w'. rmtree tc p w = Some (r, w') \<and> sane w' \<and> pruned p {} {} (view w) r (view w')"
proof -
  obtain x w1 where call: "tc_open tc p w = (x, w1)" by fastforce
  show ?thesis
  proof (cases x)
    case (Inl e)
    with call open_error [OF sane] show ?thesis by (auto simp: rmtree_def path_open_def pruned_def)
  next
    case (Inr fd)
    from open_dir [OF sane dir call [unfolded Inr]] have w1: "sane w1" "fd \<noteq> -1" "tv_fds (view w) fd = None"
      "view w1 = (view w)\<lparr>tv_fds := (tv_fds (view w))(fd \<mapsto> p)\<rparr>" by auto
    let ?p = "\<lparr>nfd = fd, nfd_name = p\<rparr>"
    have "at_path typed ?p (view w1)" using w1 dir path links by (simp add: at_path_def)
    from path_rmtree_ok [OF w1(1) this] obtain r w2 where rec: "path_rmtree tc ?p w1 = Some (r, w2)" "sane w2"
      "pruned p {} {} (view w1) r (view w2)" by auto
    obtain y w3 where close: "px_close (tc_posix tc) fd w2 = (y, w3)" by fastforce
    from close_closes [OF rec(2) close] have w3: "sane w3" "view w3 = (view w2)\<lparr>tv_fds := (tv_fds (view w2))(fd := None)\<rparr>" by auto
    have "pruned p {} {} (view w) r (view w3)"
      using rec(3) w1(3,4) w3(2) by (auto simp: pruned_def handles_kept_def gone_def)
    with call Inr rec(1) close w1(2) w3(1) show ?thesis by (auto simp: rmtree_def path_open_def path_destroy_def)
  qed
qed

end

text \<open>
  C7: on a directory, \<open>rmtree\<close> ends; if the entries of directories come with their types or there are no symbolic
  links below the directory, names that are not below it stay as they are, when \<open>rmtree\<close>
  returns all names below the directory and itself have gone, and when it throws some of them may have
  gone.  Descriptors and streams that were open before are left alone.  Where an entry comes without its type, \<open>stat\<close>
  is asked; \<open>rmtree_follows_links\<close> below shows what a link does then.
\<close>

theorem rmtree_removes_tree:
  assumes "tree_fs tc view sane typed" and "sane w"
    and "tv_kind (view w) p = Some S_IFDIR" and "p \<noteq> []" and "last p \<noteq> CHR ''/''"
    and "typed \<or> (\<forall>q. below p q \<longrightarrow> tv_kind (view w) q \<noteq> Some S_IFLNK)"
  shows "\<exists>r w'. rmtree tc p w = Some (r, w') \<and> r \<noteq> Undefined
    \<and> (\<forall>q. tv_kind (view w') q = tv_kind (view w) q \<or> below p q \<and> tv_kind (view w') q = None)
    \<and> (r = Returned () \<longrightarrow> (\<forall>q. below p q \<longrightarrow> tv_kind (view w') q = None))
    \<and> (\<forall>f. tv_fds (view w) f \<noteq> None \<longrightarrow> tv_fds (view w') f = tv_fds (view w) f)"
proof -
  from tree_fs.rmtree_ok [OF assms(1-5)] assms(6) [folded links_known_def] obtain r w' where "rmtree tc p w = Some (r, w')" "pruned p {} {} (view w) r (view w')"
    by blast
  then show ?thesis by (auto simp: pruned_def removed_def handles_kept_def gone_def)
qed

text \<open>
  exactly one of the seven tests holds of an entry whose type is known, and no call is made for it; an
  iterator that has been moved cannot be asked about an entry of unknown type.
\<close>

theorem entry_tests_follow_type:
  assumes "di_entry i = Some ent"
  shows "(\<forall>t. d_type ent = Some t \<longrightarrow>
      map (\<lambda>f. f tc i w) [entry_isdir, entry_isblk, entry_ischr, entry_isfifo, entry_islnk, entry_isreg, entry_issock]
        = map (\<lambda>t'. Returned (t = t')) [S_IFDIR, S_IFBLK, S_IFCHR, S_IFIFO, S_IFLNK, S_IFREG, S_IFSOCK])
    \<and> (d_type ent = None \<longrightarrow> entry_isdir tc (fst (iter_move i)) w = Undefined)"
  using assms by (auto simp: entry_isdir_def entry_isblk_def entry_ischr_def entry_isfifo_def entry_islnk_def
      entry_isreg_def entry_issock_def entry_test_def iter_move_def)

subsection \<open>A tree in memory\<close>

text \<open>
  Names with their types, symbolic links with their targets, the open handles, and whether reading
  a directory gives the types of its entries.
\<close>

record tmem =
  tm_names :: "(string \<times> file_type) list"
  tm_links :: "(string \<times> string) list"
  tm_fds :: "int \<Rightarrow> string option"
  tm_dirs :: "nat \<Rightarrow> (int \<times> dirent list) option"
  tm_next :: nat
  tm_typed :: bool

definition tm_view :: "tmem \<Rightarrow> tree_view" where
  "tm_view w = \<lparr>tv_kind = map_of (tm_names w), tv_fds = tm_fds w, tv_dirs = tm_dirs w\<rparr>"

text \<open>Only directories have names below them.\<close>

definition tree_closed :: "(string \<Rightarrow> file_type option) \<Rightarrow> bool" where
  "tree_closed m \<longleftrightarrow> (\<forall>q p. m q \<noteq> None \<and> p \<noteq> [] \<and> prefix (p @ ''/'') q \<longrightarrow> m p = Some S_IFDIR)"

definition tm_sane :: "bool \<Rightarrow> tmem \<Rightarrow> bool" where
  "tm_sane typed w \<longleftrightarrow> (typed \<longrightarrow> tm_typed w) \<and> distinct (map fst (tm_names w))
     \<and> (\<forall>k\<ge>tm_next w. tm_fds w (int k) = None \<and> tm_dirs w k = None)
     \<and> tree_closed (map_of (tm_names w))"

definition tm_follow :: "tmem \<Rightarrow> string \<Rightarrow> string" where
  "tm_follow w p = (if map_of (tm_names w) p = Some S_IFLNK then (case map_of (tm_links w) p of None \<Rightarrow> p | Some q \<Rightarrow> q) else p)"

definition tm_remove :: "string \<Rightarrow> tmem \<Rightarrow> tmem" where
  "tm_remove p w = w\<lparr>tm_names := filter (\<lambda>(q, t). q \<noteq> p) (tm_names w)\<rparr>"

definition tm_opened :: "string \<Rightarrow> tmem \<Rightarrow> (errno + int) \<times> tmem" where
  "tm_opened p w =
     (if map_of (tm_names w) (tm_follow w p) = None then (Inl ENOENT, w)
      else (Inr (int (tm_next w)), w\<lparr>tm_fds := (tm_fds w)(int (tm_next w) \<mapsto> tm_follow w p), tm_next := Suc (tm_next w)\<rparr>))"

definition tm_children :: "tmem \<Rightarrow> string \<Rightarrow> dirent list" where
  "tm_children w p = map (\<lambda>(q, t). \<lparr>d_ino = 0, d_type = (if tm_typed w then Some t else None), d_name = drop (Suc (length p)) q\<rparr>)
     (filter (\<lambda>(q, t). prefix (p @ ''/'') q \<and> plain_component (drop (Suc (length p)) q)) (tm_names w))"

definition tm_posix :: "tmem posix" where
  "tm_posix = \<lparr>px_open = (\<lambda>p fl m w. (Inl EINVAL, w)), px_close = (\<lambda>fd w. (None, w\<lparr>tm_fds := (tm_fds w)(fd := None)\<rparr>)),
     px_write = (\<lambda>fd b w. (Inl EINVAL, w)), px_fchmod = (\<lambda>fd m w. (Some EINVAL, w)), px_umask = (\<lambda>m w. (0, w)),
     px_mkstemp = (\<lambda>t w. (Inl EINVAL, w)), px_rename = (\<lambda>a b w. (Some EINVAL, w)), px_unlink = (\<lambda>p w. (Some EINVAL, w)),
     px_rmdir = (\<lambda>p w.
        if map_of (tm_names w) p \<noteq> Some S_IFDIR then (Some ENOTDIR, w)
        else if \<exists>(q, t)\<in>set (tm_names w). prefix (p @ ''/'') q then (Some (OtherErrno 39), w)
        else (None, tm_remove p w)),
     px_fstat = (\<lambda>fd w. Inl EINVAL), px_mmap = (\<lambda>fd n w. (Inl EINVAL, w)), px_load = (\<lambda>a n w. []),
     px_munmap = (\<lambda>a n w. (Some EINVAL, w))\<rparr>"

definition tm_calls :: "tmem tree_calls" where
  "tm_calls = \<lparr>tc_posix = tm_posix,
     tc_open = tm_opened,
     tc_openat = (\<lambda>d n fl w. case tm_fds w d of
         None \<Rightarrow> (Inl (OtherErrno 9), w)
       | Some p \<Rightarrow> if n = ''.'' then (Inr (int (tm_next w)), w\<lparr>tm_fds := (tm_fds w)(int (tm_next w) \<mapsto> p), tm_next := Suc (tm_next w)\<rparr>)
           else tm_opened (p @ ''/'' @ n) w),
     tc_fdopendir = (\<lambda>fd w. case tm_fds w fd of
         None \<Rightarrow> (Inl (OtherErrno 9), w)
       | Some p \<Rightarrow> (Inr (tm_next w), w\<lparr>tm_dirs := (tm_dirs w)(tm_next w \<mapsto> (fd, tm_children w p)), tm_next := Suc (tm_next w)\<rparr>)),
     tc_readdir = (\<lambda>h w. case tm_dirs w h of
         None \<Rightarrow> (Inl (OtherErrno 9), w)
       | Some (fd, []) \<Rightarrow> (Inr None, w)
       | Some (fd, ent # es) \<Rightarrow> (Inr (Some ent), w\<lparr>tm_dirs := (tm_dirs w)(h \<mapsto> (fd, es))\<rparr>)),
     tc_closedir = (\<lambda>h w. case tm_dirs w h of
         None \<Rightarrow> w
       | Some (fd, es) \<Rightarrow> w\<lparr>tm_dirs := (tm_dirs w)(h := None), tm_fds := (tm_fds w)(fd := None)\<rparr>),
     tc_fstatat = (\<lambda>d n nofollow w. case tm_fds w d of
         None \<Rightarrow> Inl (OtherErrno 9)
       | Some p \<Rightarrow>
           (case map_of (tm_names w) (if nofollow then p @ ''/'' @ n else tm_follow w (p @ ''/'' @ n)) of
              None \<Rightarrow> Inl ENOENT | Some t \<Rightarrow> Inr \<lparr>st_type = t, st_mtime = 0, st_size = 0, st_ino = 0\<rparr>)),
     tc_unlinkat = (\<lambda>d n rm w. case tm_fds w d of
         None \<Rightarrow> (Some (OtherErrno 9), w)
       | Some p \<Rightarrow>
           if rm then px_rmdir tm_posix (p @ ''/'' @ n) w
           else if map_of (tm_names w) (p @ ''/'' @ n) = None then (Some ENOENT, w)
           else if map_of (tm_names w) (p @ ''/'' @ n) = Some S_IFDIR then (Some EISDIR, w)
           else (None, tm_remove (p @ ''/'' @ n) w))\<rparr>"

lemma map_of_removed: "map_of (filter (\<lambda>(q, t). q \<noteq> p) xs) = (map_of xs)(p := None)"
  by (induction xs) auto

lemma tm_view_remove: "tm_view (tm_remove p w) = (tm_view w)\<lparr>tv_kind := (tv_kind (tm_view w))(p := None)\<rparr>"
  by (simp add: tm_view_def tm_remove_def map_of_removed)

lemma tm_sane_remove:
  assumes "tm_sane typed w" and "\<And>q. prefix (p @ ''/'') q \<Longrightarrow> map_of (tm_names w) q = None"
  shows "tm_sane typed (tm_remove p w)"
proof -
  have "distinct (map fst (filter (\<lambda>(q, t). q \<noteq> p) (tm_names w)))"
    using assms(1) by (simp add: tm_sane_def distinct_map_filter)
  moreover have "tree_closed ((map_of (tm_names w))(p := None))"
    unfolding tree_closed_def
  proof (intro allI impI)
    fix q p'
    assume q: "((map_of (tm_names w))(p := None)) q \<noteq> None \<and> p' \<noteq> [] \<and> prefix (p' @ ''/'') q"
    then have "map_of (tm_names w) q \<noteq> None" by (auto split: if_splits)
    moreover have "tree_closed (map_of (tm_names w))" using assms(1) by (simp add: tm_sane_def)
    with calculation q have "map_of (tm_names w) p' = Some S_IFDIR" unfolding tree_closed_def by blast
    ultimately show "((map_of (tm_names w))(p := None)) p' = Some S_IFDIR" using q assms(2) [of q] by auto
  qed
  ultimately show ?thesis using assms(1) by (simp add: tm_sane_def tm_remove_def map_of_removed)
qed

lemma tm_children_lists:
  assumes "tm_sane typed w"
  shows "lists typed (tm_view w) p (tm_children w p)"
proof -
  let ?in = "\<lambda>(q, t). prefix (p @ ''/'') q \<and> plain_component (drop (Suc (length p)) q)"
  have d: "distinct (map fst (tm_names w))" and typed: "typed \<longrightarrow> tm_typed w" using assms by (simp_all add: tm_sane_def)
  have names: "map d_name (tm_children w p) = map (drop (Suc (length p)) \<circ> fst) (filter ?in (tm_names w))"
    by (auto simp: tm_children_def)
  have "inj_on (drop (Suc (length p))) (fst ` set (filter ?in (tm_names w)))"
    by (auto simp: inj_on_def prefix_def)
  then have "distinct (map d_name (tm_children w p))"
    using distinct_map_filter [OF d, of ?in] unfolding names by (simp add: distinct_map map_map [symmetric] del: map_map)
  moreover have "map_of (tm_names w) (p @ ''/'' @ n) \<noteq> None \<longleftrightarrow> n \<in> d_name ` set (tm_children w p)" if "plain_component n" for n
  proof -
    have "n \<in> d_name ` set (tm_children w p) \<longleftrightarrow> (\<exists>t. (p @ ''/'' @ n, t) \<in> set (tm_names w))"
      using that by (force simp: tm_children_def prefix_def)
    also have "\<dots> \<longleftrightarrow> p @ ''/'' @ n \<in> fst ` set (tm_names w)" by force
    finally show ?thesis by (simp add: map_of_eq_None_iff)
  qed
  moreover have "plain_component (d_name ent)
      \<and> (d_type ent = map_of (tm_names w) (p @ ''/'' @ d_name ent) \<or> \<not> typed \<and> d_type ent = None)"
    if "ent \<in> set (tm_children w p)" for ent
    using that typed d by (auto simp: tm_children_def prefix_def)
  ultimately show ?thesis by (simp add: lists_def tm_view_def)
qed

interpretation tmem: tree_fs tm_calls tm_view "tm_sane typed" typed for typed
proof (unfold_locales, goal_cases)
  case (1 w p fd w')
  then show ?case
    by (auto simp: tm_calls_def tm_opened_def tm_follow_def tm_view_def tm_sane_def split: if_splits)
next
  case (2 w p e w')
  then show ?case by (auto simp: tm_calls_def tm_opened_def split: if_splits)
next
  case (3 w d p n fd w')
  then show ?case
    by (auto simp: tm_calls_def tm_opened_def tm_follow_def tm_view_def tm_sane_def plain_component_def split: if_splits)
next
  case (4 w d p fd w')
  then show ?case by (auto simp: tm_calls_def tm_view_def tm_sane_def)
next
  case (5 w d n fl e w')
  then show ?case by (auto simp: tm_calls_def tm_opened_def split: if_splits option.splits)
next
  case (6 w fd p h w')
  then show ?case
    using tm_children_lists [of typed w p] by (auto simp: tm_calls_def tm_view_def tm_sane_def)
next
  case (11 w d p n st)
  then show ?case by (auto simp: tm_calls_def tm_view_def tm_follow_def split: option.splits)
next
  case (13 w fd y w')
  then show ?case by (auto simp: tm_calls_def tm_posix_def tm_view_def tm_sane_def)
next
  case (14 w d p n w')
  then have run: "map_of (tm_names w) (p @ ''/'' @ n) \<noteq> Some S_IFDIR" "w' = tm_remove (p @ ''/'' @ n) w"
    by (auto simp: tm_calls_def tm_view_def split: if_splits)
  have "map_of (tm_names w) q = None" if "prefix ((p @ ''/'' @ n) @ ''/'') q" for q
    using 14(1) run(1) that unfolding tm_sane_def tree_closed_def by (metis append_is_Nil_conv list.distinct(1))
  with 14(1) run(2) show ?case by (auto intro: tm_sane_remove simp: tm_view_remove)
next
  case (16 w p w')
  then have run: "\<forall>(q, t)\<in>set (tm_names w). \<not> prefix (p @ ''/'') q" "w' = tm_remove p w"
    by (auto simp: tm_calls_def tm_posix_def split: if_splits)
  then have none: "map_of (tm_names w) q = None" if "prefix (p @ ''/'') q" for q
    using that by (auto simp: map_of_eq_None_iff)
  with 16(1) run(2) show ?case by (auto intro: tm_sane_remove simp: tm_view_remove) (simp_all add: tm_view_def)
next
  case (18 w q p)
  then show ?case unfolding tm_sane_def tree_closed_def tm_view_def by simp
next
  case (19 w)
  then show ?case using finite_dom_map_of [of "tm_names w"] by (simp add: tm_view_def dom_def)
qed (auto simp: tm_calls_def tm_posix_def tm_view_def tm_sane_def split: option.splits if_splits list.splits prod.splits)

text \<open>A tree with a file, a directory and a link to another directory, which has a file.\<close>

definition tm_sample :: "bool \<Rightarrow> tmem" where
  "tm_sample typed = \<lparr>tm_names = [(''t'', S_IFDIR), (''t/a'', S_IFREG), (''t/d'', S_IFDIR), (''t/d/b'', S_IFREG),
      (''t/l'', S_IFLNK), (''x'', S_IFDIR), (''x/y'', S_IFREG)],
     tm_links = [(''t/l'', ''x'')], tm_fds = (\<lambda>_. None), tm_dirs = (\<lambda>_. None), tm_next = 3, tm_typed = typed\<rparr>"

lemmas tree_defs = rmtree_def path_open_def path_rmtree_def rmtree_loop_unfold remove_entry_def path_begin_def iter_construct_def
  path_fdopendir_def dir_iter_incr_def dir_iter_neq_def path_end_def end_iter_def entry_isdir_def entry_test_def
  path_fstatat_def path_sub_def path_openat_def path_unlinkat_def path_destroy_def iter_destroy_def sys_rmdir_def
  joinpath2_def appendpath_def substr_from_def nfd_error_def

lemmas tm_defs = tm_calls_def tm_posix_def tm_opened_def tm_follow_def tm_children_def tm_remove_def tm_sample_def plain_component_def

lemma tm_sample_run:
  "map_option (\<lambda>(r, w). (r, tm_names w)) (rmtree tm_calls ''t'' (tm_sample True))
    = Some (Returned (), [(''x'', S_IFDIR), (''x/y'', S_IFREG)])"
  by (simp add: tree_defs tm_defs)

text \<open>
  when the entries come without their types, a link to a directory is taken for one: the files in
  the directory that it points to are removed, and then removing the link as a directory fails.
\<close>

theorem rmtree_follows_links:
  "map_option (\<lambda>(r, w). (r, tm_names w)) (rmtree tm_calls ''t'' (tm_sample False))
    = Some (Thrown (SystemError ENOTDIR ''cannot rmdir t/l''),
        [(''t'', S_IFDIR), (''t/l'', S_IFLNK), (''x'', S_IFDIR)])"
  by (simp add: tree_defs tm_defs)

lemma tree_closedI:
  assumes "list_all (\<lambda>(q, t). list_all (\<lambda>k. k = 0 \<or> q ! k \<noteq> CHR ''/'' \<or> map_of xs (take k q) = Some S_IFDIR) [0..<length q]) xs"
  shows "tree_closed (map_of xs)"
  unfolding tree_closed_def
proof (intro allI impI)
  fix q p
  assume q: "map_of xs q \<noteq> None \<and> p \<noteq> [] \<and> prefix (p @ ''/'') q"
  then obtain r where r: "q = p @ CHR ''/'' # r" by (auto simp: prefix_def)
  from q obtain t where "(q, t) \<in> set xs" by (auto dest: map_of_SomeD)
  with assms [unfolded list_all_iff] have "\<forall>k\<in>{0..<length q}. k = 0 \<or> q ! k \<noteq> CHR ''/'' \<or> map_of xs (take k q) = Some S_IFDIR"
    by fastforce
  from this [rule_format, of "length p"] q r show "map_of xs p = Some S_IFDIR" by simp
qed

text \<open>The same tree without the link, on a file system that does not give the types.\<close>

definition tm_plain :: tmem where
  "tm_plain = (tm_sample False)\<lparr>tm_names := [(''t'', S_IFDIR), (''t/a'', S_IFREG), (''t/d'', S_IFDIR), (''t/d/b'', S_IFREG),
      (''x'', S_IFDIR), (''x/y'', S_IFREG)]\<rparr>"

lemma tm_sample_sane: "tm_sane True (tm_sample True)"
proof -
  have "tree_closed (map_of (tm_names (tm_sample True)))"
    by (rule tree_closedI) code_simp
  then show ?thesis by (simp add: tm_sane_def tm_sample_def)
qed

lemma tm_plain_sane: "tm_sane False tm_plain"
proof -
  have "tree_closed (map_of (tm_names tm_plain))"
    by (rule tree_closedI) code_simp
  then show ?thesis by (simp add: tm_sane_def tm_plain_def tm_sample_def)
qed

lemma tm_plain_run:
  "map_option (\<lambda>(r, w). (r, tm_names w)) (rmtree tm_calls ''t'' tm_plain)
    = Some (Returned (), [(''x'', S_IFDIR), (''x/y'', S_IFREG)])"
  by (simp add: tree_defs tm_defs tm_plain_def)

theorem rmtree_removes_tree_witness:
  "(\<exists>w. rmtree tm_calls ''t'' (tm_sample True) = Some (Returned (), w) \<and> tv_kind (tm_view w) ''t/d/b'' = None)
    \<and> (\<exists>w. rmtree tm_calls ''t'' tm_plain = Some (Returned (), w) \<and> tv_kind (tm_view w) ''t/d/b'' = None)"
proof -
  have b: "below ''t'' ''t/d/b''" by (simp add: below_def)
  have "tv_kind (tm_view (tm_sample True)) ''t'' = Some S_IFDIR" by (simp add: tm_view_def tm_sample_def)
  from rmtree_removes_tree [OF tmem.tree_fs_axioms tm_sample_sane this] obtain r w where
    "rmtree tm_calls ''t'' (tm_sample True) = Some (r, w)"
    "r = Returned () \<longrightarrow> (\<forall>q. below ''t'' q \<longrightarrow> tv_kind (tm_view w) q = None)" by auto
  moreover from this(1) have "r = Returned ()" using tm_sample_run by simp
  moreover have dir: "tv_kind (tm_view tm_plain) ''t'' = Some S_IFDIR" by (simp add: tm_view_def tm_plain_def)
  have "\<forall>q. tv_kind (tm_view tm_plain) q \<noteq> Some S_IFLNK" by (simp add: tm_view_def tm_plain_def)
  with rmtree_removes_tree [OF tmem.tree_fs_axioms tm_plain_sane dir] obtain r' w' where
    "rmtree tm_calls ''t'' tm_plain = Some (r', w')"
    "r' = Returned () \<longrightarrow> (\<forall>q. below ''t'' q \<longrightarrow> tv_kind (tm_view w') q = None)" by auto
  moreover from this(1) have "r' = Returned ()" using tm_plain_run by simp
  ultimately show ?thesis using b by blast
qed

theorem entry_tests_follow_type_witness:
  "entry_isreg tm_calls \<lparr>di_path = None, di_dir = Some 0,
      di_entry = Some \<lparr>d_ino = 1, d_type = Some S_IFREG, d_name = ''a''\<rparr>\<rparr> (tm_sample True) = Returned True"
  using entry_tests_follow_type [of "\<lparr>di_path = None, di_dir = Some 0,
      di_entry = Some \<lparr>d_ino = 1, d_type = Some S_IFREG, d_name = ''a''\<rparr>\<rparr>"
      "\<lparr>d_ino = 1, d_type = Some S_IFREG, d_name = ''a''\<rparr>" tm_calls "tm_sample True"] by simp

end
