(* ===== verification/Databases.thy ===== *)
theory Databases
  imports Vocabulary TextFormat SysFiles
begin

section \<open>The databases on disk (ept/debtags/debtags.cc, vocabulary.cc, ept/axi/axi.cc)\<close>

text \<open>
  \<open>Debtags\<close> is a \<open>coll::Fast\<close> that is read from the tag database, and \<open>Vocabulary\<close> writes itself
  back to its file.  What these two do with files is here: which file it is, that the stream is
  closed, what is left after an error, and the umask.  \<open>axi\<close> only knows where its index is.
\<close>

subsection \<open>Writing the vocabulary\<close>

definition voc_write_file :: "'w posix \<Rightarrow> string \<Rightarrow> vocabulary \<Rightarrow> 'w \<Rightarrow> ((sys_error, unit) outcome \<times> 'w) option" where
  "voc_write_file px fname v w = write_file_atomically px fname (voc_write v) 438 w"

text \<open>\<open>write()\<close> sets the umask to 022 and back; an exception leaves it where it is.\<close>

definition voc_write_default ::
  "'w posix \<Rightarrow> (string \<Rightarrow> string option) \<Rightarrow> vocabulary \<Rightarrow> 'w \<Rightarrow> ((sys_error, unit) outcome \<times> 'w) option" where
  "voc_write_default px getenv v w =
     (let vocfname = voc_pathname getenv; (prev_umask, w1) = px_umask px 18 w
      in case voc_write_file px vocfname v w1 of
           Some (Returned _, w2) \<Rightarrow> Some (Returned (), snd (px_umask px prev_umask w2))
         | r \<Rightarrow> r)"

definition system_vocabulary ::
  "(string \<Rightarrow> bool) \<Rightarrow> (string \<Rightarrow> cfile option) \<Rightarrow> (string \<Rightarrow> int) \<Rightarrow> (string \<Rightarrow> string option) \<Rightarrow> bool
    \<Rightarrow> (voc_error option \<times> vocabulary \<times> string list) option" where
  "system_vocabulary exists fopen mtime getenv is_empty =
     (if is_empty then Some (None, new_vocabulary, [])
      else voc_load exists fopen mtime (voc_pathname getenv) new_vocabulary)"

subsection \<open>Reading the tag database\<close>

record debtags =
  tagdb :: fast
  dt_timestamp :: int

datatype debtags_error = DtCannotOpen errno string | DtParse text_error | DtSystem sys_error

definition new_debtags :: debtags where
  "new_debtags = \<lparr>tagdb = fast_empty, dt_timestamp = 0\<rparr>"

text \<open>
  \<open>load\<close> on a number of open streams, which \<open>fopen\<close> raises and \<open>fclose\<close> lowers; the object is
  given back also when an exception leaves the call.
\<close>

definition debtags_load ::
  "(string \<Rightarrow> errno + cfile) \<Rightarrow> (string \<Rightarrow> errno + file_stat) \<Rightarrow> string \<Rightarrow> debtags \<Rightarrow> nat
    \<Rightarrow> (debtags_error, unit) outcome \<times> debtags \<times> nat" where
  "debtags_load fopen stat2 path d streams =
     (case fopen path of
        Inl e \<Rightarrow> (Thrown (DtCannotOpen e path), d, streams)
      | Inr input \<Rightarrow>
          (let streams = Suc streams; (out, err) = parse input (tagdb d); d = d\<lparr>tagdb := out\<rparr>
           in case err of
                Some e \<Rightarrow> (let streams = streams - 1 in (Thrown (DtParse e), d, streams))
              | None \<Rightarrow>
                  (let streams = streams - 1
                   in case timestamp_or stat2 path 0 of
                        Returned t \<Rightarrow> (Returned (), d\<lparr>dt_timestamp := t\<rparr>, streams)
                      | Thrown e \<Rightarrow> (Thrown (DtSystem e), d, streams)
                      | Undefined \<Rightarrow> (Undefined, d, streams))))"

definition debtags_pathname :: "(string \<Rightarrow> string option) \<Rightarrow> string" where
  "debtags_pathname getenv =
     (case getenv ''DEBTAGS_TAGS'' of None \<Rightarrow> ''/var/lib/debtags/package-tags'' | Some res \<Rightarrow> res)"

definition system_debtags ::
  "(string \<Rightarrow> access_mode \<Rightarrow> errno option) \<Rightarrow> (string \<Rightarrow> errno + cfile) \<Rightarrow> (string \<Rightarrow> errno + file_stat)
    \<Rightarrow> (string \<Rightarrow> string option) \<Rightarrow> nat \<Rightarrow> (debtags_error, unit) outcome \<times> debtags \<times> nat" where
  "system_debtags access2 fopen stat2 getenv streams =
     (let src = debtags_pathname getenv
      in if \<not> sys_exists access2 src then (Returned (), new_debtags, streams)
         else debtags_load fopen stat2 src new_debtags streams)"

definition open_debtags ::
  "(string \<Rightarrow> errno + cfile) \<Rightarrow> (string \<Rightarrow> errno + file_stat) \<Rightarrow> string \<Rightarrow> nat
    \<Rightarrow> (debtags_error, unit) outcome \<times> debtags \<times> nat" where
  "open_debtags fopen stat2 path streams = debtags_load fopen stat2 path new_debtags streams"

definition debtags_hasData :: "debtags \<Rightarrow> bool" where
  "debtags_hasData d \<longleftrightarrow> dt_timestamp d \<noteq> 0"

subsection \<open>The index of the text search\<close>

text \<open>
  The directory of the index is a static variable; \<open>TEXTSEARCH_DB_DIR\<close>, from the build, is what it
  starts with.  An \<open>OverrideIndexDir\<close> is the directory that it puts back.
\<close>

definition path_dir :: "string \<Rightarrow> string" where
  "path_dir m_index_dir = m_index_dir"

definition path_db :: "string \<Rightarrow> string" where
  "path_db m_index_dir = joinpath2 m_index_dir ''/index''"

definition axi_timestamp :: "(string \<Rightarrow> errno + file_stat) \<Rightarrow> string \<Rightarrow> (sys_error, int) outcome" where
  "axi_timestamp stat2 m_index_dir = timestamp_or stat2 (joinpath2 m_index_dir ''update-timestamp'') 0"

definition override_index_dir :: "string \<Rightarrow> string \<Rightarrow> string \<times> string" where
  "override_index_dir path m_index_dir = (m_index_dir, path)"

definition end_override :: "string \<Rightarrow> string \<Rightarrow> string" where
  "end_override old m_index_dir = old"

subsection \<open>What is written is what is read\<close>

context posix_fs
begin

text \<open>
  \<open>write()\<close> ends; it replaces the file and puts the umask back, or it throws with the umask at 022
  and every file that was there as it was.
\<close>

lemma voc_write_default_view:
  assumes sane: "sane w"
  shows "\<exists>r w'. voc_write_default px getenv v w = Some (r, w') \<and> sane w'
    \<and> (case r of
        Returned _ \<Rightarrow> file_content (view w') (voc_pathname getenv) = Some (voc_write v)
          \<and> map_option (fs_mode (view w')) (fs_names (view w') (voc_pathname getenv)) = Some 420
          \<and> fs_umask (view w') = fs_umask (view w)
      | Thrown e \<Rightarrow> fs_umask (view w') = 18
          \<and> (\<forall>p. file_content (view w) p \<noteq> None \<longrightarrow> file_content (view w') p = file_content (view w) p)
      | Undefined \<Rightarrow> False)"
proof -
  let ?f = "voc_pathname getenv"
  obtain w1 where um: "px_umask px 18 w = (fs_umask (view w), w1)"
    using umask_set [OF sane, of 18] by (metis surj_pair)
  then have w1: "sane w1" "view w1 = (view w)\<lparr>fs_umask := 18\<rparr>" using umask_set [OF sane um] by simp_all
  obtain r w2 where run: "write_file_atomically px ?f (voc_write v) 438 w1 = Some (r, w2)" and w2: "sane w2"
    and res: "(\<exists>e e'. r = Thrown e \<and> fst (px_mkstemp px (?f @ ''XXXXXX'') w1) = Inl e' \<and> view w2 = view w1)
      \<or> (\<exists>fd tmp i fds. fst (px_mkstemp px (?f @ ''XXXXXX'') w1) = Inr (fd, tmp) \<and> (\<forall>q. fs_names (view w1) q \<noteq> Some i)
          \<and> fs_names (view w1) tmp = None \<and> prefix ?f tmp \<and> length tmp = length ?f + 6
          \<and> (r = Returned () \<and> view w2 = wrote (view w1) ?f i (voc_write v) (438 AND NOT (fs_umask (view w1))) fds
            \<or> (\<exists>e d m. r = Thrown e \<and> view w2 = wrote (view w1) tmp i d m fds)))"
    using write_atomically_view [OF w1(1), of ?f "voc_write v" 438] by blast
  have result: "voc_write_default px getenv v w = (case r of
      Returned _ \<Rightarrow> Some (Returned (), snd (px_umask px (fs_umask (view w)) w2)) | _ \<Rightarrow> Some (r, w2))"
    using um run by (cases r) (simp_all add: voc_write_default_def voc_write_file_def)
  from res show ?thesis
  proof (elim disjE exE conjE)
    fix e
    assume "r = Thrown e" "view w2 = view w1"
    with result w1 w2 show ?thesis by (simp add: file_content_def)
  next
    fix tmp i fds
    assume "r = Returned ()" and w2': "view w2 = wrote (view w1) ?f i (voc_write v) (438 AND NOT (fs_umask (view w1))) fds"
    obtain old w3 where restore: "px_umask px (fs_umask (view w)) w2 = (old, w3)" by fastforce
    with umask_set [OF w2 restore] umask_low [OF sane] \<open>r = Returned ()\<close> result w1(2) w2' show ?thesis
      by (simp add: file_content_def wrote_def)
  next
    fix tmp i fds e d m
    assume "r = Thrown e" and new: "fs_names (view w1) tmp = None" "\<forall>q. fs_names (view w1) q \<noteq> Some i"
      and w2': "view w2 = wrote (view w1) tmp i d m fds"
    with result w1(2) w2 show ?thesis by (auto simp: file_content_def wrote_def)
  qed
qed

end

text \<open>
  C15: a vocabulary whose names and values can be written, in the sense of \<open>writable\<close>, and that is written to its default
  file is what a new \<open>Vocabulary\<close> reads from there, up to the cached short descriptions; the file can be read by everyone, and the umask of
  the process is as it was.
\<close>

theorem vocabulary_written_and_loaded:
  assumes "posix_fs px view sane" and "sane w" and "voc_inv v" and "writable v"
    and "voc_write_default px getenv v w = Some (Returned (), w1)"
    and "\<And>p. fopen p = map_option file_of (file_content (view w1) p)" and "exists (voc_pathname getenv)"
  shows "system_vocabulary exists fopen mtime getenv False
      = Some (None, (clear_cache v)\<lparr>m_timestamp := mtime (voc_pathname getenv)\<rparr>, [])
    \<and> map_option (fs_mode (view w1)) (fs_names (view w1) (voc_pathname getenv)) = Some 420
    \<and> fs_umask (view w1) = fs_umask (view w)"
  using posix_fs.voc_write_default_view [OF assms(1,2), of getenv v] assms(5-7) read_written [OF assms(3,4)]
  by (auto simp: system_vocabulary_def voc_load_def)

text \<open>
  when writing the default file throws, the umask of the process stays at 022, and every file
  that was there has the contents it had.
\<close>

theorem failed_vocabulary_write_keeps_umask:
  assumes "posix_fs px view sane" and "sane w" and "voc_write_default px getenv v w = Some (Thrown e, w')"
    and "file_content (view w) p \<noteq> None"
  shows "fs_umask (view w') = 18 \<and> file_content (view w') p = file_content (view w) p"
  using posix_fs.voc_write_default_view [OF assms(1,2), of getenv v] assms(3,4) by auto

subsection \<open>The tag database\<close>

lemma debtags_load_cases:
  assumes "debtags_load fopen stat2 p d n = (r, d', n')"
  obtains (not_open) e where "fopen p = Inl e" "r = Thrown (DtCannotOpen e p)" "d' = d" "n' = n"
    | (parsed) input err where "fopen p = Inr input" "parse input (tagdb d) = (tagdb d', err)" "n' = n" "r \<noteq> Undefined"
        "r = Returned () \<longleftrightarrow> err = None \<and> timestamp_or stat2 p 0 = Returned (dt_timestamp d')"
        "dt_timestamp d' = dt_timestamp d \<or> r = Returned ()"
proof (cases "fopen p")
  case (Inl e)
  with assms that(1) show ?thesis by (simp add: debtags_load_def)
next
  case (Inr input)
  obtain out err where run: "parse input (tagdb d) = (out, err)" by fastforce
  have "timestamp_or stat2 p 0 \<noteq> Undefined"
    by (auto simp: timestamp_or_def sys_stat_def split: sum.splits if_splits)
  with assms Inr run that(2) show ?thesis
    by (auto simp: debtags_load_def Let_def split: option.splits outcome.splits)
qed

text \<open>
  whatever the file has, \<open>load\<close> closes the stream that it opens and keeps the collection in
  order; it throws exactly when the file cannot be opened, read or asked for its time, and then the
  time stamp is not set, but the lines before an error are in the collection.
\<close>

theorem debtags_load_safe:
  assumes "fast_inv (tagdb d)" and "debtags_load fopen stat2 p d n = (r, d', n')"
  shows "n' = n \<and> fast_inv (tagdb d') \<and> tagging (tagdb d) \<subseteq> tagging (tagdb d') \<and> r \<noteq> Undefined
    \<and> (r \<noteq> Returned () \<longrightarrow> dt_timestamp d' = dt_timestamp d)
    \<and> (\<forall>input. fopen p = Inr input \<longrightarrow> tagdb d' = fst (parse input (tagdb d)))"
  using assms(2)
proof (cases rule: debtags_load_cases)
  case (parsed input err)
  from parse_keeps [OF assms(1) parsed(2)] parsed show ?thesis by auto
qed (use assms(1) in auto)

text \<open>
  a tag database in the format is read into exactly the pairs of its lines, and it has data
  when its time stamp is not 0.
\<close>

theorem debtags_reads_collection:
  assumes "\<forall>l\<in>set ls. line_ok l" and "fopen p = Inr (file_of (concat (map render_line ls)))" and "stat2 p = Inr st"
  shows "\<exists>d. open_debtags fopen stat2 p n = (Returned (), d, n)
    \<and> tagging (tagdb d) = (\<Union>(is, ts)\<in>set ls. set is \<times> set ts) \<and> (debtags_hasData d \<longleftrightarrow> st_mtime st \<noteq> 0)"
proof -
  from parse_rendered [OF assms(1) fast_empty_ok(1)] obtain out where
    "parse (file_of (concat (map render_line ls))) fast_empty = (out, None)"
    "tagging out = (\<Union>(is, ts)\<in>set ls. set is \<times> set ts) \<union> tagging fast_empty"
    by blast
  with assms(2,3) show ?thesis
    by (auto simp: open_debtags_def debtags_load_def new_debtags_def debtags_hasData_def timestamp_or_def sys_stat_def)
qed

subsection \<open>Where the index is\<close>

text \<open>Objects that override the directory, made in order and destroyed in the reverse order, around a use.\<close>

fun overridden :: "string list \<Rightarrow> (string \<Rightarrow> 'a) \<Rightarrow> string \<Rightarrow> 'a \<times> string" where
  "overridden [] use_dir m_index_dir = (use_dir m_index_dir, m_index_dir)"
| "overridden (p # ps) use_dir m_index_dir =
     (let (old, dir1) = override_index_dir p m_index_dir; (r, dir2) = overridden ps use_dir dir1
      in (r, end_override old dir2))"

text \<open>
  inside nested overrides the index is in the directory of the innermost one, and after them it is
  where it was.
\<close>

theorem overrides_nest: "overridden ps path_db dir = (joinpath2 (last (dir # ps)) ''/index'', dir)"
  by (induction ps arbitrary: dir) (auto simp: path_db_def override_index_dir_def end_override_def)

subsection \<open>On a file system in memory\<close>

text \<open>The file system of \<open>mem_start\<close> under another umask; writes of any data are complete when no chunks are given.\<close>

definition mem_masked :: "32 word \<Rightarrow> nat list \<Rightarrow> mem" where
  "mem_masked m chunks = (mem_start chunks)\<lparr>mem_fs := (mem_fs (mem_start chunks))\<lparr>fs_umask := m AND 511\<rparr>\<rparr>"

lemma mem_masked_sane: "mem_sane (mem_masked m chunks)"
  using mem_start_sane [of chunks] by (simp add: mem_masked_def mem_sane_def and.assoc)

lemma mem_default_run:
  assumes "voc_write v \<noteq> []"
  shows "\<exists>w. voc_write_default mem_posix Map.empty v (mem_masked 0 []) = Some (Returned (), w)"
  using assms by (simp add: voc_write_default_def voc_write_file_def voc_pathname_def mem_masked_def file_defs mem_defs
      write_all_loop.simps Let_def)

lemma mem_default_failing_run:
  assumes "voc_write v \<noteq> []"
  shows "\<exists>e w. voc_write_default mem_posix Map.empty v (mem_masked 0 [0]) = Some (Thrown e, w)"
  using assms by (simp add: voc_write_default_def voc_write_file_def voc_pathname_def mem_masked_def file_defs mem_defs
      write_all_loop.simps Let_def)

lemma sample_text: "voc_write sample_vocabulary \<noteq> []"
  by code_simp

theorem vocabulary_written_and_loaded_witness:
  "\<exists>w. voc_write_default mem_posix Map.empty sample_vocabulary (mem_masked 0 []) = Some (Returned (), w)
    \<and> system_vocabulary (\<lambda>_. True) (\<lambda>p. map_option file_of (file_content (mem_fs w) p)) (\<lambda>_. 7) Map.empty False
      = Some (None, (clear_cache sample_vocabulary)\<lparr>m_timestamp := 7\<rparr>, [])"
proof -
  obtain w where run: "voc_write_default mem_posix Map.empty sample_vocabulary (mem_masked 0 []) = Some (Returned (), w)"
    using mem_default_run [OF sample_text] by blast
  have "writable sample_vocabulary" by code_simp
  from vocabulary_written_and_loaded [OF memory.posix_fs_axioms mem_masked_sane sample_inv this run refl,
      where exists = "\<lambda>_. True" and mtime = "\<lambda>_. 7"] run
  show ?thesis by auto
qed

theorem failed_vocabulary_write_keeps_umask_witness:
  "\<exists>e w. voc_write_default mem_posix Map.empty sample_vocabulary (mem_masked 0 [0]) = Some (Thrown e, w)
    \<and> fs_umask (mem_fs (mem_masked 0 [0])) = 0 \<and> fs_umask (mem_fs w) = 18"
proof -
  obtain e w where run: "voc_write_default mem_posix Map.empty sample_vocabulary (mem_masked 0 [0]) = Some (Thrown e, w)"
    using mem_default_failing_run [OF sample_text] by blast
  have "file_content (mem_fs (mem_masked 0 [0])) ''f'' \<noteq> None"
    by (simp add: mem_masked_def mem_start_def file_content_def)
  from failed_vocabulary_write_keeps_umask [OF memory.posix_fs_axioms mem_masked_sane run this] run show ?thesis
    by (auto simp: mem_masked_def)
qed

theorem debtags_load_safe_witness:
  "\<exists>r d. debtags_load (\<lambda>_. Inr (file_of (''a: b'' @ [NL] @ ''c:,''))) (\<lambda>_. Inl ENOENT) ''tags'' new_debtags 0 = (r, d, 0)
    \<and> fast_inv (tagdb d)"
proof -
  obtain r d n where run: "debtags_load (\<lambda>_. Inr (file_of (''a: b'' @ [NL] @ ''c:,''))) (\<lambda>_. Inl ENOENT) ''tags'' new_debtags 0
      = (r, d, n)"
    by (metis surj_pair)
  moreover have "fast_inv (tagdb new_debtags)" using fast_empty_ok(1) by (simp add: new_debtags_def)
  ultimately show ?thesis using debtags_load_safe by blast
qed

theorem debtags_reads_collection_witness:
  "\<exists>d. open_debtags (\<lambda>_. Inr (file_of (''apt: use::x'' @ [NL])))
      (\<lambda>_. Inr \<lparr>st_type = S_IFREG, st_mtime = 5, st_size = 12, st_ino = 1\<rparr>) ''tags'' 0 = (Returned (), d, 0)
    \<and> tagging (tagdb d) = {(''apt'', ''use::x'')} \<and> debtags_hasData d"
proof -
  let ?ls = "[([''apt''], [''use::x''])]"
  have "\<forall>l\<in>set ?ls. line_ok l" by (simp add: line_ok_def elem_ok_def isblank_def)
  moreover have "concat (map render_line ?ls) = ''apt: use::x'' @ [NL]" by (simp add: render_line_def)
  ultimately show ?thesis
    using debtags_reads_collection [of ?ls "\<lambda>_. Inr (file_of (''apt: use::x'' @ [NL]))" "''tags''"
        "\<lambda>_. Inr \<lparr>st_type = S_IFREG, st_mtime = 5, st_size = 12, st_ino = 1\<rparr>"
        "\<lparr>st_type = S_IFREG, st_mtime = 5, st_size = 12, st_ino = 1\<rparr>" 0] by auto
qed

end
