(* ===== verification/AptCache.thy ===== *)
theory AptCache
  imports SysQueries Versions "HOL-Library.Word"
begin

unbundle bit_operations_syntax

section \<open>Access to the apt cache (ept/apt/apt.cc)\<close>

text \<open>
  \<open>Apt\<close> answers questions about packages from the cache of libapt-pkg, keeps the cache open and
  opens it again when it has changed.  libapt-pkg is an argument: a record of what its iterators
  return, with packages, versions and package files as numbers, and the end of an iterator as
  \<open>None\<close> or the empty list.
\<close>

subsection \<open>PackageState\<close>

datatype query =
    Install | Upgrade | Keep | Remove | Installed | Upgradable | NowBroken | WillBreak | ReInstall
  | Purge | Hold | Valid

fun query_shift :: "query \<Rightarrow> nat" where
  "query_shift Install = 0" | "query_shift Upgrade = 1" | "query_shift Keep = 2"
| "query_shift Remove = 3" | "query_shift Installed = 4" | "query_shift Upgradable = 5"
| "query_shift NowBroken = 6" | "query_shift WillBreak = 7" | "query_shift ReInstall = 8"
| "query_shift Purge = 9" | "query_shift Hold = 10" | "query_shift Valid = 11"

definition flag :: "query \<Rightarrow> 32 word" where
  "flag q = push_bit (query_shift q) 1"

text \<open>\<open>m_state & q\<close> as a truth value\<close>

definition has_flag :: "32 word \<Rightarrow> query \<Rightarrow> bool" where
  "has_flag m_state q \<longleftrightarrow> m_state AND flag q \<noteq> 0"

definition ps_or_assign :: "32 word \<Rightarrow> 32 word \<Rightarrow> 32 word" where
  "ps_or_assign m_state s = m_state OR s"

definition ps_empty :: "32 word" where
  "ps_empty = 0"

definition ps_isValid :: "32 word \<Rightarrow> bool" where
  "ps_isValid s = has_flag s Valid"

definition ps_install :: "32 word \<Rightarrow> bool" where
  "ps_install s = has_flag s Install"

definition ps_reinstall :: "32 word \<Rightarrow> bool" where
  "ps_reinstall s = has_flag s ReInstall"

definition ps_remove :: "32 word \<Rightarrow> bool" where
  "ps_remove s = has_flag s Remove"

definition ps_purge :: "32 word \<Rightarrow> bool" where
  "ps_purge s = has_flag s Purge"

definition ps_keep :: "32 word \<Rightarrow> bool" where
  "ps_keep s = has_flag s Keep"

definition ps_willBreak :: "32 word \<Rightarrow> bool" where
  "ps_willBreak s = has_flag s WillBreak"

definition ps_hold :: "32 word \<Rightarrow> bool" where
  "ps_hold s = has_flag s Hold"

definition ps_installed :: "32 word \<Rightarrow> bool" where
  "ps_installed s = has_flag s Installed"

definition ps_hasNewVersion :: "32 word \<Rightarrow> bool" where
  "ps_hasNewVersion s = has_flag s Upgradable"

definition ps_nowBroken :: "32 word \<Rightarrow> bool" where
  "ps_nowBroken s = has_flag s NowBroken"

definition ps_isInstalled :: "32 word \<Rightarrow> bool" where
  "ps_isInstalled s = ps_installed s"

definition ps_upgrade :: "32 word \<Rightarrow> bool" where
  "ps_upgrade s \<longleftrightarrow> ps_hasNewVersion s \<and> ps_install s"

definition ps_newInstall :: "32 word \<Rightarrow> bool" where
  "ps_newInstall s \<longleftrightarrow> \<not> ps_installed s \<and> ps_install s"

definition ps_upgradable :: "32 word \<Rightarrow> bool" where
  "ps_upgradable s \<longleftrightarrow> ps_hasNewVersion s \<and> \<not> ps_hold s"

definition ps_held :: "32 word \<Rightarrow> bool" where
  "ps_held s \<longleftrightarrow> ps_hasNewVersion s \<and> ps_hold s"

definition ps_modify :: "32 word \<Rightarrow> bool" where
  "ps_modify s \<longleftrightarrow> ps_install s \<or> ps_remove s"

named_theorems ps_defs \<open>the tests of a package state\<close>

lemmas [ps_defs] = ps_isValid_def ps_install_def ps_reinstall_def ps_remove_def ps_purge_def ps_keep_def
  ps_willBreak_def ps_hold_def ps_installed_def ps_hasNewVersion_def ps_nowBroken_def ps_isInstalled_def
  ps_upgrade_def ps_newInstall_def ps_upgradable_def ps_held_def ps_modify_def

lemma query_shift_less: "query_shift q < 32"
  by (cases q) simp_all

lemma query_shift_inject: "query_shift q = query_shift r \<longleftrightarrow> q = r"
  by (cases q; cases r) simp_all

lemma has_flag_bit: "has_flag s q \<longleftrightarrow> bit s (query_shift q)"
proof -
  have "s AND push_bit (query_shift q) 1 \<noteq> 0 \<longleftrightarrow> bit s (query_shift q)"
    using query_shift_less [of q] by (auto simp: and_exp_eq_0_iff_not_bit push_bit_eq_mult)
  then show ?thesis by (simp add: has_flag_def flag_def)
qed

lemma has_flag_OR: "has_flag (s OR t) q \<longleftrightarrow> has_flag s q \<or> has_flag t q"
  by (simp add: has_flag_bit bit_or_iff)

lemma has_flag_flag: "has_flag (flag r) q \<longleftrightarrow> r = q"
  using query_shift_less [of q] query_shift_inject [of r q]
  by (auto simp: has_flag_bit flag_def bit_exp_iff)

lemma has_flag_0: "\<not> has_flag 0 q"
  by (simp add: has_flag_def)

subsection \<open>What libapt-pkg provides\<close>

text \<open>
  A \<open>VerFile\<close> says where in a package file the record of a version is.  The fields of \<open>libapt\<close> are
  the calls that the code makes on \<open>pkgCache\<close>, \<open>pkgPolicy\<close> and the state cache of a package, and
  the constants it compares with.
\<close>

record ver_file =
  vf_File :: nat
  vf_Offset :: nat
  vf_Size :: nat

record libapt =
  FindPkg :: "string \<Rightarrow> nat option"
  PkgBegin :: "nat list"
  PackageCount :: nat
  PkgName :: "nat \<Rightarrow> string"
  VersionList :: "nat \<Rightarrow> nat list"
  VerStr :: "nat \<Rightarrow> string option"
  GetCandidateVer :: "nat \<Rightarrow> nat option"
  HasCurrentVer :: "nat \<Rightarrow> bool"
  CurrentVer :: "nat \<Rightarrow> nat option"
  CurrentState :: "nat \<Rightarrow> nat"
  State_ConfigFiles :: nat
  State_NotInstalled :: nat
  sc_Install :: "nat \<Rightarrow> bool"
  sc_Keep :: "nat \<Rightarrow> bool"
  sc_Delete :: "nat \<Rightarrow> bool"
  sc_NowBroken :: "nat \<Rightarrow> bool"
  sc_InstBroken :: "nat \<Rightarrow> bool"
  sc_iFlags :: "nat \<Rightarrow> 16 word"
  dep_ReInstall :: "16 word"
  dep_Purge :: "16 word"
  FileList :: "nat \<Rightarrow> ver_file list"
  FileFlags :: "nat \<Rightarrow> 32 word"
  Flag_NotSource :: "32 word"
  FileIsOk :: "nat \<Rightarrow> bool"
  FileName :: "nat \<Rightarrow> string"

subsection \<open>Errors\<close>

text \<open>
  An exception of \<open>Apt\<close> carries its message with the messages that are pending in libapt, which
  are taken off its stack; each is marked as an error or a warning.
\<close>

datatype apt_error = AptException string | AptSystemError sys_error

fun annotate_loop :: "string \<Rightarrow> (bool \<times> string) list \<Rightarrow> string" where
  "annotate_loop res [] = res"
| "annotate_loop res ((type, err) # pending) =
     annotate_loop (res @ (if type then ''E: '' @ err @ [NL] else ''W: '' @ err @ [NL])) pending"

definition apt_annotate_error_message :: "(bool \<times> string) list \<Rightarrow> string \<Rightarrow> string" where
  "apt_annotate_error_message pending message = annotate_loop (message @ '':'' @ [NL]) pending"

definition apt_exception :: "(bool \<times> string) list \<Rightarrow> string \<Rightarrow> apt_error" where
  "apt_exception pending message = AptException (apt_annotate_error_message pending message)"

subsection \<open>Versions of a package\<close>

text \<open>\<open>Version(pkg, vi.VerStr())\<close>; a \<open>std::string\<close> made from a null pointer is undefined.\<close>

definition version_of :: "libapt \<Rightarrow> string \<Rightarrow> nat \<Rightarrow> (apt_error, version) outcome" where
  "version_of apt pkg vi =
     of_option (map_option (\<lambda>v. \<lparr>m_name = pkg, m_version = v\<rparr>) (VerStr apt vi))"

definition no_version :: version where
  "no_version = \<lparr>m_name = [], m_version = []\<rparr>"

definition apt_isValid :: "libapt \<Rightarrow> string \<Rightarrow> bool" where
  "apt_isValid apt pkg \<longleftrightarrow> FindPkg apt pkg \<noteq> None"

definition apt_validate_name :: "libapt \<Rightarrow> string \<Rightarrow> string" where
  "apt_validate_name apt pkg = (if apt_isValid apt pkg then pkg else [])"

fun validate_loop :: "libapt \<Rightarrow> version \<Rightarrow> nat list \<Rightarrow> version" where
  "validate_loop apt ver [] = no_version"
| "validate_loop apt ver (vi # vis) =
     (case VerStr apt vi of
        None \<Rightarrow> validate_loop apt ver vis
      | Some v \<Rightarrow> if m_version ver = v then ver else validate_loop apt ver vis)"

definition apt_validate :: "libapt \<Rightarrow> version \<Rightarrow> version" where
  "apt_validate apt ver =
     (case FindPkg apt (m_name ver) of
        None \<Rightarrow> no_version
      | Some pi \<Rightarrow> validate_loop apt ver (VersionList apt pi))"

definition candidateVersion :: "libapt \<Rightarrow> string \<Rightarrow> (apt_error, version) outcome" where
  "candidateVersion apt pkg =
     (case FindPkg apt pkg of
        None \<Rightarrow> Returned no_version
      | Some pi \<Rightarrow>
          (case GetCandidateVer apt pi of
             None \<Rightarrow> Returned no_version
           | Some vi \<Rightarrow> version_of apt pkg vi))"

definition installedVersion :: "libapt \<Rightarrow> string \<Rightarrow> (apt_error, version) outcome" where
  "installedVersion apt pkg =
     (case FindPkg apt pkg of
        None \<Rightarrow> Returned no_version
      | Some pi \<Rightarrow>
          if \<not> HasCurrentVer apt pi then Returned no_version
          else (case CurrentVer apt pi of
             None \<Rightarrow> Returned no_version
           | Some vi \<Rightarrow> version_of apt pkg vi))"

definition anyVersion :: "libapt \<Rightarrow> string \<Rightarrow> (apt_error, version) outcome" where
  "anyVersion apt pkg =
     (case FindPkg apt pkg of
        None \<Rightarrow> Returned no_version
      | Some pi \<Rightarrow>
          (case GetCandidateVer apt pi of
             Some vi \<Rightarrow> version_of apt pkg vi
           | None \<Rightarrow>
               if \<not> HasCurrentVer apt pi then Returned no_version
               else (case CurrentVer apt pi of
                  None \<Rightarrow> Returned no_version
                | Some vi \<Rightarrow> version_of apt pkg vi)))"

subsection \<open>Opening the cache\<close>

text \<open>
  What the environment answers while the cache is opened: whether the calls of libapt succeed, the
  messages it leaves, the file system, and the names of the two files whose age counts.
\<close>

record apt_env =
  pkgInitConfig :: bool
  pkgInitSystem :: bool
  ReadMainList :: bool
  pkgMakeStatusCache :: bool
  ReadPinFile :: bool
  OpenDepCache :: bool
  pending :: "(bool \<times> string) list"
  env_stat :: "string \<Rightarrow> errno + file_stat"
  pkgcache_file :: string
  status_file :: string

text \<open>
  An \<open>AptImplementation\<close> that has been opened.  \<open>m_depcache\<close> is \<open>None\<close> for the null pointer and says
  of a \<open>pkgCacheFile\<close> that exists whether it could be opened.
\<close>

record apt_impl =
  m_open_timestamp :: int
  m_depcache :: "bool option"

datatype apt_member = SourceList | StatusCacheMap | PkgCache | PkgPolicy

definition aptTimestamp :: "apt_env \<Rightarrow> (apt_error, int) outcome" where
  "aptTimestamp env = map_outcome AptSystemError id
     (bind_outcome (timestamp_or (env_stat env) (pkgcache_file env) 0) (\<lambda>t1.
        bind_outcome (timestamp_or (env_stat env) (status_file env) 0) (\<lambda>t2.
          Returned (if t1 > t2 then t1 else t2))))"

text \<open>\<open>aptInit\<close> with the entry \<open>Initialized\<close> of the global configuration before and after it.\<close>

definition aptInit :: "apt_env \<Rightarrow> bool \<Rightarrow> (apt_error, unit) outcome \<times> bool" where
  "aptInit env initialized =
     (if initialized then (Returned (), initialized)
      else if \<not> pkgInitConfig env
        then (Thrown (apt_exception (pending env) ''initialising apt configuration''), False)
      else if \<not> pkgInitSystem env
        then (Thrown (apt_exception (pending env) ''initialising apt system''), True)
      else (Returned (), True))"

text \<open>
  The constructor.  When it throws, the destructor does not run, and what it has allocated so far
  is no longer owned: the third component of the result.
\<close>

definition apt_construct :: "apt_env \<Rightarrow> bool \<Rightarrow> (apt_error, apt_impl) outcome \<times> bool \<times> apt_member list" where
  "apt_construct env initialized =
     (let (r, ini) = aptInit env initialized
      in case r of
        Thrown e \<Rightarrow> (Thrown e, ini, [])
      | Undefined \<Rightarrow> (Undefined, ini, [])
      | Returned _ \<Rightarrow>
          (case aptTimestamp env of
             Thrown e \<Rightarrow> (Thrown e, ini, [])
           | Undefined \<Rightarrow> (Undefined, ini, [])
           | Returned t \<Rightarrow>
               if \<not> ReadMainList env
                 then (Thrown (apt_exception (pending env) ''reading list of sources''), ini, [SourceList])
               else if \<not> pkgMakeStatusCache env
                 then (Thrown (apt_exception (pending env) ''Reading the package lists or status file''), ini,
                   [SourceList])
               else if \<not> ReadPinFile env
                 then (Thrown (apt_exception (pending env) ''Reading the policy pin file''), ini,
                   [SourceList, StatusCacheMap, PkgCache, PkgPolicy])
               else (Returned \<lparr>m_open_timestamp = t, m_depcache = None\<rparr>, ini, [])))"

text \<open>\<open>depcache()\<close>: whether the cache file that it returns a reference to is open.\<close>

definition apt_depcache :: "apt_env \<Rightarrow> apt_impl \<Rightarrow> (apt_error, bool) outcome \<times> apt_impl" where
  "apt_depcache env impl =
     (case m_depcache impl of
        None \<Rightarrow>
          (if OpenDepCache env then (Returned True, impl\<lparr>m_depcache := Some True\<rparr>)
           else (Thrown (apt_exception (pending env) ''Opening the cache file''), impl\<lparr>m_depcache := Some False\<rparr>))
      | Some opened \<Rightarrow> (Returned opened, impl))"

text \<open>The pointer \<open>impl\<close> of an \<open>Apt\<close>.\<close>

datatype apt_ptr = Live apt_impl | Freed

definition checkCacheUpdates :: "apt_env \<Rightarrow> bool \<Rightarrow> apt_ptr \<Rightarrow> (apt_error, unit) outcome \<times> bool \<times> apt_ptr" where
  "checkCacheUpdates env initialized p =
     (case p of
        Freed \<Rightarrow> (Undefined, initialized, Freed)
      | Live impl \<Rightarrow>
          (case aptTimestamp env of
             Thrown e \<Rightarrow> (Thrown e, initialized, p)
           | Undefined \<Rightarrow> (Undefined, initialized, p)
           | Returned now \<Rightarrow>
               if m_open_timestamp impl < now then
                 (case apt_construct env initialized of
                    (Returned impl', ini, _) \<Rightarrow> (Returned (), ini, Live impl')
                  | (Thrown e, ini, _) \<Rightarrow> (Thrown e, ini, Freed)
                  | (Undefined, ini, _) \<Rightarrow> (Undefined, ini, Freed))
               else (Returned (), initialized, p)))"

definition invalidateTimestamp :: "apt_ptr \<Rightarrow> (apt_error, unit) outcome \<times> apt_ptr" where
  "invalidateTimestamp p =
     (case p of Freed \<Rightarrow> (Undefined, p) | Live impl \<Rightarrow> (Returned (), Live (impl\<lparr>m_open_timestamp := 0\<rparr>)))"

text \<open>\<open>~Apt\<close>; deleting a second time is undefined.\<close>

definition apt_destroy :: "apt_ptr \<Rightarrow> (apt_error, unit) outcome \<times> apt_ptr" where
  "apt_destroy p = (case p of Freed \<Rightarrow> (Undefined, Freed) | Live _ \<Rightarrow> (Returned (), Freed))"

subsection \<open>The state of a package\<close>

definition installed_flags :: "libapt \<Rightarrow> nat \<Rightarrow> 32 word \<Rightarrow> 32 word" where
  "installed_flags apt pi flags =
     (if CurrentState apt pi \<noteq> State_ConfigFiles apt \<and> CurrentState apt pi \<noteq> State_NotInstalled apt
         \<and> HasCurrentVer apt pi then
        (case CurrentVer apt pi of
           None \<Rightarrow> flags
         | Some inst \<Rightarrow>
             (case GetCandidateVer apt pi of
                None \<Rightarrow> flags OR flag Installed
              | Some cand \<Rightarrow>
                  if inst \<noteq> cand then flags OR flag Installed OR flag Upgradable else flags OR flag Installed))
      else flags)"

definition set_flag :: "bool \<Rightarrow> query \<Rightarrow> 32 word \<Rightarrow> 32 word" where
  "set_flag c q flags = (if c then flags OR flag q else flags)"

definition state_flags :: "libapt \<Rightarrow> nat \<Rightarrow> 32 word" where
  "state_flags apt pi =
     (let flags = installed_flags apt pi (flag Valid);
          flags = set_flag (sc_Install apt pi) Install flags;
          flags = set_flag (sc_iFlags apt pi AND dep_ReInstall apt = dep_ReInstall apt) ReInstall flags;
          flags = set_flag (sc_Keep apt pi) Keep flags;
          flags = set_flag (sc_Delete apt pi) Remove flags;
          flags = set_flag (sc_iFlags apt pi AND dep_Purge apt = dep_Purge apt) Purge flags;
          flags = set_flag (sc_NowBroken apt pi) NowBroken flags
      in set_flag (sc_InstBroken apt pi) WillBreak flags)"

text \<open>Indexing a cache file that is not open is undefined.\<close>

definition apt_state :: "libapt \<Rightarrow> apt_env \<Rightarrow> string \<Rightarrow> apt_ptr \<Rightarrow> (apt_error, 32 word) outcome \<times> apt_ptr" where
  "apt_state apt env pkg p =
     (case p of
        Freed \<Rightarrow> (Undefined, Freed)
      | Live impl \<Rightarrow>
          (case FindPkg apt pkg of
             None \<Rightarrow> (Returned ps_empty, p)
           | Some pi \<Rightarrow>
               (case apt_depcache env impl of
                  (Returned opened, impl') \<Rightarrow>
                    (if opened then Returned (state_flags apt pi) else Undefined, Live impl')
                | (Thrown e, impl') \<Rightarrow> (Thrown e, Live impl')
                | (Undefined, impl') \<Rightarrow> (Undefined, Live impl'))))"

subsection \<open>Iterating over the packages\<close>

text \<open>
  The package iterator that an \<open>Apt::Iterator\<close> owns is the list of the packages from its position
  on, and \<open>None\<close> is the null pointer of an end iterator.  Reading or advancing a null pointer or
  an iterator of libapt at its end is undefined.
\<close>

definition apt_begin :: "libapt \<Rightarrow> nat list option" where
  "apt_begin apt = Some (PkgBegin apt)"

definition apt_end :: "nat list option" where
  "apt_end = None"

definition apt_size :: "libapt \<Rightarrow> nat" where
  "apt_size apt = PackageCount apt"

fun skip_versionless :: "libapt \<Rightarrow> nat list \<Rightarrow> nat list" where
  "skip_versionless apt [] = []"
| "skip_versionless apt (p # ps) = (if VersionList apt p = [] then skip_versionless apt ps else p # ps)"

fun iter_next :: "libapt \<Rightarrow> nat list option \<Rightarrow> (apt_error, nat list option) outcome" where
  "iter_next apt (Some (p # ps)) =
     (let rest = skip_versionless apt ps in Returned (if rest = [] then None else Some rest))"
| "iter_next apt _ = Undefined"

fun iter_name :: "libapt \<Rightarrow> nat list option \<Rightarrow> (apt_error, string) outcome" where
  "iter_name apt (Some (p # ps)) = Returned (PkgName apt p)"
| "iter_name apt _ = Undefined"

definition iter_eq :: "nat list option \<Rightarrow> nat list option \<Rightarrow> bool" where
  "iter_eq i j = (case (i, j) of
      (None, None) \<Rightarrow> True | (None, _) \<Rightarrow> False | (_, None) \<Rightarrow> False | (Some a, Some b) \<Rightarrow> a = b)"

definition iter_neq :: "nat list option \<Rightarrow> nat list option \<Rightarrow> bool" where
  "iter_neq i j = (case (i, j) of
      (None, None) \<Rightarrow> False | (None, _) \<Rightarrow> True | (_, None) \<Rightarrow> True | (Some a, Some b) \<Rightarrow> a \<noteq> b)"

lemma skip_versionless_length: "length (skip_versionless apt ps) \<le> length ps"
  by (induction ps) auto

text \<open>The loop \<open>for (i = begin(); i != end(); ++i)\<close> over the names.\<close>

function iterate :: "libapt \<Rightarrow> nat list option \<Rightarrow> string list \<Rightarrow> (apt_error, string list) outcome" where
  "iterate apt i names =
     (if iter_neq i apt_end then
        (case iter_name apt i of
           Returned n \<Rightarrow>
             (case iter_next apt i of
                Returned i' \<Rightarrow> iterate apt i' (names @ [n])
              | Thrown e \<Rightarrow> Thrown e
              | Undefined \<Rightarrow> Undefined)
         | Thrown e \<Rightarrow> Thrown e
         | Undefined \<Rightarrow> Undefined)
      else Returned names)"
  by pat_completeness auto
termination
proof (relation "measure (\<lambda>(apt, i, names). case i of None \<Rightarrow> 0 | Some ps \<Rightarrow> Suc (length ps))", goal_cases)
  case (2 apt i names n i')
  then obtain p ps where i: "i = Some (p # ps)"
    by (cases "(apt, i)" rule: iter_next.cases) auto
  with 2 skip_versionless_length [of apt ps] show ?case
    by (auto simp: Let_def split: if_splits option.splits)
qed simp

declare iterate.simps [simp del]

subsection \<open>What the state says\<close>

lemma has_flag_set_flag: "has_flag (set_flag c r s) q \<longleftrightarrow> has_flag s q \<or> (c \<and> r = q)"
  by (simp add: set_flag_def has_flag_OR has_flag_flag)

lemma has_installed_flags:
  "has_flag (installed_flags apt pi s) q \<longleftrightarrow> has_flag s q
    \<or> (CurrentState apt pi \<noteq> State_ConfigFiles apt \<and> CurrentState apt pi \<noteq> State_NotInstalled apt
       \<and> HasCurrentVer apt pi \<and> CurrentVer apt pi \<noteq> None
       \<and> (q = Installed \<or> q = Upgradable \<and> GetCandidateVer apt pi \<noteq> None
            \<and> GetCandidateVer apt pi \<noteq> CurrentVer apt pi))"
  by (auto simp: installed_flags_def has_flag_OR has_flag_flag split: option.splits)

lemmas has_flag_simps = has_flag_set_flag has_installed_flags has_flag_flag has_flag_OR

lemma state_flags_query:
  "has_flag (state_flags apt pi) q \<longleftrightarrow> (case q of
      Valid \<Rightarrow> True
    | Installed \<Rightarrow> has_flag (installed_flags apt pi 0) Installed
    | Upgradable \<Rightarrow> has_flag (installed_flags apt pi 0) Upgradable
    | Install \<Rightarrow> sc_Install apt pi
    | ReInstall \<Rightarrow> sc_iFlags apt pi AND dep_ReInstall apt = dep_ReInstall apt
    | Keep \<Rightarrow> sc_Keep apt pi
    | Remove \<Rightarrow> sc_Delete apt pi
    | Purge \<Rightarrow> sc_iFlags apt pi AND dep_Purge apt = dep_Purge apt
    | NowBroken \<Rightarrow> sc_NowBroken apt pi
    | WillBreak \<Rightarrow> sc_InstBroken apt pi
    | Upgrade \<Rightarrow> False
    | Hold \<Rightarrow> False)"
  by (cases q) (simp_all add: state_flags_def Let_def has_flag_simps has_flag_0)

text \<open>A package is on disk when it is neither not installed nor down to its configuration files.\<close>

definition on_disk :: "libapt \<Rightarrow> nat \<Rightarrow> bool" where
  "on_disk apt pi \<longleftrightarrow> CurrentState apt pi \<notin> {State_ConfigFiles apt, State_NotInstalled apt}
     \<and> HasCurrentVer apt pi \<and> CurrentVer apt pi \<noteq> None"

text \<open>
  C26: what the tests of \<open>PackageState\<close> say of a package that exists.  It is installed when it is on
  disk, and has a new version when it is installed and the candidate is another version; the planned
  actions, reinstalling and purging included, are those of the state cache.  The flags
  \<open>Upgrade\<close> and \<open>Hold\<close> are never set, so that \<open>held\<close> is never and \<open>upgradable\<close> always the same as having
  a new version; \<open>upgrade\<close>, \<open>newInstall\<close> and \<open>modify\<close> are computed from the others.
\<close>

theorem state_reports:
  assumes "FindPkg apt pkg = Some pi" and "apt_state apt env pkg (Live impl) = (Returned s, p)"
  shows "ps_isValid s
    \<and> (ps_installed s \<longleftrightarrow> on_disk apt pi) \<and> (ps_isInstalled s \<longleftrightarrow> on_disk apt pi)
    \<and> (ps_hasNewVersion s \<longleftrightarrow> on_disk apt pi \<and> GetCandidateVer apt pi \<notin> {None, CurrentVer apt pi})
    \<and> (ps_install s \<longleftrightarrow> sc_Install apt pi) \<and> (ps_remove s \<longleftrightarrow> sc_Delete apt pi) \<and> (ps_keep s \<longleftrightarrow> sc_Keep apt pi)
    \<and> (ps_reinstall s \<longleftrightarrow> sc_iFlags apt pi AND dep_ReInstall apt = dep_ReInstall apt)
    \<and> (ps_purge s \<longleftrightarrow> sc_iFlags apt pi AND dep_Purge apt = dep_Purge apt)
    \<and> (ps_nowBroken s \<longleftrightarrow> sc_NowBroken apt pi) \<and> (ps_willBreak s \<longleftrightarrow> sc_InstBroken apt pi)
    \<and> (ps_upgrade s \<longleftrightarrow> ps_hasNewVersion s \<and> sc_Install apt pi)
    \<and> (ps_newInstall s \<longleftrightarrow> \<not> on_disk apt pi \<and> sc_Install apt pi)
    \<and> (ps_modify s \<longleftrightarrow> sc_Install apt pi \<or> sc_Delete apt pi)
    \<and> s AND flag Upgrade = 0 \<and> s AND flag Hold = 0
    \<and> \<not> ps_hold s \<and> \<not> ps_held s \<and> (ps_upgradable s \<longleftrightarrow> ps_hasNewVersion s)"
proof -
  have s: "s = state_flags apt pi"
    using assms by (auto simp: apt_state_def apt_depcache_def split: option.splits if_splits)
  have "\<not> has_flag s Upgrade" "\<not> has_flag s Hold" by (simp_all add: s state_flags_query)
  then have "s AND flag Upgrade = 0" "s AND flag Hold = 0" by (simp_all add: has_flag_def)
  then show ?thesis
    by (auto simp: s ps_defs state_flags_query has_installed_flags has_flag_0 on_disk_def)
qed

text \<open>The words that are a set of queries: none but the twelve flags of the enumeration is set.\<close>

definition ps_word :: "32 word \<Rightarrow> bool" where
  "ps_word s \<longleftrightarrow> take_bit 12 s = s"

lemma ps_word_bits: "ps_word s \<longleftrightarrow> (\<forall>n. bit s n \<longrightarrow> n < 12)"
proof -
  have "bit s n \<Longrightarrow> n < 32" for n using bit_imp_le_length [of s n] by simp
  then show ?thesis by (auto simp: ps_word_def bit_eq_iff bit_take_bit_iff)
qed

lemma ps_word_OR: "ps_word a \<Longrightarrow> ps_word b \<Longrightarrow> ps_word (a OR b)"
  by (auto simp: ps_word_bits bit_or_iff)

lemma ps_word_flag: "ps_word (flag q)"
proof -
  have "bit (flag q) n \<Longrightarrow> n = query_shift q" for n by (simp add: flag_def bit_exp_iff)
  moreover have "query_shift q < 12" by (cases q) simp_all
  ultimately show ?thesis by (auto simp: ps_word_bits)
qed

lemma ps_word_state_flags: "ps_word (state_flags apt pi)"
  by (simp add: state_flags_def installed_flags_def set_flag_def Let_def ps_word_OR ps_word_flag split: option.splits)

lemma query_shifts:
  "map query_shift [Install, Upgrade, Keep, Remove, Installed, Upgradable, NowBroken, WillBreak, ReInstall, Purge, Hold, Valid] = [0..<12]"
  by code_simp

lemma query_at:
  assumes "n < 12"
  shows "\<exists>q. query_shift q = n"
proof -
  from assms have "n \<in> set [0..<12]" unfolding set_upt by (simp only: atLeastLessThan_iff le0 simp_thms)
  then show ?thesis unfolding query_shifts [symmetric] list.set_map by (elim imageE) (intro exI, rule sym)
qed

text \<open>The bits that the word for a package has, numbered as in the enumeration of \<open>apt.h\<close>.\<close>

definition state_bit :: "libapt \<Rightarrow> nat \<Rightarrow> nat \<Rightarrow> bool" where
  "state_bit apt pi n \<longleftrightarrow>
     n = 0 \<and> sc_Install apt pi
   \<or> n = 2 \<and> sc_Keep apt pi
   \<or> n = 3 \<and> sc_Delete apt pi
   \<or> n = 4 \<and> on_disk apt pi
   \<or> n = 5 \<and> on_disk apt pi \<and> GetCandidateVer apt pi \<notin> {None, CurrentVer apt pi}
   \<or> n = 6 \<and> sc_NowBroken apt pi
   \<or> n = 7 \<and> sc_InstBroken apt pi
   \<or> n = 8 \<and> sc_iFlags apt pi AND dep_ReInstall apt = dep_ReInstall apt
   \<or> n = 9 \<and> sc_iFlags apt pi AND dep_Purge apt = dep_Purge apt
   \<or> n = 11"

lemma bit_state_flags: "bit (state_flags apt pi) n \<longleftrightarrow> state_bit apt pi n"
proof (cases "n < 12")
  case True
  then obtain q where n: "n = query_shift q" using query_at by metis
  show ?thesis
    unfolding n has_flag_bit [symmetric] state_flags_query
    by (cases q) (auto simp: state_bit_def on_disk_def has_installed_flags has_flag_0)
next
  case False
  then show ?thesis using ps_word_state_flags by (auto simp: ps_word_bits state_bit_def)
qed

text \<open>
  C35: what \<open>Apt::state\<close> returns, on every path.  An unknown package has the word 0, and the dependency cache
  is not opened for it.  For a known one the cache is opened on first use, and the word has exactly the
  bits of the enumeration whose facts hold, each in its place, and no other.  When opening the
  cache fails the exception leaves it unopened, and the next call uses it as it is.
\<close>

theorem apt_state_well_typed:
  fixes impl :: apt_impl and apt :: libapt and env :: apt_env and pkg :: string
  defines "state \<equiv> apt_state apt env pkg (Live impl)"
  shows "(FindPkg apt pkg = None \<longrightarrow> state = (Returned 0, Live impl))
    \<and> (\<forall>pi. FindPkg apt pkg = Some pi \<longrightarrow>
         (m_depcache impl = Some True \<or> m_depcache impl = None \<and> OpenDepCache env \<longrightarrow>
            (\<exists>s. state = (Returned s, Live (impl\<lparr>m_depcache := Some True\<rparr>)) \<and> (\<forall>n. bit s n \<longleftrightarrow> state_bit apt pi n)))
       \<and> (m_depcache impl = None \<and> \<not> OpenDepCache env \<longrightarrow>
            (\<exists>e. state = (Thrown e, Live (impl\<lparr>m_depcache := Some False\<rparr>))))
       \<and> (m_depcache impl = Some False \<longrightarrow> state = (Undefined, Live impl)))"
  by (auto simp: state_def apt_state_def apt_depcache_def ps_empty_def bit_state_flags)

subsection \<open>Versions that exist\<close>

text \<open>
  What libapt promises of the candidate and the current version: they are versions of the package,
  with a version string.
\<close>

definition versions_known :: "libapt \<Rightarrow> bool" where
  "versions_known apt \<longleftrightarrow>
     (\<forall>pi v. GetCandidateVer apt pi = Some v \<or> HasCurrentVer apt pi \<and> CurrentVer apt pi = Some v \<longrightarrow>
        v \<in> set (VersionList apt pi) \<and> VerStr apt v \<noteq> None)"

lemma validate_loop_found:
  "vi \<in> set vis \<Longrightarrow> VerStr apt vi = Some (m_version ver) \<Longrightarrow> validate_loop apt ver vis = ver"
  by (induction vis) (auto split: option.splits)

lemma validate_loop_absent:
  "\<forall>vi\<in>set vis. VerStr apt vi \<noteq> Some (m_version ver) \<Longrightarrow> validate_loop apt ver vis = no_version"
  by (induction vis) (auto split: option.splits)

lemma validate_known:
  assumes "FindPkg apt pkg = Some pi" "vi \<in> set (VersionList apt pi)" "VerStr apt vi = Some v"
  shows "apt_validate apt \<lparr>m_name = pkg, m_version = v\<rparr> = \<lparr>m_name = pkg, m_version = v\<rparr>"
  using assms validate_loop_found [OF assms(2), of apt "\<lparr>m_name = pkg, m_version = v\<rparr>"]
  by (simp add: apt_validate_def)

lemma version_queries:
  assumes "versions_known apt" and "pkg \<noteq> []"
  shows "\<exists>c i a. candidateVersion apt pkg = Returned c \<and> installedVersion apt pkg = Returned i
    \<and> anyVersion apt pkg = Returned a \<and> a = (if c = no_version then i else c)
    \<and> (a \<noteq> no_version \<longrightarrow> m_name a = pkg \<and> apt_validate apt a = a)
    \<and> (\<not> apt_isValid apt pkg \<longrightarrow> a = no_version)
    \<and> (\<forall>v. apt_validate apt \<lparr>m_name = pkg, m_version = v\<rparr> \<noteq> no_version \<longrightarrow>
         (\<exists>pi vi. FindPkg apt pkg = Some pi \<and> vi \<in> set (VersionList apt pi) \<and> VerStr apt vi = Some v))"
proof (cases "FindPkg apt pkg")
  case None
  then show ?thesis
    by (simp add: candidateVersion_def installedVersion_def anyVersion_def apt_validate_def apt_isValid_def)
next
  case (Some pi)
  have known: "vi \<in> set (VersionList apt pi) \<and> (\<exists>v. VerStr apt vi = Some v)"
    if "GetCandidateVer apt pi = Some vi \<or> HasCurrentVer apt pi \<and> CurrentVer apt pi = Some vi" for vi
    using assms(1) that by (auto simp: versions_known_def)
  have ver: "\<exists>v. version_of apt pkg vi = Returned v \<and> v \<noteq> no_version \<and> m_name v = pkg \<and> apt_validate apt v = v"
    if "GetCandidateVer apt pi = Some vi \<or> HasCurrentVer apt pi \<and> CurrentVer apt pi = Some vi" for vi
    using known [OF that] validate_known [OF Some, of vi] assms(2)
    by (auto simp: version_of_def no_version_def)
  have rejects: "\<exists>pi vi. FindPkg apt pkg = Some pi \<and> vi \<in> set (VersionList apt pi) \<and> VerStr apt vi = Some v"
    if "apt_validate apt \<lparr>m_name = pkg, m_version = v\<rparr> \<noteq> no_version" for v
    using that Some validate_loop_absent [of "VersionList apt pi" apt "\<lparr>m_name = pkg, m_version = v\<rparr>"]
    by (auto simp: apt_validate_def)
  have inst: "\<exists>i. installedVersion apt pkg = Returned i \<and> (i \<noteq> no_version \<longrightarrow> m_name i = pkg \<and> apt_validate apt i = i)"
    using Some ver by (fastforce simp: installedVersion_def split: option.splits)
  have valid: "apt_isValid apt pkg" using Some by (simp add: apt_isValid_def)
  have "\<exists>c i a. candidateVersion apt pkg = Returned c \<and> installedVersion apt pkg = Returned i
    \<and> anyVersion apt pkg = Returned a \<and> a = (if c = no_version then i else c)
    \<and> (a \<noteq> no_version \<longrightarrow> m_name a = pkg \<and> apt_validate apt a = a)"
  proof (cases "GetCandidateVer apt pi")
    case None
    then have "candidateVersion apt pkg = Returned no_version" "anyVersion apt pkg = installedVersion apt pkg"
      using Some by (simp_all add: candidateVersion_def anyVersion_def installedVersion_def)
    with inst show ?thesis by auto
  next
    case (Some vi)
    from ver [of vi] Some obtain c where c: "version_of apt pkg vi = Returned c" "c \<noteq> no_version"
      "m_name c = pkg" "apt_validate apt c = c" by blast
    with Some \<open>FindPkg apt pkg = Some pi\<close> have "candidateVersion apt pkg = Returned c" "anyVersion apt pkg = Returned c"
      by (simp_all add: candidateVersion_def anyVersion_def)
    with c inst show ?thesis by auto
  qed
  with rejects valid show ?thesis by blast
qed

text \<open>
  C28: \<open>anyVersion\<close> is the candidate version if there is one and the installed version otherwise;
  what it returns is a version of that package, which \<open>validate\<close> confirms.  \<open>validate\<close> rejects every
  version whose string is none of the package's.
\<close>

theorem anyVersion_validates:
  assumes "versions_known apt" and "pkg \<noteq> []"
  shows "\<exists>c i a. candidateVersion apt pkg = Returned c \<and> installedVersion apt pkg = Returned i
    \<and> anyVersion apt pkg = Returned a \<and> a = (if c = no_version then i else c)
    \<and> (a \<noteq> no_version \<longrightarrow> m_name a = pkg \<and> apt_validate apt a = a)
    \<and> (\<not> apt_isValid apt pkg \<longrightarrow> a = no_version)
    \<and> (\<forall>v. apt_validate apt \<lparr>m_name = pkg, m_version = v\<rparr> \<noteq> no_version \<longrightarrow>
         (\<exists>pi vi. FindPkg apt pkg = Some pi \<and> vi \<in> set (VersionList apt pi) \<and> VerStr apt vi = Some v))"
  using assms by (rule version_queries)

subsection \<open>Opening the cache again\<close>

text \<open>
  The time that counts for a file: a file that is not there counts as old, and there is no
  time when \<open>stat\<close> fails for another reason.
\<close>

definition file_time :: "apt_env \<Rightarrow> string \<Rightarrow> int option" where
  "file_time env f =
     (case env_stat env f of Inr st \<Rightarrow> Some (st_mtime st) | Inl e \<Rightarrow> if e = ENOENT then Some 0 else None)"

text \<open>Every call that opening the cache makes succeeds.\<close>

definition can_open :: "apt_env \<Rightarrow> bool \<Rightarrow> bool" where
  "can_open env initialized \<longleftrightarrow> (initialized \<or> pkgInitConfig env \<and> pkgInitSystem env)
     \<and> ReadMainList env \<and> pkgMakeStatusCache env \<and> ReadPinFile env"

lemma timestamp_or_time:
  "(case file_time env f of
      Some t \<Rightarrow> timestamp_or (env_stat env) f 0 = Returned t
    | None \<Rightarrow> \<exists>e. timestamp_or (env_stat env) f 0 = Thrown e)"
  by (auto simp: file_time_def timestamp_or_def sys_stat_def split: sum.splits)

lemma aptTimestamp_max:
  assumes "file_time env (pkgcache_file env) = Some t1" and "file_time env (status_file env) = Some t2"
  shows "aptTimestamp env = Returned (max t1 t2)"
  using timestamp_or_time [of env "pkgcache_file env"] timestamp_or_time [of env "status_file env"] assms
  by (simp add: aptTimestamp_def max_def)

lemma aptTimestamp_throws:
  assumes "file_time env (pkgcache_file env) = None \<or> file_time env (status_file env) = None"
  shows "\<exists>e. aptTimestamp env = Thrown e"
  using timestamp_or_time [of env "pkgcache_file env"] timestamp_or_time [of env "status_file env"] assms
  by (auto simp: aptTimestamp_def split: option.splits)

lemma apt_construct_outcome:
  assumes "aptTimestamp env = Returned t"
  shows "if can_open env ini then apt_construct env ini = (Returned \<lparr>m_open_timestamp = t, m_depcache = None\<rparr>, True, [])
    else \<exists>e ini' lost. apt_construct env ini = (Thrown e, ini', lost)"
  using assms by (auto simp: can_open_def apt_construct_def aptInit_def Let_def)

text \<open>
  C27: \<open>checkCacheUpdates\<close> opens the cache again exactly when the package cache or the status file is newer
  than the cache that is open.  When every step of that succeeds, the new cache has the time of the newer
  of the two files, its dependency cache is not opened yet, and a second check changes nothing.  When a step fails,
  the exception leaves a pointer to the deleted cache, and every later call on the object, its destructor included,
  uses it.  When the time of a file cannot be read, the exception leaves the object as it is.
\<close>

theorem checkCacheUpdates_reopens:
  fixes impl :: apt_impl and env :: apt_env and ini :: bool
  defines "check \<equiv> checkCacheUpdates env ini (Live impl)"
    and "newer \<equiv> \<lambda>t. m_open_timestamp impl < t"
  assumes "file_time env (pkgcache_file env) = Some t1" and "file_time env (status_file env) = Some t2"
  shows "(\<not> newer t1 \<and> \<not> newer t2 \<longrightarrow> check = (Returned (), ini, Live impl))
    \<and> ((newer t1 \<or> newer t2) \<and> can_open env ini \<longrightarrow>
        (let impl' = \<lparr>m_open_timestamp = max t1 t2, m_depcache = None\<rparr>
         in check = (Returned (), True, Live impl')
          \<and> checkCacheUpdates env True (Live impl') = (Returned (), True, Live impl')))
    \<and> ((newer t1 \<or> newer t2) \<and> \<not> can_open env ini \<longrightarrow>
        (\<exists>e ini'. check = (Thrown e, ini', Freed))
        \<and> (\<forall>env' ini' apt pkg. checkCacheUpdates env' ini' Freed = (Undefined, ini', Freed)
            \<and> apt_destroy Freed = (Undefined, Freed) \<and> apt_state apt env' pkg Freed = (Undefined, Freed)))
    \<and> (\<forall>env'. file_time env' (pkgcache_file env') = None \<or> file_time env' (status_file env') = None \<longrightarrow>
        (\<exists>e. checkCacheUpdates env' ini (Live impl) = (Thrown e, ini, Live impl)))"
proof -
  have t: "aptTimestamp env = Returned (max t1 t2)" using assms(3,4) by (rule aptTimestamp_max)
  have older: "checkCacheUpdates env i (Live im) = (Returned (), i, Live im)" if "\<not> m_open_timestamp im < max t1 t2" for i im
    using that by (simp add: checkCacheUpdates_def t)
  have reopens: "checkCacheUpdates env ini (Live impl) = (case apt_construct env ini of
      (Returned impl', ini', _) \<Rightarrow> (Returned (), ini', Live impl') | (Thrown e, ini', _) \<Rightarrow> (Thrown e, ini', Freed)
    | (Undefined, ini', _) \<Rightarrow> (Undefined, ini', Freed))" if "newer t1 \<or> newer t2"
    using that by (auto simp: newer_def checkCacheUpdates_def t)
  have throws: "\<exists>e. checkCacheUpdates env' ini (Live impl) = (Thrown e, ini, Live impl)"
    if "file_time env' (pkgcache_file env') = None \<or> file_time env' (status_file env') = None" for env'
    using aptTimestamp_throws [OF that] by (auto simp: checkCacheUpdates_def)
  have freed: "checkCacheUpdates env' ini' Freed = (Undefined, ini', Freed) \<and> apt_destroy Freed = (Undefined, Freed)
      \<and> apt_state apt env' pkg Freed = (Undefined, Freed)" for env' ini' apt pkg
    by (simp add: checkCacheUpdates_def apt_destroy_def apt_state_def)
  show ?thesis
    using older [of impl ini] older [of "\<lparr>m_open_timestamp = max t1 t2, m_depcache = None\<rparr>" True] reopens throws freed
      apt_construct_outcome [OF t, of ini]
    by (auto simp: check_def newer_def Let_def)
qed

text \<open>
  two failures are remembered as successes.  When \<open>pkgInitSystem\<close> fails, the next attempt to
  open the cache skips the initialisation; and when the dependency cache cannot be opened, the
  next request for the state of a package uses it all the same.
\<close>

theorem failed_initialisation_not_retried:
  assumes "pkgInitConfig env" and "\<not> pkgInitSystem env" and "FindPkg apt pkg = Some pi"
    and "m_depcache impl = None" and "\<not> OpenDepCache env"
  shows "(\<exists>e. apt_construct env False = (Thrown e, True, [])) \<and> aptInit env' True = (Returned (), True)
    \<and> (\<exists>e p. apt_state apt env pkg (Live impl) = (Thrown e, p) \<and> apt_state apt env' pkg p = (Undefined, p))"
  using assms by (simp add: apt_construct_def aptInit_def apt_state_def apt_depcache_def)

subsection \<open>Iterating\<close>

lemma skip_versionless_eq: "skip_versionless apt ps = dropWhile (\<lambda>p. VersionList apt p = []) ps"
  by (induction ps) auto

lemma iterate_from:
  "iterate apt (Some (p # ps)) names
    = Returned (names @ map (PkgName apt) (p # filter (\<lambda>q. VersionList apt q \<noteq> []) ps))"
proof (induction "length ps" arbitrary: p ps names rule: less_induct)
  case less
  let ?rest = "skip_versionless apt ps"
  have rest: "filter (\<lambda>q. VersionList apt q \<noteq> []) ps = filter (\<lambda>q. VersionList apt q \<noteq> []) ?rest"
    by (induction ps) auto
  show ?case
  proof (cases ?rest)
    case Nil
    with rest show ?thesis
      by (subst iterate.simps, simp add: iter_neq_def apt_end_def, subst iterate.simps, simp add: iter_neq_def apt_end_def)
  next
    case (Cons q qs)
    then have "VersionList apt q \<noteq> []" by (simp add: skip_versionless_eq dropWhile_eq_Cons_conv)
    moreover have "length qs < length ps" using Cons skip_versionless_length [of apt ps] by simp
    ultimately show ?thesis
      using less.hyps [of qs q "names @ [PkgName apt p]"] rest Cons
      by (subst iterate.simps) (simp add: iter_neq_def apt_end_def)
  qed
qed

lemma iterate_all:
  "iterate apt (apt_begin apt) [] =
    (case PkgBegin apt of
       [] \<Rightarrow> Undefined
     | p # ps \<Rightarrow> Returned (map (PkgName apt) (p # filter (\<lambda>q. VersionList apt q \<noteq> []) ps)))"
  by (cases "PkgBegin apt")
    (simp_all add: apt_begin_def iterate_from iterate.simps [of apt "Some []"] iter_neq_def apt_end_def)

text \<open>
  a loop from \<open>begin()\<close> to \<open>end()\<close> visits the packages that have versions, in the order of the
  cache, and also the first package of the cache when it has none, which \<open>begin()\<close> does not skip.
  On a cache without packages \<open>begin()\<close> is not \<open>end()\<close>, and the loop reads an iterator at its end.
\<close>

theorem iterate_visits:
  "iterate apt (apt_begin apt) [] =
    (case PkgBegin apt of
       [] \<Rightarrow> Undefined
     | p # ps \<Rightarrow> Returned (map (PkgName apt) (p # filter (\<lambda>q. VersionList apt q \<noteq> []) ps)))"
  by (rule iterate_all)

subsection \<open>Witnesses\<close>

text \<open>A cache with one package, installed at version 1 and with the candidate 2.\<close>

definition sample_apt :: libapt where
  "sample_apt = \<lparr>FindPkg = (\<lambda>n. if n = ''apt'' then Some 0 else None), PkgBegin = [0], PackageCount = 1,
     PkgName = (\<lambda>p. ''apt''), VersionList = (\<lambda>p. [2, 1]), VerStr = (\<lambda>v. Some (if v = 1 then ''1'' else ''2'')),
     GetCandidateVer = (\<lambda>p. Some 2), HasCurrentVer = (\<lambda>p. True), CurrentVer = (\<lambda>p. Some 1),
     CurrentState = (\<lambda>p. 6), State_ConfigFiles = 5, State_NotInstalled = 0,
     sc_Install = (\<lambda>p. True), sc_Keep = (\<lambda>p. False), sc_Delete = (\<lambda>p. False), sc_NowBroken = (\<lambda>p. False),
     sc_InstBroken = (\<lambda>p. False), sc_iFlags = (\<lambda>p. 0), dep_ReInstall = 4, dep_Purge = 2,
     FileList = (\<lambda>v. [\<lparr>vf_File = 0, vf_Offset = 0, vf_Size = 4\<rparr>]), FileFlags = (\<lambda>f. 0), Flag_NotSource = 1,
     FileIsOk = (\<lambda>f. True), FileName = (\<lambda>f. ''f'')\<rparr>"

definition sample_env :: apt_env where
  "sample_env = \<lparr>pkgInitConfig = True, pkgInitSystem = True, ReadMainList = True, pkgMakeStatusCache = True,
     ReadPinFile = True, OpenDepCache = True, pending = [],
     env_stat = (\<lambda>f. Inr \<lparr>st_type = S_IFREG, st_mtime = 7, st_size = 0, st_ino = 1\<rparr>),
     pkgcache_file = ''c'', status_file = ''s''\<rparr>"

theorem state_reports_witness:
  "fst (apt_state sample_apt sample_env ''apt'' (Live \<lparr>m_open_timestamp = 0, m_depcache = None\<rparr>))
      = Returned (state_flags sample_apt 0)
    \<and> ps_upgradable (state_flags sample_apt 0) \<and> ps_install (state_flags sample_apt 0)"
proof -
  let ?p = "Live \<lparr>m_open_timestamp = 0, m_depcache = None\<rparr>"
  have run: "apt_state sample_apt sample_env ''apt'' ?p
      = (Returned (state_flags sample_apt 0), Live \<lparr>m_open_timestamp = 0, m_depcache = Some True\<rparr>)"
    by (simp add: apt_state_def apt_depcache_def sample_apt_def sample_env_def)
  have find: "FindPkg sample_apt ''apt'' = Some 0" by (simp add: sample_apt_def)
  have "on_disk sample_apt 0" by (simp add: on_disk_def) (simp add: sample_apt_def)
  with state_reports [OF find run] run show ?thesis by (simp add: sample_apt_def)
qed

theorem apt_state_well_typed_witness:
  "\<exists>s p. apt_state sample_apt sample_env ''apt'' (Live \<lparr>m_open_timestamp = 0, m_depcache = None\<rparr>) = (Returned s, p)
    \<and> bit s 0 \<and> bit s 5 \<and> \<not> bit s 1 \<and> \<not> bit s 3"
proof -
  have "FindPkg sample_apt ''apt'' = Some 0" "OpenDepCache sample_env"
    by (simp_all add: sample_apt_def sample_env_def)
  with apt_state_well_typed [of sample_apt "''apt''" sample_env "\<lparr>m_open_timestamp = 0, m_depcache = None\<rparr>"]
  obtain s where "apt_state sample_apt sample_env ''apt'' (Live \<lparr>m_open_timestamp = 0, m_depcache = None\<rparr>)
      = (Returned s, Live \<lparr>m_open_timestamp = 0, m_depcache = Some True\<rparr>)" "\<And>n. bit s n \<longleftrightarrow> state_bit sample_apt 0 n"
    by auto
  moreover have "state_bit sample_apt 0 0" "state_bit sample_apt 0 5" "\<not> state_bit sample_apt 0 1" "\<not> state_bit sample_apt 0 3"
    by (simp_all add: state_bit_def on_disk_def) (simp_all add: sample_apt_def)
  ultimately show ?thesis by blast
qed

theorem anyVersion_validates_witness:
  "anyVersion sample_apt ''apt'' = Returned \<lparr>m_name = ''apt'', m_version = ''2''\<rparr>
    \<and> apt_validate sample_apt \<lparr>m_name = ''apt'', m_version = ''2''\<rparr> = \<lparr>m_name = ''apt'', m_version = ''2''\<rparr>"
proof -
  have "versions_known sample_apt" by (simp add: versions_known_def sample_apt_def)
  moreover have "anyVersion sample_apt ''apt'' = Returned \<lparr>m_name = ''apt'', m_version = ''2''\<rparr>"
    by (simp add: anyVersion_def version_of_def sample_apt_def)
  ultimately show ?thesis
    using anyVersion_validates [of sample_apt "''apt''"] by (auto simp: no_version_def)
qed

theorem checkCacheUpdates_reopens_witness:
  "checkCacheUpdates sample_env True (Live \<lparr>m_open_timestamp = 3, m_depcache = Some True\<rparr>)
      = (Returned (), True, Live \<lparr>m_open_timestamp = 7, m_depcache = None\<rparr>)
    \<and> snd (snd (checkCacheUpdates (sample_env\<lparr>ReadPinFile := False\<rparr>) True
         (Live \<lparr>m_open_timestamp = 3, m_depcache = None\<rparr>))) = Freed"
proof -
  have times: "file_time sample_env f = Some 7" "file_time (sample_env\<lparr>ReadPinFile := False\<rparr>) f = Some 7" for f
    by (simp_all add: file_time_def sample_env_def)
  moreover have "can_open sample_env True" "\<not> can_open (sample_env\<lparr>ReadPinFile := False\<rparr>) True"
    by (simp_all add: can_open_def sample_env_def)
  ultimately show ?thesis
    using checkCacheUpdates_reopens [OF times(1,1), of "\<lparr>m_open_timestamp = 3, m_depcache = Some True\<rparr>" True]
      checkCacheUpdates_reopens [OF times(2,2), of "\<lparr>m_open_timestamp = 3, m_depcache = None\<rparr>" True]
    by (auto simp: Let_def)
qed

theorem failed_initialisation_not_retried_witness:
  "\<exists>e p. apt_state sample_apt (sample_env\<lparr>pkgInitSystem := False, OpenDepCache := False\<rparr>) ''apt''
      (Live \<lparr>m_open_timestamp = 0, m_depcache = None\<rparr>) = (Thrown e, p)
    \<and> apt_state sample_apt sample_env ''apt'' p = (Undefined, p)"
  using failed_initialisation_not_retried [of "sample_env\<lparr>pkgInitSystem := False, OpenDepCache := False\<rparr>"
      sample_apt "''apt''" 0 "\<lparr>m_open_timestamp = 0, m_depcache = None\<rparr>" sample_env]
  by (simp add: sample_env_def sample_apt_def)

end
