(* ===== verification/AptRecords.thy ===== *)
theory AptRecords
  imports AptCache StdSort "HOL-Library.Product_Lexorder"
begin

section \<open>Package records from the package lists (ept/apt/apt.cc)\<close>

text \<open>
  The records of packages are read from the package lists, either one record by name or all of
  them in the order in which they are on disk.  The file of libapt is an argument; the locale
  \<open>file_fd\<close> is what the code relies on: a file opens at its start, \<open>Seek\<close> moves to a position
  inside it, and \<open>Read\<close> returns exactly the bytes asked for and moves on.
\<close>

subsection \<open>The files of libapt\<close>

record 'fd filefd =
  fd_Open :: "string \<Rightarrow> 'fd option"
  fd_Seek :: "'fd \<Rightarrow> nat \<Rightarrow> bool \<times> 'fd"
  fd_Read :: "'fd \<Rightarrow> nat \<Rightarrow> string option \<times> 'fd"

locale file_fd =
  fixes io :: "'fd filefd"
    and contents :: "string \<Rightarrow> string option"
    and view :: "'fd \<Rightarrow> string \<times> nat"
  assumes open_some: "contents f = Some c \<Longrightarrow> \<exists>fd. fd_Open io f = Some fd \<and> view fd = (c, 0)"
    and open_none: "contents f = None \<Longrightarrow> fd_Open io f = None"
    and seek_ok: "view fd = (c, p) \<Longrightarrow> q \<le> length c \<Longrightarrow> \<exists>fd'. fd_Seek io fd q = (True, fd') \<and> view fd' = (c, q)"
    and read_ok: "view fd = (c, p) \<Longrightarrow> p + n \<le> length c \<Longrightarrow>
      \<exists>fd'. fd_Read io fd n = (Some (take n (drop p c)), fd') \<and> view fd' = (c, p + n)"

text \<open>A file in memory.\<close>

definition mem_io :: "(string \<Rightarrow> string option) \<Rightarrow> (string \<times> nat) filefd" where
  "mem_io contents = \<lparr>fd_Open = (\<lambda>n. map_option (\<lambda>c. (c, 0)) (contents n)),
     fd_Seek = (\<lambda>(c, p) q. if q \<le> length c then (True, (c, q)) else (False, (c, p))),
     fd_Read = (\<lambda>(c, p) n. if p + n \<le> length c then (Some (take n (drop p c)), (c, p + n)) else (None, (c, p)))\<rparr>"

interpretation mem: file_fd "mem_io contents" contents "\<lambda>fd. fd"
  by unfold_locales (auto simp: mem_io_def)

subsection \<open>The record of one version\<close>

definition is_source :: "libapt \<Rightarrow> ver_file \<Rightarrow> bool" where
  "is_source apt vf \<longleftrightarrow> FileFlags apt (vf_File vf) AND Flag_NotSource apt = 0"

text \<open>The loop over a file list that stops at the first file that is a source: the rest of the list.\<close>

fun first_source :: "libapt \<Rightarrow> ver_file list \<Rightarrow> ver_file list" where
  "first_source apt [] = []"
| "first_source apt (vf # vfs) = (if is_source apt vf then vf # vfs else first_source apt vfs)"

definition read_version ::
  "libapt \<Rightarrow> 'fd filefd \<Rightarrow> bool \<Rightarrow> (bool \<times> string) list \<Rightarrow> nat \<Rightarrow> (apt_error, string) outcome" where
  "read_version apt io PendingError msgs vi =
     (let vfi = first_source apt (FileList apt vi);
          vfi = (if vfi = [] then FileList apt vi else vfi)
      in case vfi of
        [] \<Rightarrow> Undefined
      | vf # _ \<Rightarrow>
          if \<not> FileIsOk apt (vf_File vf)
            then Thrown (apt_exception msgs (''Reading the data record for a package version from file ''
              @ FileName apt (vf_File vf)))
          else (case fd_Open io (FileName apt (vf_File vf)) of
             None \<Rightarrow> Returned []
           | Some fd \<Rightarrow>
               if PendingError then Returned []
               else (case fd_Seek io fd (vf_Offset vf) of
                  (False, _) \<Rightarrow> Returned []
                | (True, fd) \<Rightarrow>
                    (case fst (fd_Read io fd (vf_Size vf)) of
                       None \<Rightarrow> Returned []
                     | Some data \<Rightarrow> Returned data))))"

fun rawRecord_loop ::
  "libapt \<Rightarrow> 'fd filefd \<Rightarrow> bool \<Rightarrow> (bool \<times> string) list \<Rightarrow> version \<Rightarrow> nat list \<Rightarrow> (apt_error, string) outcome" where
  "rawRecord_loop apt io pe msgs ver [] = Returned []"
| "rawRecord_loop apt io pe msgs ver (vi # vis) =
     (case VerStr apt vi of
        None \<Rightarrow> rawRecord_loop apt io pe msgs ver vis
      | Some v \<Rightarrow>
          if m_version ver = v then read_version apt io pe msgs vi
          else rawRecord_loop apt io pe msgs ver vis)"

definition rawRecord ::
  "libapt \<Rightarrow> 'fd filefd \<Rightarrow> bool \<Rightarrow> (bool \<times> string) list \<Rightarrow> version \<Rightarrow> (apt_error, string) outcome" where
  "rawRecord apt io pe msgs ver =
     (case FindPkg apt (m_name ver) of
        None \<Rightarrow> Returned []
      | Some pi \<Rightarrow> rawRecord_loop apt io pe msgs ver (VersionList apt pi))"

definition rawRecord_name ::
  "libapt \<Rightarrow> 'fd filefd \<Rightarrow> bool \<Rightarrow> (bool \<times> string) list \<Rightarrow> string \<Rightarrow> (apt_error, string) outcome" where
  "rawRecord_name apt io pe msgs pkg = bind_outcome (anyVersion apt pkg) (rawRecord apt io pe msgs)"

subsection \<open>The records in the order of the disk\<close>

text \<open>The order of pointers to \<open>VerFile\<close>s, null pointers first.\<close>

fun localityCompare :: "ver_file option \<Rightarrow> ver_file option \<Rightarrow> bool" where
  "localityCompare None None = False"
| "localityCompare None (Some b) = True"
| "localityCompare (Some a) None = False"
| "localityCompare (Some a) (Some b) =
     (if vf_File a = vf_File b then vf_Offset a < vf_Offset b else vf_File a < vf_File b)"

text \<open>
  The file to read the record of the chosen version \<open>vi\<close> from.  When it is in no source, the
  package's other versions are searched for a source, and finding one selects the first file of
  \<open>vi\<close> again.  A result of \<open>[]\<close> is an iterator at its end.
\<close>

fun other_sources :: "libapt \<Rightarrow> nat \<Rightarrow> nat list \<Rightarrow> ver_file list" where
  "other_sources apt vi [] = []"
| "other_sources apt vi (v # vs) =
     (let vfi = (if first_source apt (FileList apt v) \<noteq> [] then FileList apt vi else [])
      in if vfi \<noteq> [] then vfi else other_sources apt vi vs)"

definition select_file :: "libapt \<Rightarrow> nat \<Rightarrow> nat \<Rightarrow> ver_file list" where
  "select_file apt pi vi =
     (let vfi = first_source apt (FileList apt vi)
      in if vfi = [] then other_sources apt vi (VersionList apt pi) else vfi)"

fun populate :: "libapt \<Rightarrow> nat list \<Rightarrow> (apt_error, ver_file list) outcome" where
  "populate apt [] = Returned []"
| "populate apt (pi # pis) =
     (if VersionList apt pi = [] then populate apt pis
      else if GetCandidateVer apt pi = None \<and> \<not> HasCurrentVer apt pi then populate apt pis
      else (case (case GetCandidateVer apt pi of None \<Rightarrow> CurrentVer apt pi | Some vi \<Rightarrow> Some vi) of
         None \<Rightarrow> Undefined
       | Some vi \<Rightarrow>
           bind_outcome (populate apt pis) (\<lambda>vfs.
             Returned (case select_file apt pi vi of [] \<Rightarrow> vfs | vf # _ \<Rightarrow> vf # vfs))))"

text \<open>
  A \<open>RecordIteratorImpl\<close>: its reference count, the files, and the file that is open with the
  position after the last read.  \<open>lastFile\<close> is \<open>None\<close> until a file has been chosen.
\<close>

record 'fd rec_impl =
  ref_count :: int
  vflist :: "ver_file list"
  lastFile :: "nat option"
  rec_fd :: "'fd option"
  lastOffset :: nat

definition new_rec_impl ::
  "((ver_file \<Rightarrow> ver_file \<Rightarrow> bool) \<Rightarrow> ver_file list \<Rightarrow> ver_file list) \<Rightarrow> libapt \<Rightarrow> nat
    \<Rightarrow> (apt_error, 'fd rec_impl) outcome" where
  "new_rec_impl srt apt junk =
     bind_outcome (populate apt (PkgBegin apt)) (\<lambda>vfs.
       Returned \<lparr>ref_count = 0, vflist = srt (\<lambda>a b. localityCompare (Some a) (Some b)) vfs,
         lastFile = None, rec_fd = None, lastOffset = junk\<rparr>)"

definition rec_size :: "'fd rec_impl \<Rightarrow> nat" where
  "rec_size impl = length (vflist impl)"

text \<open>Opening the file of a record unless it is the one that was used last.\<close>

definition rec_open ::
  "'fd filefd \<Rightarrow> libapt \<Rightarrow> (bool \<times> string) list \<Rightarrow> nat \<Rightarrow> 'fd rec_impl \<Rightarrow> (apt_error, unit) outcome \<times> 'fd rec_impl" where
  "rec_open io apt msgs f impl =
     (if lastFile impl = Some f then (Returned (), impl)
      else let impl1 = impl\<lparr>lastFile := Some f\<rparr>
        in if \<not> FileIsOk apt f
             then (Thrown (apt_exception msgs (''Reading the data record for a package from file '' @ FileName apt f)), impl1)
           else let impl2 = impl1\<lparr>rec_fd := None\<rparr>
             in case fd_Open io (FileName apt f) of
               None \<Rightarrow> (Thrown (apt_exception msgs (''Opening file '' @ FileName apt f)), impl2)
             | Some fd \<Rightarrow> (Returned (), impl2\<lparr>rec_fd := Some fd, lastOffset := 0\<rparr>))"

text \<open>\<open>Seek\<close> and \<open>Read\<close> on the member \<open>file\<close>, which fail when it is not open.\<close>

definition rec_seek :: "'fd filefd \<Rightarrow> nat \<Rightarrow> 'fd rec_impl \<Rightarrow> bool \<times> 'fd rec_impl" where
  "rec_seek io q impl =
     (case rec_fd impl of
        None \<Rightarrow> (False, impl)
      | Some fd \<Rightarrow> (let (ok, fd') = fd_Seek io fd q in (ok, impl\<lparr>rec_fd := Some fd'\<rparr>)))"

definition rec_read :: "'fd filefd \<Rightarrow> nat \<Rightarrow> 'fd rec_impl \<Rightarrow> string option \<times> 'fd rec_impl" where
  "rec_read io n impl =
     (case rec_fd impl of
        None \<Rightarrow> (None, impl)
      | Some fd \<Rightarrow> (let (r, fd') = fd_Read io fd n in (r, impl\<lparr>rec_fd := Some fd'\<rparr>)))"

definition rec_record ::
  "'fd filefd \<Rightarrow> libapt \<Rightarrow> (bool \<times> string) list \<Rightarrow> nat \<Rightarrow> 'fd rec_impl \<Rightarrow> (apt_error, string) outcome \<times> 'fd rec_impl" where
  "rec_record io apt msgs idx impl =
     (if length (vflist impl) \<le> idx then (Undefined, impl)
      else let vf = vflist impl ! idx
        in case rec_open io apt msgs (vf_File vf) impl of
          (Thrown e, impl1) \<Rightarrow> (Thrown e, impl1)
        | (Undefined, impl1) \<Rightarrow> (Undefined, impl1)
        | (Returned _, impl1) \<Rightarrow>
            (let slack = size_sub (vf_Offset vf) (lastOffset impl1);
                 (ok, slack', impl2) =
                   (if 8 < slack then (let (ok, i) = rec_seek io (vf_Offset vf) impl1 in (ok, 0, i))
                    else (True, slack, impl1))
             in if \<not> ok
                  then (Thrown (apt_exception msgs (''Cannot seek to package record in file '' @ FileName apt (vf_File vf))), impl2)
                else (case rec_read io (vf_Size vf + slack') impl2 of
                   (None, impl3) \<Rightarrow>
                     (Thrown (apt_exception msgs (''Cannot read package record in file '' @ FileName apt (vf_File vf))), impl3)
                 | (Some data, impl3) \<Rightarrow>
                     (Returned (substr data slack' (vf_Size vf)),
                       impl3\<lparr>lastOffset := vf_Offset vf + vf_Size vf\<rparr>))))"

subsection \<open>Reading records\<close>

text \<open>The bytes that a \<open>VerFile\<close> describes, and when it describes bytes of a file that can be read.\<close>

definition bytes_at :: "libapt \<Rightarrow> (string \<Rightarrow> string option) \<Rightarrow> ver_file \<Rightarrow> string" where
  "bytes_at apt contents vf =
     (case contents (FileName apt (vf_File vf)) of None \<Rightarrow> [] | Some c \<Rightarrow> substr c (vf_Offset vf) (vf_Size vf))"

definition record_ok :: "libapt \<Rightarrow> (string \<Rightarrow> string option) \<Rightarrow> ver_file \<Rightarrow> bool" where
  "record_ok apt contents vf \<longleftrightarrow> FileIsOk apt (vf_File vf)
     \<and> (\<exists>c. contents (FileName apt (vf_File vf)) = Some c \<and> vf_Offset vf + vf_Size vf \<le> length c
          \<and> length c + 8 < size_modulus)"

text \<open>The invariant of a reader: the file of the last record is open and stands at \<open>lastOffset\<close>.\<close>

definition reader_ok ::
  "libapt \<Rightarrow> (string \<Rightarrow> string option) \<Rightarrow> ('fd \<Rightarrow> string \<times> nat) \<Rightarrow> 'fd rec_impl \<Rightarrow> bool" where
  "reader_ok apt contents view impl \<longleftrightarrow>
     (\<forall>f. lastFile impl = Some f \<longrightarrow>
        (\<exists>c fd. contents (FileName apt f) = Some c \<and> rec_fd impl = Some fd \<and> view fd = (c, lastOffset impl)
           \<and> lastOffset impl \<le> length c))"

context file_fd
begin

lemma rec_open_ready:
  assumes "reader_ok apt contents view impl" and "record_ok apt contents vf"
    and "contents (FileName apt (vf_File vf)) = Some c"
  shows "\<exists>impl' fd. rec_open io apt msgs (vf_File vf) impl = (Returned (), impl') \<and> rec_fd impl' = Some fd
    \<and> view fd = (c, lastOffset impl') \<and> lastOffset impl' \<le> length c \<and> lastFile impl' = Some (vf_File vf)
    \<and> vflist impl' = vflist impl \<and> ref_count impl' = ref_count impl"
proof (cases "lastFile impl = Some (vf_File vf)")
  case True
  with assms(1,3) show ?thesis by (auto simp: reader_ok_def rec_open_def)
next
  case False
  with open_some [OF assms(3)] assms(2) show ?thesis by (auto simp: record_ok_def rec_open_def Let_def)
qed

lemma rec_seek_view:
  assumes "rec_fd impl = Some fd" and "view fd = (c, p)" and "q \<le> length c"
  shows "\<exists>fd'. rec_seek io q impl = (True, impl\<lparr>rec_fd := Some fd'\<rparr>) \<and> view fd' = (c, q)"
  using seek_ok [OF assms(2,3)] assms(1) by (auto simp: rec_seek_def)

lemma rec_read_view:
  assumes "rec_fd impl = Some fd" and "view fd = (c, p)" and "p + n \<le> length c"
  shows "\<exists>fd'. rec_read io n impl = (Some (take n (drop p c)), impl\<lparr>rec_fd := Some fd'\<rparr>) \<and> view fd' = (c, p + n)"
  using read_ok [OF assms(2,3)] assms(1) by (auto simp: rec_read_def)

lemma rec_record_bytes:
  assumes "reader_ok apt contents view impl" and "idx < length (vflist impl)"
    and "record_ok apt contents (vflist impl ! idx)"
  shows "\<exists>impl'. rec_record io apt msgs idx impl = (Returned (bytes_at apt contents (vflist impl ! idx)), impl')
    \<and> reader_ok apt contents view impl' \<and> vflist impl' = vflist impl \<and> ref_count impl' = ref_count impl"
proof -
  define vf where "vf = vflist impl ! idx"
  obtain c where c: "contents (FileName apt (vf_File vf)) = Some c" "vf_Offset vf + vf_Size vf \<le> length c"
    "length c + 8 < size_modulus"
    using assms(3) by (auto simp: record_ok_def vf_def)
  obtain impl1 fd where opened: "rec_open io apt msgs (vf_File vf) impl = (Returned (), impl1)"
    and fd: "rec_fd impl1 = Some fd" "view fd = (c, lastOffset impl1)" "lastOffset impl1 \<le> length c"
    and kept: "lastFile impl1 = Some (vf_File vf)" "vflist impl1 = vflist impl" "ref_count impl1 = ref_count impl"
    using rec_open_ready [OF assms(1), of vf c msgs] assms(3) c(1) by (auto simp: vf_def)
  have bytes: "bytes_at apt contents vf = take (vf_Size vf) (drop (vf_Offset vf) c)"
    using c(1) by (simp add: bytes_at_def substr_def)
  show ?thesis
  proof (cases "8 < size_sub (vf_Offset vf) (lastOffset impl1)")
    case True
    obtain fd1 where seek: "rec_seek io (vf_Offset vf) impl1 = (True, impl1\<lparr>rec_fd := Some fd1\<rparr>)"
      and fd1: "view fd1 = (c, vf_Offset vf)"
      using rec_seek_view [OF fd(1,2), of "vf_Offset vf"] c(2) by auto
    obtain fd2 where "rec_read io (vf_Size vf) (impl1\<lparr>rec_fd := Some fd1\<rparr>)
        = (Some (take (vf_Size vf) (drop (vf_Offset vf) c)), impl1\<lparr>rec_fd := Some fd2\<rparr>)"
      and "view fd2 = (c, vf_Offset vf + vf_Size vf)"
      using rec_read_view [OF _ fd1, of "impl1\<lparr>rec_fd := Some fd1\<rparr>" "vf_Size vf"] c(2) by auto
    with True assms(2) opened seek bytes c kept show ?thesis
      by (auto simp: rec_record_def Let_def vf_def [symmetric] substr_def reader_ok_def)
  next
    case False
    define slack where "slack = size_sub (vf_Offset vf) (lastOffset impl1)"
    have le: "lastOffset impl1 \<le> vf_Offset vf"
      using False fd(3) c(3) by (auto simp: size_sub_def split: if_splits)
    then have slack: "slack + lastOffset impl1 = vf_Offset vf" by (simp add: slack_def size_sub_def)
    obtain fd2 where read: "rec_read io (vf_Size vf + slack) impl1
        = (Some (take (vf_Size vf + slack) (drop (lastOffset impl1) c)), impl1\<lparr>rec_fd := Some fd2\<rparr>)"
      and fd2: "view fd2 = (c, vf_Offset vf + vf_Size vf)"
      using rec_read_view [OF fd(1,2), of "vf_Size vf + slack"] c(2) slack by (auto simp: algebra_simps)
    have "substr (take (vf_Size vf + slack) (drop (lastOffset impl1) c)) slack (vf_Size vf)
        = take (vf_Size vf) (drop (vf_Offset vf) c)"
      using slack by (simp add: substr_def drop_take)
    with False assms(2) opened read fd2 bytes c kept show ?thesis
      by (auto simp: rec_record_def Let_def vf_def [symmetric] slack_def [symmetric] reader_ok_def)
  qed
qed

end

text \<open>Reading a sequence of records.\<close>

fun rec_records ::
  "'fd filefd \<Rightarrow> libapt \<Rightarrow> (bool \<times> string) list \<Rightarrow> nat list \<Rightarrow> 'fd rec_impl \<Rightarrow> (apt_error, string list) outcome" where
  "rec_records io apt msgs [] impl = Returned []"
| "rec_records io apt msgs (i # is) impl =
     (case rec_record io apt msgs i impl of
        (Returned r, impl') \<Rightarrow> bind_outcome (rec_records io apt msgs is impl') (\<lambda>rs. Returned (r # rs))
      | (Thrown e, impl') \<Rightarrow> Thrown e
      | (Undefined, impl') \<Rightarrow> Undefined)"

lemma rec_records_bytes:
  assumes "file_fd io contents view" and "\<forall>vf\<in>set (vflist impl). record_ok apt contents vf"
    and "\<forall>i\<in>set is. i < length (vflist impl)" and "reader_ok apt contents view impl"
  shows "rec_records io apt msgs is impl = Returned (map (\<lambda>i. bytes_at apt contents (vflist impl ! i)) is)"
  using assms(2-)
proof (induction "is" arbitrary: impl)
  case (Cons i "is")
  have "record_ok apt contents (vflist impl ! i)" using Cons.prems(1,2) by simp
  then obtain impl' where "rec_record io apt msgs i impl = (Returned (bytes_at apt contents (vflist impl ! i)), impl')"
    and "reader_ok apt contents view impl'" and "vflist impl' = vflist impl"
    using file_fd.rec_record_bytes [OF assms(1) Cons.prems(3), of i msgs] Cons.prems(2) by auto
  with Cons.IH [of impl'] Cons.prems show ?case by simp
qed simp

text \<open>
  C10: whatever records are asked for in whatever order, each result is exactly the bytes that the
  package lists have at its place: reading on from the end of the last record, with up to 8 bytes
  of slack, gives the same as a seek, and a record before the last one wraps the unsigned slack
  around to a value above 8 and so to a seek.
\<close>

theorem records_are_bytes_on_disk:
  assumes "file_fd io contents view" and "new_rec_impl srt apt junk = Returned impl"
    and "\<forall>vf\<in>set (vflist impl). record_ok apt contents vf" and "\<forall>i\<in>set is. i < rec_size impl"
  shows "rec_records io apt msgs is impl = Returned (map (\<lambda>i. bytes_at apt contents (vflist impl ! i)) is)"
  using assms(2,4) by (intro rec_records_bytes [OF assms(1,3)]) (auto simp: new_rec_impl_def reader_ok_def rec_size_def)

definition sample_files :: "string \<Rightarrow> string option" where
  "sample_files n = (if n = ''f'' then Some ''one,two,three'' else None)"

definition three_records :: "ver_file list" where
  "three_records = [\<lparr>vf_File = 0, vf_Offset = 8, vf_Size = 5\<rparr>, \<lparr>vf_File = 0, vf_Offset = 0, vf_Size = 3\<rparr>,
     \<lparr>vf_File = 0, vf_Offset = 4, vf_Size = 3\<rparr>]"

definition three_apt :: libapt where
  "three_apt = sample_apt\<lparr>PkgBegin := [0, 1, 2], GetCandidateVer := Some, FileList := (\<lambda>v. [three_records ! v])\<rparr>"

lemma three_impl:
  "new_rec_impl insertion_sort three_apt 5 = Returned \<lparr>ref_count = 0,
     vflist = [three_records ! 1, three_records ! 2, three_records ! 0], lastFile = None, rec_fd = None, lastOffset = 5\<rparr>"
  by (simp add: new_rec_impl_def three_apt_def sample_apt_def three_records_def select_file_def is_source_def
      insertion_sort_def Let_def)

theorem records_are_bytes_on_disk_witness:
  "\<exists>impl. new_rec_impl insertion_sort three_apt 5 = Returned impl
    \<and> rec_records (mem_io sample_files) three_apt [] [0, 1, 2, 0] impl
      = Returned [''one'', ''two'', ''three'', ''one'']"
proof -
  have name: "FileName three_apt f = ''f''" "FileIsOk three_apt f" for f
    by (simp_all add: three_apt_def sample_apt_def)
  have ok: "\<forall>vf\<in>set [three_records ! 1, three_records ! 2, three_records ! 0]. record_ok three_apt sample_files vf"
    by (simp add: record_ok_def name sample_files_def three_records_def size_modulus_def)
  from records_are_bytes_on_disk [OF mem.file_fd_axioms three_impl, of sample_files "[0, 1, 2, 0]" "[]"] ok
  have "rec_records (mem_io sample_files) three_apt [] [0, 1, 2, 0]
      \<lparr>ref_count = 0, vflist = [three_records ! 1, three_records ! 2, three_records ! 0], lastFile = None,
        rec_fd = None, lastOffset = 5\<rparr> = Returned [''one'', ''two'', ''three'', ''one'']"
    by (simp add: rec_size_def bytes_at_def name sample_files_def three_records_def substr_def)
  with three_impl show ?thesis by blast
qed

subsection \<open>The list of records\<close>

lemma weak_order_locality: "weak_order (\<lambda>a b. localityCompare (f a) (f b))"
proof -
  have "localityCompare a b \<Longrightarrow> \<not> localityCompare b a" for a b
    by (cases "(a, b)" rule: localityCompare.cases) (auto split: if_splits)
  moreover have "\<not> localityCompare a b \<Longrightarrow> \<not> localityCompare b c \<Longrightarrow> \<not> localityCompare a c" for a b c
    by (cases a; cases b; cases c) (auto split: if_splits)
  ultimately show ?thesis unfolding weak_order_def by blast
qed

lemma first_source_suffix: "suffix (first_source apt vfs) vfs"
  by (induction vfs) (auto simp: suffix_Cons)

lemma first_source_hd: "first_source apt vfs = vf # rest \<Longrightarrow> is_source apt vf \<and> vf \<in> set vfs"
  by (induction vfs) (auto split: if_splits)

lemma other_sources_cases: "other_sources apt vi vs = [] \<or> other_sources apt vi vs = FileList apt vi"
  by (induction vs) (auto simp: Let_def)

lemma select_file_in: "select_file apt pi vi = vf # rest \<Longrightarrow> vf \<in> set (FileList apt vi)"
  using other_sources_cases [of apt vi "VersionList apt pi"] first_source_hd [of apt "FileList apt vi" vf rest]
  by (cases "first_source apt (FileList apt vi)"; cases "FileList apt vi") (auto simp: select_file_def Let_def)

lemma populate_in:
  "populate apt pis = Returned vfs \<Longrightarrow> vf \<in> set vfs \<Longrightarrow> \<exists>pi\<in>set pis. \<exists>vi. vf \<in> set (FileList apt vi)
     \<and> (if GetCandidateVer apt pi = None then CurrentVer apt pi else GetCandidateVer apt pi) = Some vi"
proof (induction pis arbitrary: vfs)
  case (Cons pi pis)
  show ?case
  proof (cases "VersionList apt pi = [] \<or> GetCandidateVer apt pi = None \<and> \<not> HasCurrentVer apt pi")
    case True
    then have "populate apt (pi # pis) = populate apt pis" by auto
    with Cons.prems have "populate apt pis = Returned vfs" by (simp only:)
    from Cons.IH [OF this Cons.prems(2)] show ?thesis by simp
  next
    case False
    with Cons.prems(1) obtain vi vfs' where
      vi: "(case GetCandidateVer apt pi of None \<Rightarrow> CurrentVer apt pi | Some vi \<Rightarrow> Some vi) = Some vi"
      and rest: "populate apt pis = Returned vfs'"
      and vfs: "vfs = (case select_file apt pi vi of [] \<Rightarrow> vfs' | vf # _ \<Rightarrow> vf # vfs')"
      by (auto split: option.splits)
    show ?thesis
    proof (cases "vf \<in> set vfs'")
      case True
      from Cons.IH [OF rest this] show ?thesis by simp
    next
      case False
      with vfs Cons.prems(2) have "vf \<in> set (FileList apt vi)"
        by (auto split: list.splits dest: select_file_in)
      with vi show ?thesis by (auto split: option.splits)
    qed
  qed
qed simp

text \<open>
  Which file a record is read from, as a specification: the version that is chosen for a package is the candidate, or
  the installed one; a version is read from the first source in its list, or from its first file when none is a source;
  and a package has a record in the iteration when one of its versions is in a source.
\<close>

definition version_file :: "libapt \<Rightarrow> nat \<Rightarrow> ver_file option" where
  "version_file apt vi =
     (case filter (is_source apt) (FileList apt vi) @ FileList apt vi of [] \<Rightarrow> None | vf # _ \<Rightarrow> Some vf)"

definition chosen_version :: "libapt \<Rightarrow> nat \<Rightarrow> nat option" where
  "chosen_version apt pi =
     (case GetCandidateVer apt pi of
        Some vi \<Rightarrow> Some vi
      | None \<Rightarrow> if HasCurrentVer apt pi then CurrentVer apt pi else None)"

definition record_file :: "libapt \<Rightarrow> nat \<Rightarrow> ver_file option" where
  "record_file apt pi =
     (if VersionList apt pi = [] then None
      else case chosen_version apt pi of
        None \<Rightarrow> None
      | Some vi \<Rightarrow>
          if list_ex (is_source apt) (concat (map (FileList apt) (vi # VersionList apt pi))) then version_file apt vi else None)"

text \<open>libapt's promise: a package that says it has a current version has one.\<close>

definition current_known :: "libapt \<Rightarrow> bool" where
  "current_known apt \<longleftrightarrow> (\<forall>pi. HasCurrentVer apt pi \<longrightarrow> CurrentVer apt pi \<noteq> None)"

lemma first_source_filter:
  "(case first_source apt vfs of [] \<Rightarrow> None | vf # _ \<Rightarrow> Some vf) = (case filter (is_source apt) vfs of [] \<Rightarrow> None | vf # _ \<Rightarrow> Some vf)"
  "first_source apt vfs = [] \<longleftrightarrow> \<not> list_ex (is_source apt) vfs"
  by (induction vfs) auto

lemma other_sources_eq:
  "other_sources apt vi vs = (if list_ex (is_source apt) (concat (map (FileList apt) vs)) then FileList apt vi else [])"
  by (induction vs) (auto simp: Let_def first_source_filter(2))

lemma select_file_spec:
  "(case select_file apt pi vi of [] \<Rightarrow> None | vf # _ \<Rightarrow> Some vf)
    = (if list_ex (is_source apt) (concat (map (FileList apt) (vi # VersionList apt pi))) then version_file apt vi else None)"
proof (cases "list_ex (is_source apt) (FileList apt vi)")
  case True
  then have "first_source apt (FileList apt vi) \<noteq> []" "filter (is_source apt) (FileList apt vi) \<noteq> []"
    by (auto simp: first_source_filter(2) list_ex_iff filter_empty_conv)
  with True first_source_filter(1) [of apt "FileList apt vi"] show ?thesis
    by (auto simp: select_file_def version_file_def Let_def split: list.splits)
next
  case False
  then have "first_source apt (FileList apt vi) = []" "filter (is_source apt) (FileList apt vi) = []"
    by (auto simp: first_source_filter(2) list_ex_iff filter_empty_conv)
  with False show ?thesis by (simp add: select_file_def version_file_def other_sources_eq)
qed

lemma populate_files:
  assumes "current_known apt"
  shows "populate apt pis = Returned (List.map_filter (record_file apt) pis)"
proof (induction pis)
  case (Cons pi pis)
  have add: "(case select_file apt pi vi of [] \<Rightarrow> vfs | vf # _ \<Rightarrow> vf # vfs)
      = (case (case select_file apt pi vi of [] \<Rightarrow> None | vf # _ \<Rightarrow> Some vf) of None \<Rightarrow> vfs | Some vf \<Rightarrow> vf # vfs)" for vi vfs
    by (simp split: list.split)
  show ?case
    using Cons assms
    by (auto simp: add select_file_spec record_file_def chosen_version_def current_known_def map_filter_simps split: option.splits
        simp del: list.map concat.simps)
qed (simp add: map_filter_simps)

lemma record_list_files:
  assumes "std_sort srt" and "current_known apt"
  shows "\<exists>impl. new_rec_impl srt apt junk = Returned impl
    \<and> mset (vflist impl) = mset (List.map_filter (record_file apt) (PkgBegin apt))
    \<and> sorted (map (\<lambda>vf. (vf_File vf, vf_Offset vf)) (vflist impl))"
proof -
  let ?lt = "\<lambda>a b. localityCompare (Some a) (Some b)" and ?vfs = "List.map_filter (record_file apt) (PkgBegin apt)"
  note weak = weak_order_locality [of Some]
  have "sorted_wrt (\<lambda>a b. \<not> ?lt b a) (srt ?lt ?vfs)" using std_sort.sorted_std [OF assms(1) weak] .
  then have "sorted (map (\<lambda>vf. (vf_File vf, vf_Offset vf)) (srt ?lt ?vfs))"
    unfolding sorted_map by (rule sorted_wrt_mono_rel [rotated]) (auto split: if_splits)
  then show ?thesis
    using std_sort.mset_std [OF assms(1) weak, of ?vfs] by (simp add: new_rec_impl_def populate_files [OF assms(2)])
qed

text \<open>
  the records of the iteration are a permutation of those that were selected, sorted by
  package file and then by offset, whatever algorithm sorts them; each belongs to the candidate
  version of a package or, without one, to its current version.
\<close>

theorem record_list_sorted:
  assumes "std_sort srt" and "new_rec_impl srt apt junk = Returned impl"
  shows "sorted (map (\<lambda>vf. (vf_File vf, vf_Offset vf)) (vflist impl))
    \<and> populate apt (PkgBegin apt) \<in> Returned ` {vfs. mset vfs = mset (vflist impl)}
    \<and> (\<forall>vf\<in>set (vflist impl). \<exists>pi\<in>set (PkgBegin apt). \<exists>vi. vf \<in> set (FileList apt vi)
         \<and> (if GetCandidateVer apt pi = None then CurrentVer apt pi else GetCandidateVer apt pi) = Some vi)"
proof -
  let ?lt = "\<lambda>a b. localityCompare (Some a) (Some b)"
  obtain vfs where vfs: "populate apt (PkgBegin apt) = Returned vfs" "vflist impl = srt ?lt vfs"
    using assms(2) by (auto simp: new_rec_impl_def)
  note weak = weak_order_locality [of Some]
  have mset: "mset (vflist impl) = mset vfs" using std_sort.mset_std [OF assms(1) weak] vfs(2) by simp
  have "sorted_wrt (\<lambda>a b. \<not> ?lt b a) (vflist impl)" using std_sort.sorted_std [OF assms(1) weak] vfs(2) by simp
  then have "sorted (map (\<lambda>vf. (vf_File vf, vf_Offset vf)) (vflist impl))"
    unfolding sorted_map by (rule sorted_wrt_mono_rel [rotated]) (auto split: if_splits)
  moreover have "set (vflist impl) = set vfs" using mset by (metis set_mset_mset)
  ultimately show ?thesis using vfs(1) mset populate_in [OF vfs(1)] by auto
qed

theorem record_list_sorted_witness:
  "\<exists>impl. new_rec_impl insertion_sort three_apt 5 = Returned impl
    \<and> sorted (map (\<lambda>vf. (vf_File vf, vf_Offset vf)) (vflist impl))"
  using record_list_sorted [OF isort.std_sort_axioms three_impl] three_impl by blast

subsection \<open>The record of a version\<close>

lemma first_source_none: "find (is_source apt) vfs = None \<Longrightarrow> first_source apt vfs = []"
  by (induction vfs) (auto split: if_splits)

lemma first_source_first: "find (is_source apt) vfs = Some vf \<Longrightarrow> \<exists>rest. first_source apt vfs = vf # rest"
  by (induction vfs) (auto split: if_splits)

lemma rawRecord_loop_first:
  "\<forall>u\<in>set us. VerStr apt u \<noteq> Some (m_version ver) \<Longrightarrow> VerStr apt vi = Some (m_version ver) \<Longrightarrow>
    rawRecord_loop apt io pe msgs ver (us @ vi # vs) = read_version apt io pe msgs vi"
  by (induction us) (auto split: option.splits)

lemma read_version_bytes:
  assumes "file_fd io contents view" and "FileList apt vi = vf0 # rest"
    and "vf = (case find (is_source apt) (FileList apt vi) of None \<Rightarrow> vf0 | Some x \<Rightarrow> x)"
    and "record_ok apt contents vf"
  shows "read_version apt io False msgs vi = Returned (bytes_at apt contents vf)"
proof -
  have "\<exists>r. (if first_source apt (FileList apt vi) = [] then FileList apt vi
      else first_source apt (FileList apt vi)) = vf # r"
  proof (cases "find (is_source apt) (FileList apt vi)")
    case None
    with assms(2,3) first_source_none [OF None] show ?thesis by simp
  next
    case (Some x)
    with assms(3) first_source_first [OF Some] show ?thesis by auto
  qed
  then obtain r where r: "(if first_source apt (FileList apt vi) = [] then FileList apt vi
      else first_source apt (FileList apt vi)) = vf # r" ..
  obtain c where c: "FileIsOk apt (vf_File vf)" "contents (FileName apt (vf_File vf)) = Some c"
    "vf_Offset vf + vf_Size vf \<le> length c"
    using assms(4) by (auto simp: record_ok_def)
  obtain fd where fd: "fd_Open io (FileName apt (vf_File vf)) = Some fd" "view fd = (c, 0)"
    using file_fd.open_some [OF assms(1) c(2)] by blast
  obtain fd1 where fd1: "fd_Seek io fd (vf_Offset vf) = (True, fd1)" "view fd1 = (c, vf_Offset vf)"
    using file_fd.seek_ok [OF assms(1) fd(2), of "vf_Offset vf"] c(3) by auto
  obtain fd2 where "fd_Read io fd1 (vf_Size vf) = (Some (take (vf_Size vf) (drop (vf_Offset vf) c)), fd2)"
    using file_fd.read_ok [OF assms(1) fd1(2) c(3)] by auto
  with r c fd fd1 show ?thesis by (simp add: read_version_def Let_def bytes_at_def substr_def)
qed

lemma rawRecord_reads:
  assumes "file_fd io contents view" and "FindPkg apt (m_name ver) = Some pi"
    and "VersionList apt pi = us @ vi # vs" and "\<forall>u\<in>set us. VerStr apt u \<noteq> Some (m_version ver)"
    and "VerStr apt vi = Some (m_version ver)" and "FileList apt vi = vf0 # rest"
    and "vf = (case find (is_source apt) (FileList apt vi) of None \<Rightarrow> vf0 | Some x \<Rightarrow> x)"
    and "record_ok apt contents vf"
  shows "rawRecord apt io False msgs ver = Returned (bytes_at apt contents vf)"
  unfolding rawRecord_def assms(2,3) option.case rawRecord_loop_first [OF assms(4,5)]
  by (rule read_version_bytes [OF assms(1,6,7,8)])

text \<open>
  \<open>rawRecord\<close> returns the bytes on disk of the first version of the package with that version
  string, read from its first file that is a source or, without one, from its first file; it is
  the record that the iteration has selected for that version, if it has selected one.  For a
  package or version that is not known the result is empty.
\<close>

theorem rawRecord_bytes:
  assumes "file_fd io contents view" and "FindPkg apt (m_name ver) = Some pi"
    and "VersionList apt pi = us @ vi # vs" and "\<forall>u\<in>set us. VerStr apt u \<noteq> Some (m_version ver)"
    and "VerStr apt vi = Some (m_version ver)" and "FileList apt vi = vf0 # rest"
    and "vf = (case find (is_source apt) (FileList apt vi) of None \<Rightarrow> vf0 | Some x \<Rightarrow> x)"
    and "record_ok apt contents vf"
  shows "rawRecord apt io False msgs ver = Returned (bytes_at apt contents vf)
    \<and> (\<forall>vf' r. select_file apt pi vi = vf' # r \<longrightarrow> vf' = vf)
    \<and> (FindPkg apt n = None \<longrightarrow> rawRecord apt io pe msgs \<lparr>m_name = n, m_version = v\<rparr> = Returned [])
    \<and> ((\<forall>u\<in>set (VersionList apt pi). VerStr apt u \<noteq> Some v) \<longrightarrow>
       rawRecord apt io pe msgs \<lparr>m_name = m_name ver, m_version = v\<rparr> = Returned [])"
proof -
  have unknown: "\<forall>u\<in>set us. VerStr apt u \<noteq> Some v \<Longrightarrow>
      rawRecord_loop apt io pe msgs \<lparr>m_name = k, m_version = v\<rparr> us = Returned []" for us k
    by (induction us) (auto split: option.splits)
  have "vf' = vf" if "select_file apt pi vi = vf' # r" for vf' r
  proof (cases "find (is_source apt) (FileList apt vi)")
    case None
    with that assms(6,7) first_source_none [OF None] other_sources_cases [of apt vi "VersionList apt pi"]
    show ?thesis by (auto simp: select_file_def)
  next
    case (Some x)
    with that assms(7) first_source_first [OF Some] show ?thesis by (auto simp: select_file_def)
  qed
  moreover note rawRecord_reads [OF assms]
  ultimately show ?thesis using assms(2) unknown by (simp add: rawRecord_def)
qed

theorem rawRecord_bytes_witness:
  "rawRecord sample_apt (mem_io sample_files) False [] \<lparr>m_name = ''apt'', m_version = ''2''\<rparr> = Returned ''one,''"
proof -
  let ?vf = "\<lparr>vf_File = 0, vf_Offset = 0, vf_Size = 4\<rparr>"
  have "record_ok sample_apt sample_files ?vf" "bytes_at sample_apt sample_files ?vf = ''one,''"
    by (simp_all add: record_ok_def bytes_at_def sample_apt_def sample_files_def size_modulus_def substr_def)
  then show ?thesis
    using rawRecord_bytes [OF mem.file_fd_axioms, of sample_apt "\<lparr>m_name = ''apt'', m_version = ''2''\<rparr>" 0 "[]" 2 "[1]"
        ?vf "[]" ?vf sample_files "[]"]
    by (simp add: sample_apt_def is_source_def)
qed

end
