(* ===== verification/AptIterators.thy ===== *)
theory AptIterators
  imports AptRecords
begin

section \<open>Record iterators and their reference counts (ept/apt/apt.cc)\<close>

text \<open>
  Copies of a \<open>RecordIterator\<close> share one \<open>RecordIteratorImpl\<close>, which counts them and is deleted
  with the last.  The model keeps the implementations in a heap, a map from addresses; an
  operation on a null pointer, on a deleted implementation or on a record outside the list is
  undefined.
\<close>

record riter =
  it_impl :: "nat option"
  it_pos :: nat
  it_cur :: string
  it_cur_pos :: nat

type_synonym 'fd rheap = "nat \<Rightarrow> 'fd rec_impl option"

subsection \<open>The operations\<close>

definition rec_ref :: "'fd rec_impl \<Rightarrow> 'fd rec_impl" where
  "rec_ref impl = impl\<lparr>ref_count := ref_count impl + 1\<rparr>"

definition rec_unref :: "'fd rec_impl \<Rightarrow> bool \<times> 'fd rec_impl" where
  "rec_unref impl = (ref_count impl - 1 = 0, impl\<lparr>ref_count := ref_count impl - 1\<rparr>)"

definition ref_at :: "nat option \<Rightarrow> 'fd rheap \<Rightarrow> (apt_error, 'fd rheap) outcome" where
  "ref_at p h =
     (case p of
        None \<Rightarrow> Returned h
      | Some a \<Rightarrow> (case h a of None \<Rightarrow> Undefined | Some impl \<Rightarrow> Returned (h(a \<mapsto> rec_ref impl))))"

text \<open>\<open>if (impl && impl->unref()) delete impl\<close>\<close>

definition unref_at :: "nat option \<Rightarrow> 'fd rheap \<Rightarrow> (apt_error, 'fd rheap) outcome" where
  "unref_at p h =
     (case p of
        None \<Rightarrow> Returned h
      | Some a \<Rightarrow>
          (case h a of
             None \<Rightarrow> Undefined
           | Some impl \<Rightarrow> (case rec_unref impl of (dead, impl') \<Rightarrow> Returned (if dead then h(a := None) else h(a \<mapsto> impl')))))"

text \<open>\<open>impl->record(pos)\<close>\<close>

definition record_at ::
  "'fd filefd \<Rightarrow> libapt \<Rightarrow> (bool \<times> string) list \<Rightarrow> nat option \<Rightarrow> nat \<Rightarrow> 'fd rheap
    \<Rightarrow> (apt_error, string) outcome \<times> 'fd rheap" where
  "record_at io apt msgs p pos h =
     (case p of
        None \<Rightarrow> (Undefined, h)
      | Some a \<Rightarrow>
          (case h a of
             None \<Rightarrow> (Undefined, h)
           | Some impl \<Rightarrow> (case rec_record io apt msgs pos impl of (r, impl') \<Rightarrow> (r, h(a \<mapsto> impl')))))"

definition end_riter :: riter where
  "end_riter = \<lparr>it_impl = None, it_pos = 0, it_cur = [], it_cur_pos = 0\<rparr>"

text \<open>
  The constructor with an implementation.  When reading the first record throws, the reference
  has been taken and no destructor gives it back.
\<close>

definition riter_construct ::
  "'fd filefd \<Rightarrow> libapt \<Rightarrow> (bool \<times> string) list \<Rightarrow> nat option \<Rightarrow> nat \<Rightarrow> 'fd rheap
    \<Rightarrow> (apt_error, riter) outcome \<times> 'fd rheap" where
  "riter_construct io apt msgs p pos h =
     (case p of
        None \<Rightarrow> (Returned \<lparr>it_impl = None, it_pos = pos, it_cur = [], it_cur_pos = pos\<rparr>, h)
      | Some a \<Rightarrow>
          (case ref_at p h of
             Returned h1 \<Rightarrow>
               (case record_at io apt msgs p pos h1 of
                  (Returned r, h2) \<Rightarrow> (Returned \<lparr>it_impl = p, it_pos = pos, it_cur = r, it_cur_pos = pos\<rparr>, h2)
                | (Thrown e, h2) \<Rightarrow> (Thrown e, h2)
                | (Undefined, h2) \<Rightarrow> (Undefined, h2))
           | Thrown e \<Rightarrow> (Thrown e, h)
           | Undefined \<Rightarrow> (Undefined, h)))"

definition riter_copy :: "riter \<Rightarrow> 'fd rheap \<Rightarrow> (apt_error, riter \<times> 'fd rheap) outcome" where
  "riter_copy r h = bind_outcome (ref_at (it_impl r) h) (\<lambda>h'. Returned (r, h'))"

definition riter_destroy :: "riter \<Rightarrow> 'fd rheap \<Rightarrow> (apt_error, 'fd rheap) outcome" where
  "riter_destroy r h = unref_at (it_impl r) h"

definition riter_get ::
  "'fd filefd \<Rightarrow> libapt \<Rightarrow> (bool \<times> string) list \<Rightarrow> riter \<Rightarrow> 'fd rheap
    \<Rightarrow> (apt_error, string) outcome \<times> riter \<times> 'fd rheap" where
  "riter_get io apt msgs r h =
     (if it_cur_pos r \<noteq> it_pos r then
        (case record_at io apt msgs (it_impl r) (it_pos r) h of
           (Returned s, h') \<Rightarrow> (Returned s, r\<lparr>it_cur := s, it_cur_pos := it_pos r\<rparr>, h')
         | (Thrown e, h') \<Rightarrow> (Thrown e, r, h')
         | (Undefined, h') \<Rightarrow> (Undefined, r, h'))
      else (Returned (it_cur r), r, h))"

text \<open>
  \<open>operator->\<close>: the pointer is to the member \<open>cur\<close> of the iterator that it leaves, so \<open>*i\<close> is a copy of the
  string at \<open>i->\<close>.
\<close>

definition riter_arrow ::
  "'fd filefd \<Rightarrow> libapt \<Rightarrow> (bool \<times> string) list \<Rightarrow> riter \<Rightarrow> 'fd rheap
    \<Rightarrow> (apt_error, unit) outcome \<times> riter \<times> 'fd rheap" where
  "riter_arrow io apt msgs r h =
     (if it_cur_pos r \<noteq> it_pos r then
        (case record_at io apt msgs (it_impl r) (it_pos r) h of
           (Returned s, h') \<Rightarrow> (Returned (), r\<lparr>it_cur := s, it_cur_pos := it_pos r\<rparr>, h')
         | (Thrown e, h') \<Rightarrow> (Thrown e, r, h')
         | (Undefined, h') \<Rightarrow> (Undefined, r, h'))
      else (Returned (), r, h))"

lemma riter_arrow_get:
  "riter_get io apt msgs r h = (case riter_arrow io apt msgs r h of (res, r', h') \<Rightarrow> (bind_outcome res (\<lambda>_. Returned (it_cur r')), r', h'))"
  by (auto simp: riter_get_def riter_arrow_def split: prod.split outcome.split)

definition riter_incr :: "riter \<Rightarrow> 'fd rheap \<Rightarrow> (apt_error, riter \<times> 'fd rheap) outcome" where
  "riter_incr r h =
     (let r1 = r\<lparr>it_pos := it_pos r + 1\<rparr>
      in case it_impl r of
        None \<Rightarrow> Undefined
      | Some a \<Rightarrow>
          (case h a of
             None \<Rightarrow> Undefined
           | Some impl \<Rightarrow>
               if rec_size impl \<le> it_pos r1 then
                 bind_outcome (unref_at (it_impl r) h) (\<lambda>h'. Returned (r1\<lparr>it_impl := None, it_pos := 0\<rparr>, h'))
               else Returned (r1, h)))"

text \<open>\<open>l = r\<close>: the reference to the new implementation is taken before the old one is dropped.\<close>

definition riter_assign :: "riter \<Rightarrow> riter \<Rightarrow> 'fd rheap \<Rightarrow> (apt_error, riter \<times> 'fd rheap) outcome" where
  "riter_assign l r h =
     bind_outcome (ref_at (it_impl r) h) (\<lambda>h1.
       bind_outcome (unref_at (it_impl l) h1) (\<lambda>h2.
         Returned (l\<lparr>it_impl := it_impl r, it_pos := it_pos r, it_cur := it_cur r, it_cur_pos := it_cur_pos r\<rparr>, h2)))"

definition riter_eq :: "riter \<Rightarrow> riter \<Rightarrow> bool" where
  "riter_eq l r \<longleftrightarrow> it_impl l = it_impl r \<and> it_pos l = it_pos r"

definition riter_neq :: "riter \<Rightarrow> riter \<Rightarrow> bool" where
  "riter_neq l r \<longleftrightarrow> it_impl l \<noteq> it_impl r \<or> it_pos l \<noteq> it_pos r"

text \<open>\<open>recordBegin\<close>, which puts a new implementation at the free address \<open>a\<close>.\<close>

definition recordBegin ::
  "((ver_file \<Rightarrow> ver_file \<Rightarrow> bool) \<Rightarrow> ver_file list \<Rightarrow> ver_file list) \<Rightarrow> 'fd filefd \<Rightarrow> libapt \<Rightarrow> (bool \<times> string) list
    \<Rightarrow> nat \<Rightarrow> nat \<Rightarrow> 'fd rheap \<Rightarrow> (apt_error, riter) outcome \<times> 'fd rheap" where
  "recordBegin srt io apt msgs junk a h =
     (case new_rec_impl srt apt junk of
        Returned impl \<Rightarrow> riter_construct io apt msgs (Some a) 0 (h(a \<mapsto> impl))
      | Thrown e \<Rightarrow> (Thrown e, h)
      | Undefined \<Rightarrow> (Undefined, h))"

definition recordEnd :: riter where
  "recordEnd = end_riter"

subsection \<open>A program that uses record iterators\<close>

text \<open>
  The variables of type \<open>RecordIterator\<close> of a program and the heap, and the steps that the program
  can take.  \<open>throws\<close> says whether a \<open>recordBegin\<close> that throws is among them; an exception of the
  other operations is caught and leaves the variable as it is.
\<close>

record 'fd riter_state =
  heap :: "'fd rheap"
  vars :: "nat \<Rightarrow> riter option"

inductive riter_step ::
  "bool \<Rightarrow> ((ver_file \<Rightarrow> ver_file \<Rightarrow> bool) \<Rightarrow> ver_file list \<Rightarrow> ver_file list) \<Rightarrow> 'fd filefd \<Rightarrow> libapt
    \<Rightarrow> 'fd riter_state \<Rightarrow> 'fd riter_state \<Rightarrow> bool"
  for throws srt io apt where
  begin_step: "vars s x = None \<Longrightarrow> heap s a = None \<Longrightarrow> recordBegin srt io apt msgs junk a (heap s) = (Returned r, h) \<Longrightarrow>
      riter_step throws srt io apt s \<lparr>heap = h, vars = (vars s)(x \<mapsto> r)\<rparr>"
| begin_throws: "throws \<Longrightarrow> heap s a = None \<Longrightarrow> recordBegin srt io apt msgs junk a (heap s) = (Thrown e, h) \<Longrightarrow>
      riter_step throws srt io apt s \<lparr>heap = h, vars = vars s\<rparr>"
| end_step: "vars s x = None \<Longrightarrow> riter_step throws srt io apt s (s\<lparr>vars := (vars s)(x \<mapsto> recordEnd)\<rparr>)"
| copy_step: "vars s x = None \<Longrightarrow> vars s y = Some r \<Longrightarrow> riter_copy r (heap s) = Returned (r', h) \<Longrightarrow>
      riter_step throws srt io apt s \<lparr>heap = h, vars = (vars s)(x \<mapsto> r')\<rparr>"
| destroy_step: "vars s x = Some r \<Longrightarrow> riter_destroy r (heap s) = Returned h \<Longrightarrow>
      riter_step throws srt io apt s \<lparr>heap = h, vars = (vars s)(x := None)\<rparr>"
| get_step: "vars s x = Some r \<Longrightarrow> riter_get io apt msgs r (heap s) = (res, r', h) \<Longrightarrow> res \<noteq> Undefined \<Longrightarrow>
      riter_step throws srt io apt s \<lparr>heap = h, vars = (vars s)(x \<mapsto> r')\<rparr>"
| incr_step: "vars s x = Some r \<Longrightarrow> riter_incr r (heap s) = Returned (r', h) \<Longrightarrow>
      riter_step throws srt io apt s \<lparr>heap = h, vars = (vars s)(x \<mapsto> r')\<rparr>"
| assign_step: "vars s x = Some l \<Longrightarrow> vars s y = Some r \<Longrightarrow> riter_assign l r (heap s) = Returned (l', h) \<Longrightarrow>
      riter_step throws srt io apt s \<lparr>heap = h, vars = (vars s)(x \<mapsto> l')\<rparr>"

definition riter_start :: "'fd riter_state" where
  "riter_start = \<lparr>heap = (\<lambda>_. None), vars = (\<lambda>_. None)\<rparr>"

definition riter_reach ::
  "bool \<Rightarrow> ((ver_file \<Rightarrow> ver_file \<Rightarrow> bool) \<Rightarrow> ver_file list \<Rightarrow> ver_file list) \<Rightarrow> 'fd filefd \<Rightarrow> libapt
    \<Rightarrow> 'fd riter_state \<Rightarrow> bool" where
  "riter_reach throws srt io apt s \<longleftrightarrow> (riter_step throws srt io apt)\<^sup>*\<^sup>* riter_start s"

subsection \<open>What the operations do to the counts\<close>

definition holds :: "riter option \<Rightarrow> nat \<Rightarrow> bool" where
  "holds q a \<longleftrightarrow> (\<exists>r. q = Some r \<and> it_impl r = Some a)"

text \<open>How many variables refer to the implementation at \<open>a\<close>, and what it has counted.\<close>

definition refs :: "(nat \<Rightarrow> riter option) \<Rightarrow> nat \<Rightarrow> nat" where
  "refs v a = card {x. holds (v x) a}"

definition counted :: "'fd rheap \<Rightarrow> nat \<Rightarrow> int" where
  "counted h a = (case h a of None \<Rightarrow> 0 | Some impl \<Rightarrow> ref_count impl)"

definition list_at :: "'fd rheap \<Rightarrow> nat \<Rightarrow> ver_file list option" where
  "list_at h a = map_option vflist (h a)"

definition counts_pos :: "'fd rheap \<Rightarrow> bool" where
  "counts_pos h \<longleftrightarrow> (\<forall>a impl. h a = Some impl \<longrightarrow> 0 < ref_count impl)"

lemma refs_upd:
  assumes "finite (dom v)"
  shows "int (refs (v(x := q)) a) = int (refs v a) - of_bool (holds (v x) a) + of_bool (holds q a)"
proof -
  have "{y. holds (v y) a} \<subseteq> dom v" by (auto simp: holds_def)
  then have fin: "finite {y. holds (v y) a}" using assms by (rule finite_subset)
  have "{y. holds ((v(x := q)) y) a} = {y. holds (v y) a} - {x} \<union> (if holds q a then {x} else {})"
    by auto
  moreover have "card ({y. holds (v y) a} - {x} \<union> (if holds q a then {x} else {}))
      = card ({y. holds (v y) a} - {x}) + of_bool (holds q a)"
    using fin by (auto simp: card.insert_remove)
  moreover have "int (card ({y. holds (v y) a} - {x})) = int (card {y. holds (v y) a}) - of_bool (holds (v x) a)"
  proof (cases "holds (v x) a")
    case True
    then have "0 < card {y. holds (v y) a}" using fin by (auto simp: card_gt_0_iff)
    with True fin show ?thesis by (simp add: card_Diff_singleton_if of_nat_diff)
  qed simp
  ultimately show ?thesis by (simp add: refs_def)
qed

lemma holds_simps [simp]: "\<not> holds None a" "holds (Some r) a \<longleftrightarrow> it_impl r = Some a"
  by (simp_all add: holds_def)

lemma counts_posD: "counts_pos h \<Longrightarrow> h a = Some impl \<Longrightarrow> 0 < ref_count impl"
  by (simp add: counts_pos_def)

lemma counts_pos_upd: "counts_pos h \<Longrightarrow> 0 < ref_count impl \<Longrightarrow> counts_pos (h(a \<mapsto> impl))"
  by (simp add: counts_pos_def)

lemma counts_pos_delete: "counts_pos h \<Longrightarrow> counts_pos (h(a := None))"
  by (simp add: counts_pos_def)

lemma counted_upd [simp]:
  "counted (h(a \<mapsto> impl)) b = (if b = a then ref_count impl else counted h b)"
  "counted (h(a := None)) b = (if b = a then 0 else counted h b)"
  "h b = Some impl \<Longrightarrow> counted h b = ref_count impl"
  by (simp_all add: counted_def)

lemma list_at_upd [simp]:
  "list_at (h(a \<mapsto> impl)) b = (if b = a then Some (vflist impl) else list_at h b)"
  "list_at (h(a := None)) b = (if b = a then None else list_at h b)"
  "h b = Some impl \<Longrightarrow> list_at h b = Some (vflist impl)"
  by (simp_all add: list_at_def)

lemma ref_at_effect:
  assumes "ref_at p h = Returned h'"
  shows "counted h' b = counted h b + of_bool (p = Some b)" and "list_at h' b = list_at h b"
    and "counts_pos h \<Longrightarrow> counts_pos h'"
proof -
  have "p = None \<and> h' = h \<or> (\<exists>a impl. p = Some a \<and> h a = Some impl \<and> h' = h(a \<mapsto> rec_ref impl))"
    using assms by (auto simp: ref_at_def split: option.splits)
  then show "list_at h' b = list_at h b" "counts_pos h \<Longrightarrow> counts_pos h'"
    and "counted h' b = counted h b + of_bool (p = Some b)"
    by (auto simp: rec_ref_def intro!: counts_pos_upd dest: counts_posD split: if_splits)
qed

lemma unref_at_effect:
  assumes "unref_at p h = Returned h'" and "counts_pos h"
  shows "counted h' b = counted h b - of_bool (p = Some b)"
    and "list_at h' b = Some l \<Longrightarrow> list_at h b = Some l" and "counts_pos h'"
proof -
  have step: "counted h' b = counted h b - of_bool (p = Some b) \<and> (list_at h' b = Some l \<longrightarrow> list_at h b = Some l)
      \<and> counts_pos h'"
  proof (cases p)
    case (Some a)
    with assms(1) obtain impl where impl: "h a = Some impl"
      and h': "h' = (if ref_count impl - 1 = 0 then h(a := None) else h(a \<mapsto> impl\<lparr>ref_count := ref_count impl - 1\<rparr>))"
      by (auto simp: unref_at_def rec_unref_def split: option.splits)
    have "0 < ref_count impl" using impl assms(2) by (rule counts_posD [rotated])
    then show ?thesis
      using assms(2) impl unfolding h' Some
      by (auto intro!: counts_pos_upd counts_pos_delete split: if_splits)
  qed (use assms in \<open>simp add: unref_at_def\<close>)
  then show "counted h' b = counted h b - of_bool (p = Some b)"
    and "list_at h' b = Some l \<Longrightarrow> list_at h b = Some l" and "counts_pos h'" by blast+
qed

lemma rec_record_keeps:
  assumes "rec_record io apt msgs idx impl = (r, impl')"
  shows "ref_count impl' = ref_count impl" and "vflist impl' = vflist impl"
    and "idx < length (vflist impl) \<Longrightarrow> r \<noteq> Undefined" and "r = Returned x \<Longrightarrow> idx < length (vflist impl)"
proof -
  have opened: "ref_count (snd (rec_open io apt msgs f impl)) = ref_count impl
      \<and> vflist (snd (rec_open io apt msgs f impl)) = vflist impl \<and> fst (rec_open io apt msgs f impl) \<noteq> Undefined" for f
    by (auto simp: rec_open_def Let_def split: option.splits)
  have seek: "ref_count (snd (rec_seek io q i)) = ref_count i \<and> vflist (snd (rec_seek io q i)) = vflist i" for q and i :: "'a rec_impl"
    by (auto simp: rec_seek_def split: option.splits prod.splits)
  have read: "ref_count (snd (rec_read io q i)) = ref_count i \<and> vflist (snd (rec_read io q i)) = vflist i" for q and i :: "'a rec_impl"
    by (auto simp: rec_read_def split: option.splits prod.splits)
  show "ref_count impl' = ref_count impl" "vflist impl' = vflist impl"
    "idx < length (vflist impl) \<Longrightarrow> r \<noteq> Undefined" "r = Returned x \<Longrightarrow> idx < length (vflist impl)"
    using assms opened [of "vf_File (vflist impl ! idx)"] seek read
    by (auto simp: rec_record_def Let_def split: prod.splits outcome.splits if_splits option.splits)
      (metis prod.sel(2) | metis fst_conv)+
qed

lemma record_at_effect:
  assumes "record_at io apt msgs p pos h = (r, h')"
  shows "counted h' b = counted h b" and "list_at h' b = list_at h b" and "counts_pos h \<Longrightarrow> counts_pos h'"
    and "r = Returned x \<Longrightarrow> \<exists>a l. p = Some a \<and> list_at h a = Some l \<and> pos < length l"
proof -
  have "(h' = h \<and> r = Undefined) \<or> (\<exists>a impl impl'. p = Some a \<and> h a = Some impl
      \<and> rec_record io apt msgs pos impl = (r, impl') \<and> h' = h(a \<mapsto> impl'))"
    using assms by (auto simp: record_at_def split: option.splits prod.splits)
  then show "counted h' b = counted h b" "list_at h' b = list_at h b" "counts_pos h \<Longrightarrow> counts_pos h'"
    "r = Returned x \<Longrightarrow> \<exists>a l. p = Some a \<and> list_at h a = Some l \<and> pos < length l"
    by (auto simp: rec_record_keeps intro!: counts_pos_upd
        dest: rec_record_keeps(4) counts_posD)
qed

subsection \<open>The invariant\<close>

text \<open>
  Every implementation counts at least the variables that refer to it - exactly those, as long as
  no \<open>recordBegin\<close> throws - and the position of a variable is inside the list of records.
\<close>

definition riter_inv :: "bool \<Rightarrow> 'fd riter_state \<Rightarrow> bool" where
  "riter_inv throws s \<longleftrightarrow> finite (dom (vars s)) \<and> counts_pos (heap s)
     \<and> (\<forall>a. int (refs (vars s) a) \<le> counted (heap s) a)
     \<and> (\<not> throws \<longrightarrow> (\<forall>a. counted (heap s) a = int (refs (vars s) a)))
     \<and> (\<forall>x r a l. vars s x = Some r \<longrightarrow> it_impl r = Some a \<longrightarrow> list_at (heap s) a = Some l \<longrightarrow> it_pos r < length l)"

lemma riter_inv_start: "riter_inv throws riter_start"
  by (simp add: riter_inv_def riter_start_def counts_pos_def refs_def counted_def)

text \<open>The references that no variable accounts for do not become fewer.\<close>

definition surplus_le :: "'fd riter_state \<Rightarrow> 'fd riter_state \<Rightarrow> bool" where
  "surplus_le s s' \<longleftrightarrow> (\<forall>a. counted (heap s) a - int (refs (vars s) a) \<le> counted (heap s') a - int (refs (vars s') a))"

text \<open>One variable changes and the counts change with it, perhaps by more.\<close>

lemma riter_inv_step:
  assumes inv: "riter_inv throws s"
    and counts: "counts_pos h" "\<And>a. counted h a = counted (heap s) a - of_bool (holds (vars s x) a)
        + of_bool (holds q a) + extra a"
    and extra: "\<And>a. 0 \<le> extra a" "\<And>a. \<not> throws \<Longrightarrow> extra a = 0"
    and lists: "\<And>y r a l. y \<noteq> x \<Longrightarrow> vars s y = Some r \<Longrightarrow> it_impl r = Some a \<Longrightarrow> list_at h a = Some l
        \<Longrightarrow> list_at (heap s) a = Some l"
    and pos: "\<And>r a l. q = Some r \<Longrightarrow> it_impl r = Some a \<Longrightarrow> list_at h a = Some l \<Longrightarrow> it_pos r < length l"
  shows "riter_inv throws \<lparr>heap = h, vars = (vars s)(x := q)\<rparr> \<and> surplus_le s \<lparr>heap = h, vars = (vars s)(x := q)\<rparr>"
proof -
  have fin: "finite (dom (vars s))" using inv by (simp add: riter_inv_def)
  have "int (refs ((vars s)(x := q)) a) \<le> counted h a" for a
  proof -
    have "int (refs (vars s) a) \<le> counted (heap s) a" using inv by (simp add: riter_inv_def)
    then show ?thesis using counts(2) [of a] extra(1) [of a] unfolding refs_upd [OF fin] by linarith
  qed
  moreover have "counted h a = int (refs ((vars s)(x := q)) a)" if "\<not> throws" for a
    using inv counts(2) [of a] extra(2) [OF that, of a] that by (simp add: riter_inv_def refs_upd [OF fin])
  moreover have "it_pos r < length l"
    if "((vars s)(x := q)) y = Some r" "it_impl r = Some a" "list_at h a = Some l" for y r a l
    using that inv pos [of r a l] lists [of y r a l] by (cases "y = x") (auto simp: riter_inv_def)
  moreover have "counted (heap s) a - int (refs (vars s) a) \<le> counted h a - int (refs ((vars s)(x := q)) a)" for a
    using counts(2) [of a] extra(1) [of a] unfolding refs_upd [OF fin] by linarith
  ultimately show ?thesis using fin counts(1) by (simp add: riter_inv_def surplus_le_def)
qed

lemma recordBegin_cases:
  assumes "recordBegin srt io apt msgs junk a h = (res, h')" and "res \<noteq> Undefined"
  obtains (unread) e where "res = Thrown e" "h' = h"
  | (reading) impl out where "ref_count impl = 1" "h' = h(a \<mapsto> impl)"
      "\<And>r. res = Returned r \<Longrightarrow> it_impl r = Some a \<and> it_pos r < length (vflist impl)"
proof (cases "new_rec_impl srt apt junk :: (apt_error, 'a rec_impl) outcome")
  case (Returned impl)
  obtain out impl' where rr: "rec_record io apt msgs 0 (rec_ref impl) = (out, impl')" by fastforce
  have "ref_count impl = 0" using Returned by (auto simp: new_rec_impl_def)
  with rec_record_keeps [OF rr] have keeps: "ref_count impl' = 1" "vflist impl' = vflist impl"
    "\<And>x. out = Returned x \<Longrightarrow> 0 < length (vflist impl)"
    by (simp_all add: rec_ref_def)
  have "(res, h') = (case out of Returned r \<Rightarrow> (Returned \<lparr>it_impl = Some a, it_pos = 0, it_cur = r, it_cur_pos = 0\<rparr>, h(a \<mapsto> impl'))
      | Thrown e \<Rightarrow> (Thrown e, h(a \<mapsto> impl')) | Undefined \<Rightarrow> (Undefined, h(a \<mapsto> impl')))"
    using assms(1) Returned rr
    by (simp add: recordBegin_def riter_construct_def ref_at_def record_at_def split: outcome.splits)
  then have "h' = h(a \<mapsto> impl') \<and> (\<forall>r. res = Returned r \<longrightarrow> it_impl r = Some a \<and> it_pos r < length (vflist impl'))"
    using keeps by (cases out) auto
  with keeps(1) reading show ?thesis by blast
next
  case (Thrown e)
  with assms(1) unread show ?thesis by (auto simp: recordBegin_def)
next
  case Undefined
  with assms show ?thesis by (simp add: recordBegin_def)
qed

lemma riter_inv_free:
  assumes "riter_inv throws s" and "heap s a = None" and "vars s x = Some r" and "it_impl r = Some b"
  shows "b \<noteq> a"
proof
  assume "b = a"
  have "{y. holds (vars s y) a} \<subseteq> dom (vars s)" by (auto simp: holds_def)
  then have "finite {y. holds (vars s y) a}" using assms(1) by (auto simp: riter_inv_def dest: finite_subset)
  moreover have "x \<in> {y. holds (vars s y) a}" using assms(3,4) \<open>b = a\<close> by simp
  ultimately have "0 < refs (vars s) a" unfolding refs_def by (auto simp: card_gt_0_iff)
  moreover have "int (refs (vars s) a) \<le> 0"
    using assms(1,2) by (metis counted_def option.simps(4) riter_inv_def)
  ultimately show False by simp
qed

lemma riter_inv_alive:
  assumes "riter_inv throws s" and "vars s x = Some r" and "it_impl r = Some a"
  obtains impl where "heap s a = Some impl" "it_pos r < length (vflist impl)" "0 < ref_count impl"
proof -
  obtain impl where impl: "heap s a = Some impl"
    using riter_inv_free [OF assms(1) _ assms(2,3)] by (cases "heap s a") auto
  moreover have "it_pos r < length (vflist impl)" using assms impl by (auto simp: riter_inv_def)
  moreover have "0 < ref_count impl" using assms(1) impl by (auto simp: riter_inv_def dest: counts_posD)
  ultimately show thesis by (rule that)
qed

lemma riter_inv_unchanged: "riter_inv throws s \<Longrightarrow> finite (dom (vars s)) \<and> counts_pos (heap s)"
  by (simp add: riter_inv_def)

lemma riter_inv_pos:
  "riter_inv throws s \<Longrightarrow> vars s x = Some r \<Longrightarrow> it_impl r = Some a \<Longrightarrow> list_at (heap s) a = Some l \<Longrightarrow> it_pos r < length l"
  by (auto simp: riter_inv_def)

lemma riter_step_inv:
  assumes "riter_step throws srt io apt s s'" and inv: "riter_inv throws s"
  shows "riter_inv throws s' \<and> surplus_le s s'"
  using assms(1)
proof cases
  case (begin_step x a msgs junk r h)
  note pos = riter_inv_unchanged [OF inv, THEN conjunct2]
  from recordBegin_cases [OF begin_step(4)] obtain impl where impl: "ref_count impl = 1"
    "h = (heap s)(a \<mapsto> impl)" "it_impl r = Some a" "it_pos r < length (vflist impl)"
    by (metis outcome.distinct(1,3) outcome.inject(1))
  show ?thesis unfolding begin_step(1) impl(2)
    by (rule riter_inv_step [OF inv, where extra = "\<lambda>_. 0"])
      (use begin_step(2,3) impl pos riter_inv_free [OF inv begin_step(3)] in
        \<open>auto intro!: counts_pos_upd simp: counted_def split: if_splits\<close>)
next
  case (begin_throws a msgs junk e h)
  note pos = riter_inv_unchanged [OF inv]
  have "Thrown e \<noteq> (Undefined :: (apt_error, riter) outcome)" by simp
  from recordBegin_cases [OF begin_throws(4) this]
  consider "h = heap s" | impl where "ref_count impl = 1" "h = (heap s)(a \<mapsto> impl)" by metis
  then show ?thesis
  proof cases
    case 1
    with inv begin_throws(1) show ?thesis by (cases s) (simp add: surplus_le_def)
  next
    case (2 impl)
    have "riter_inv throws \<lparr>heap = (heap s)(a \<mapsto> impl), vars = (vars s)(0 := vars s 0)\<rparr>
        \<and> surplus_le s \<lparr>heap = (heap s)(a \<mapsto> impl), vars = (vars s)(0 := vars s 0)\<rparr>"
      by (rule riter_inv_step [OF inv, where extra = "\<lambda>b. of_bool (b = a)"])
        (use begin_throws(2,3) 2(1) pos riter_inv_free [OF inv begin_throws(3)] riter_inv_pos [OF inv] in
          \<open>auto intro!: counts_pos_upd simp: counted_def split: if_splits\<close>)
    with begin_throws(1) 2(2) show ?thesis by simp
  qed
next
  case (end_step x)
  have "s\<lparr>vars := (vars s)(x \<mapsto> recordEnd)\<rparr> = \<lparr>heap = heap s, vars = (vars s)(x \<mapsto> recordEnd)\<rparr>" by (cases s) simp
  moreover have "riter_inv throws \<lparr>heap = heap s, vars = (vars s)(x \<mapsto> recordEnd)\<rparr>
      \<and> surplus_le s \<lparr>heap = heap s, vars = (vars s)(x \<mapsto> recordEnd)\<rparr>"
    by (rule riter_inv_step [OF inv, where extra = "\<lambda>_. 0"])
      (use end_step(2) riter_inv_unchanged [OF inv] in \<open>auto simp: recordEnd_def end_riter_def\<close>)
  ultimately show ?thesis unfolding end_step(1) by (simp only:)
next
  case (copy_step x y r r' h)
  then have h: "ref_at (it_impl r) (heap s) = Returned h" "r' = r" by (auto simp: riter_copy_def)
  note eff = ref_at_effect [OF h(1)]
  show ?thesis unfolding copy_step(1)
    by (rule riter_inv_step [OF inv, where extra = "\<lambda>_. 0"])
      (use copy_step(2,3) h(2) eff riter_inv_unchanged [OF inv] riter_inv_pos [OF inv] in \<open>auto\<close>)
next
  case (destroy_step x r h)
  then have h: "unref_at (it_impl r) (heap s) = Returned h" by (simp add: riter_destroy_def)
  note eff = unref_at_effect [OF h riter_inv_unchanged [OF inv, THEN conjunct2]]
  show ?thesis unfolding destroy_step(1)
    by (rule riter_inv_step [OF inv, where extra = "\<lambda>_. 0"]) (use destroy_step(2) eff in auto)
next
  case (get_step x r msgs res r' h)
  have same: "counted h = counted (heap s)" "list_at h = list_at (heap s)" "counts_pos h" "it_impl r' = it_impl r" "it_pos r' = it_pos r"
    using get_step(3) riter_inv_unchanged [OF inv] record_at_effect
    by (fastforce simp: riter_get_def split: if_splits prod.splits outcome.splits)+
  have pos: "it_pos r' < length l" if "it_impl r' = Some a" "list_at h a = Some l" for a l
    using riter_inv_pos [OF inv get_step(2), of a l] that same by simp
  show ?thesis unfolding get_step(1)
    by (rule riter_inv_step [OF inv, where extra = "\<lambda>_. 0"]) (use get_step(2) same pos in \<open>auto, metis\<close>)
next
  case (incr_step x r r' h)
  then obtain a impl where a: "it_impl r = Some a" "heap s a = Some impl"
    by (auto simp: riter_incr_def Let_def split: option.splits)
  show ?thesis
  proof (cases "rec_size impl \<le> it_pos r + 1")
    case True
    with incr_step(3) a have h: "unref_at (it_impl r) (heap s) = Returned h" "it_impl r' = None"
      by (auto simp: riter_incr_def Let_def)
    note eff = unref_at_effect [OF h(1) riter_inv_unchanged [OF inv, THEN conjunct2]]
    show ?thesis unfolding incr_step(1)
      by (rule riter_inv_step [OF inv, where extra = "\<lambda>_. 0"]) (use incr_step(2) eff h(2) in auto)
  next
    case False
    with incr_step(3) a have h: "h = heap s" "r' = r\<lparr>it_pos := it_pos r + 1\<rparr>"
      by (auto simp: riter_incr_def Let_def)
    show ?thesis unfolding incr_step(1)
      by (rule riter_inv_step [OF inv, where extra = "\<lambda>_. 0"])
        (use incr_step(2) h a False riter_inv_unchanged [OF inv] in \<open>auto simp: rec_size_def\<close>)
  qed
next
  case (assign_step x l y r l' h)
  then obtain h1 where h: "ref_at (it_impl r) (heap s) = Returned h1" "unref_at (it_impl l) h1 = Returned h"
    "l' = l\<lparr>it_impl := it_impl r, it_pos := it_pos r, it_cur := it_cur r, it_cur_pos := it_cur_pos r\<rparr>"
    by (auto simp: riter_assign_def)
  note eff1 = ref_at_effect [OF h(1)]
  note eff2 = unref_at_effect [OF h(2) eff1(3) [OF riter_inv_unchanged [OF inv, THEN conjunct2]]]
  show ?thesis unfolding assign_step(1)
    by (rule riter_inv_step [OF inv, where extra = "\<lambda>_. 0"])
      (use assign_step(2,3) h(3) eff1 eff2 riter_inv_pos [OF inv] in \<open>auto\<close>)
qed

lemma riter_reach_inv: "riter_reach throws srt io apt s \<Longrightarrow> riter_inv throws s"
  unfolding riter_reach_def
  by (induction rule: rtranclp_induct) (auto intro: riter_inv_start dest: riter_step_inv)

text \<open>
  C8: no program gets a record iterator into a state in which a deleted implementation is used or
  a record outside the list is read: destroying, copying and assigning are always defined, \<open>++\<close>
  exactly when the iterator is not at its end, and reading fails to be defined only at the end,
  for an iterator that has moved since it was last read.
\<close>

theorem record_iterators_safe:
  assumes "riter_reach throws srt io apt s" and "vars s x = Some r"
  shows "(\<exists>h. riter_destroy r (heap s) = Returned h) \<and> (\<exists>h. riter_copy r (heap s) = Returned (r, h))
    \<and> (\<forall>y l. vars s y = Some l \<longrightarrow> (\<exists>l' h. riter_assign l r (heap s) = Returned (l', h)))
    \<and> ((\<exists>r' h. riter_incr r (heap s) = Returned (r', h)) \<longleftrightarrow> it_impl r \<noteq> None)
    \<and> (fst (riter_get io apt msgs r (heap s)) = Undefined \<longleftrightarrow> it_impl r = None \<and> it_cur_pos r \<noteq> it_pos r)"
proof -
  note inv = riter_reach_inv [OF assms(1)]
  have unref: "\<exists>h'. unref_at (it_impl q) h = Returned h'" if "\<And>a. it_impl q = Some a \<Longrightarrow> h a \<noteq> None" for q h
    using that by (cases "it_impl q") (auto simp: unref_at_def rec_unref_def)
  have alive: "\<exists>impl. heap s a = Some impl \<and> it_pos q < length (vflist impl)"
    if "vars s y = Some q" "it_impl q = Some a" for y q a
    using riter_inv_alive [OF inv that] by blast
  obtain h1 where h1: "ref_at (it_impl r) (heap s) = Returned h1" "\<And>a. heap s a \<noteq> None \<Longrightarrow> h1 a \<noteq> None"
    using alive [OF assms(2)] by (cases "it_impl r") (auto simp: ref_at_def split: if_splits)
  have "\<exists>l' h. riter_assign l r (heap s) = Returned (l', h)" if "vars s y = Some l" for y l
    using unref [of l h1] alive [OF that] h1 by (fastforce simp: riter_assign_def)
  moreover have "(\<exists>r' h. riter_incr r (heap s) = Returned (r', h)) \<longleftrightarrow> it_impl r \<noteq> None"
    using alive [OF assms(2)] unref [of r "heap s"]
    by (cases "it_impl r") (auto simp: riter_incr_def Let_def)
  moreover have "fst (riter_get io apt msgs r (heap s)) = Undefined \<longleftrightarrow> it_impl r = None \<and> it_cur_pos r \<noteq> it_pos r"
  proof (cases "it_impl r")
    case None
    then show ?thesis by (simp add: riter_get_def record_at_def)
  next
    case (Some a)
    obtain impl where impl: "heap s a = Some impl" "it_pos r < length (vflist impl)"
      using alive [OF assms(2) Some] by blast
    obtain out impl' where rr: "rec_record io apt msgs (it_pos r) impl = (out, impl')" by fastforce
    with rec_record_keeps(3) [OF rr impl(2)] Some impl show ?thesis
      by (cases out) (auto simp: riter_get_def record_at_def)
  qed
  ultimately show ?thesis
    using unref [of r "heap s"] alive [OF assms(2)] h1(1)
    by (auto simp: riter_destroy_def riter_copy_def)
qed

text \<open>
  C16: the count of an implementation is positive and at least the number of iterators that share it, so that it is
  not deleted while one of them is left.  In a program in which no \<open>recordBegin\<close> throws it is exactly that
  number, so that the implementation is deleted with the last of them and none is left
  when there are no iterators.
\<close>

theorem record_iterators_counted:
  assumes "riter_reach throws srt io apt s"
  defines "sharing \<equiv> \<lambda>a. card {x. \<exists>r. vars s x = Some r \<and> it_impl r = Some a}"
  shows "(\<forall>a impl. heap s a = Some impl \<longrightarrow> int (sharing a) \<le> ref_count impl \<and> 0 < ref_count impl)
    \<and> (\<not> throws \<longrightarrow> (\<forall>a impl. heap s a = Some impl \<longrightarrow> ref_count impl = int (sharing a))
        \<and> ((\<forall>x. vars s x = None) \<longrightarrow> heap s = (\<lambda>_. None)))"
proof -
  note inv = riter_reach_inv [OF assms(1)]
  have sharing: "sharing a = refs (vars s) a" for a by (simp add: sharing_def refs_def holds_def)
  have count: "int (sharing a) \<le> ref_count impl \<and> 0 < ref_count impl \<and> (\<not> throws \<longrightarrow> ref_count impl = int (sharing a))"
    if "heap s a = Some impl" for a impl
    using inv counts_posD [of "heap s" a impl] that unfolding sharing riter_inv_def by (metis counted_upd(3))
  have "heap s a = None" if "\<not> throws" "\<forall>x. vars s x = None" for a
    using count [of a] that by (cases "heap s a") (auto simp: sharing_def)
  then have "heap s = (\<lambda>_. None)" if "\<not> throws" "\<forall>x. vars s x = None" using that by blast
  with count show ?thesis by blast
qed

text \<open>
  when \<open>recordBegin\<close> throws while it reads the first record, the implementation it has made is
  never deleted, whatever the program does afterwards.
\<close>

theorem failed_recordBegin_leaks:
  assumes "riter_reach True srt io apt s" and "heap s a = None"
    and "recordBegin srt io apt msgs junk a (heap s) = (Thrown e, h)" and "h a \<noteq> None"
    and "(riter_step True srt io apt)\<^sup>*\<^sup>* \<lparr>heap = h, vars = vars s\<rparr> t"
  shows "\<exists>impl. heap t a = Some impl \<and> int (card {x. \<exists>r. vars t x = Some r \<and> it_impl r = Some a}) < ref_count impl"
proof -
  note inv = riter_reach_inv [OF assms(1)]
  have "riter_step True srt io apt s \<lparr>heap = h, vars = vars s\<rparr>"
    using assms(2,3) by (intro begin_throws) auto
  then have start: "riter_inv True \<lparr>heap = h, vars = vars s\<rparr>" using riter_step_inv inv by blast
  have "Thrown e \<noteq> (Undefined :: (apt_error, riter) outcome)" by simp
  from recordBegin_cases [OF assms(3) this] assms(2,4) obtain impl where "h a = Some impl" "ref_count impl = 1"
    by (metis fun_upd_same)
  moreover have "int (refs (vars s) a) \<le> 0" using inv assms(2) by (metis counted_def option.simps(4) riter_inv_def)
  ultimately have gap: "int (refs (vars s) a) < counted h a" by simp
  from assms(5) have "riter_inv True t \<and> int (refs (vars t) a) < counted (heap t) a"
  proof (induction rule: rtranclp_induct)
    case base
    with start gap show ?case by simp
  next
    case (step t u)
    then have "riter_inv True u" "surplus_le t u" using riter_step_inv by blast+
    moreover from this(2) have "counted (heap t) a - int (refs (vars t) a) \<le> counted (heap u) a - int (refs (vars u) a)"
      by (simp add: surplus_le_def)
    ultimately show ?case using step.IH by simp
  qed
  then have "int (refs (vars t) a) < counted (heap t) a" by simp
  then show ?thesis by (cases "heap t a") (auto simp: refs_def holds_def counted_def)
qed

subsection \<open>Iterating over all records\<close>

text \<open>The loop \<open>for (; i != recordEnd(); ++i)\<close> that collects the records.\<close>

partial_function (option) record_walk ::
  "'fd filefd \<Rightarrow> libapt \<Rightarrow> (bool \<times> string) list \<Rightarrow> riter \<Rightarrow> 'fd rheap \<Rightarrow> string list
    \<Rightarrow> ((apt_error, string list) outcome \<times> 'fd rheap) option" where
  "record_walk io apt msgs i h res =
     (if riter_neq i recordEnd then
        (case riter_get io apt msgs i h of
           (Returned s, i1, h1) \<Rightarrow>
             (case riter_incr i1 h1 of
                Returned (i2, h2) \<Rightarrow> record_walk io apt msgs i2 h2 (res @ [s])
              | Thrown e \<Rightarrow> Some (Thrown e, h1)
              | Undefined \<Rightarrow> Some (Undefined, h1))
         | (Thrown e, i1, h1) \<Rightarrow> Some (Thrown e, h1)
         | (Undefined, i1, h1) \<Rightarrow> Some (Undefined, h1))
      else Some (Returned res, h))"

lemma record_walk_end: "record_walk io apt msgs \<lparr>it_impl = None, it_pos = 0, it_cur = s, it_cur_pos = n\<rparr> h res = Some (Returned res, h)"
  by (subst record_walk.simps) (simp add: riter_neq_def recordEnd_def end_riter_def)

text \<open>Reading an iterator whose current record is either not read yet or the right one.\<close>

lemma riter_get_bytes:
  assumes "file_fd io contents view" and "h a = Some impl" and "reader_ok apt contents view impl"
    and "n < length (vflist impl)" and "record_ok apt contents (vflist impl ! n)"
    and "k = n \<Longrightarrow> s = bytes_at apt contents (vflist impl ! n)"
  shows "\<exists>impl'. riter_get io apt msgs \<lparr>it_impl = Some a, it_pos = n, it_cur = s, it_cur_pos = k\<rparr> h
      = (Returned (bytes_at apt contents (vflist impl ! n)),
         \<lparr>it_impl = Some a, it_pos = n, it_cur = bytes_at apt contents (vflist impl ! n), it_cur_pos = n\<rparr>, h(a \<mapsto> impl'))
    \<and> reader_ok apt contents view impl' \<and> vflist impl' = vflist impl \<and> ref_count impl' = ref_count impl"
proof (cases "k = n")
  case True
  have "h(a \<mapsto> impl) = h" using assms(2) by auto
  with True assms(2,3,6) show ?thesis by (auto simp: riter_get_def intro!: exI [of _ impl])
next
  case False
  with file_fd.rec_record_bytes [OF assms(1,3,4,5), of msgs] assms(2) show ?thesis
    by (auto simp: riter_get_def record_at_def)
qed

lemma record_walk_from:
  assumes "file_fd io contents view" and "\<forall>vf\<in>set l. record_ok apt contents vf"
    and "h a = Some impl" and "reader_ok apt contents view impl" and "vflist impl = l" and "ref_count impl = 1"
    and "n < length l" and "k = n \<Longrightarrow> s = bytes_at apt contents (l ! n)"
  shows "record_walk io apt msgs \<lparr>it_impl = Some a, it_pos = n, it_cur = s, it_cur_pos = k\<rparr> h res
    = Some (Returned (res @ map (bytes_at apt contents) (drop n l)), h(a := None))"
  using assms(3-)
proof (induction "length l - n" arbitrary: n k s h impl res rule: less_induct)
  case less
  have lt: "n < length (vflist impl)" using less.prems(3,5) by simp
  then have ok: "record_ok apt contents (vflist impl ! n)" using assms(2) less.prems(3) by simp
  obtain impl' where get: "riter_get io apt msgs \<lparr>it_impl = Some a, it_pos = n, it_cur = s, it_cur_pos = k\<rparr> h
      = (Returned (bytes_at apt contents (l ! n)),
         \<lparr>it_impl = Some a, it_pos = n, it_cur = bytes_at apt contents (l ! n), it_cur_pos = n\<rparr>, h(a \<mapsto> impl'))"
    and impl': "reader_ok apt contents view impl'" "vflist impl' = l" "ref_count impl' = 1"
    using riter_get_bytes [where h = h and a = a and k = k and s = s and msgs = msgs, OF assms(1) less.prems(1,2) lt ok]
      less.prems(3-6) by auto
  have drop: "drop n l = l ! n # drop (Suc n) l" using less.prems(5) by (simp add: Cons_nth_drop_Suc)
  show ?case
  proof (cases "length l \<le> Suc n")
    case True
    with get impl' drop less.prems(5) show ?thesis
      by (subst record_walk.simps)
        (simp add: riter_neq_def recordEnd_def end_riter_def riter_incr_def rec_size_def unref_at_def rec_unref_def
          record_walk_end)
  next
    case False
    have "record_walk io apt msgs \<lparr>it_impl = Some a, it_pos = Suc n, it_cur = bytes_at apt contents (l ! n), it_cur_pos = n\<rparr>
        (h(a \<mapsto> impl')) (res @ [bytes_at apt contents (l ! n)])
      = Some (Returned ((res @ [bytes_at apt contents (l ! n)]) @ map (bytes_at apt contents) (drop (Suc n) l)),
          (h(a \<mapsto> impl'))(a := None))"
      using False less.prems(5) impl' by (intro less.hyps) auto
    with get impl' False drop show ?thesis
      by (subst record_walk.simps)
        (simp add: riter_neq_def recordEnd_def end_riter_def riter_incr_def rec_size_def)
  qed
qed

lemma recordBegin_first:
  fixes impl :: "'fd rec_impl" and io :: "'fd filefd"
  assumes "file_fd io contents view" and "new_rec_impl srt apt junk = Returned impl"
    and "\<forall>vf\<in>set (vflist impl). record_ok apt contents vf" and "vflist impl \<noteq> []"
  shows "\<exists>impl'. recordBegin srt io apt msgs junk a h = (Returned \<lparr>it_impl = Some a, it_pos = 0,
      it_cur = bytes_at apt contents (vflist impl ! 0), it_cur_pos = 0\<rparr>, h(a \<mapsto> impl'))
    \<and> reader_ok apt contents view impl' \<and> vflist impl' = vflist impl \<and> ref_count impl' = 1"
proof -
  have fresh: "reader_ok apt contents view (rec_ref impl)" "ref_count (rec_ref impl) = 1" "vflist (rec_ref impl) = vflist impl"
    using assms(2) by (auto simp: new_rec_impl_def reader_ok_def rec_ref_def)
  obtain impl' where "rec_record io apt msgs 0 (rec_ref impl) = (Returned (bytes_at apt contents (vflist impl ! 0)), impl')"
    and "reader_ok apt contents view impl'" "vflist impl' = vflist impl" "ref_count impl' = 1"
    using file_fd.rec_record_bytes [OF assms(1) fresh(1), of 0 msgs] fresh assms(3,4) by auto
  with assms(2) show ?thesis
    by (intro exI [of _ impl']) (simp add: recordBegin_def riter_construct_def ref_at_def record_at_def)
qed

lemma all_records_walked:
  fixes impl :: "'fd rec_impl" and io :: "'fd filefd"
  assumes "file_fd io contents view" and "new_rec_impl srt apt junk = Returned impl"
    and "\<forall>vf\<in>set (vflist impl). record_ok apt contents vf" and "h a = None"
  shows "if vflist impl = [] then fst (recordBegin srt io apt msgs junk a h) = Undefined
    else \<exists>r h1. recordBegin srt io apt msgs junk a h = (Returned r, h1)
      \<and> record_walk io apt msgs r h1 [] = Some (Returned (map (bytes_at apt contents) (vflist impl)), h)"
proof (cases "vflist impl = []")
  case True
  with assms(2) show ?thesis
    by (simp add: recordBegin_def riter_construct_def ref_at_def rec_ref_def record_at_def rec_record_def)
next
  case False
  from recordBegin_first [OF assms(1-3) False, of msgs a h] obtain impl' where "recordBegin srt io apt msgs junk a h =
      (Returned \<lparr>it_impl = Some a, it_pos = 0, it_cur = bytes_at apt contents (vflist impl ! 0), it_cur_pos = 0\<rparr>, h(a \<mapsto> impl'))"
    and impl': "reader_ok apt contents view impl'" "vflist impl' = vflist impl" "ref_count impl' = 1" by blast
  moreover have "(h(a \<mapsto> impl'))(a := None) = h" using assms(4) by auto
  ultimately show ?thesis
    using False record_walk_from [OF assms(1,3), of "h(a \<mapsto> impl')" a impl' 0 0] impl' by simp
qed

text \<open>
  C17: the loop from \<open>recordBegin()\<close> to \<open>recordEnd()\<close> returns all records, in the order of the package
  files and the offsets in them, each the bytes on disk, and when it ends the implementation has
  been deleted.  When there is no record \<open>recordBegin\<close> reads one all the same, outside the list.
\<close>

theorem all_records_in_order:
  fixes impl :: "'fd rec_impl" and io :: "'fd filefd"
  assumes "file_fd io contents view" and "new_rec_impl srt apt junk = Returned impl"
    and "\<forall>vf\<in>set (vflist impl). record_ok apt contents vf" and "h a = None"
  shows "if vflist impl = [] then fst (recordBegin srt io apt msgs junk a h) = Undefined
    else \<exists>r h1. recordBegin srt io apt msgs junk a h = (Returned r, h1)
      \<and> record_walk io apt msgs r h1 [] = Some (Returned (map (bytes_at apt contents) (vflist impl)), h)"
  using assms by (rule all_records_walked)

theorem all_records_in_order_witness:
  "\<exists>r h1. recordBegin insertion_sort (mem_io sample_files) three_apt [] 5 7 (\<lambda>_. None) = (Returned r, h1)
    \<and> record_walk (mem_io sample_files) three_apt [] r h1 [] = Some (Returned [''one'', ''two'', ''three''], \<lambda>_. None)"
proof -
  have name: "FileName three_apt f = ''f''" "FileIsOk three_apt f" for f
    by (simp_all add: three_apt_def sample_apt_def)
  have ok: "\<forall>vf\<in>set [three_records ! 1, three_records ! 2, three_records ! 0]. record_ok three_apt sample_files vf"
    by (simp add: record_ok_def name sample_files_def three_records_def size_modulus_def)
  from all_records_in_order [OF mem.file_fd_axioms three_impl, of sample_files "\<lambda>_. None" 7 "[]"] ok
  show ?thesis by (simp add: bytes_at_def name sample_files_def three_records_def substr_def)
qed

subsection \<open>Witnesses\<close>

text \<open>The first record of the three packages, with the file there and with the file missing.\<close>

definition first_riter :: riter where
  "first_riter = \<lparr>it_impl = Some 7, it_pos = 0, it_cur = ''one'', it_cur_pos = 0\<rparr>"

definition three_list :: "ver_file list" where
  "three_list = [three_records ! 1, three_records ! 2, three_records ! 0]"

definition three_heap :: "(string \<times> nat) rheap" where
  "three_heap = [7 \<mapsto> \<lparr>ref_count = 1, vflist = three_list, lastFile = Some 0,
     rec_fd = Some (''one,two,three'', 3), lastOffset = 3\<rparr>]"

lemma three_begin:
  "recordBegin insertion_sort (mem_io sample_files) three_apt [] 5 7 (\<lambda>_. None) = (Returned first_riter, three_heap)"
proof -
  have "FileName three_apt f = ''f''" "FileIsOk three_apt f" for f
    by (simp_all add: three_apt_def sample_apt_def)
  then show ?thesis
    by (simp add: recordBegin_def three_impl riter_construct_def ref_at_def rec_ref_def record_at_def rec_record_def
        rec_open_def rec_read_def three_records_def mem_io_def sample_files_def size_sub_def Let_def substr_def
        first_riter_def three_heap_def three_list_def)
qed

lemma three_missing:
  "\<exists>e. recordBegin insertion_sort (mem_io (\<lambda>_. None)) three_apt [] 5 7 (\<lambda>_. None) = (Thrown e,
     [7 \<mapsto> \<lparr>ref_count = 1, vflist = three_list, lastFile = Some 0, rec_fd = None, lastOffset = 5\<rparr>])"
proof -
  have "FileName three_apt f = ''f''" "FileIsOk three_apt f" for f
    by (simp_all add: three_apt_def sample_apt_def)
  then show ?thesis
    by (simp add: recordBegin_def three_impl riter_construct_def ref_at_def rec_ref_def record_at_def rec_record_def
        rec_open_def three_records_def mem_io_def Let_def three_list_def)
qed

lemma three_reach:
  "riter_reach throws insertion_sort (mem_io sample_files) three_apt \<lparr>heap = three_heap, vars = [0 \<mapsto> first_riter]\<rparr>"
proof -
  have "riter_step throws insertion_sort (mem_io sample_files) three_apt riter_start
      \<lparr>heap = three_heap, vars = (vars riter_start)(0 \<mapsto> first_riter)\<rparr>"
    using riter_step.begin_step [where s = riter_start and x = 0 and a = 7 and msgs = "[]" and junk = 5
        and srt = insertion_sort and io = "mem_io sample_files" and apt = three_apt and r = first_riter
        and h = three_heap and throws = throws]
    by (simp add: riter_start_def three_begin)
  then show ?thesis by (simp add: riter_reach_def riter_start_def r_into_rtranclp)
qed

theorem record_iterators_safe_witness:
  "(\<exists>h. riter_destroy first_riter three_heap = Returned h)
    \<and> (\<exists>r h. riter_incr first_riter three_heap = Returned (r, h))"
  using record_iterators_safe [OF three_reach, of 0 first_riter] by (simp add: first_riter_def)

theorem record_iterators_counted_witness:
  "ref_count (the (three_heap 7)) = int (card {x :: nat. \<exists>r. [0 \<mapsto> first_riter] x = Some r \<and> it_impl r = Some 7})"
proof -
  have "three_heap 7 = Some (the (three_heap 7))" by (simp add: three_heap_def)
  with record_iterators_counted [OF three_reach [of False], THEN conjunct2, THEN mp, THEN conjunct1, THEN spec, THEN spec,
      of 7 "the (three_heap 7)"]
  show ?thesis unfolding riter_state.select_convs by blast
qed

theorem failed_recordBegin_leaks_witness:
  "\<exists>e h impl. recordBegin insertion_sort (mem_io (\<lambda>_. None)) three_apt [] 5 7 (\<lambda>_. None) = (Thrown e, h)
    \<and> h 7 = Some impl \<and> 0 < ref_count impl"
proof -
  obtain e h where run: "recordBegin insertion_sort (mem_io (\<lambda>_. None)) three_apt [] 5 7 (\<lambda>_. None) = (Thrown e, h)"
    and h: "h 7 \<noteq> None"
    using three_missing by auto
  have "riter_reach True insertion_sort (mem_io (\<lambda>_. None)) three_apt riter_start" by (simp add: riter_reach_def)
  from failed_recordBegin_leaks [OF this, of 7 "[]" 5 e h "\<lparr>heap = h, vars = vars riter_start\<rparr>"] run h
  show ?thesis by (auto simp: riter_start_def)
qed

end
