(* ===== verification/PkgIterators.thy ===== *)
theory PkgIterators
  imports AptCache
begin

section \<open>Package iterators and the memory they own (ept/apt/apt.cc)\<close>

text \<open>
  An \<open>Apt::Iterator\<close> is a pointer to a \<open>pkgCache::PkgIterator\<close> that it has allocated, or null for an
  end iterator.  \<open>AptCache\<close> treats iterators as values; here the objects are in a heap, a map from
  addresses to the packages from the position on, and the theorems say that no object is ever shared,
  lost or used after it is deleted, so that iterators behave like the values.
\<close>

type_synonym cells = "nat \<Rightarrow> nat list option"

subsection \<open>The operations\<close>

text \<open>\<open>a\<close> is the address that \<open>new\<close> gives; deleting what is not allocated is undefined.\<close>

definition delete_cell :: "nat option \<Rightarrow> cells \<Rightarrow> (apt_error, cells) outcome" where
  "delete_cell ptr h =
     (case ptr of
        None \<Rightarrow> Returned h
      | Some b \<Rightarrow> (case h b of None \<Rightarrow> Undefined | Some _ \<Rightarrow> Returned (h(b := None))))"

definition piter_copy :: "nat \<Rightarrow> nat option \<Rightarrow> cells \<Rightarrow> (apt_error, nat option \<times> cells) outcome" where
  "piter_copy a i h =
     (case i of
        None \<Rightarrow> Returned (None, h)
      | Some b \<Rightarrow> (case h b of None \<Rightarrow> Undefined | Some ps \<Rightarrow> Returned (Some a, h(a \<mapsto> ps))))"

definition piter_assign :: "nat \<Rightarrow> nat option \<Rightarrow> nat option \<Rightarrow> cells \<Rightarrow> (apt_error, nat option \<times> cells) outcome" where
  "piter_assign a ptr i h =
     (if ptr \<noteq> i then bind_outcome (delete_cell ptr h) (\<lambda>h1. piter_copy a i h1) else Returned (ptr, h))"

definition piter_destroy :: "nat option \<Rightarrow> cells \<Rightarrow> (apt_error, cells) outcome" where
  "piter_destroy ptr h = delete_cell ptr h"

definition piter_name :: "libapt \<Rightarrow> nat option \<Rightarrow> cells \<Rightarrow> (apt_error, string) outcome" where
  "piter_name apt ptr h =
     (case ptr of
        None \<Rightarrow> Undefined
      | Some b \<Rightarrow> (case h b of Some (p # ps) \<Rightarrow> Returned (PkgName apt p) | _ \<Rightarrow> Undefined))"

definition piter_incr :: "libapt \<Rightarrow> nat option \<Rightarrow> cells \<Rightarrow> (apt_error, nat option \<times> cells) outcome" where
  "piter_incr apt ptr h =
     (case ptr of
        None \<Rightarrow> Undefined
      | Some b \<Rightarrow>
          (case h b of
             Some (p # ps) \<Rightarrow>
               (let rest = skip_versionless apt ps
                in if rest = [] then Returned (None, h(b := None)) else Returned (ptr, h(b \<mapsto> rest)))
           | _ \<Rightarrow> Undefined))"

definition piter_eq :: "nat option \<Rightarrow> nat option \<Rightarrow> cells \<Rightarrow> (apt_error, bool) outcome" where
  "piter_eq ptr i h =
     (if ptr = None \<and> i = None then Returned True
      else if ptr = None \<or> i = None then Returned False
      else case (h (the ptr), h (the i)) of (Some ps, Some qs) \<Rightarrow> Returned (ps = qs) | _ \<Rightarrow> Undefined)"

definition piter_neq :: "nat option \<Rightarrow> nat option \<Rightarrow> cells \<Rightarrow> (apt_error, bool) outcome" where
  "piter_neq ptr i h =
     (if ptr = None \<and> i = None then Returned False
      else if ptr = None \<or> i = None then Returned True
      else case (h (the ptr), h (the i)) of (Some ps, Some qs) \<Rightarrow> Returned (ps \<noteq> qs) | _ \<Rightarrow> Undefined)"

definition piter_begin :: "libapt \<Rightarrow> nat \<Rightarrow> cells \<Rightarrow> nat option \<times> cells" where
  "piter_begin apt a h = (Some a, h(a \<mapsto> PkgBegin apt))"

definition piter_end :: "nat option" where
  "piter_end = None"

subsection \<open>A program that uses package iterators\<close>

record piter_state =
  cells :: cells
  pvars :: "nat \<Rightarrow> nat option option"

text \<open>
  The address of a new object is free; in an assignment it may be the one that has just been
  deleted.
\<close>

inductive piter_step :: "libapt \<Rightarrow> piter_state \<Rightarrow> piter_state \<Rightarrow> bool" for apt where
  begin_piter: "pvars s x = None \<Longrightarrow> cells s a = None \<Longrightarrow> piter_begin apt a (cells s) = (p, h) \<Longrightarrow>
      piter_step apt s \<lparr>cells = h, pvars = (pvars s)(x \<mapsto> p)\<rparr>"
| end_piter: "pvars s x = None \<Longrightarrow> piter_step apt s \<lparr>cells = cells s, pvars = (pvars s)(x \<mapsto> piter_end)\<rparr>"
| copy_piter: "pvars s x = None \<Longrightarrow> pvars s y = Some i \<Longrightarrow> cells s a = None \<Longrightarrow> piter_copy a i (cells s) = Returned (p, h) \<Longrightarrow>
      piter_step apt s \<lparr>cells = h, pvars = (pvars s)(x \<mapsto> p)\<rparr>"
| assign_piter: "pvars s x = Some ptr \<Longrightarrow> pvars s y = Some i \<Longrightarrow> cells s a = None \<or> ptr = Some a \<Longrightarrow>
      piter_assign a ptr i (cells s) = Returned (p, h) \<Longrightarrow> piter_step apt s \<lparr>cells = h, pvars = (pvars s)(x \<mapsto> p)\<rparr>"
| destroy_piter: "pvars s x = Some ptr \<Longrightarrow> piter_destroy ptr (cells s) = Returned h \<Longrightarrow>
      piter_step apt s \<lparr>cells = h, pvars = (pvars s)(x := None)\<rparr>"
| incr_piter: "pvars s x = Some ptr \<Longrightarrow> piter_incr apt ptr (cells s) = Returned (p, h) \<Longrightarrow>
      piter_step apt s \<lparr>cells = h, pvars = (pvars s)(x \<mapsto> p)\<rparr>"

definition piter_start :: piter_state where
  "piter_start = \<lparr>cells = (\<lambda>_. None), pvars = (\<lambda>_. None)\<rparr>"

definition piter_reach :: "libapt \<Rightarrow> piter_state \<Rightarrow> bool" where
  "piter_reach apt s \<longleftrightarrow> (piter_step apt)\<^sup>*\<^sup>* piter_start s"

subsection \<open>Iterators as values\<close>

text \<open>The same program with the iterators of \<open>AptCache\<close>, which are values.\<close>

inductive value_step :: "libapt \<Rightarrow> (nat \<Rightarrow> nat list option option) \<Rightarrow> (nat \<Rightarrow> nat list option option) \<Rightarrow> bool" for apt where
  begin_value: "v x = None \<Longrightarrow> value_step apt v (v(x \<mapsto> apt_begin apt))"
| end_value: "v x = None \<Longrightarrow> value_step apt v (v(x \<mapsto> apt_end))"
| copy_value: "v x = None \<Longrightarrow> v y = Some i \<Longrightarrow> value_step apt v (v(x \<mapsto> i))"
| assign_value: "v x = Some ptr \<Longrightarrow> v y = Some i \<Longrightarrow> value_step apt v (v(x \<mapsto> i))"
| destroy_value: "v x = Some ptr \<Longrightarrow> value_step apt v (v(x := None))"
| incr_value: "v x = Some ptr \<Longrightarrow> iter_next apt ptr = Returned i \<Longrightarrow> value_step apt v (v(x \<mapsto> i))"

definition at_cell :: "cells \<Rightarrow> nat option \<Rightarrow> nat list option" where
  "at_cell h p = (case p of None \<Rightarrow> None | Some a \<Rightarrow> h a)"

definition iter_values :: "piter_state \<Rightarrow> nat \<Rightarrow> nat list option option" where
  "iter_values s = (\<lambda>x. map_option (at_cell (cells s)) (pvars s x))"

text \<open>Every object belongs to exactly one variable, and every variable that is not null has one.\<close>

definition owned :: "piter_state \<Rightarrow> bool" where
  "owned s \<longleftrightarrow> (\<forall>x a. pvars s x = Some (Some a) \<longrightarrow> cells s a \<noteq> None)
     \<and> (\<forall>a. cells s a \<noteq> None \<longrightarrow> (\<exists>x. pvars s x = Some (Some a)))
     \<and> (\<forall>x y a. pvars s x = Some (Some a) \<longrightarrow> pvars s y = Some (Some a) \<longrightarrow> x = y)"

definition held :: "nat option option \<Rightarrow> nat option" where
  "held q = (case q of None \<Rightarrow> None | Some p \<Rightarrow> p)"

lemma held_simps [simp]: "held None = None" "held (Some p) = p"
  by (simp_all add: held_def)

lemma held_Some: "held q = Some a \<longleftrightarrow> q = Some (Some a)"
  by (cases q) simp_all

lemma ownedD:
  assumes "owned s" and "pvars s x = Some (Some a)"
  shows "cells s a \<noteq> None" and "pvars s y = Some (Some a) \<Longrightarrow> y = x"
  using assms by (auto simp: owned_def)

text \<open>
  One variable changes: the object of the old value is gone unless it is kept, the object of the new one
  is there and was free or that of the old value, and no other object is touched.
\<close>

lemma owned_change:
  assumes own: "owned s"
    and frame: "\<And>b. held (pvars s x) \<noteq> Some b \<Longrightarrow> held q \<noteq> Some b \<Longrightarrow> h b = cells s b"
    and new: "\<And>a. held q = Some a \<Longrightarrow> h a \<noteq> None \<and> (held (pvars s x) = Some a \<or> cells s a = None)"
    and old: "\<And>b. held (pvars s x) = Some b \<Longrightarrow> held q \<noteq> Some b \<Longrightarrow> h b = None"
  shows "owned \<lparr>cells = h, pvars = (pvars s)(x := q)\<rparr>"
    and "iter_values \<lparr>cells = h, pvars = (pvars s)(x := q)\<rparr> = (iter_values s)(x := map_option (at_cell h) q)"
proof -
  have other: "held q \<noteq> Some b \<and> h b = cells s b \<and> cells s b \<noteq> None" if "y \<noteq> x" "pvars s y = Some (Some b)" for y b
  proof -
    have b: "cells s b \<noteq> None" "pvars s x \<noteq> Some (Some b)"
      using ownedD [OF own that(2)] that(1) by auto
    with new [of b] have "held q \<noteq> Some b" by (auto simp: held_Some)
    with b frame [of b] show ?thesis by (simp add: held_Some)
  qed
  have "\<exists>y. ((pvars s)(x := q)) y = Some (Some a)" if a: "h a \<noteq> None" for a
  proof (cases "held q = Some a")
    case True
    then show ?thesis by (intro exI [of _ x]) (simp add: held_Some)
  next
    case False
    then have "held (pvars s x) \<noteq> Some a" using a old by auto
    moreover from this False have "cells s a \<noteq> None" using a frame by simp
    then obtain y where "pvars s y = Some (Some a)" using own by (auto simp: owned_def)
    ultimately show ?thesis by (intro exI [of _ y]) (auto simp: held_Some)
  qed
  moreover have "h a \<noteq> None" if "((pvars s)(x := q)) y = Some (Some a)" for y a
    using that other [of y a] new [of a] by (cases "y = x") (auto simp: held_Some)
  moreover have "y = z" if "((pvars s)(x := q)) y = Some (Some a)" "((pvars s)(x := q)) z = Some (Some a)" for y z a
    using that other [of y a] other [of z a] own by (cases "y = x"; cases "z = x") (auto simp: held_Some owned_def)
  ultimately show "owned \<lparr>cells = h, pvars = (pvars s)(x := q)\<rparr>" unfolding owned_def piter_state.select_convs by blast
  show "iter_values \<lparr>cells = h, pvars = (pvars s)(x := q)\<rparr> = (iter_values s)(x := map_option (at_cell h) q)"
  proof (rule ext)
    fix y
    show "iter_values \<lparr>cells = h, pvars = (pvars s)(x := q)\<rparr> y = ((iter_values s)(x := map_option (at_cell h) q)) y"
    proof (cases "y = x")
      case False
      have "at_cell h p = at_cell (cells s) p" if "pvars s y = Some p" for p
        using other [OF False] that by (cases p) (auto simp: at_cell_def)
      with False show ?thesis by (cases "pvars s y") (simp_all add: iter_values_def)
    qed (simp add: iter_values_def)
  qed
qed

lemma values_None: "iter_values s x = None \<longleftrightarrow> pvars s x = None"
  by (simp add: iter_values_def)

lemma values_Some: "pvars s x = Some p \<Longrightarrow> iter_values s x = Some (at_cell (cells s) p)"
  by (simp add: iter_values_def)

lemma free_cell: "owned s \<Longrightarrow> cells s a = None \<Longrightarrow> pvars s x \<noteq> Some (Some a)"
  using ownedD(1) by blast

lemma incr_iter_next:
  assumes "ptr = None \<or> at_cell h ptr \<noteq> None"
  shows "piter_incr apt ptr h = Undefined \<longleftrightarrow> iter_next apt (at_cell h ptr) = Undefined"
    and "piter_incr apt ptr h = Returned (p, h') \<Longrightarrow> iter_next apt (at_cell h ptr) = Returned (at_cell h' p)"
  using assms
  by (auto simp: piter_incr_def at_cell_def Let_def split: option.splits list.splits if_splits elim!: iter_next.elims)

lemma piter_step_refines:
  assumes "piter_step apt s s'" and own: "owned s"
  shows "owned s' \<and> value_step apt (iter_values s) (iter_values s')"
  using assms(1)
proof cases
  case (begin_piter x a p h)
  then have p: "p = Some a" "h = (cells s)(a \<mapsto> PkgBegin apt)" by (simp_all add: piter_begin_def)
  have "owned s' \<and> iter_values s' = (iter_values s)(x \<mapsto> apt_begin apt)"
    using owned_change [OF own, of x "Some p" h] begin_piter p by (auto simp: at_cell_def apt_begin_def)
  with begin_piter show ?thesis by (auto simp: values_None intro: begin_value)
next
  case (end_piter x)
  have "owned s' \<and> iter_values s' = (iter_values s)(x \<mapsto> apt_end)"
    using owned_change [OF own, of x "Some None" "cells s"] end_piter by (auto simp: at_cell_def apt_end_def piter_end_def)
  with end_piter show ?thesis by (auto simp: values_None intro: end_value)
next
  case (copy_piter x y i a p h)
  have "owned s' \<and> iter_values s' = (iter_values s)(x \<mapsto> at_cell (cells s) i)"
    using owned_change [OF own, of x "Some p" h] copy_piter
    by (auto simp: piter_copy_def at_cell_def split: option.splits)
  with copy_piter show ?thesis
    using copy_value [of "iter_values s" x y "at_cell (cells s) i" apt] by (simp add: values_None values_Some)
next
  case (assign_piter x ptr y i a p h)
  have alive: "\<And>b. ptr = Some b \<Longrightarrow> cells s b \<noteq> None" using ownedD(1) [OF own] assign_piter(2) by blast
  have "owned s' \<and> iter_values s' = (iter_values s)(x \<mapsto> at_cell (cells s) i)"
    using owned_change [OF own, of x "Some p" h] assign_piter alive
    by (auto simp: piter_assign_def delete_cell_def piter_copy_def at_cell_def split: option.splits if_splits)
  with assign_piter show ?thesis
    using assign_value [of "iter_values s" x "at_cell (cells s) ptr" y "at_cell (cells s) i" apt] by (simp add: values_Some)
next
  case (destroy_piter x ptr h)
  have "owned s' \<and> iter_values s' = (iter_values s)(x := None)"
    using owned_change [OF own, of x None h] destroy_piter
    by (auto simp: piter_destroy_def delete_cell_def split: option.splits)
  with destroy_piter show ?thesis
    using destroy_value [of "iter_values s" x "at_cell (cells s) ptr" apt] by (simp add: values_Some)
next
  case (incr_piter x ptr p h)
  have alive: "ptr = None \<or> at_cell (cells s) ptr \<noteq> None"
    using own incr_piter(2) by (auto simp: owned_def at_cell_def split: option.splits)
  have "owned s' \<and> iter_values s' = (iter_values s)(x \<mapsto> at_cell h p)"
    using owned_change [OF own, of x "Some p" h] incr_piter
    by (auto simp: piter_incr_def Let_def split: option.splits list.splits if_splits)
  with incr_piter incr_iter_next(2) [OF alive incr_piter(3)] show ?thesis
    using incr_value [of "iter_values s" x "at_cell (cells s) ptr" apt "at_cell h p"] by (simp add: values_Some)
qed

lemma reach_refines:
  assumes "piter_reach apt s"
  shows "owned s \<and> (value_step apt)\<^sup>*\<^sup>* (\<lambda>_. None) (iter_values s)"
  using assms unfolding piter_reach_def
proof (induction rule: rtranclp_induct)
  case base
  then show ?case by (simp add: owned_def piter_start_def iter_values_def)
next
  case (step s s')
  from piter_step_refines [OF step.hyps(2)] step.IH show ?case by (auto intro: rtranclp.rtrancl_into_rtrancl)
qed

lemma owned_ops:
  assumes own: "owned s" and vars: "pvars s x = Some p" "pvars s y = Some q"
  shows "piter_destroy p (cells s) \<noteq> Undefined" and "piter_copy a p (cells s) \<noteq> Undefined"
    and "piter_assign a p q (cells s) \<noteq> Undefined"
    and "piter_incr apt p (cells s) = Undefined \<longleftrightarrow> iter_next apt (at_cell (cells s) p) = Undefined"
    and "piter_name apt p (cells s) = iter_name apt (at_cell (cells s) p)"
    and "piter_eq p q (cells s) = Returned (iter_eq (at_cell (cells s) p) (at_cell (cells s) q))"
    and "piter_neq p q (cells s) = Returned (iter_neq (at_cell (cells s) p) (at_cell (cells s) q))"
proof -
  have p: "p = None \<or> (\<exists>b ps. p = Some b \<and> cells s b = Some ps)" using ownedD(1) [OF own, of x] vars(1) by (cases p) auto
  have q: "q = None \<or> (\<exists>b ps. q = Some b \<and> cells s b = Some ps)" using ownedD(1) [OF own, of y] vars(2) by (cases q) auto
  show "piter_destroy p (cells s) \<noteq> Undefined" "piter_copy a p (cells s) \<noteq> Undefined" "piter_assign a p q (cells s) \<noteq> Undefined"
    using p q by (auto simp: piter_destroy_def piter_copy_def piter_assign_def delete_cell_def split: if_splits)
  show "piter_incr apt p (cells s) = Undefined \<longleftrightarrow> iter_next apt (at_cell (cells s) p) = Undefined"
    using incr_iter_next(1) [of p "cells s" apt] p by (auto simp: at_cell_def)
  show "piter_name apt p (cells s) = iter_name apt (at_cell (cells s) p)"
    using p by (auto simp: piter_name_def at_cell_def split: list.splits)
  show "piter_eq p q (cells s) = Returned (iter_eq (at_cell (cells s) p) (at_cell (cells s) q))"
    "piter_neq p q (cells s) = Returned (iter_neq (at_cell (cells s) p) (at_cell (cells s) q))"
    using p q by (auto simp: piter_eq_def piter_neq_def iter_eq_def iter_neq_def at_cell_def)
qed

text \<open>
  C29: in every state that a program reaches with package iterators, copying, assigning, also to itself,
  and destroying them is defined, and reading, advancing and comparing them does what the same operation on
  the value does, undefined exactly when that is; every step of the program is a step of
  the program with values.
\<close>

theorem package_iterators_refine:
  assumes "piter_reach apt s"
  shows "(value_step apt)\<^sup>*\<^sup>* (\<lambda>_. None) (iter_values s)
    \<and> (\<forall>s'. piter_step apt s s' \<longrightarrow> value_step apt (iter_values s) (iter_values s'))
    \<and> (\<forall>x y p q a. pvars s x = Some p \<longrightarrow> pvars s y = Some q \<longrightarrow>
        piter_destroy p (cells s) \<noteq> Undefined \<and> piter_copy a p (cells s) \<noteq> Undefined \<and> piter_assign a p q (cells s) \<noteq> Undefined
      \<and> (piter_incr apt p (cells s) = Undefined \<longleftrightarrow> iter_next apt (at_cell (cells s) p) = Undefined)
      \<and> piter_name apt p (cells s) = iter_name apt (at_cell (cells s) p)
      \<and> piter_eq p q (cells s) = Returned (iter_eq (at_cell (cells s) p) (at_cell (cells s) q))
      \<and> piter_neq p q (cells s) = Returned (iter_neq (at_cell (cells s) p) (at_cell (cells s) q)))"
proof -
  from reach_refines [OF assms] have own: "owned s" and "(value_step apt)\<^sup>*\<^sup>* (\<lambda>_. None) (iter_values s)" by blast+
  moreover have "value_step apt (iter_values s) (iter_values s')" if "piter_step apt s s'" for s'
    using piter_step_refines [OF that own] by blast
  ultimately show ?thesis by (intro conjI allI impI) (simp_all add: owned_ops [OF own])
qed

text \<open>
  in every such state each object that has been allocated belongs to exactly one variable, and each
  variable that is not null has one of its own: nothing is deleted twice, and when the last
  variable is gone nothing is left.
\<close>

theorem package_iterators_own:
  assumes "piter_reach apt s"
  shows "(\<forall>a. cells s a \<noteq> None \<longleftrightarrow> (\<exists>!x. pvars s x = Some (Some a))) \<and> (pvars s = (\<lambda>_. None) \<longrightarrow> cells s = (\<lambda>_. None))"
proof -
  have own: "owned s" using reach_refines [OF assms] by blast
  then have one: "cells s a \<noteq> None \<longleftrightarrow> (\<exists>!x. pvars s x = Some (Some a))" for a unfolding owned_def by metis
  then have "cells s a = None" if "pvars s = (\<lambda>_. None)" for a using that by (metis option.distinct(1))
  with one show ?thesis by blast
qed

text \<open>A program: an iterator, a copy of it, and the copy moved to the next package.\<close>

definition two_piters :: piter_state where
  "two_piters = \<lparr>cells = [0 \<mapsto> [0], 1 \<mapsto> [0]], pvars = [0 \<mapsto> Some 0, 1 \<mapsto> Some 1]\<rparr>"

lemma two_piters_reached: "piter_reach sample_apt two_piters"
proof -
  let ?s = "\<lparr>cells = [0 \<mapsto> [0]], pvars = [0 \<mapsto> Some 0]\<rparr> :: piter_state"
  have "piter_step sample_apt piter_start ?s"
    using begin_piter [of piter_start 0 0 sample_apt "Some 0" "[0 \<mapsto> [0]]"] by (simp add: piter_start_def piter_begin_def sample_apt_def)
  moreover have "piter_step sample_apt ?s two_piters"
    using copy_piter [of ?s 1 0 "Some 0" 1 "Some 1" "[0 \<mapsto> [0], 1 \<mapsto> [0]]" sample_apt]
    by (simp add: piter_copy_def two_piters_def)
  ultimately show ?thesis unfolding piter_reach_def by (meson converse_rtranclp_into_rtranclp r_into_rtranclp)
qed

theorem package_iterators_refine_witness:
  "piter_assign 5 (Some 0) (Some 0) (cells two_piters) \<noteq> Undefined
    \<and> piter_name sample_apt (Some 1) (cells two_piters) = Returned ''apt''"
proof -
  have vars: "pvars two_piters 0 = Some (Some 0)" "pvars two_piters 1 = Some (Some 1)" by (simp_all add: two_piters_def)
  have "iter_name sample_apt (at_cell (cells two_piters) (Some 1)) = Returned ''apt''"
    by (simp add: at_cell_def two_piters_def sample_apt_def)
  with package_iterators_refine [OF two_piters_reached] vars show ?thesis by metis
qed

theorem package_iterators_own_witness: "\<exists>!x. pvars two_piters x = Some (Some 1)"
proof -
  have "cells two_piters 1 \<noteq> None" by (simp add: two_piters_def)
  with package_iterators_own [OF two_piters_reached] show ?thesis by blast
qed

end
