(* ===== verification/Clients.thy ===== *)
theory Clients
  imports PackageRecord DebDB AptIterators
begin

section \<open>Parts of the library used together\<close>

text \<open>
  Two parsers of the library read the same kind of record: \<open>DebDBParser\<close> from a file and
  \<open>RecordParser\<close> from a string, which \<open>Apt::rawRecord\<close> and the record iterator give.  The two
  programs of \<open>tools\<close> print what the iterators of \<open>Apt\<close> yield.
\<close>

subsection \<open>The two parsers of records\<close>

text \<open>
  A field for both parsers: no space in the sense of \<open>isspace\<close> at the ends of the value, which must
  begin on the line of the name.  What \<open>RecordParser\<close> gives for it has the continuation lines
  as they are in the text.
\<close>

definition plain_field :: "field \<Rightarrow> bool" where
  "plain_field fl \<longleftrightarrow> field_ok fl \<and> fst fl \<noteq> [] \<and> hd (snd fl) \<noteq> [] \<and> \<not> isspace (hd (hd (snd fl)))
     \<and> (\<forall>l\<in>set (snd fl). l \<noteq> [] \<longrightarrow> \<not> isspace (last l))"

definition cont_line :: "string \<Rightarrow> string" where
  "cont_line l = (if l = [] then '' .'' else '' '' @ l)"

definition folded_value :: "field \<Rightarrow> string" where
  "folded_value fl = hd (snd fl) @ concat (map (\<lambda>l. NL # cont_line l) (tl (snd fl)))"

definition field_lines :: "field \<Rightarrow> string list" where
  "field_lines fl = (fst fl @ '': '' @ hd (snd fl)) # map cont_line (tl (snd fl))"

lemma cont_text_line: "cont_text = (\<lambda>l. cont_line l @ [NL])"
  by (rule ext) (simp add: cont_text_def cont_line_def)

lemma field_lines_text: "lines_text (field_lines fl) = field_text fl"
  by (simp add: lines_text_def field_lines_def field_text_def cont_text_line comp_def)

lemma field_text_value: "field_text fl = fst fl @ '':'' @ '' '' @ folded_value fl @ [NL]"
proof -
  have "NL # concat (map cont_text ls) = concat (map (\<lambda>l. NL # cont_line l) ls) @ [NL]" for ls
    by (induction ls) (simp_all add: cont_text_line)
  then show ?thesis by (simp add: field_text_def folded_value_def)
qed

lemma name_char_no_space: "name_char c \<Longrightarrow> \<not> isspace c"
  by (auto simp: cchars)

lemma name_char_no_colon: "name_char c \<Longrightarrow> c \<noteq> CHR '':''"
  by (auto simp: cchars)

lemma field_lines_ok_plain: "plain_field fl \<Longrightarrow> field_lines_ok (field_lines fl)"
proof -
  assume p: "plain_field fl"
  then have name: "fst fl \<noteq> []" "\<forall>c\<in>set (fst fl). name_char c" by (auto simp: plain_field_def field_ok_def)
  then have "\<not> isspace (hd (fst fl))" "NL \<notin> set (fst fl)" using name_char_no_space by (auto simp: cchars)
  moreover have "\<forall>l\<in>set (snd fl). NL \<notin> set l" "snd fl \<noteq> []" using p by (auto simp: plain_field_def field_ok_def line_text_ok_def)
  moreover from this have "\<forall>l\<in>set (tl (snd fl)). NL \<notin> set l" "NL \<notin> set (hd (snd fl))" by (auto dest: list.set_sel(2))
  ultimately show ?thesis using name(1)
    by (auto simp: field_lines_ok_def field_lines_def cont_ok_def cont_line_def isspace_def)
qed

lemma folded_value_ends:
  assumes "plain_field fl"
  shows "folded_value fl \<noteq> [] \<and> \<not> isspace (hd (folded_value fl)) \<and> \<not> isspace (last (folded_value fl))"
proof -
  from assms have h: "hd (snd fl) \<noteq> []" "\<not> isspace (hd (hd (snd fl)))" "snd fl \<noteq> []"
    and l: "\<forall>l\<in>set (snd fl). l \<noteq> [] \<longrightarrow> \<not> isspace (last l)" by (auto simp: plain_field_def field_ok_def)
  have "\<not> isspace (last (folded_value fl))"
  proof (cases "tl (snd fl)" rule: rev_cases)
    case Nil
    with h l show ?thesis by (simp add: folded_value_def)
  next
    case (snoc ls x)
    then have "x \<in> set (snd fl)" using h(3) by (metis in_set_conv_decomp list.set_sel(2))
    with l snoc show ?thesis by (simp add: folded_value_def cont_line_def isspace_def)
  qed
  with h show ?thesis by (simp add: folded_value_def)
qed

lemma trimmed_folded:
  assumes "plain_field fl"
  shows "trimmed ('' '' @ folded_value fl @ [NL]) = folded_value fl"
proof -
  obtain v vs where v: "folded_value fl = v # vs" "\<not> isspace v" using folded_value_ends [OF assms] by (cases "folded_value fl") auto
  obtain us u where u: "folded_value fl = us @ [u]" "\<not> isspace u"
    using folded_value_ends [OF assms] by (cases "folded_value fl" rule: rev_cases) auto
  have "dropWhile isspace ('' '' @ folded_value fl @ [NL]) = folded_value fl @ [NL]"
    using v by (simp add: isspace_def)
  then show ?thesis using u(2) unfolding trimmed_def by (simp add: u(1)) (simp add: isspace_def)
qed

lemma lookup_fields:
  assumes "sorter srt" and "fs \<noteq> []" and "\<forall>fl\<in>set fs. plain_field fl" and "distinct (map fst fs)" and "r = [] \<or> hd r = NL"
  shows "rp_size (scan srt (concat (map field_text fs) @ r)) = length fs"
    and "lookup (scan srt (concat (map field_text fs) @ r)) n
      = (case map_of (map (\<lambda>fl. (fst fl, folded_value fl)) fs) n of None \<Rightarrow> [] | Some v \<Rightarrow> v)"
proof -
  let ?nvs = "map (\<lambda>fl. (fst fl, '' '' @ folded_value fl @ [NL])) fs"
  have lines: "\<forall>ls\<in>set (map field_lines fs). field_lines_ok ls" "map field_lines fs \<noteq> []"
    using assms(2,3) field_lines_ok_plain by simp_all
  have layout: "map lines_text (map field_lines fs) = map (\<lambda>(n, v). n @ '':'' @ v) ?nvs"
    by (simp add: field_lines_text field_text_value)
  have names: "\<forall>(n, v)\<in>set ?nvs. CHR '':'' \<notin> set n"
    using assms(3) name_char_no_colon by (fastforce simp: plain_field_def field_ok_def)
  have dist: "distinct (map fst ?nvs)" using assms(4) by (simp add: comp_def)
  have buf: "concat (map lines_text (map field_lines fs)) @ r = concat (map field_text fs) @ r" by (simp add: field_lines_text comp_def)
  show "rp_size (scan srt (concat (map field_text fs) @ r)) = length fs"
    using scan_text(1) [OF lines assms(5), of srt] unfolding buf by simp
  have "map_of ?nvs n = map_option (\<lambda>v. '' '' @ v @ [NL]) (map_of (map (\<lambda>fl. (fst fl, folded_value fl)) fs) n)"
    by (induction fs) auto
  moreover have "trimmed ('' '' @ v @ [NL]) = v" if "map_of (map (\<lambda>fl. (fst fl, folded_value fl)) fs) n = Some v" for v
    using map_of_SomeD [OF that] trimmed_folded assms(3) by auto
  ultimately show "lookup (scan srt (concat (map field_text fs) @ r)) n
      = (case map_of (map (\<lambda>fl. (fst fl, folded_value fl)) fs) n of None \<Rightarrow> [] | Some v \<Rightarrow> v)"
    using lookup_all_written [OF assms(1) lines assms(5) layout names dist, of n] unfolding buf
    by (simp split: option.splits)
qed

text \<open>The first of two fields with a name is the one that \<open>DebDBParser\<close> keeps.\<close>

lemma insert_fields_first:
  "map_ok acc \<Longrightarrow> map_ok (insert_fields fs acc) \<and> omap_find (insert_fields fs acc) k =
    (case omap_find acc k of Some x \<Rightarrow> Some x | None \<Rightarrow> map_of (map (\<lambda>fl. (fst fl, field_value fl)) fs) k)"
  by (induction fs arbitrary: acc) (auto simp: insert_fields_def split: option.splits)

text \<open>
  C14: on a record of fields with different names, whose values begin on the line of the name with a character that is no space
  and have no space at the end of a line, both parsers find the same names, and each field that is on one line has the same value; a value with continuation lines is given
  by \<open>RecordParser\<close> as it is in the text, and by \<open>DebDBParser\<close> without the escapes at the start of the lines.
\<close>

theorem record_parsers_agree:
  assumes "sorter srt" and "fs \<noteq> []" and "\<forall>fl\<in>set fs. plain_field fl" and "distinct (map fst fs)"
  defines "t \<equiv> concat (map field_text fs) @ [NL]"
  shows "\<exists>p r p'. open_parser (file_of t) path = Inr p \<and> nextRecord p = Some (Inr (Some r, p'))
    \<and> rp_size (scan srt t) = length fs
    \<and> (\<forall>n. omap_find r n = map_of (map (\<lambda>fl. (fst fl, field_value fl)) fs) n)
    \<and> (\<forall>fl\<in>set fs. lookup (scan srt t) (fst fl) = folded_value fl)
    \<and> (\<forall>fl\<in>set fs. length (snd fl) = 1 \<longrightarrow> omap_find r (fst fl) = Some (lookup (scan srt t) (fst fl)))"
proof -
  have ok: "\<forall>fl\<in>set fs. field_ok fl" using assms(3) by (auto simp: plain_field_def)
  obtain fl fs' where fs: "fs = fl # fs'" using assms(2) by (cases fs) auto
  have "starts_field t" unfolding t_def fs using ok starts_field_text by (simp add: fs)
  then have p: "open_parser (file_of t) path = Inr (at t False path True (t = []))" by (rule open_parser_text)
  have "t \<noteq> []" by (simp add: t_def)
  have rec: "nextRecord (at t False path True False) = Some (Inr (Some (insert_fields fs []), at [] False path True True))"
    using nextRecord_text [of "[]" fs path] assms(2) ok by (simp add: t_def starts_field_def)
  have find: "omap_find (insert_fields fs []) n = map_of (map (\<lambda>fl. (fst fl, field_value fl)) fs) n" for n
    using insert_fields_first [of "[]" fs n] by simp
  have "map_of (map (\<lambda>fl. (fst fl, folded_value fl)) fs) (fst fl) = Some (folded_value fl)" if "fl \<in> set fs" for fl
    using that assms(4) by (intro map_of_is_SomeI) (auto simp: comp_def)
  then have look: "rp_size (scan srt t) = length fs \<and> lookup (scan srt t) (fst fl) = folded_value fl" if "fl \<in> set fs" for fl
    using lookup_fields [OF assms(1-4), of "[NL]"] that by (simp add: t_def)
  have same: "field_value fl = folded_value fl" if "length (snd fl) = 1" for fl
    using that by (auto simp: field_value_def folded_value_def conts_value_def length_Suc_conv)
  have found: "omap_find (insert_fields fs []) (fst fl) = Some (field_value fl)" if "fl \<in> set fs" for fl
    unfolding find using that assms(4) by (intro map_of_is_SomeI) (auto simp: comp_def)
  have "\<forall>fl\<in>set fs. length (snd fl) = 1 \<longrightarrow> omap_find (insert_fields fs []) (fst fl) = Some (lookup (scan srt t) (fst fl))"
    using found look same by metis
  moreover have "rp_size (scan srt t) = length fs" using look [of fl] fs by simp
  moreover have "\<forall>fl\<in>set fs. lookup (scan srt t) (fst fl) = folded_value fl" using look by blast
  ultimately show ?thesis using p rec find \<open>t \<noteq> []\<close> by auto
qed

theorem record_parsers_agree_witness:
  "\<exists>p r p'. open_parser (file_of (''A: x'' @ [NL] @ ''B: y'' @ [NL] @ '' .'' @ [NL] @ '' z'' @ [NL, NL])) [] = Inr p
    \<and> nextRecord p = Some (Inr (Some r, p'))
    \<and> omap_find r ''B'' = Some (''y'' @ [NL, NL] @ ''z'')
    \<and> lookup (scan insertion_sort (''A: x'' @ [NL] @ ''B: y'' @ [NL] @ '' .'' @ [NL] @ '' z'' @ [NL, NL])) ''B''
      = ''y'' @ [NL] @ '' .'' @ [NL] @ '' z''"
proof -
  let ?fs = "[(''A'', [''x'']), (''B'', [''y'', [], ''z''])]"
  have plain: "\<forall>fl\<in>set ?fs. plain_field fl" "distinct (map fst ?fs)" "?fs \<noteq> []" by code_simp+
  have layout: "concat (map field_text ?fs) @ [NL] = ''A: x'' @ [NL] @ ''B: y'' @ [NL] @ '' .'' @ [NL] @ '' z'' @ [NL, NL]"
    "folded_value (''B'', [''y'', [], ''z'']) = ''y'' @ [NL] @ '' .'' @ [NL] @ '' z''"
    "field_value (''B'', [''y'', [], ''z'']) = ''y'' @ [NL, NL] @ ''z''"
    by (simp_all add: field_text_def cont_text_def folded_value_def cont_line_def field_value_def conts_value_def)
  from record_parsers_agree [OF insertion.sorter_axioms plain(3,1,2), of "[]", unfolded layout(1)]
  show ?thesis using layout(2,3) by auto
qed

subsection \<open>A package from the disk to its fields\<close>

text \<open>
  C5: for a version whose record on disk is a sequence of fields, \<open>rawRecord\<close> gives that text, and a
  \<open>PackageRecord\<close> made from it returns the values of the fields, converted to their types, and the
  defaults for fields that are not there.
\<close>

theorem package_read_from_disk:
  assumes "sorter srt" and "file_fd io contents view" and "FindPkg apt (m_name ver) = Some pi"
    and "VersionList apt pi = us @ vi # vs" and "\<forall>u\<in>set us. VerStr apt u \<noteq> Some (m_version ver)"
    and "VerStr apt vi = Some (m_version ver)" and "FileList apt vi = vf0 # rest"
    and "vf = (case find (is_source apt) (FileList apt vi) of None \<Rightarrow> vf0 | Some x \<Rightarrow> x)"
    and "record_ok apt contents vf" and "bytes_at apt contents vf = concat (map field_text fs) @ r"
    and "fs \<noteq> []" and "\<forall>fl\<in>set fs. plain_field fl" and "distinct (map fst fs)" and "r = [] \<or> hd r = NL"
  shows "\<exists>t. rawRecord apt io False msgs ver = Returned t
    \<and> (let rp = scan srt t; val = (\<lambda>n. case map_of (map (\<lambda>fl. (fst fl, folded_value fl)) fs) n of None \<Rightarrow> [] | Some v \<Rightarrow> v)
       in rp_size rp = length fs
        \<and> pkg_package d rp = parseString d (val ''Package'') \<and> pkg_version d rp = parseString d (val ''Version'')
        \<and> pkg_depends d rp = parseString d (val ''Depends'')
        \<and> pkg_installedSize k rp = parseSize k (val ''Installed-Size'') \<and> pkg_packageSize k rp = parseSize k (val ''Size'')
        \<and> pkg_buildEssential b rp = parseBool b (val ''Build-Essential'')
        \<and> pkg_shortDescription d rp = parseShortDescription d (val ''Description'')
        \<and> pkg_longDescription d rp = parseLongDescription d (val ''Description'')
        \<and> pkg_tag ts rp = parseTags ts (val ''Tag''))"
proof -
  note read = rawRecord_reads [OF assms(2-9), unfolded assms(10), of msgs]
  note fields = lookup_fields [OF assms(1,11-14)]
  show ?thesis
    by (rule exI, rule conjI [OF read])
      (simp add: Let_def fields pkg_package_def pkg_version_def pkg_depends_def pkg_installedSize_def pkg_packageSize_def
        pkg_buildEssential_def pkg_shortDescription_def pkg_longDescription_def pkg_tag_def)
qed

definition disk_record :: string where
  "disk_record = ''Package: apt'' @ [NL] @ ''Tag: role::{a,b}'' @ [NL]"

definition disk_apt :: libapt where
  "disk_apt = sample_apt\<lparr>FileName := (\<lambda>f. ''f''), FileList := (\<lambda>v. [\<lparr>vf_File = 0, vf_Offset = 0, vf_Size = 30\<rparr>])\<rparr>"

theorem package_read_from_disk_witness:
  "\<exists>t. rawRecord disk_apt (mem_io [''f'' \<mapsto> disk_record]) False [] \<lparr>m_name = ''apt'', m_version = ''2''\<rparr> = Returned t
    \<and> pkg_package [] (scan insertion_sort t) = ''apt''
    \<and> pkg_tag [] (scan insertion_sort t) = [''role::a'', ''role::b'']"
proof -
  let ?fs = "[(''Package'', [''apt'']), (''Tag'', [''role::{a,b}''])]" and ?vf = "\<lparr>vf_File = 0, vf_Offset = 0, vf_Size = 30\<rparr>"
  have plain: "\<forall>fl\<in>set ?fs. plain_field fl" "distinct (map fst ?fs)" "?fs \<noteq> []" by code_simp+
  have layout: "concat (map field_text ?fs) @ [] = disk_record" "folded_value (''Package'', [''apt'']) = ''apt''"
    "folded_value (''Tag'', [''role::{a,b}'']) = ''role::{a,b}''"
    by (simp_all add: field_text_def cont_text_def folded_value_def cont_line_def disk_record_def)
  have ok: "record_ok disk_apt [''f'' \<mapsto> disk_record] ?vf" "bytes_at disk_apt [''f'' \<mapsto> disk_record] ?vf = disk_record"
    by (simp_all add: record_ok_def bytes_at_def disk_apt_def disk_record_def sample_apt_def size_modulus_def substr_def)
  have tags: "parseTags [] ''role::{a,b}'' = [''role::a'', ''role::b'']" by code_simp
  have cache: "FindPkg disk_apt ''apt'' = Some 0" "VersionList disk_apt 0 = [] @ 2 # [1]" "VerStr disk_apt 2 = Some ''2''"
    "FileList disk_apt 2 = ?vf # []" "?vf = (case find (is_source disk_apt) (FileList disk_apt 2) of None \<Rightarrow> ?vf | Some x \<Rightarrow> x)"
    by (simp_all add: disk_apt_def sample_apt_def)
  note at_cache = package_read_from_disk [OF insertion.sorter_axioms mem.file_fd_axioms, where ver = "\<lparr>m_name = ''apt'', m_version = ''2''\<rparr>"
      and fs = ?fs and r = "[]" and apt = disk_apt and vf = ?vf and us = "[]" and vi = 2 and msgs = "[]" and d = "[]" and ts = "[]",
      unfolded version.simps, OF cache(1,2) _ cache(3-5) ok(1)]
  have "bytes_at disk_apt [''f'' \<mapsto> disk_record] ?vf = concat (map field_text ?fs) @ []" unfolding ok(2) layout(1) ..
  from at_cache [OF _ this plain(3,1,2)] obtain t where
    "rawRecord disk_apt (mem_io [''f'' \<mapsto> disk_record]) False [] \<lparr>m_name = ''apt'', m_version = ''2''\<rparr> = Returned t"
    "pkg_package [] (scan insertion_sort t) = parseString [] ''apt''"
    "pkg_tag [] (scan insertion_sort t) = parseTags [] ''role::{a,b}''"
    unfolding Let_def using layout(2,3) by auto
  with tags show ?thesis by (auto simp: parseString_def)
qed

subsection \<open>The programs in tools and the progress callback\<close>

text \<open>
  \<open>cout << *i << endl\<close> for the strings that an iteration yields.  What has been printed before an
  exception ends the program is not kept.
\<close>

definition print_lines :: "string list \<Rightarrow> string" where
  "print_lines ss = concat (map (\<lambda>s. s @ [NL]) ss)"

definition ept_cat ::
  "((ver_file \<Rightarrow> ver_file \<Rightarrow> bool) \<Rightarrow> ver_file list \<Rightarrow> ver_file list) \<Rightarrow> 'fd filefd \<Rightarrow> libapt \<Rightarrow> (bool \<times> string) list
    \<Rightarrow> nat \<Rightarrow> nat \<Rightarrow> 'fd rheap \<Rightarrow> ((apt_error, string) outcome \<times> 'fd rheap) option" where
  "ept_cat srt io apt msgs junk a h =
     (case recordBegin srt io apt msgs junk a h of
        (Returned i, h1) \<Rightarrow>
          (case record_walk io apt msgs i h1 [] of
             None \<Rightarrow> None
           | Some (r, h2) \<Rightarrow> Some (bind_outcome r (\<lambda>ss. Returned (print_lines ss)), h2))
      | (Thrown e, h1) \<Rightarrow> Some (Thrown e, h1)
      | (Undefined, h1) \<Rightarrow> Some (Undefined, h1))"

definition pkglist :: "libapt \<Rightarrow> (apt_error, string) outcome" where
  "pkglist apt = bind_outcome (iterate apt (apt_begin apt) []) (\<lambda>ss. Returned (print_lines ss))"

text \<open>
  \<open>Pulse\<close> calls the base class, which may change the object, and then \<open>UpdatePulse\<close> with three of its
  members; it always asks to go on.  A request to change the medium is refused.
\<close>

definition progress_pulse :: "('w \<Rightarrow> 'w) \<Rightarrow> ('w \<Rightarrow> 'd \<times> 'd \<times> nat) \<Rightarrow> ('d \<Rightarrow> 'd \<Rightarrow> nat \<Rightarrow> 'w \<Rightarrow> 'w) \<Rightarrow> 'w \<Rightarrow> bool \<times> 'w" where
  "progress_pulse base members update_pulse w =
     (let w1 = base w; (fetched_bytes, current_cps, current_items) = members w1
      in (True, update_pulse fetched_bytes current_cps current_items w1))"

definition media_change :: "string \<Rightarrow> string \<Rightarrow> bool" where
  "media_change media drive = False"

text \<open>
  C9: on a cache with records, all of which can be read, \<open>ept-cat\<close> prints one record for each package that has one, as it
  is on disk and followed by a newline, in the order of the package files and the offsets in them, and gives back
  all memory.  \<open>pkglist\<close> prints the names of the packages that have versions, in the order of the cache, and also that of the
  first package when it has none.
\<close>

theorem tools_print:
  fixes io :: "'fd filefd"
  assumes "file_fd io contents view" and "std_sort srt" and "current_known apt"
    and readable: "\<forall>vf\<in>set (List.map_filter (record_file apt) (PkgBegin apt)). record_ok apt contents vf"
    and some: "List.map_filter (record_file apt) (PkgBegin apt) \<noteq> []" and "h a = None" and "PkgBegin apt = p # ps"
  shows "(\<exists>vfs. mset vfs = mset (List.map_filter (record_file apt) (PkgBegin apt))
      \<and> sorted (map (\<lambda>vf. (vf_File vf, vf_Offset vf)) vfs)
      \<and> ept_cat srt io apt msgs junk a h = Some (Returned (concat (map (\<lambda>vf. bytes_at apt contents vf @ [NL]) vfs)), h))
    \<and> pkglist apt = Returned (concat (map (\<lambda>q. PkgName apt q @ [NL]) (p # filter (\<lambda>q. VersionList apt q \<noteq> []) ps)))"
proof -
  obtain impl :: "'fd rec_impl" where impl: "new_rec_impl srt apt junk = Returned impl"
    and files: "mset (vflist impl) = mset (List.map_filter (record_file apt) (PkgBegin apt))"
      "sorted (map (\<lambda>vf. (vf_File vf, vf_Offset vf)) (vflist impl))"
    using record_list_files [OF assms(2,3)] by blast
  have "vflist impl \<noteq> []" "\<forall>vf\<in>set (vflist impl). record_ok apt contents vf"
    using files(1) some readable by (auto dest: mset_eq_setD)
  with all_records_walked [where h = h and a = a and msgs = msgs, OF assms(1) impl this(2) assms(6)] obtain r h1 where
    "recordBegin srt io apt msgs junk a h = (Returned r, h1)"
    "record_walk io apt msgs r h1 [] = Some (Returned (map (bytes_at apt contents) (vflist impl)), h)" by auto
  then have "ept_cat srt io apt msgs junk a h = Some (Returned (concat (map (\<lambda>vf. bytes_at apt contents vf @ [NL]) (vflist impl))), h)"
    by (simp add: ept_cat_def print_lines_def comp_def)
  with files show ?thesis using iterate_all [of apt] assms(7) by (auto simp: pkglist_def print_lines_def comp_def)
qed

theorem tools_print_witness:
  "(\<exists>out h. ept_cat insertion_sort (mem_io sample_files) three_apt [] 5 7 (\<lambda>_. None) = Some (Returned out, h))
    \<and> pkglist three_apt = Returned (''apt'' @ [NL] @ ''apt'' @ [NL] @ ''apt'' @ [NL])"
proof -
  have files: "List.map_filter (record_file three_apt) (PkgBegin three_apt) = three_records"
    by (simp add: map_filter_def record_file_def chosen_version_def version_file_def is_source_def three_apt_def sample_apt_def three_records_def)
  have "current_known three_apt" by (simp add: current_known_def three_apt_def sample_apt_def)
  moreover have "\<forall>vf\<in>set three_records. record_ok three_apt sample_files vf" "three_records \<noteq> []"
    by (simp_all add: record_ok_def three_apt_def sample_apt_def sample_files_def three_records_def size_modulus_def)
  moreover have "PkgBegin three_apt = 0 # [1, 2]" by (simp add: three_apt_def)
  moreover have "VersionList three_apt q \<noteq> [] \<and> PkgName three_apt q = ''apt''" for q by (simp add: three_apt_def sample_apt_def)
  ultimately show ?thesis
    using tools_print [OF mem.file_fd_axioms isort.std_sort_axioms, of three_apt sample_files "\<lambda>_. None" 7 0 "[1, 2]" "[]" 5] files
    by auto
qed

end
