(* ===== verification/TestFramework.thy ===== *)
theory TestFramework
  imports Outcome StrUtil StdConv Codecs "HOL-Library.Word"
begin

section \<open>The test framework (ept/utils/tests.cc, tests.h, tests-main.cc)\<close>

text \<open>
  Test methods are actions on the state of the process, which is an argument of the model, as are
  the hooks of a test case and the controller.  The runner, the classification of exceptions, the filter
  by name and the program that runs all tests are definitions.
\<close>

subsection \<open>Exceptions and assertions\<close>

text \<open>A \<open>const char*\<close> made from a string ends at the first null character.\<close>

definition c_str :: "string \<Rightarrow> string" where
  "c_str s = takeWhile (\<lambda>c. c \<noteq> NUL) s"

record frame =
  fr_file :: string
  fr_line :: nat
  fr_call :: string
  fr_info :: string

definition frame_format :: "frame \<Rightarrow> string" where
  "frame_format f = fr_file f @ '':'' @ decimal (fr_line f) @ '':'' @ fr_call f
     @ (if fr_info f \<noteq> [] then '' ['' @ fr_info f @ '']'' else []) @ [NL]"

definition backtrace :: "frame list \<Rightarrow> string" where
  "backtrace st = concat (map frame_format st)"

text \<open>
  An exception is a \<open>TestFailed\<close> with its message and stack, another \<open>std::exception\<close> with the name of
  its type and what \<open>what()\<close> gives, or something that is not derived from \<open>std::exception\<close>.
\<close>

datatype exn = TestFailed string "frame list" | StdException string string | UnknownException

definition what :: "exn \<Rightarrow> string option" where
  "what e = (case e of TestFailed m st \<Rightarrow> Some (c_str m) | StdException ty w \<Rightarrow> Some (c_str w) | UnknownException \<Rightarrow> None)"

definition testfailed_of :: "string \<Rightarrow> string \<Rightarrow> frame list \<Rightarrow> exn" where
  "testfailed_of ty w st = TestFailed (ty @ '': '' @ w) st"

text \<open>\<open>wassert\<close>: an assertion that fails gets the place where it stands added to its stack.\<close>

definition wassert :: "frame \<Rightarrow> (exn, 'a) outcome \<Rightarrow> (exn, 'a) outcome" where
  "wassert fr r = (case r of
      Thrown e \<Rightarrow>
        (case e of TestFailed m st \<Rightarrow> Thrown (TestFailed m (st @ [fr]))
         | StdException ty w \<Rightarrow> Thrown (testfailed_of ty (c_str w) [fr])
         | UnknownException \<Rightarrow> r)
    | _ \<Rightarrow> r)"

abbreviation APOS :: char where
  "APOS \<equiv> CHR 0x27"

text \<open>The assertions; \<open>sh\<close> is how \<open>operator<<\<close> prints a value.\<close>

definition assert_that :: "bool \<Rightarrow> string \<Rightarrow> (exn, unit) outcome" where
  "assert_that ok message = (if ok then Returned () else Thrown (TestFailed message []))"

definition assert_true :: "(bool \<Rightarrow> string) \<Rightarrow> bool \<Rightarrow> (exn, unit) outcome" where
  "assert_true sh a = assert_that a (''actual value '' @ sh a @ '' is not true'')"

definition assert_false :: "(bool \<Rightarrow> string) \<Rightarrow> bool \<Rightarrow> (exn, unit) outcome" where
  "assert_false sh a = assert_that (\<not> a) (''actual value '' @ sh a @ '' is not false'')"

definition assert_equal :: "('a \<Rightarrow> string) \<Rightarrow> 'a \<Rightarrow> 'a \<Rightarrow> (exn, unit) outcome" where
  "assert_equal sh a e =
     assert_that (a = e) (''value '' @ [APOS] @ sh a @ [APOS] @ '' is different than the expected '' @ [APOS] @ sh e @ [APOS])"

definition assert_not_equal :: "('a \<Rightarrow> string) \<Rightarrow> 'a \<Rightarrow> 'a \<Rightarrow> (exn, unit) outcome" where
  "assert_not_equal sh a e =
     assert_that (a \<noteq> e) (''value '' @ [APOS] @ sh a @ [APOS] @ '' is not different than the expected '' @ [APOS] @ sh e @ [APOS])"

definition assert_less :: "('a :: linorder \<Rightarrow> string) \<Rightarrow> 'a \<Rightarrow> 'a \<Rightarrow> (exn, unit) outcome" where
  "assert_less sh a e =
     assert_that (a < e) (''value '' @ [APOS] @ sh a @ [APOS] @ '' is not less than the expected '' @ [APOS] @ sh e @ [APOS])"

definition assert_less_equal :: "('a :: linorder \<Rightarrow> string) \<Rightarrow> 'a \<Rightarrow> 'a \<Rightarrow> (exn, unit) outcome" where
  "assert_less_equal sh a e =
     assert_that (a \<le> e) (''value '' @ [APOS] @ sh a @ [APOS] @ '' is not less than or equals to the expected '' @ [APOS] @ sh e @ [APOS])"

definition assert_greater :: "('a :: linorder \<Rightarrow> string) \<Rightarrow> 'a \<Rightarrow> 'a \<Rightarrow> (exn, unit) outcome" where
  "assert_greater sh a e =
     assert_that (a > e) (''value '' @ [APOS] @ sh a @ [APOS] @ '' is not greater than the expected '' @ [APOS] @ sh e @ [APOS])"

definition assert_greater_equal :: "('a :: linorder \<Rightarrow> string) \<Rightarrow> 'a \<Rightarrow> 'a \<Rightarrow> (exn, unit) outcome" where
  "assert_greater_equal sh a e =
     assert_that (a \<ge> e) (''value '' @ [APOS] @ sh a @ [APOS] @ '' is not greater than or equals to the expected '' @ [APOS] @ sh e @ [APOS])"

definition assert_startswith :: "string \<Rightarrow> string \<Rightarrow> (exn, unit) outcome" where
  "assert_startswith a e =
     assert_that (startswith a e) ([APOS] @ a @ [APOS] @ '' does not start with '' @ [APOS] @ e @ [APOS])"

definition assert_endswith :: "string \<Rightarrow> string \<Rightarrow> (exn, unit) outcome" where
  "assert_endswith a e =
     assert_that (endswith a e) ([APOS] @ a @ [APOS] @ '' does not end with '' @ [APOS] @ e @ [APOS])"

definition assert_contains :: "string \<Rightarrow> string \<Rightarrow> (exn, unit) outcome" where
  "assert_contains a e =
     assert_that (str_find a e 0 \<noteq> None) ([APOS] @ a @ [APOS] @ '' does not contain '' @ [APOS] @ e @ [APOS])"

definition assert_not_contains :: "string \<Rightarrow> string \<Rightarrow> (exn, unit) outcome" where
  "assert_not_contains a e =
     assert_that (str_find a e 0 = None) ([APOS] @ a @ [APOS] @ '' contains '' @ [APOS] @ e @ [APOS])"

text \<open>
  \<open>ActualCString\<close>: the actual value may be the null pointer; two null pointers are equal, and every
  comparison with a string needs one that is set.
\<close>

definition cstring_equal :: "string option \<Rightarrow> string option \<Rightarrow> (exn, unit) outcome" where
  "cstring_equal a e = (case (a, e) of
      (Some s, Some t) \<Rightarrow> assert_equal (\<lambda>x. x) s t
    | (None, None) \<Rightarrow> Returned ()
    | (None, Some t) \<Rightarrow> Thrown (TestFailed (''actual value is nullptr instead of the expected string '' @ [CHR 0x22] @ encode_cstring t @ [CHR 0x22]) [])
    | (Some s, None) \<Rightarrow> Thrown (TestFailed (''actual value is the string '' @ [CHR 0x22] @ encode_cstring s @ [CHR 0x22] @ '' instead of nullptr'') []))"

definition cstring_not_equal :: "string option \<Rightarrow> string option \<Rightarrow> (exn, unit) outcome" where
  "cstring_not_equal a e = (case (a, e) of
      (Some s, Some t) \<Rightarrow> assert_not_equal (\<lambda>x. x) s t
    | (None, None) \<Rightarrow> Thrown (TestFailed ''actual and expected values are both nullptr but they should be different'' [])
    | _ \<Rightarrow> Returned ())"

definition cstring_check :: "(string \<Rightarrow> 'b \<Rightarrow> (exn, unit) outcome) \<Rightarrow> string option \<Rightarrow> 'b \<Rightarrow> (exn, unit) outcome" where
  "cstring_check assertion a e = (case a of
      None \<Rightarrow> Thrown (TestFailed ''actual value is the null pointer instead of a valid string'' [])
    | Some s \<Rightarrow> assertion s e)"

text \<open>\<open>ActualFunction::throws\<close>; \<open>matches\<close> is the assertion with the regular expression.\<close>

definition assert_throws :: "frame \<Rightarrow> (string \<Rightarrow> (exn, unit) outcome) \<Rightarrow> (exn, unit) outcome \<Rightarrow> (exn, unit) outcome" where
  "assert_throws fr matches r = (case r of
      Returned _ \<Rightarrow> Thrown (TestFailed ''code did not throw any exception'' [])
    | Thrown e \<Rightarrow> (case what e of Some w \<Rightarrow> wassert fr (matches w) | None \<Rightarrow> Thrown e)
    | Undefined \<Rightarrow> Undefined)"

subsection \<open>Results\<close>

record method_result =
  mr_case :: string
  mr_method :: string
  error_message :: string
  error_stack :: "frame list"
  exception_typeid :: string
  mr_skipped :: bool

definition new_method_result :: "string \<Rightarrow> string \<Rightarrow> method_result" where
  "new_method_result test_case test_method =
     \<lparr>mr_case = test_case, mr_method = test_method, error_message = [], error_stack = [], exception_typeid = [], mr_skipped = False\<rparr>"

definition or_default :: "string \<Rightarrow> string \<Rightarrow> string" where
  "or_default m d = (if m = [] then d else m)"

definition set_failed :: "string \<Rightarrow> frame list \<Rightarrow> method_result \<Rightarrow> method_result" where
  "set_failed m st r =
     r\<lparr>error_message := or_default (c_str m) ''test failed with an empty error message'', error_stack := st\<rparr>"

definition set_exception :: "string \<Rightarrow> string \<Rightarrow> method_result \<Rightarrow> method_result" where
  "set_exception ty w r =
     r\<lparr>error_message := or_default (c_str w) ''test threw an exception with an empty error message'', exception_typeid := ty\<rparr>"

definition set_unknown_exception :: "method_result \<Rightarrow> method_result" where
  "set_unknown_exception r = r\<lparr>error_message := ''unknown exception caught''\<rparr>"

definition set_setup_exception :: "string \<Rightarrow> method_result \<Rightarrow> method_result" where
  "set_setup_exception w r = r\<lparr>error_message := ''[setup failed: '' @ w @ '']''\<rparr>"

definition set_teardown_exception :: "string \<Rightarrow> method_result \<Rightarrow> method_result" where
  "set_teardown_exception w r = r\<lparr>error_message := ''[teardown failed: '' @ w @ '']''\<rparr>"

definition method_success :: "method_result \<Rightarrow> bool" where
  "method_success r \<longleftrightarrow> error_message r = []"

record case_result =
  cr_case :: string
  cr_methods :: "method_result list"
  fail_setup :: string
  fail_teardown :: string
  cr_skipped :: bool

definition new_case_result :: "string \<Rightarrow> case_result" where
  "new_case_result test_case =
     \<lparr>cr_case = test_case, cr_methods = [], fail_setup = [], fail_teardown = [], cr_skipped = False\<rparr>"

definition set_setup_failed :: "string \<Rightarrow> case_result \<Rightarrow> case_result" where
  "set_setup_failed w r = r\<lparr>fail_setup := ''test case setup method threw an exception: '' @ w\<rparr>"

definition set_teardown_failed :: "string \<Rightarrow> case_result \<Rightarrow> case_result" where
  "set_teardown_failed w r = r\<lparr>fail_teardown := ''test case teardown method threw an exception: '' @ w\<rparr>"

definition add_test_method :: "method_result \<Rightarrow> case_result \<Rightarrow> case_result" where
  "add_test_method e r = r\<lparr>cr_methods := cr_methods r @ [e]\<rparr>"

definition case_success :: "case_result \<Rightarrow> bool" where
  "case_success r \<longleftrightarrow> fail_setup r = [] \<and> fail_teardown r = [] \<and> (\<forall>m\<in>set (cr_methods r). method_success m)"

subsection \<open>Running tests\<close>

text \<open>
  An action is what a test method or a hook does to the state of the process.  The hooks of a
  method also get the result object, which they may change.
\<close>

type_synonym 'w action = "'w \<Rightarrow> (exn, unit) outcome \<times> 'w"

record 'w test_method =
  tm_name :: string
  test_function :: "'w action"

record 'w test_case =
  tc_name :: string
  tc_methods :: "'w test_method list"
  register_tests :: "'w test_method list \<Rightarrow> 'w test_method list"
  tc_setup :: "'w action"
  tc_teardown :: "'w action"
  mt_setup :: "method_result \<Rightarrow> 'w \<Rightarrow> (exn, unit) outcome \<times> method_result \<times> 'w"
  mt_teardown :: "method_result \<Rightarrow> 'w \<Rightarrow> (exn, unit) outcome \<times> method_result \<times> 'w"

text \<open>The hooks of \<open>TestCase\<close> itself do nothing; \<open>register_tests\<close> is there for the subclass to give.\<close>

definition plain_case :: "string \<Rightarrow> ('w test_method list \<Rightarrow> 'w test_method list) \<Rightarrow> 'w test_case" where
  "plain_case name reg =
     \<lparr>tc_name = name, tc_methods = [], register_tests = reg, tc_setup = (\<lambda>w. (Returned (), w)), tc_teardown = (\<lambda>w. (Returned (), w)),
      mt_setup = (\<lambda>r w. (Returned (), r, w)), mt_teardown = (\<lambda>r w. (Returned (), r, w))\<rparr>"

definition add_method :: "string \<Rightarrow> 'w action \<Rightarrow> 'w test_method list \<Rightarrow> 'w test_method list" where
  "add_method name f ms = ms @ [\<lparr>tm_name = name, test_function = f\<rparr>]"

text \<open>The controller, with a state of its own.\<close>

record ('w, 'c) controller =
  test_case_begin :: "'w test_case \<Rightarrow> case_result \<Rightarrow> 'c \<Rightarrow> bool \<times> 'c"
  test_case_end :: "'w test_case \<Rightarrow> case_result \<Rightarrow> 'c \<Rightarrow> 'c"
  test_method_begin :: "'w test_method \<Rightarrow> method_result \<Rightarrow> 'c \<Rightarrow> bool \<times> 'c"
  test_method_end :: "'w test_method \<Rightarrow> method_result \<Rightarrow> 'c \<Rightarrow> 'c"

text \<open>\<open>TestController\<close> itself runs everything and does nothing.\<close>

definition base_ctl :: "('w, 'c) controller" where
  "base_ctl =
     \<lparr>test_case_begin = (\<lambda>tc res c. (True, c)), test_case_end = (\<lambda>tc res c. c),
      test_method_begin = (\<lambda>m res c. (True, c)), test_method_end = (\<lambda>m res c. c)\<rparr>"

text \<open>\<open>catch (std::exception& e)\<close> around a hook: the value after the handler, or after no exception\<close>

definition catch_std :: "(exn, unit) outcome \<Rightarrow> (string \<Rightarrow> 'a) \<Rightarrow> 'a \<Rightarrow> (exn, 'a) outcome" where
  "catch_std r handler a = (case r of
      Returned _ \<Rightarrow> Returned a
    | Thrown e \<Rightarrow> (case what e of Some w \<Rightarrow> Returned (handler w) | None \<Rightarrow> Thrown e)
    | Undefined \<Rightarrow> Undefined)"

text \<open>The call of the test function with its three handlers\<close>

definition classify :: "(exn, unit) outcome \<Rightarrow> method_result \<Rightarrow> (exn, method_result) outcome" where
  "classify r res = (case r of
      Returned _ \<Rightarrow> Returned res
    | Thrown e \<Rightarrow> Returned
        (case e of TestFailed m st \<Rightarrow> set_failed m st res
         | StdException ty w \<Rightarrow> set_exception ty w res
         | UnknownException \<Rightarrow> set_unknown_exception res)
    | Undefined \<Rightarrow> Undefined)"

text \<open>Go on with a value, or end with the exception\<close>

definition go_on :: "(exn, 'a) outcome \<Rightarrow> 's \<Rightarrow> ('a \<Rightarrow> (exn, 'b) outcome \<times> 's) \<Rightarrow> (exn, 'b) outcome \<times> 's" where
  "go_on r s k = (case r of Returned a \<Rightarrow> k a | Thrown e \<Rightarrow> (Thrown e, s) | Undefined \<Rightarrow> (Undefined, s))"

definition run_test ::
  "('w, 'c) controller \<Rightarrow> 'w test_case \<Rightarrow> 'w test_method \<Rightarrow> 'c \<times> 'w \<Rightarrow> (exn, method_result) outcome \<times> 'c \<times> 'w" where
  "run_test ctl tc m s =
     (let (c, w) = s; res = new_method_result (tc_name tc) (tm_name m); (b, c1) = test_method_begin ctl m res c
      in if \<not> b then
           (let skip = res\<lparr>mr_skipped := True\<rparr> in (Returned skip, test_method_end ctl m skip c1, w))
         else
           (let (r, res1, w1) = mt_setup tc res w
            in go_on (catch_std r (\<lambda>e. (False, set_setup_exception e res1)) (True, res1)) (c1, w1) (\<lambda>(run, res2).
              let (r2, w2) = (if run then test_function m w1 else (Returned (), w1))
              in go_on (if run then classify r2 res2 else Returned res2) (c1, w2) (\<lambda>res3.
                let (r3, res4, w3) = mt_teardown tc res3 w2
                in go_on (catch_std r3 (\<lambda>e. set_teardown_exception e res4) res4) (c1, w3) (\<lambda>res5.
                  (Returned res5, test_method_end ctl m res5 c1, w3))))))"

fun run_methods ::
  "('w, 'c) controller \<Rightarrow> 'w test_case \<Rightarrow> 'w test_method list \<Rightarrow> case_result \<Rightarrow> 'c \<times> 'w \<Rightarrow> (exn, case_result) outcome \<times> 'c \<times> 'w" where
  "run_methods ctl tc [] res s = (Returned res, s)"
| "run_methods ctl tc (m # ms) res s =
     (let (r, s1) = run_test ctl tc m s in go_on r s1 (\<lambda>mr. run_methods ctl tc ms (add_test_method mr res) s1))"

definition run_case :: "('w, 'c) controller \<Rightarrow> 'w test_case \<Rightarrow> 'c \<times> 'w \<Rightarrow> (exn, case_result) outcome \<times> 'c \<times> 'w" where
  "run_case ctl tc s =
     (let (c, w) = s; res = new_case_result (tc_name tc); (b, c1) = test_case_begin ctl tc res c
      in if \<not> b then
           (let skip = res\<lparr>cr_skipped := True\<rparr> in (Returned skip, test_case_end ctl tc skip c1, w))
         else
           (let (r, w1) = tc_setup tc w
            in go_on (catch_std r (\<lambda>e. Some e) None) (c1, w1) (\<lambda>failed.
              case failed of
                Some e \<Rightarrow> (let res1 = set_setup_failed e res in (Returned res1, test_case_end ctl tc res1 c1, w1))
              | None \<Rightarrow>
                  (let (r2, s2) = run_methods ctl tc (tc_methods tc) res (c1, w1)
                   in go_on r2 s2 (\<lambda>res2.
                     let (c2, w2) = s2; (r3, w3) = tc_teardown tc w2
                     in go_on (catch_std r3 (\<lambda>e. set_teardown_failed e res2) res2) (c2, w3) (\<lambda>res3.
                       (Returned res3, test_case_end ctl tc res3 c2, w3)))))))"

text \<open>
  The registry: a case is asked for its tests, which it appends to its methods, and run.  The
  entries are returned as they are afterwards.
\<close>

fun run_registry ::
  "('w, 'c) controller \<Rightarrow> 'w test_case list \<Rightarrow> 'c \<times> 'w \<Rightarrow> (exn, case_result list) outcome \<times> ('w test_case list \<times> 'c \<times> 'w)" where
  "run_registry ctl [] s = (Returned [], [], s)"
| "run_registry ctl (tc # tcs) s =
     (let tc1 = tc\<lparr>tc_methods := register_tests tc (tc_methods tc)\<rparr>; (r, s1) = run_case ctl tc1 s
      in go_on r (tc1 # tcs, s1) (\<lambda>cr.
        let (rs, tcs1, s2) = run_registry ctl tcs s1
        in go_on rs (tc1 # tcs1, s2) (\<lambda>crs. (Returned (cr # crs), tc1 # tcs1, s2))))"

subsection \<open>SimpleTestController\<close>

text \<open>
  \<open>fnmatch\<close> is the function of the C library; \<open>FNM_NOMATCH\<close> is 1.  What is printed on the standard
  output is kept as text.
\<close>

definition FNM_NOMATCH :: int where
  "FNM_NOMATCH = 1"

record simple_controller =
  whitelist :: string
  blacklist :: string
  stdout_text :: string

definition print_out :: "string \<Rightarrow> simple_controller \<Rightarrow> simple_controller" where
  "print_out s c = c\<lparr>stdout_text := stdout_text c @ s\<rparr>"

definition test_method_should_run :: "(string \<Rightarrow> string \<Rightarrow> int) \<Rightarrow> simple_controller \<Rightarrow> string \<Rightarrow> bool" where
  "test_method_should_run fnmatch c fullname =
     (if whitelist c \<noteq> [] \<and> fnmatch (c_str (whitelist c)) (c_str fullname) = FNM_NOMATCH then False
      else if blacklist c \<noteq> [] \<and> fnmatch (c_str (blacklist c)) (c_str fullname) \<noteq> FNM_NOMATCH then False
      else True)"

definition simple_ctl :: "(string \<Rightarrow> string \<Rightarrow> int) \<Rightarrow> ('w, simple_controller) controller" where
  "simple_ctl fnmatch =
     \<lparr>test_case_begin = (\<lambda>tc res c.
        if \<not> foldl (\<lambda>should m. should \<or> test_method_should_run fnmatch c (tc_name tc @ ''.'' @ tm_name m)) False (tc_methods tc)
        then (False, c) else (True, print_out (c_str (tc_name tc) @ '': '') c)),
      test_case_end = (\<lambda>tc res c. if cr_skipped res then c else print_out [NL] c),
      test_method_begin = (\<lambda>m res c. (test_method_should_run fnmatch c (mr_case res @ ''.'' @ tm_name m), c)),
      test_method_end = (\<lambda>m res c.
        print_out (if mr_skipped res then ''s'' else if method_success res then ''.'' else ''x'') c)\<rparr>"

subsection \<open>The program that runs all tests\<close>

text \<open>The counters are \<open>unsigned\<close>; \<open>stderr_text\<close> is what is printed on the standard error.\<close>

record totals =
  methods_ok :: "32 word"
  methods_failed :: "32 word"
  methods_skipped :: "32 word"
  test_cases_ok :: "32 word"
  test_cases_failed :: "32 word"
  stderr_text :: string

definition no_totals :: totals where
  "no_totals = \<lparr>methods_ok = 0, methods_failed = 0, methods_skipped = 0, test_cases_ok = 0, test_cases_failed = 0, stderr_text = []\<rparr>"

definition print_err :: "string \<Rightarrow> totals \<Rightarrow> totals" where
  "print_err s t = t\<lparr>stderr_text := stderr_text t @ s\<rparr>"

definition failure_text :: "method_result \<Rightarrow> string" where
  "failure_text r =
     [NL] @ c_str (mr_case r) @ ''.'' @ c_str (mr_method r)
       @ (if exception_typeid r = [] then '': '' else '':['' @ c_str (exception_typeid r) @ ''] '') @ c_str (error_message r) @ [NL]
       @ concat (map (\<lambda>f. ''  '' @ c_str (frame_format f)) (error_stack r))"

definition count_method :: "totals \<Rightarrow> method_result \<Rightarrow> totals" where
  "count_method t r =
     (if mr_skipped r then t\<lparr>methods_skipped := methods_skipped t + 1\<rparr>
      else if method_success r then t\<lparr>methods_ok := methods_ok t + 1\<rparr>
      else (print_err (failure_text r) t)\<lparr>methods_failed := methods_failed t + 1\<rparr>)"

definition count_case :: "totals \<Rightarrow> case_result \<Rightarrow> totals" where
  "count_case t r =
     (if fail_setup r \<noteq> [] then
        (print_err (c_str (cr_case r) @ '': '' @ c_str (fail_setup r) @ [NL]) t)\<lparr>test_cases_failed := test_cases_failed t + 1\<rparr>
      else
        foldl count_method
          (if fail_teardown r \<noteq> [] then
             (print_err (c_str (cr_case r) @ '': '' @ c_str (fail_teardown r) @ [NL]) t)\<lparr>test_cases_failed := test_cases_failed t + 1\<rparr>
           else t\<lparr>test_cases_ok := test_cases_ok t + 1\<rparr>)
          (cr_methods r))"

definition udec :: "32 word \<Rightarrow> string" where
  "udec n = decimal (unat n)"

definition report :: "totals \<Rightarrow> int \<times> string" where
  "report t =
     (let (ok1, t1) =
        (if test_cases_failed t \<noteq> 0 then
           (False, print_err ([NL] @ udec (test_cases_failed t) @ ''/'' @ udec (test_cases_ok t + test_cases_failed t)
              @ '' test cases had issues initializing or cleaning up'' @ [NL]) t)
         else (True, t));
        (ok2, t2) =
        (if methods_failed t1 \<noteq> 0 then
           (False, print_err ([NL] @ udec (methods_failed t1) @ ''/'' @ udec (methods_ok t1 + methods_failed t1) @ '' tests failed'' @ [NL]) t1)
         else (ok1, print_err (udec (methods_ok t1) @ '' tests succeeded'' @ [NL]) t1))
      in (if ok2 then 0 else 1, stderr_text t2))"

definition start_controller :: "(string \<Rightarrow> string option) \<Rightarrow> simple_controller" where
  "start_controller getenv =
     \<lparr>whitelist = (case getenv ''TEST_WHITELIST'' of None \<Rightarrow> [] | Some s \<Rightarrow> s),
      blacklist = (case getenv ''TEST_BLACKLIST'' of None \<Rightarrow> [] | Some s \<Rightarrow> s), stdout_text = []\<rparr>"

text \<open>
  The exit code with what is printed on both outputs, and the state the tests leave.  An exception
  that reaches \<open>main\<close> ends the program.
\<close>

definition tests_main ::
  "(string \<Rightarrow> string \<Rightarrow> int) \<Rightarrow> (string \<Rightarrow> string option) \<Rightarrow> 'w test_case list \<Rightarrow> 'w
    \<Rightarrow> (exn, int \<times> string \<times> string) outcome \<times> 'w" where
  "tests_main fnmatch getenv entries w =
     (let (r, entries1, c1, w1) = run_registry (simple_ctl fnmatch) entries (start_controller getenv, w)
      in go_on r w1 (\<lambda>all_results.
        let (code, err) = report (foldl count_case no_totals all_results)
        in (Returned (code, stdout_text c1, err), w1)))"

subsection \<open>Fixtures\<close>

text \<open>
  \<open>FixtureTestCase\<close>: the state has the fixture, \<open>None\<close> for the null pointer.  \<open>make\<close> and \<open>destroy\<close> are the
  constructor and the destructor of the fixture class.
\<close>

record ('f, 'w) fixture_class =
  make_fixture :: "'w \<Rightarrow> (exn, 'f) outcome \<times> 'w"
  destroy :: "'f \<Rightarrow> 'w \<Rightarrow> 'w"
  fixture_setup :: "'f \<Rightarrow> 'w \<Rightarrow> (exn, unit) outcome \<times> 'f \<times> 'w"
  fixture_teardown :: "'f \<Rightarrow> 'w \<Rightarrow> (exn, unit) outcome \<times> 'f \<times> 'w"

definition on_fixture :: "('f \<Rightarrow> 'w \<Rightarrow> (exn, unit) outcome \<times> 'f \<times> 'w) \<Rightarrow> 'f \<Rightarrow> 'w \<Rightarrow> (exn, unit) outcome \<times> 'f option \<times> 'w" where
  "on_fixture f fx w = (let (r, fx1, w1) = f fx w in (r, Some fx1, w1))"

definition fixture_case ::
  "('f, 'w) fixture_class \<Rightarrow> string \<Rightarrow> (('f option \<times> 'w) test_method list \<Rightarrow> ('f option \<times> 'w) test_method list)
    \<Rightarrow> ('f option \<times> 'w) test_case" where
  "fixture_case fc name reg =
     \<lparr>tc_name = name, tc_methods = [], register_tests = reg,
      tc_setup = (\<lambda>(f, w). case make_fixture fc w of (r, w1) \<Rightarrow> go_on r (f, w1) (\<lambda>fx. (Returned (), Some fx, w1))),
      tc_teardown = (\<lambda>(f, w). (Returned (), None, case f of None \<Rightarrow> w | Some fx \<Rightarrow> destroy fc fx w)),
      mt_setup = (\<lambda>mr (f, w). case f of
          None \<Rightarrow> (Returned (), mr, None, w)
        | Some fx \<Rightarrow> (let (r, s) = on_fixture (fixture_setup fc) fx w in (r, mr, s))),
      mt_teardown = (\<lambda>mr (f, w). case f of
          None \<Rightarrow> (Returned (), mr, None, w)
        | Some fx \<Rightarrow> (let (r, s) = on_fixture (fixture_teardown fc) fx w in (r, mr, s)))\<rparr>"

definition add_fixture_method ::
  "string \<Rightarrow> ('f \<Rightarrow> 'w \<Rightarrow> (exn, unit) outcome \<times> 'f \<times> 'w) \<Rightarrow> ('f option \<times> 'w) test_method list \<Rightarrow> ('f option \<times> 'w) test_method list" where
  "add_fixture_method name f =
     add_method name (\<lambda>(fx, w). case fx of None \<Rightarrow> (Undefined, None, w) | Some x \<Rightarrow> on_fixture f x w)"

subsection \<open>Overriding an environment variable\<close>

text \<open>\<open>EnvOverride\<close> of \<open>ept/test.h\<close>: the constructor gives the object, which keeps the old value, and the environment.\<close>

definition env_override :: "string \<Rightarrow> string \<Rightarrow> (string \<Rightarrow> string option) \<Rightarrow> string option \<times> (string \<Rightarrow> string option)" where
  "env_override name val env = (env name, env(name \<mapsto> c_str val))"

definition end_env_override :: "string \<Rightarrow> string option \<Rightarrow> (string \<Rightarrow> string option) \<Rightarrow> (string \<Rightarrow> string option)" where
  "end_env_override name old_value env = (case old_value of Some v \<Rightarrow> env(name \<mapsto> c_str v) | None \<Rightarrow> env(name := None))"

section \<open>Properties of the test framework\<close>

subsection \<open>One method\<close>

text \<open>What a hook may do for the runner to catch it: return, or throw a \<open>std::exception\<close>.\<close>

definition std_only :: "(exn, 'a) outcome \<Rightarrow> bool" where
  "std_only r \<longleftrightarrow> r \<noteq> Undefined \<and> r \<noteq> Thrown UnknownException"

lemma catch_std_only:
  "std_only r \<Longrightarrow> catch_std r handler a = Returned (case r of Thrown e \<Rightarrow> handler (the (what e)) | _ \<Rightarrow> a)"
  by (auto simp: std_only_def catch_std_def what_def split: outcome.splits exn.splits)

lemma go_on_Returned [simp]: "go_on (Returned a) s k = k a"
  by (simp add: go_on_def)

lemma classify_Returned: "classify (Returned u) res = Returned res"
  by (simp add: classify_def)

lemma or_default_not_Nil [simp]: "d \<noteq> [] \<Longrightarrow> or_default m d \<noteq> []"
  by (simp add: or_default_def)

lemma classify_cases:
  assumes "r \<noteq> Undefined"
  obtains res' where "classify r res = Returned res'" "mr_case res' = mr_case res" "mr_method res' = mr_method res"
    "mr_skipped res' = mr_skipped res" "r = Returned () \<and> res' = res \<or> r \<noteq> Returned () \<and> \<not> method_success res'"
  using assms
  by (cases r) (fastforce simp: classify_def set_failed_def set_exception_def set_unknown_exception_def method_success_def
      split: exn.splits)+

definition hooks_keep :: "'w test_case \<Rightarrow> bool" where
  "hooks_keep tc \<longleftrightarrow> (\<forall>r w. fst (snd (mt_setup tc r w)) = r \<and> std_only (fst (mt_setup tc r w))
     \<and> fst (snd (mt_teardown tc r w)) = r \<and> std_only (fst (mt_teardown tc r w)))"

text \<open>The steps of a method that is run: the hook, the test if the hook returned, and the other hook\<close>

definition method_passes :: "'w test_case \<Rightarrow> 'w test_method \<Rightarrow> 'w \<Rightarrow> bool" where
  "method_passes tc m w =
     (let res = new_method_result (tc_name tc) (tm_name m); (r1, _, w1) = mt_setup tc res w; (r2, w2) = test_function m w1
      in r1 = Returned () \<and> r2 = Returned () \<and> fst (mt_teardown tc res w2) = Returned ())"

lemma run_test_reports:
  assumes "hooks_keep tc" and "\<forall>w. fst (test_function m w) \<noteq> Undefined"
  obtains r c1 w1 where "run_test ctl tc m (c, w) = (Returned r, c1, w1)"
    "mr_case r = tc_name tc" "mr_method r = tm_name m"
    "mr_skipped r \<longleftrightarrow> \<not> fst (test_method_begin ctl m (new_method_result (tc_name tc) (tm_name m)) c)"
    "\<not> mr_skipped r \<Longrightarrow> method_success r \<longleftrightarrow> method_passes tc m w" "mr_skipped r \<Longrightarrow> w1 = w"
proof -
  let ?res = "new_method_result (tc_name tc) (tm_name m)"
  obtain b c1 where b: "test_method_begin ctl m ?res c = (b, c1)" by fastforce
  have new: "mr_case ?res = tc_name tc" "mr_method ?res = tm_name m" "\<not> mr_skipped ?res" "method_success ?res"
    by (simp_all add: new_method_result_def method_success_def)
  obtain r1 w1 where s: "mt_setup tc ?res w = (r1, ?res, w1)" "std_only r1"
    using assms(1) unfolding hooks_keep_def by (metis prod.collapse)
  have t: "\<exists>r3 w3. mt_teardown tc res w2 = (r3, res, w3) \<and> std_only r3" for res w2
    using assms(1) unfolding hooks_keep_def by (metis prod.collapse)
  consider "\<not> b" | "b" "r1 = Returned ()" | e where "b" "r1 = Thrown e"
    using s(2) by (cases r1) (auto simp: std_only_def)
  then show ?thesis
  proof cases
    case 1
    with b have "run_test ctl tc m (c, w) = (Returned (?res\<lparr>mr_skipped := True\<rparr>), test_method_end ctl m (?res\<lparr>mr_skipped := True\<rparr>) c1, w)"
      by (simp add: run_test_def Let_def)
    from that [OF this] b 1 new show ?thesis by simp
  next
    case 2
    obtain r2 w2 where f: "test_function m w1 = (r2, w2)" "r2 \<noteq> Undefined" using assms(2) by (metis fst_conv surj_pair)
    obtain res' where c: "classify r2 ?res = Returned res'" "mr_case res' = tc_name tc" "mr_method res' = tm_name m"
      "\<not> mr_skipped res'" "r2 = Returned () \<and> res' = ?res \<or> r2 \<noteq> Returned () \<and> \<not> method_success res'"
      using classify_cases [OF f(2)] new by metis
    obtain r3 w3 where t3: "mt_teardown tc res' w2 = (r3, res', w3)" "std_only r3" using t by blast
    define r where "r = (case r3 of Thrown e \<Rightarrow> set_teardown_exception (the (what e)) res' | _ \<Rightarrow> res')"
    have run: "run_test ctl tc m (c, w) = (Returned r, test_method_end ctl m r c1, w3)"
      using b s f c(1) t3 2 by (simp add: run_test_def catch_std_only r_def)
    have r: "mr_case r = tc_name tc" "mr_method r = tm_name m" "\<not> mr_skipped r"
      "method_success r \<longleftrightarrow> r3 = Returned () \<and> method_success res'"
      using c(2-4) t3(2) by (auto simp: r_def set_teardown_exception_def method_success_def std_only_def split: outcome.splits)
    have "fst (mt_teardown tc ?res w2) = r3" if "res' = ?res" using t3 that by simp
    then have "method_success r \<longleftrightarrow> method_passes tc m w"
      using c(5) r(4) s f 2 new(4) by (auto simp: method_passes_def)
    with that [OF run r(1,2)] b r(3) 2 show ?thesis by simp
  next
    case 3
    define res' where "res' = set_setup_exception (the (what e)) ?res"
    obtain r3 w3 where t3: "mt_teardown tc res' w1 = (r3, res', w3)" "std_only r3" using t by blast
    define r where "r = (case r3 of Thrown e \<Rightarrow> set_teardown_exception (the (what e)) res' | _ \<Rightarrow> res')"
    have run: "run_test ctl tc m (c, w) = (Returned r, test_method_end ctl m r c1, w3)"
      using b s t3 3 unfolding r_def res'_def by (simp add: run_test_def catch_std_only)
    have r: "mr_case r = tc_name tc" "mr_method r = tm_name m" "\<not> mr_skipped r" "\<not> method_success r"
      using new t3(2) by (auto simp: r_def res'_def set_teardown_exception_def set_setup_exception_def
          method_success_def std_only_def split: outcome.splits)
    with that [OF run r(1,2)] b s 3 show ?thesis by (simp add: method_passes_def split: prod.splits)
  qed
qed

subsection \<open>One test case\<close>

lemma run_methods_reports:
  assumes "hooks_keep tc" and "\<forall>m\<in>set ms. \<forall>w. fst (test_function m w) \<noteq> Undefined"
  shows "\<exists>rs s'. run_methods ctl tc ms res s = (Returned (res\<lparr>cr_methods := cr_methods res @ rs\<rparr>), s')
    \<and> map mr_method rs = map tm_name ms \<and> (\<forall>r\<in>set rs. mr_case r = tc_name tc)"
  using assms(2)
proof (induction ms arbitrary: res s)
  case (Cons m ms)
  obtain c w where s: "s = (c, w)" by fastforce
  obtain r c1 w1 where r: "run_test ctl tc m (c, w) = (Returned r, c1, w1)" "mr_case r = tc_name tc" "mr_method r = tm_name m"
    using run_test_reports [OF assms(1), of m ctl c w] Cons.prems by (metis list.set_intros(1))
  from Cons.IH [of "add_test_method r res" "(c1, w1)"] Cons.prems obtain rs s' where
    "run_methods ctl tc ms (add_test_method r res) (c1, w1)
      = (Returned ((add_test_method r res)\<lparr>cr_methods := cr_methods (add_test_method r res) @ rs\<rparr>), s')"
    "map mr_method rs = map tm_name ms" "\<forall>r\<in>set rs. mr_case r = tc_name tc" by auto
  with r s show ?case by (intro exI [of _ "r # rs"] exI [of _ s']) (simp add: add_test_method_def)
qed simp

text \<open>
  C34: when the hooks leave the result alone and throw only what is derived from
  \<open>std::exception\<close>, running a case never throws: it gives a result that is of this case, and
  either the case was skipped, or its setup failed and no method was run, or there is exactly one result
  for each method, in their order.
\<close>

theorem run_case_reports:
  assumes "hooks_keep tc" and "\<forall>w. std_only (fst (tc_setup tc w)) \<and> std_only (fst (tc_teardown tc w))"
    and "\<forall>m\<in>set (tc_methods tc). \<forall>w. fst (test_function m w) \<noteq> Undefined"
  shows "\<exists>r s'. run_case ctl tc (c, w) = (Returned r, s') \<and> cr_case r = tc_name tc
    \<and> (if \<not> fst (test_case_begin ctl tc (new_case_result (tc_name tc)) c) then cr_skipped r \<and> cr_methods r = [] \<and> snd s' = w
       else \<not> cr_skipped r \<and>
         (if fst (tc_setup tc w) \<noteq> Returned () then fail_setup r \<noteq> [] \<and> cr_methods r = []
          else fail_setup r = [] \<and> map mr_method (cr_methods r) = map tm_name (tc_methods tc)
            \<and> (\<forall>mr\<in>set (cr_methods r). mr_case mr = tc_name tc)))"
proof -
  let ?res = "new_case_result (tc_name tc)"
  have new: "cr_case ?res = tc_name tc" "cr_methods ?res = []" "fail_setup ?res = []" "\<not> cr_skipped ?res"
    by (simp_all add: new_case_result_def)
  obtain b c1 where b: "test_case_begin ctl tc ?res c = (b, c1)" by fastforce
  obtain r1 w1 where r1: "tc_setup tc w = (r1, w1)" "std_only r1" using assms(2) by (metis fst_conv surj_pair)
  obtain rs c2 w2 where ms: "run_methods ctl tc (tc_methods tc) ?res (c1, w1) = (Returned (?res\<lparr>cr_methods := rs\<rparr>), c2, w2)"
    "map mr_method rs = map tm_name (tc_methods tc)" "\<forall>r\<in>set rs. mr_case r = tc_name tc"
    using run_methods_reports [OF assms(1,3), of ctl ?res "(c1, w1)"] new(2) by auto
  obtain r3 w3 where r3: "tc_teardown tc w2 = (r3, w3)" "std_only r3" using assms(2) by (metis fst_conv surj_pair)
  consider "\<not> b" | e where "b" "r1 = Thrown e" | "b" "r1 = Returned ()"
    using r1(2) by (cases r1) (auto simp: std_only_def)
  then show ?thesis
  proof cases
    case 1
    with b new show ?thesis by (simp add: run_case_def Let_def)
  next
    case 2
    with b r1 new show ?thesis by (simp add: run_case_def Let_def catch_std_only set_setup_failed_def)
  next
    case 3
    with b r1 ms r3 new show ?thesis
      by (cases r3) (simp_all add: run_case_def Let_def catch_std_only set_teardown_failed_def)
  qed
qed

definition sample_case :: "nat test_case" where
  "sample_case = (plain_case ''t'' (\<lambda>ms. ms))\<lparr>tc_methods :=
     add_method ''count'' (\<lambda>n. (assert_equal decimal n 1, n + 1)) (add_method ''ok'' (\<lambda>n. (Returned (), n + 1)) [])\<rparr>"

lemma plain_case_hooks: "hooks_keep ((plain_case name reg)\<lparr>tc_methods := ms\<rparr>)"
  by (simp add: hooks_keep_def plain_case_def std_only_def)

theorem run_case_reports_witness:
  "\<exists>r s'. run_case (simple_ctl (\<lambda>p s. 0)) sample_case (\<lparr>whitelist = [], blacklist = [], stdout_text = []\<rparr>, 0) = (Returned r, s')
    \<and> map mr_method (cr_methods r) = [''ok'', ''count'']"
proof -
  have hooks: "hooks_keep sample_case"
    "\<forall>w. std_only (fst (tc_setup sample_case w)) \<and> std_only (fst (tc_teardown sample_case w))"
    using plain_case_hooks by (simp_all add: sample_case_def) (simp_all add: plain_case_def std_only_def)
  have "\<forall>m\<in>set (tc_methods sample_case). \<forall>w. fst (test_function m w) \<noteq> Undefined"
    by (simp add: sample_case_def add_method_def assert_equal_def assert_that_def)
  from run_case_reports [OF hooks this, of "simple_ctl (\<lambda>p s. 0)" "\<lparr>whitelist = [], blacklist = [], stdout_text = []\<rparr>" 0]
  show ?thesis
    by (auto simp: simple_ctl_def test_method_should_run_def sample_case_def plain_case_def add_method_def split: if_splits)
qed

subsection \<open>All cases\<close>

text \<open>Running tests and nothing else: actions one after the other.\<close>

fun run_actions :: "'w action list \<Rightarrow> 'w \<Rightarrow> (exn, unit) outcome list \<times> 'w" where
  "run_actions [] w = ([], w)"
| "run_actions (f # fs) w = (let (r, w1) = f w; (rs, w2) = run_actions fs w1 in (r # rs, w2))"

definition picked :: "(string \<Rightarrow> bool) \<Rightarrow> 'w test_case \<Rightarrow> 'w action list" where
  "picked P tc = map test_function (filter (\<lambda>m. P (tc_name tc @ ''.'' @ tm_name m)) (register_tests tc (tc_methods tc)))"

definition selected :: "(string \<Rightarrow> string \<Rightarrow> int) \<Rightarrow> simple_controller \<Rightarrow> 'w test_case \<Rightarrow> 'w action list" where
  "selected fnmatch c = picked (test_method_should_run fnmatch c)"

definition default_hooks :: "'w test_case \<Rightarrow> bool" where
  "default_hooks tc \<longleftrightarrow> tc_setup tc = (\<lambda>w. (Returned (), w)) \<and> tc_teardown tc = (\<lambda>w. (Returned (), w))
     \<and> mt_setup tc = (\<lambda>r w. (Returned (), r, w)) \<and> mt_teardown tc = (\<lambda>r w. (Returned (), r, w))"

definition failed_method :: "method_result \<Rightarrow> bool" where
  "failed_method r \<longleftrightarrow> \<not> mr_skipped r \<and> \<not> method_success r"

abbreviation failures :: "(exn, unit) outcome list \<Rightarrow> nat" where
  "failures rs \<equiv> length (filter (\<lambda>r. r \<noteq> Returned ()) rs)"

lemma run_actions_append:
  "run_actions (fs @ gs) w = (let (rs, w1) = run_actions fs w; (ss, w2) = run_actions gs w1 in (rs @ ss, w2))"
  by (induction fs arbitrary: w) (simp_all split: prod.splits)

definition clean_case :: "case_result \<Rightarrow> bool" where
  "clean_case cr \<longleftrightarrow> fail_setup cr = [] \<and> fail_teardown cr = []"

definition failed_count :: "case_result \<Rightarrow> nat" where
  "failed_count cr = length (filter failed_method (cr_methods cr))"

text \<open>
  What the runner asks of a controller that selects methods by name: \<open>sel\<close> is the selection in a state, which
  no call changes, and a case of which a method is selected is not skipped.
\<close>

locale selecting =
  fixes ctl :: "('w, 'c) controller" and sel :: "'c \<Rightarrow> string \<Rightarrow> bool"
  assumes method_begin: "test_method_begin ctl m r c = (b, c') \<Longrightarrow> b = sel c (mr_case r @ ''.'' @ tm_name m) \<and> sel c' = sel c"
    and method_end: "sel (test_method_end ctl m r c) = sel c"
    and case_begin: "test_case_begin ctl tc res c = (b, c') \<Longrightarrow>
      sel c' = sel c \<and> (b \<or> (\<forall>m\<in>set (tc_methods tc). \<not> sel c (tc_name tc @ ''.'' @ tm_name m)))"
    and case_end: "sel (test_case_end ctl tc res c) = sel c"
begin

lemma test_selected:
  assumes "default_hooks tc" and "sel c (tc_name tc @ ''.'' @ tm_name m) \<Longrightarrow> fst (test_function m w) \<noteq> Undefined"
  shows "\<exists>r c'. run_test ctl tc m (c, w) = (Returned r, c', if sel c (tc_name tc @ ''.'' @ tm_name m) then snd (test_function m w) else w)
    \<and> sel c' = sel c \<and> (failed_method r \<longleftrightarrow> sel c (tc_name tc @ ''.'' @ tm_name m) \<and> fst (test_function m w) \<noteq> Returned ())"
proof -
  let ?res = "new_method_result (tc_name tc) (tm_name m)"
  obtain b c1 where b: "test_method_begin ctl m ?res c = (b, c1)" by fastforce
  have new: "mr_case ?res = tc_name tc" "\<not> mr_skipped ?res" "method_success ?res"
    by (simp_all add: new_method_result_def method_success_def)
  have sel: "b \<longleftrightarrow> sel c (tc_name tc @ ''.'' @ tm_name m)" "sel c1 = sel c" using method_begin [OF b] new(1) by simp_all
  show ?thesis
  proof (cases b)
    case True
    obtain r w1 where f: "test_function m w = (r, w1)" "r \<noteq> Undefined" using assms(2) sel(1) True by (metis fst_conv surj_pair)
    obtain res' where c: "classify r ?res = Returned res'" "mr_skipped res' = mr_skipped ?res"
      "r = Returned () \<and> res' = ?res \<or> r \<noteq> Returned () \<and> \<not> method_success res'"
      using classify_cases [OF f(2)] by metis
    have "run_test ctl tc m (c, w) = (Returned res', test_method_end ctl m res' c1, w1)"
      using True b assms(1) f c(1) by (simp add: run_test_def default_hooks_def catch_std_def)
    moreover have "failed_method res' \<longleftrightarrow> r \<noteq> Returned ()"
      using c(2,3) new(2,3) by (auto simp: failed_method_def)
    ultimately show ?thesis using True sel f method_end by auto
  next
    case False
    then show ?thesis using b sel method_end by (simp add: run_test_def Let_def failed_method_def)
  qed
qed

lemma methods_selected:
  assumes "default_hooks tc"
    and "run_actions (map test_function (filter (\<lambda>m. sel c (tc_name tc @ ''.'' @ tm_name m)) ms)) w = (rs, w')"
    and "Undefined \<notin> set rs"
  shows "\<exists>mrs c'. run_methods ctl tc ms res (c, w) = (Returned (res\<lparr>cr_methods := cr_methods res @ mrs\<rparr>), c', w')
    \<and> sel c' = sel c \<and> length (filter failed_method mrs) = failures rs"
  using assms(2,3)
proof (induction ms arbitrary: res c w rs)
  case Nil
  then show ?case by (intro exI [of _ "[]"]) simp
next
  case (Cons m ms)
  let ?run = "\<lambda>m. sel c (tc_name tc @ ''.'' @ tm_name m)"
  define fs where "fs = map test_function (filter ?run ms)"
  define w0 where "w0 = (if ?run m then snd (test_function m w) else w)"
  obtain rs0 where rest: "run_actions fs w0 = (rs0, w')" "rs = (if ?run m then [fst (test_function m w)] else []) @ rs0"
    using Cons.prems(1) by (auto simp: fs_def w0_def split: prod.splits if_splits)
  have "?run m \<Longrightarrow> fst (test_function m w) \<noteq> Undefined" using Cons.prems(2) rest(2) by auto
  from test_selected [OF assms(1) this] obtain r c1 where r: "run_test ctl tc m (c, w) = (Returned r, c1, w0)"
    "sel c1 = sel c" "failed_method r \<longleftrightarrow> ?run m \<and> fst (test_function m w) \<noteq> Returned ()"
    unfolding w0_def by blast
  have "run_actions (map test_function (filter (\<lambda>m. sel c1 (tc_name tc @ ''.'' @ tm_name m)) ms)) w0 = (rs0, w')"
    using rest(1) r(2) by (simp add: fs_def)
  from Cons.IH [OF this, of "add_test_method r res"] Cons.prems(2) rest(2) obtain mrs c2 where
    "run_methods ctl tc ms (add_test_method r res) (c1, w0)
      = (Returned ((add_test_method r res)\<lparr>cr_methods := cr_methods (add_test_method r res) @ mrs\<rparr>), c2, w')"
    "sel c2 = sel c1" "length (filter failed_method mrs) = failures rs0" by auto
  with r rest(2) show ?case
    by (intro exI [of _ "r # mrs"] exI [of _ c2]) (simp add: add_test_method_def)
qed

lemma case_selected:
  assumes "default_hooks tc" and "run_actions (picked (sel c) tc) w = (rs, w')" and "Undefined \<notin> set rs"
  shows "\<exists>cr c'. run_case ctl (tc\<lparr>tc_methods := register_tests tc (tc_methods tc)\<rparr>) (c, w) = (Returned cr, c', w')
    \<and> sel c' = sel c \<and> clean_case cr \<and> failed_count cr = failures rs"
proof -
  define tc1 where "tc1 = tc\<lparr>tc_methods := register_tests tc (tc_methods tc)\<rparr>"
  let ?res = "new_case_result (tc_name tc1)"
  have hooks: "default_hooks tc1" using assms(1) by (simp add: default_hooks_def tc1_def)
  let ?run = "\<lambda>m. sel c (tc_name tc1 @ ''.'' @ tm_name m)"
  have run: "picked (sel c) tc = map test_function (filter ?run (tc_methods tc1))" by (simp add: picked_def tc1_def)
  obtain b c1 where b: "test_case_begin ctl tc1 ?res c = (b, c1)" by fastforce
  note begun = case_begin [OF b]
  show ?thesis
  proof (cases b)
    case True
    have "run_actions (map test_function (filter (\<lambda>m. sel c1 (tc_name tc1 @ ''.'' @ tm_name m)) (tc_methods tc1))) w = (rs, w')"
      using assms(2) run begun by simp
    from methods_selected [OF hooks this assms(3), of ?res] obtain mrs c2 where
      "run_methods ctl tc1 (tc_methods tc1) ?res (c1, w) = (Returned (?res\<lparr>cr_methods := cr_methods ?res @ mrs\<rparr>), c2, w')"
      "sel c2 = sel c1" "length (filter failed_method mrs) = failures rs" by auto
    then show ?thesis unfolding tc1_def [symmetric] using True b hooks begun
      by (auto simp: run_case_def default_hooks_def catch_std_def new_case_result_def clean_case_def failed_count_def case_end)
  next
    case False
    with begun have "rs = []" "w' = w" using assms(2) run by (simp_all add: filter_False)
    then show ?thesis unfolding tc1_def [symmetric] using False b begun
      by (simp add: run_case_def Let_def new_case_result_def clean_case_def failed_count_def case_end)
  qed
qed

lemma registry_selected:
  assumes "\<forall>tc\<in>set tcs. default_hooks tc" and "run_actions (concat (map (picked (sel c)) tcs)) w = (rs, w')"
    and "Undefined \<notin> set rs"
  shows "\<exists>crs tcs' c'. run_registry ctl tcs (c, w) = (Returned crs, tcs', c', w')
    \<and> (\<forall>cr\<in>set crs. clean_case cr) \<and> sum_list (map failed_count crs) = failures rs"
  using assms
proof (induction tcs arbitrary: c w rs)
  case Nil
  then show ?case by (intro exI [of _ "[]"]) simp
next
  case (Cons tc tcs)
  from Cons.prems(2) obtain rs1 w1 rs2 where a: "run_actions (picked (sel c) tc) w = (rs1, w1)"
    "run_actions (concat (map (picked (sel c)) tcs)) w1 = (rs2, w')" "rs = rs1 @ rs2"
    by (auto simp: run_actions_append split: prod.splits)
  from case_selected [OF _ a(1)] Cons.prems(1,3) a(3) obtain cr c1 where
    cr: "run_case ctl (tc\<lparr>tc_methods := register_tests tc (tc_methods tc)\<rparr>) (c, w) = (Returned cr, c1, w1)"
    "sel c1 = sel c" "clean_case cr" "failed_count cr = failures rs1" by auto
  have "run_actions (concat (map (picked (sel c1)) tcs)) w1 = (rs2, w')" using a(2) cr(2) by simp
  from Cons.IH [OF _ this] Cons.prems(1,3) a(3) obtain crs tcs' c2 where
    "run_registry ctl tcs (c1, w1) = (Returned crs, tcs', c2, w')"
    "\<forall>cr\<in>set crs. clean_case cr" "sum_list (map failed_count crs) = failures rs2" by auto
  with cr a(3) show ?case by (auto simp: Let_def intro!: exI [of _ "cr # crs"])
qed

end

lemma should_run_print [simp]: "test_method_should_run fnmatch (print_out s c) = test_method_should_run fnmatch c"
  by (rule ext) (simp add: test_method_should_run_def print_out_def)

lemma foldl_or: "foldl (\<lambda>b m. b \<or> P m) b ms \<longleftrightarrow> b \<or> (\<exists>m\<in>set ms. P m)"
  by (induction ms arbitrary: b) auto

interpretation simple: selecting "simple_ctl fnmatch" "test_method_should_run fnmatch" for fnmatch
  by unfold_locales (auto simp: simple_ctl_def foldl_or split: if_splits)

text \<open>The controller that a subclass gets when it overrides nothing runs all methods.\<close>

interpretation base: selecting base_ctl "\<lambda>c n. True"
  by unfold_locales (auto simp: base_ctl_def)

lemma count_methods:
  "methods_failed (foldl count_method t rs) = methods_failed t + of_nat (length (filter failed_method rs))
    \<and> test_cases_failed (foldl count_method t rs) = test_cases_failed t"
  by (induction rs arbitrary: t) (auto simp: count_method_def failed_method_def print_err_def)

lemma count_cases:
  "\<forall>cr\<in>set crs. clean_case cr \<Longrightarrow>
    methods_failed (foldl count_case t crs) = methods_failed t + of_nat (sum_list (map failed_count crs))
    \<and> test_cases_failed (foldl count_case t crs) = test_cases_failed t"
  by (induction crs arbitrary: t) (auto simp: count_case_def clean_case_def failed_count_def count_methods)

lemma report_exit:
  "fst (report t) = (if test_cases_failed t = 0 \<and> methods_failed t = 0 then 0 else 1)"
  by (simp add: report_def print_err_def Let_def)

lemma tests_main_runs:
  assumes "\<forall>tc\<in>set tcs. default_hooks tc"
    and "run_actions (concat (map (selected fnmatch (start_controller getenv)) tcs)) w = (rs, w')" and "Undefined \<notin> set rs"
  shows "\<exists>out err. tests_main fnmatch getenv tcs w
    = (Returned (if failures rs mod 2 ^ 32 = 0 then 0 else 1, out, err), w')"
proof -
  from simple.registry_selected [OF assms(1) assms(2) [unfolded selected_def] assms(3)] obtain crs tcs' c' where
    r: "run_registry (simple_ctl fnmatch) tcs (start_controller getenv, w) = (Returned crs, tcs', c', w')"
    "\<forall>cr\<in>set crs. clean_case cr" "sum_list (map failed_count crs) = failures rs" by blast
  let ?t = "foldl count_case no_totals crs"
  have t: "methods_failed ?t = of_nat (failures rs)" "test_cases_failed ?t = 0"
    using count_cases [OF r(2), of no_totals] r(3) by (simp_all add: no_totals_def)
  have "(of_nat (failures rs) :: 32 word) = 0 \<longleftrightarrow> failures rs mod 2 ^ 32 = 0"
    by (simp add: word_of_nat_eq_0_iff dvd_eq_mod_eq_0)
  then have "fst (report ?t) = (if failures rs mod 2 ^ 32 = 0 then 0 else 1)"
    using t by (simp add: report_exit)
  then show ?thesis unfolding tests_main_def r(1) by (simp only: Let_def go_on_Returned prod.case case_prod_beta fst_conv snd_conv) blast
qed

text \<open>
  C33: for cases without hooks of their own, the program that runs all tests does what running the selected
  test functions one after the other does, and its exit code is 0 exactly when the number of them that
  throw, modulo the size of an \<open>unsigned\<close>, is 0.
\<close>

theorem tests_main_refines:
  assumes "\<forall>tc\<in>set tcs. default_hooks tc"
    and "run_actions (concat (map (selected fnmatch (start_controller getenv)) tcs)) w = (rs, w')" and "Undefined \<notin> set rs"
  shows "\<exists>out err. tests_main fnmatch getenv tcs w
    = (Returned (if failures rs mod 2 ^ 32 = 0 then 0 else 1, out, err), w')"
  using assms by (rule tests_main_runs)

definition sample_tests :: "nat test_case list" where
  "sample_tests = [plain_case ''a'' (add_method ''one'' (\<lambda>n. (assert_equal decimal n 0, n + 1))),
     plain_case ''b'' (\<lambda>ms. add_method ''two'' (\<lambda>n. (assert_equal decimal n 0, n + 1)) (add_method ''three'' (\<lambda>n. (Returned (), n)) ms))]"

theorem tests_main_refines_witness:
  "\<exists>out err. tests_main (\<lambda>p s. if p = s then 0 else 1) (\<lambda>_. None) sample_tests 0 = (Returned (1, out, err), 2)"
proof -
  let ?fnmatch = "\<lambda>p s. if p = s then 0 else 1 :: int" and ?env = "\<lambda>_ :: string. None :: string option"
  have hooks: "\<forall>tc\<in>set sample_tests. default_hooks tc"
    by (simp add: sample_tests_def default_hooks_def plain_case_def)
  define rs where "rs = [Returned (), Returned (), fst ((assert_equal decimal 1 0, 2 :: nat))]"
  have "run_actions (concat (map (selected ?fnmatch (start_controller ?env)) sample_tests)) 0 = (rs, 2)"
    by (simp add: sample_tests_def selected_def picked_def plain_case_def add_method_def start_controller_def test_method_should_run_def
        assert_equal_def assert_that_def rs_def)
  moreover have "Undefined \<notin> set rs" "failures rs = 1" by (simp_all add: rs_def assert_equal_def assert_that_def)
  ultimately show ?thesis using tests_main_refines [OF hooks, of ?fnmatch ?env 0 rs 2] by auto
qed

subsection \<open>The life of a fixture\<close>

text \<open>A call returns and leaves a fixture with a property, or lets only an unknown exception through.\<close>

definition leaves :: "('f option \<Rightarrow> bool) \<Rightarrow> (exn, 'a) outcome \<times> 'c \<times> 'f option \<times> 'w \<Rightarrow> bool" where
  "leaves P rs = (case rs of (r, _, f, _) \<Rightarrow> (case r of Returned _ \<Rightarrow> P f | Thrown e \<Rightarrow> e = UnknownException | Undefined \<Rightarrow> False))"

lemma leaves_simps [simp]:
  "leaves P (Returned a, c, f, w) \<longleftrightarrow> P f" "leaves P (Thrown e, c, f, w) \<longleftrightarrow> e = UnknownException"
  "\<not> leaves P (Undefined, c, f, w)"
  by (simp_all add: leaves_def)

lemma leaves_go_on:
  "r = Thrown UnknownException \<or> (\<exists>a. r = Returned a \<and> leaves P (k a)) \<Longrightarrow> leaves P (go_on r s k)"
  by (elim disjE exE conjE) (simp_all add: leaves_def go_on_def split: prod.splits)

lemma catch_std_cases: "r \<noteq> Undefined \<Longrightarrow> catch_std r h a = Thrown UnknownException \<or> (\<exists>b. catch_std r h a = Returned b)"
  by (auto simp: catch_std_def what_def split: outcome.splits exn.splits)

definition fixture_class_ok :: "('f, 'w) fixture_class \<Rightarrow> bool" where
  "fixture_class_ok fc \<longleftrightarrow> (\<forall>w. fst (make_fixture fc w) \<noteq> Undefined)
     \<and> (\<forall>f w. fst (fixture_setup fc f w) \<noteq> Undefined \<and> fst (fixture_teardown fc f w) \<noteq> Undefined)"

definition fixture_method :: "('f option \<times> 'w) test_method \<Rightarrow> bool" where
  "fixture_method m \<longleftrightarrow> (\<exists>n f. [m] = add_fixture_method n f [] \<and> (\<forall>fx w. fst (f fx w) \<noteq> Undefined))"

lemma fixture_method_keeps:
  assumes "fixture_method m"
  obtains r fx' w' where "test_function m (Some fx, w) = (r, Some fx', w')" "r \<noteq> Undefined"
proof -
  from assms obtain n f where m: "m = \<lparr>tm_name = n, test_function = (\<lambda>(fx, w). case fx of None \<Rightarrow> (Undefined, None, w) | Some x \<Rightarrow> on_fixture f x w)\<rparr>"
    "\<forall>fx w. fst (f fx w) \<noteq> Undefined" by (auto simp: fixture_method_def add_fixture_method_def add_method_def)
  obtain r fx' w' where "f fx w = (r, fx', w')" by (metis prod.collapse)
  moreover from this have "r \<noteq> Undefined" using m(2) by (metis fst_conv)
  ultimately show ?thesis using m(1) that by (simp add: on_fixture_def)
qed

lemma run_test_fixture:
  fixes fc :: "('f, 'w) fixture_class"
  assumes "fixture_class_ok fc" and "fixture_method m" and "tc = (fixture_case fc name reg)\<lparr>tc_methods := ms\<rparr>"
  shows "leaves (\<lambda>f. f \<noteq> None) (run_test ctl tc m (c, Some fx, w))"
proof -
  have hook: "\<exists>r fx' w'. on_fixture f fx w = (r, Some fx', w') \<and> r = fst (f fx w)" for f :: "'f \<Rightarrow> 'w \<Rightarrow> (exn, unit) outcome \<times> 'f \<times> 'w" and fx w
    by (auto simp: on_fixture_def split: prod.splits)
  have hooks: "\<exists>r fx' w'. mt_setup tc mr (Some fx, w) = (r, mr, Some fx', w') \<and> r \<noteq> Undefined"
    "\<exists>r fx' w'. mt_teardown tc mr (Some fx, w) = (r, mr, Some fx', w') \<and> r \<noteq> Undefined" for mr fx w
    using assms(1,3) hook [of "fixture_setup fc" fx w] hook [of "fixture_teardown fc" fx w]
    by (auto simp: fixture_case_def fixture_class_ok_def)
  let ?res = "new_method_result (tc_name tc) (tm_name m)"
  obtain b c1 where b: "test_method_begin ctl m ?res c = (b, c1)" by fastforce
  obtain r1 f1 w1 where r1: "mt_setup tc ?res (Some fx, w) = (r1, ?res, Some f1, w1)" "r1 \<noteq> Undefined" using hooks(1) by blast
  obtain r2 f2 w2 where r2: "test_function m (Some f1, w1) = (r2, Some f2, w2)" "r2 \<noteq> Undefined"
    using fixture_method_keeps [OF assms(2)] by metis
  have ends: "leaves (\<lambda>f. f \<noteq> None)
      (let (r3, res4, w3) = mt_teardown tc res3 (Some f, w)
       in go_on (catch_std r3 (\<lambda>e. set_teardown_exception e res4) res4) (c1, w3) (\<lambda>res5. (Returned res5, test_method_end ctl m res5 c1, w3)))"
    for res3 f w
  proof -
    obtain r3 f3 w3 where r3: "mt_teardown tc res3 (Some f, w) = (r3, res3, Some f3, w3)" "r3 \<noteq> Undefined" using hooks(2) by blast
    from catch_std_cases [OF r3(2), of "\<lambda>e. set_teardown_exception e res3" res3] r3(1)
    show ?thesis by (auto simp: go_on_def)
  qed
  show ?thesis
  proof (cases b)
    case True
    consider "catch_std r1 (\<lambda>e. (False, set_setup_exception e ?res)) (True, ?res) = Thrown UnknownException"
      | a where "catch_std r1 (\<lambda>e. (False, set_setup_exception e ?res)) (True, ?res) = Returned a"
      using catch_std_cases [OF r1(2)] by metis
    then show ?thesis
    proof cases
      case 1
      with True b r1(1) show ?thesis by (simp add: run_test_def go_on_def leaves_def)
    next
      case 2
      obtain run res2 where a: "a = (run, res2)" by fastforce
      obtain res' where "classify r2 res2 = Returned res'" using classify_cases [OF r2(2)] .
      with 2 a True b r1(1) r2(1) ends [of res2 f1 w1] ends [of res' f2 w2] show ?thesis
        by (cases run) (simp_all add: run_test_def)
    qed
  next
    case False
    with b show ?thesis by (simp add: run_test_def Let_def)
  qed
qed

lemma run_methods_fixture:
  assumes "fixture_class_ok fc" and "\<forall>m\<in>set ns. fixture_method m" and "tc = (fixture_case fc name reg)\<lparr>tc_methods := ms\<rparr>"
  shows "leaves (\<lambda>f. f \<noteq> None) (run_methods ctl tc ns res (c, Some fx, w))"
  using assms(2)
proof (induction ns arbitrary: res c fx w)
  case Nil
  then show ?case by (simp add: leaves_def)
next
  case (Cons m ns)
  obtain r c1 f w1 where r: "run_test ctl tc m (c, Some fx, w) = (r, c1, f, w1)" by (metis prod.collapse)
  have "leaves (\<lambda>f. f \<noteq> None) (r, c1, f, w1)"
    using run_test_fixture [OF assms(1) _ assms(3), of m ctl c fx w] Cons.prems r by simp
  with r Cons show ?case by (cases r) (auto simp: go_on_def)
qed

text \<open>
  a test case with a fixture makes it before the first method, every method gets it, and
  when the case ends, in whatever way its hooks and methods end that the runner handles, the fixture is
  deleted and the pointer is null again; only an exception that is not a \<open>std::exception\<close> leaves it.
\<close>

theorem fixture_released:
  assumes "fixture_class_ok fc" and "\<forall>m\<in>set ms. fixture_method m"
  shows "leaves (\<lambda>f. f = None) (run_case ctl ((fixture_case fc name reg)\<lparr>tc_methods := ms\<rparr>) (c, None, w))"
proof -
  let ?tc = "(fixture_case fc name reg)\<lparr>tc_methods := ms\<rparr>" and ?res = "new_case_result name"
  obtain b c1 where b: "test_case_begin ctl ?tc ?res c = (b, c1)" by fastforce
  obtain r1 w1 where m: "make_fixture fc w = (r1, w1)" "r1 \<noteq> Undefined"
    using assms(1) by (metis fixture_class_ok_def prod.collapse)
  have name: "tc_name ?tc = name" by (simp add: fixture_case_def)
  show ?thesis
  proof (cases b)
    case False
    with b name show ?thesis by (simp add: run_case_def Let_def)
  next
    case True
    show ?thesis
    proof (cases r1)
      case (Returned fx)
      obtain r2 c2 f w2 where r2: "run_methods ctl ?tc ms ?res (c1, Some fx, w1) = (r2, c2, f, w2)" by (metis prod.collapse)
      have "leaves (\<lambda>f. f \<noteq> None) (r2, c2, f, w2)"
        unfolding r2 [symmetric] by (rule run_methods_fixture [OF assms refl])
      with True b m r2 name Returned show ?thesis
        by (cases r2) (auto simp: run_case_def fixture_case_def catch_std_def go_on_def Let_def split: prod.splits)
    next
      case (Thrown e)
      with True b m name show ?thesis
        by (cases e) (auto simp: run_case_def fixture_case_def catch_std_def what_def go_on_def Let_def)
    qed (use m in simp)
  qed
qed

text \<open>A fixture that counts: the world is the number of fixtures that exist.\<close>

definition counted_fixture :: "(nat, nat) fixture_class" where
  "counted_fixture =
     \<lparr>make_fixture = (\<lambda>n. (Returned 0, n + 1)), destroy = (\<lambda>f n. n - 1),
      fixture_setup = (\<lambda>f n. (Thrown (StdException ''e'' ''setup''), f + 1, n)), fixture_teardown = (\<lambda>f n. (Returned (), f, n))\<rparr>"

theorem fixture_released_witness:
  "leaves (\<lambda>f. f = None) (run_case (simple_ctl (\<lambda>p s. 0))
     ((fixture_case counted_fixture ''t'' (\<lambda>ms. ms))\<lparr>tc_methods := add_fixture_method ''m'' (\<lambda>f n. (Returned (), f, n)) []\<rparr>)
     (\<lparr>whitelist = [], blacklist = [], stdout_text = []\<rparr>, None, 0))"
proof -
  let ?ms = "add_fixture_method ''m'' (\<lambda>f n. (Returned (), f, n)) [] :: (nat option \<times> nat) test_method list"
  have "fixture_class_ok counted_fixture" by (simp add: fixture_class_ok_def counted_fixture_def)
  moreover have "\<forall>m\<in>set ?ms. fixture_method m"
    by (auto simp: fixture_method_def add_fixture_method_def add_method_def fun_eq_iff)
  ultimately show ?thesis by (rule fixture_released)
qed

end
