(* ===== verification/Assertions.thy ===== *)
theory Assertions
  imports TestFramework
begin

section \<open>The assertions on strings and the registry (ept/utils/tests.cc, tests.h)\<close>

text \<open>
  What \<open>actual(x)\<close> offers for C strings, strings and ordered values, the assertions with regular expressions, and
  the registry of the test cases.  The functions of \<open>regex.h\<close> are arguments.
\<close>

subsection \<open>Regular expressions\<close>

text \<open>
  \<open>regcomp\<close> gives an error code or a compiled expression and \<open>regexec\<close> 0, \<open>REG_NOMATCH\<close> or another code;
  \<open>rx_typeid\<close> is the name of the type \<open>std::runtime_error\<close>.
\<close>

record 'r regex_api =
  rx_regcomp :: "string \<Rightarrow> int + 'r"
  rx_regexec :: "'r \<Rightarrow> string \<Rightarrow> int"
  rx_regerror :: "int \<Rightarrow> string"
  REG_NOMATCH :: int
  rx_typeid :: string

definition regexp_new :: "'r regex_api \<Rightarrow> string \<Rightarrow> (exn, 'r) outcome" where
  "regexp_new rx regex = (case rx_regcomp rx (c_str regex) of
      Inl err \<Rightarrow> if err = 0 then Undefined else Thrown (StdException (rx_typeid rx) (c_str (rx_regerror rx err)))
    | Inr compiled \<Rightarrow> Returned compiled)"

definition regexp_search :: "'r regex_api \<Rightarrow> 'r \<Rightarrow> string \<Rightarrow> bool" where
  "regexp_search rx compiled s \<longleftrightarrow> rx_regexec rx compiled (c_str s) \<noteq> REG_NOMATCH rx"

definition assert_re_matches :: "'r regex_api \<Rightarrow> string \<Rightarrow> string \<Rightarrow> (exn, unit) outcome" where
  "assert_re_matches rx a e = bind_outcome (regexp_new rx e) (\<lambda>re.
     assert_that (regexp_search rx re a) ([APOS] @ a @ [APOS] @ '' does not match '' @ [APOS] @ e @ [APOS]))"

definition assert_not_re_matches :: "'r regex_api \<Rightarrow> string \<Rightarrow> string \<Rightarrow> (exn, unit) outcome" where
  "assert_not_re_matches rx a e = bind_outcome (regexp_new rx e) (\<lambda>re.
     assert_that (\<not> regexp_search rx re a) ([APOS] @ a @ [APOS] @ '' should not match '' @ [APOS] @ e @ [APOS]))"

subsection \<open>Null pointers\<close>

definition assert_true_null :: "(exn, unit) outcome" where
  "assert_true_null = Thrown (TestFailed ''actual value nullptr is not true'' [])"

definition assert_false_null :: "(exn, unit) outcome" where
  "assert_false_null = Returned ()"

subsection \<open>What actual() offers\<close>

text \<open>The members of \<open>Actual\<close> that compare, for values that \<open>operator<<\<close> prints with \<open>sh\<close>.\<close>

datatype comparison = EQ | NE | LT | LE | GT | GE

fun actual_compare :: "('a :: linorder \<Rightarrow> string) \<Rightarrow> comparison \<Rightarrow> 'a \<Rightarrow> 'a \<Rightarrow> (exn, unit) outcome" where
  "actual_compare sh EQ a e = assert_equal sh a e"
| "actual_compare sh NE a e = assert_not_equal sh a e"
| "actual_compare sh LT a e = assert_less sh a e"
| "actual_compare sh LE a e = assert_less_equal sh a e"
| "actual_compare sh GT a e = assert_greater sh a e"
| "actual_compare sh GE a e = assert_greater_equal sh a e"

definition printed :: "string \<Rightarrow> string" where
  "printed s = s"

definition cstring_eq_string :: "string option \<Rightarrow> string \<Rightarrow> (exn, unit) outcome" where
  "cstring_eq_string a e = cstring_check (assert_equal printed) a e"

definition cstring_ne_string :: "string option \<Rightarrow> string \<Rightarrow> (exn, unit) outcome" where
  "cstring_ne_string a e = cstring_check (assert_not_equal printed) a e"

definition cstring_less :: "string option \<Rightarrow> string \<Rightarrow> (exn, unit) outcome" where
  "cstring_less a e = cstring_check (assert_less printed) a e"

definition cstring_less_equal :: "string option \<Rightarrow> string \<Rightarrow> (exn, unit) outcome" where
  "cstring_less_equal a e = cstring_check (assert_less_equal printed) a e"

definition cstring_greater :: "string option \<Rightarrow> string \<Rightarrow> (exn, unit) outcome" where
  "cstring_greater a e = cstring_check (assert_greater printed) a e"

definition cstring_greater_equal :: "string option \<Rightarrow> string \<Rightarrow> (exn, unit) outcome" where
  "cstring_greater_equal a e = cstring_check (assert_greater_equal printed) a e"

definition cstring_matches :: "'r regex_api \<Rightarrow> string option \<Rightarrow> string \<Rightarrow> (exn, unit) outcome" where
  "cstring_matches rx a re = cstring_check (assert_re_matches rx) a re"

definition cstring_not_matches :: "'r regex_api \<Rightarrow> string option \<Rightarrow> string \<Rightarrow> (exn, unit) outcome" where
  "cstring_not_matches rx a re = cstring_check (assert_not_re_matches rx) a re"

definition cstring_startswith :: "string option \<Rightarrow> string \<Rightarrow> (exn, unit) outcome" where
  "cstring_startswith a e = cstring_check assert_startswith a e"

definition cstring_endswith :: "string option \<Rightarrow> string \<Rightarrow> (exn, unit) outcome" where
  "cstring_endswith a e = cstring_check assert_endswith a e"

definition cstring_contains :: "string option \<Rightarrow> string \<Rightarrow> (exn, unit) outcome" where
  "cstring_contains a e = cstring_check assert_contains a e"

definition cstring_not_contains :: "string option \<Rightarrow> string \<Rightarrow> (exn, unit) outcome" where
  "cstring_not_contains a e = cstring_check assert_not_contains a e"

definition string_startswith :: "string \<Rightarrow> string \<Rightarrow> (exn, unit) outcome" where
  "string_startswith a e = assert_startswith a e"

definition string_endswith :: "string \<Rightarrow> string \<Rightarrow> (exn, unit) outcome" where
  "string_endswith a e = assert_endswith a e"

definition string_contains :: "string \<Rightarrow> string \<Rightarrow> (exn, unit) outcome" where
  "string_contains a e = assert_contains a e"

definition string_not_contains :: "string \<Rightarrow> string \<Rightarrow> (exn, unit) outcome" where
  "string_not_contains a e = assert_not_contains a e"

definition string_matches :: "'r regex_api \<Rightarrow> string \<Rightarrow> string \<Rightarrow> (exn, unit) outcome" where
  "string_matches rx a re = assert_re_matches rx a re"

definition string_not_matches :: "'r regex_api \<Rightarrow> string \<Rightarrow> string \<Rightarrow> (exn, unit) outcome" where
  "string_not_matches rx a re = assert_not_re_matches rx a re"

subsection \<open>Places and the registry\<close>

text \<open>
  \<open>format()\<close> and \<open>backtrace()\<close> as strings; the stream that a test writes its local information to, which starts
  empty again with every call; and \<open>wcallchecked\<close>, which handles exceptions as \<open>wassert\<close> does and gives the value.
\<close>

definition frame_text :: "frame \<Rightarrow> string" where
  "frame_text f = frame_format f"

definition location_info_call :: "string \<Rightarrow> string" where
  "location_info_call info = []"

definition wcallchecked :: "frame \<Rightarrow> (exn, 'a) outcome \<Rightarrow> (exn, 'a) outcome" where
  "wcallchecked fr r = (case r of
      Thrown e \<Rightarrow>
        (case e of TestFailed m st \<Rightarrow> Thrown (TestFailed m (st @ [fr]))
         | StdException ty w \<Rightarrow> Thrown (testfailed_of ty (c_str w) [fr])
         | UnknownException \<Rightarrow> r)
    | _ \<Rightarrow> r)"

text \<open>The only instance of \<open>TestRegistry\<close>, made at the first use, and the constructor of a test case, which adds it.\<close>

type_synonym 'w registry = "'w test_case list"

definition registry_get :: "'w registry option \<Rightarrow> 'w registry \<times> 'w registry option" where
  "registry_get instance0 = (case instance0 of None \<Rightarrow> ([], Some []) | Some r \<Rightarrow> (r, Some r))"

definition register_test_case :: "'w test_case \<Rightarrow> 'w registry \<Rightarrow> 'w registry" where
  "register_test_case tc r = r @ [tc]"

definition construct_test_case :: "string \<Rightarrow> ('w test_method list \<Rightarrow> 'w test_method list) \<Rightarrow> 'w registry option \<Rightarrow> 'w test_case \<times> 'w registry option" where
  "construct_test_case name reg instance0 =
     (let tc = plain_case name reg; (r, instance1) = registry_get instance0
      in (tc, Some (register_test_case tc r)))"

section \<open>What the assertions assert\<close>

definition compares :: "comparison \<Rightarrow> 'a :: linorder \<Rightarrow> 'a \<Rightarrow> bool" where
  "compares op a e = (case op of EQ \<Rightarrow> a = e | NE \<Rightarrow> a \<noteq> e | LT \<Rightarrow> a < e | LE \<Rightarrow> a \<le> e | GT \<Rightarrow> e < a | GE \<Rightarrow> e \<le> a)"

lemma assert_that_Returned [simp]: "assert_that b m = Returned u \<longleftrightarrow> b"
  by (simp add: assert_that_def)

lemma cstring_check_Returned: "cstring_check f a e = Returned u \<longleftrightarrow> (\<exists>s. a = Some s \<and> f s e = Returned u)"
  by (simp add: cstring_check_def split: option.split)

lemma find_sub_sublist: "find_sub sep s \<noteq> None \<longleftrightarrow> sublist sep s"
  by (induction sep s rule: find_sub.induct) (auto simp: sublist_Cons_right)

lemma actual_compare_Returned: "actual_compare sh op a e = Returned () \<longleftrightarrow> compares op a e"
  by (cases op) (simp_all add: compares_def assert_equal_def assert_not_equal_def assert_less_def assert_less_equal_def
      assert_greater_def assert_greater_equal_def)

text \<open>
  each assertion on values or strings returns exactly when the relation in its name holds, and on a C string
  also needs a pointer that is not null; comparing two C strings for equality and for inequality, exactly one
  of the two returns, null pointers included.
\<close>

theorem assertions_hold:
  "(actual_compare sh op a e = Returned () \<longleftrightarrow> compares op a e)
    \<and> (string_startswith s t = Returned () \<longleftrightarrow> prefix t s) \<and> (string_endswith s t = Returned () \<longleftrightarrow> suffix t s)
    \<and> (string_contains s t = Returned () \<longleftrightarrow> sublist t s) \<and> (string_not_contains s t = Returned () \<longleftrightarrow> \<not> sublist t s)
    \<and> (cstring_eq_string p t = Returned () \<longleftrightarrow> p = Some t) \<and> (cstring_ne_string p t = Returned () \<longleftrightarrow> p \<noteq> None \<and> p \<noteq> Some t)
    \<and> (cstring_less p t = Returned () \<longleftrightarrow> (\<exists>s. p = Some s \<and> s < t)) \<and> (cstring_less_equal p t = Returned () \<longleftrightarrow> (\<exists>s. p = Some s \<and> s \<le> t))
    \<and> (cstring_greater p t = Returned () \<longleftrightarrow> (\<exists>s. p = Some s \<and> s > t)) \<and> (cstring_greater_equal p t = Returned () \<longleftrightarrow> (\<exists>s. p = Some s \<and> s \<ge> t))
    \<and> (cstring_startswith p t = Returned () \<longleftrightarrow> (\<exists>s. p = Some s \<and> prefix t s))
    \<and> (cstring_endswith p t = Returned () \<longleftrightarrow> (\<exists>s. p = Some s \<and> suffix t s))
    \<and> (cstring_contains p t = Returned () \<longleftrightarrow> (\<exists>s. p = Some s \<and> sublist t s))
    \<and> (cstring_not_contains p t = Returned () \<longleftrightarrow> (\<exists>s. p = Some s \<and> \<not> sublist t s))
    \<and> (cstring_equal p q = Returned () \<longleftrightarrow> p = q) \<and> (cstring_not_equal p q = Returned () \<longleftrightarrow> p \<noteq> q)"
proof -
  have find: "str_find s t 0 = None \<longleftrightarrow> \<not> sublist t s" for s t unfolding str_find_0 using find_sub_sublist by blast
  have ends: "startswith s t \<longleftrightarrow> prefix t s" "endswith s t \<longleftrightarrow> suffix t s" for s t using startswith_endswith_correct by blast+
  note strings = assert_startswith_def assert_endswith_def assert_contains_def assert_not_contains_def find ends
  note compare = assert_equal_def assert_not_equal_def assert_less_def assert_less_equal_def assert_greater_def assert_greater_equal_def
  have "string_startswith s t = Returned () \<longleftrightarrow> prefix t s" "string_endswith s t = Returned () \<longleftrightarrow> suffix t s"
    "string_contains s t = Returned () \<longleftrightarrow> sublist t s" "string_not_contains s t = Returned () \<longleftrightarrow> \<not> sublist t s"
    by (simp_all add: string_startswith_def string_endswith_def string_contains_def string_not_contains_def strings)
  moreover have "cstring_eq_string p t = Returned () \<longleftrightarrow> p = Some t" "cstring_ne_string p t = Returned () \<longleftrightarrow> p \<noteq> None \<and> p \<noteq> Some t"
    "cstring_less p t = Returned () \<longleftrightarrow> (\<exists>s. p = Some s \<and> s < t)" "cstring_less_equal p t = Returned () \<longleftrightarrow> (\<exists>s. p = Some s \<and> s \<le> t)"
    "cstring_greater p t = Returned () \<longleftrightarrow> (\<exists>s. p = Some s \<and> s > t)" "cstring_greater_equal p t = Returned () \<longleftrightarrow> (\<exists>s. p = Some s \<and> s \<ge> t)"
    by (auto simp: cstring_eq_string_def cstring_ne_string_def cstring_less_def cstring_less_equal_def cstring_greater_def
        cstring_greater_equal_def cstring_check_Returned compare)
  moreover have "cstring_startswith p t = Returned () \<longleftrightarrow> (\<exists>s. p = Some s \<and> prefix t s)"
    "cstring_endswith p t = Returned () \<longleftrightarrow> (\<exists>s. p = Some s \<and> suffix t s)"
    "cstring_contains p t = Returned () \<longleftrightarrow> (\<exists>s. p = Some s \<and> sublist t s)"
    "cstring_not_contains p t = Returned () \<longleftrightarrow> (\<exists>s. p = Some s \<and> \<not> sublist t s)"
    by (simp_all add: cstring_startswith_def cstring_endswith_def cstring_contains_def cstring_not_contains_def cstring_check_Returned strings)
  moreover have "cstring_equal p q = Returned () \<longleftrightarrow> p = q" "cstring_not_equal p q = Returned () \<longleftrightarrow> p \<noteq> q"
    by (auto simp: cstring_equal_def cstring_not_equal_def compare split: option.split)
  ultimately show ?thesis using actual_compare_Returned [of sh op a e] by (intro conjI)
qed

text \<open>
  for a regular expression that compiles exactly one of \<open>matches\<close> and \<open>not_matches\<close> returns.  \<open>matches\<close> also
  returns when \<open>regexec\<close> fails with another error than \<open>REG_NOMATCH\<close>.  For one that does not compile both throw
  what the constructor throws.
\<close>

theorem matches_exclusive:
  "(\<forall>re. rx_regcomp rx (c_str e) = Inr re \<longrightarrow>
      (string_matches rx a e = Returned () \<longleftrightarrow> string_not_matches rx a e \<noteq> Returned ())
      \<and> (string_matches rx a e = Returned () \<longleftrightarrow> rx_regexec rx re (c_str a) \<noteq> REG_NOMATCH rx))
    \<and> (\<forall>err. rx_regcomp rx (c_str e) = Inl err \<longrightarrow> string_matches rx a e = string_not_matches rx a e \<and> string_matches rx a e \<noteq> Returned ())
    \<and> (p = None \<longrightarrow> cstring_matches rx p e \<noteq> Returned () \<and> cstring_not_matches rx p e \<noteq> Returned ())"
  by (auto simp: string_matches_def string_not_matches_def assert_re_matches_def assert_not_re_matches_def regexp_new_def
      regexp_search_def cstring_matches_def cstring_not_matches_def cstring_check_Returned)

text \<open>
  test cases that are constructed one after the other, before or after the first use of the registry, are in it
  in that order, each with the methods that it has not registered yet.
\<close>

fun construct_all :: "(string \<times> ('w test_method list \<Rightarrow> 'w test_method list)) list \<Rightarrow> 'w registry option \<Rightarrow> 'w registry option" where
  "construct_all [] i = i"
| "construct_all ((n, reg) # cs) i = construct_all cs (snd (construct_test_case n reg i))"

theorem registry_in_order:
  "cs \<noteq> [] \<Longrightarrow> construct_all cs i = Some (fst (registry_get i) @ map (\<lambda>(n, reg). plain_case n reg) cs)"
proof (induction cs arbitrary: i)
  case (Cons c cs)
  obtain n reg where c: "c = (n, reg)" by (cases c)
  have step: "snd (construct_test_case n reg i) = Some (fst (registry_get i) @ [plain_case n reg])"
    by (simp add: construct_test_case_def register_test_case_def registry_get_def Let_def split: option.split)
  with Cons.IH show ?case by (cases "cs = []") (simp_all add: c registry_get_def)
qed simp

theorem registry_in_order_witness:
  "construct_all [(''a'', \<lambda>ms. ms), (''b'', \<lambda>ms. ms)] None = Some [plain_case ''a'' (\<lambda>ms. ms), plain_case ''b'' (\<lambda>ms. ms)]"
  using registry_in_order [of "[(''a'', \<lambda>ms. ms), (''b'', \<lambda>ms. ms)]" None] by (simp add: registry_get_def)

end
