(* ===== verification/UnitTests.thy ===== *)
theory UnitTests
  imports TestFramework PackageRecord Versions
begin

section \<open>The unit tests of ept/apt\<close>

text \<open>
  The test cases of \<open>recordparser-test.cc\<close>, \<open>packagerecord-test.cc\<close> and \<open>version-test.cc\<close> as they are written,
  on the models of what they test, with the theorems that they pass.  \<open>srt\<close> is the sorting that \<open>std::sort\<close>
  does, \<open>cmp\<close> is \<open>CmpVersion\<close> of libapt, and \<open>loc n\<close> is the frame that \<open>wassert\<close> makes for the assertion that
  starts on line \<open>n\<close>: the name of the file, the line and the text of the assertion.
\<close>

type_synonym sort_function = "(nat \<Rightarrow> nat \<Rightarrow> bool) \<Rightarrow> nat list \<Rightarrow> nat list"

text \<open>One statement after the other, and the values as \<open>operator<<\<close> prints them.\<close>

fun run_steps :: "(exn, unit) outcome list \<Rightarrow> (exn, unit) outcome" where
  "run_steps [] = Returned ()"
| "run_steps (r # rs) = bind_outcome r (\<lambda>_. run_steps rs)"

definition same :: "string \<Rightarrow> string" where
  "same s = s"

definition print_bool :: "bool \<Rightarrow> string" where
  "print_bool b = (if b then ''1'' else ''0'')"

definition print_int :: "int \<Rightarrow> string" where
  "print_int n = (if n < 0 then CHR ''-'' # decimal (nat (- n)) else decimal (nat n))"

text \<open>The macros \<open>wassert_true\<close> and \<open>wassert_false\<close>.\<close>

definition wassert_true :: "frame \<Rightarrow> bool \<Rightarrow> (exn, unit) outcome" where
  "wassert_true fr b = wassert fr (assert_true print_bool b)"

definition wassert_false :: "frame \<Rightarrow> bool \<Rightarrow> (exn, unit) outcome" where
  "wassert_false fr b = wassert fr (assert_false print_bool b)"

definition add_bodies :: "(string \<times> (exn, unit) outcome) list \<Rightarrow> 'w test_method list \<Rightarrow> 'w test_method list" where
  "add_bodies bs ms = foldl (\<lambda>ms (n, b). add_method n (\<lambda>w. (b, w)) ms) ms bs"

definition body_method :: "string \<times> (exn, unit) outcome \<Rightarrow> 'w test_method" where
  "body_method x = \<lparr>tm_name = fst x, test_function = (\<lambda>w. (snd x, w))\<rparr>"

lemma add_bodies_map: "add_bodies bs ms = ms @ map body_method bs"
  by (induction bs arbitrary: ms) (auto simp: add_bodies_def add_method_def body_method_def)

subsection \<open>RecordParser\<close>

definition test_record :: string where
  "test_record =
     lines_text [''A:'', ''D: da de di do du'', ''B: b'', ''C: c '', ''Desc: this is the beginning'', '' this is the continuation'', '' this is the end'']"

definition rp_test_parsing :: "sort_function \<Rightarrow> (nat \<Rightarrow> frame) \<Rightarrow> (exn, unit) outcome" where
  "rp_test_parsing srt loc =
     (let p = scan srt test_record
      in run_steps
        [wassert (loc 30) (assert_equal same (rp_record p) test_record),
         wassert (loc 31) (assert_equal decimal (rp_size p) 5)])"

definition rp_test_field_tuples :: "sort_function \<Rightarrow> (nat \<Rightarrow> frame) \<Rightarrow> (exn, unit) outcome" where
  "rp_test_field_tuples srt loc =
     (let p = scan srt test_record
      in run_steps
        [wassert (loc 36) (assert_equal same (rp_field p 0) (''A:'' @ [NL])),
         wassert (loc 37) (assert_equal same (rp_field p 1) (''D: da de di do du'' @ [NL])),
         wassert (loc 38) (assert_equal same (rp_field p 2) (''B: b'' @ [NL])),
         wassert (loc 39) (assert_equal same (rp_field p 3) (''C: c '' @ [NL])),
         wassert (loc 40) (assert_equal same (rp_field p 4) (''Desc: this is the beginning'' @ [NL] @ '' this is the continuation'' @ [NL] @ '' this is the end'' @ [NL]))])"

definition rp_test_field_keys :: "sort_function \<Rightarrow> (nat \<Rightarrow> frame) \<Rightarrow> (exn, unit) outcome" where
  "rp_test_field_keys srt loc =
     (let p = scan srt test_record
      in run_steps
        [wassert (loc 45) (assert_equal same (rp_name p 0) ''A''),
         wassert (loc 46) (assert_equal same (rp_name p 1) ''D''),
         wassert (loc 47) (assert_equal same (rp_name p 2) ''B''),
         wassert (loc 48) (assert_equal same (rp_name p 3) ''C''),
         wassert (loc 49) (assert_equal same (rp_name p 4) ''Desc'')])"

definition rp_test_field_values :: "sort_function \<Rightarrow> (nat \<Rightarrow> frame) \<Rightarrow> (exn, unit) outcome" where
  "rp_test_field_values srt loc =
     (let p = scan srt test_record
      in run_steps
        [wassert (loc 54) (assert_equal same (lookup_idx p 0) []),
         wassert (loc 55) (assert_equal same (lookup_idx p 1) ''da de di do du''),
         wassert (loc 56) (assert_equal same (lookup_idx p 2) ''b''),
         wassert (loc 57) (assert_equal same (lookup_idx p 3) ''c''),
         wassert (loc 58) (assert_equal same (lookup_idx p 4) (''this is the beginning'' @ [NL] @ '' this is the continuation'' @ [NL] @ '' this is the end''))])"

definition rp_test_find_byname :: "sort_function \<Rightarrow> (nat \<Rightarrow> frame) \<Rightarrow> (exn, unit) outcome" where
  "rp_test_find_byname srt loc =
     (let p = scan srt test_record
      in run_steps
        [wassert (loc 65) (assert_equal decimal (index p ''A'') 0),
         wassert (loc 66) (assert_equal decimal (index p ''D'') 1),
         wassert (loc 67) (assert_equal decimal (index p ''B'') 2),
         wassert (loc 68) (assert_equal decimal (index p ''C'') 3),
         wassert (loc 69) (assert_equal decimal (index p ''Desc'') 4),
         wassert (loc 71) (assert_equal same (rp_name p (index p ''A'')) ''A''),
         wassert (loc 72) (assert_equal same (rp_name p (index p ''B'')) ''B''),
         wassert (loc 73) (assert_equal same (rp_name p (index p ''C'')) ''C''),
         wassert (loc 74) (assert_equal same (rp_name p (index p ''D'')) ''D''),
         wassert (loc 75) (assert_equal same (rp_name p (index p ''Desc'')) ''Desc'')])"

definition rp_test_indexing :: "sort_function \<Rightarrow> (nat \<Rightarrow> frame) \<Rightarrow> (exn, unit) outcome" where
  "rp_test_indexing srt loc =
     (let p = scan srt test_record
      in run_steps
        [wassert (loc 80) (assert_equal same (lookup p ''A'') []),
         wassert (loc 81) (assert_equal same (lookup p ''B'') ''b''),
         wassert (loc 82) (assert_equal same (lookup p ''C'') ''c''),
         wassert (loc 83) (assert_equal same (lookup p ''D'') ''da de di do du''),
         wassert (loc 84) (assert_equal same (lookup p ''Desc'') (''this is the beginning'' @ [NL] @ '' this is the continuation'' @ [NL] @ '' this is the end''))])"

definition rp_test_missing_behaviour :: "sort_function \<Rightarrow> (nat \<Rightarrow> frame) \<Rightarrow> (exn, unit) outcome" where
  "rp_test_missing_behaviour srt loc =
     (let p = scan srt test_record
      in run_steps
        [wassert (loc 90) (assert_equal same (rp_field p 100) []),
         wassert (loc 91) (assert_equal same (rp_name p 100) []),
         wassert (loc 92) (assert_equal same (lookup_idx p 100) []),
         wassert (loc 93) (assert_equal same (lookup p ''Missing'') [])])"

definition rp_test_rescan :: "sort_function \<Rightarrow> (nat \<Rightarrow> frame) \<Rightarrow> (exn, unit) outcome" where
  "rp_test_rescan srt loc =
     (let record = lines_text [''A: a'', ''B: b'', ''C: c''];
        p = scan srt record;
        record1 = lines_text [''Foo: bar'', ''A: different''];
        p1 = scan srt record1
      in run_steps
        [wassert (loc 104) (assert_equal decimal (rp_size p) 3),
         wassert (loc 105) (assert_equal same (lookup p ''A'') ''a''),
         wassert (loc 106) (assert_equal same (lookup p ''B'') ''b''),
         wassert (loc 107) (assert_equal same (lookup p ''C'') ''c''),
         wassert (loc 118) (assert_equal decimal (rp_size p1) 2),
         wassert (loc 119) (assert_equal same (lookup p1 ''A'') ''different''),
         wassert (loc 120) (assert_equal same (lookup p1 ''B'') []),
         wassert (loc 121) (assert_equal same (lookup p1 ''C'') []),
         wassert (loc 122) (assert_equal same (lookup p1 ''Foo'') ''bar'')])"

definition rp_test_real_life :: "sort_function \<Rightarrow> (nat \<Rightarrow> frame) \<Rightarrow> (exn, unit) outcome" where
  "rp_test_real_life srt loc =
     (let record = lines_text [''Package: apt'',
          ''Priority: important'',
          ''Section: admin'',
          ''Installed-Size: 4368'',
          ''Maintainer: APT Development Team <deity@lists.debian.org>'',
          ''Architecture: amd64'',
          ''Version: 0.6.46.4-0.1'',
          ''Replaces: libapt-pkg-doc (<< 0.3.7), libapt-pkg-dev (<< 0.3.7)'',
          ''Provides: libapt-pkg-libc6.3-6-3.11'',
          ''Depends: libc6 (>= 2.3.5-1), libgcc1 (>= 1:4.1.1-12), libstdc++6 (>= 4.1.1-12), debian-archive-keyring'',
          ''Suggests: aptitude | synaptic | gnome-apt | wajig, dpkg-dev, apt-doc, bzip2'',
          ''Filename: pool/main/a/apt/apt_0.6.46.4-0.1_amd64.deb'',
          ''Size: 1436478'',
          ''MD5sum: 1776421f80d6300c77a608e77a9f4a15'',
          ''SHA1: 1bd7337d2df56d267632cf72ac930c0a4895898f'',
          ''SHA256: b92442ab60046b4d0728245f39cc932f26e17db9f7933a5ec9aaa63172f51fda'',
          ''Description: Advanced front-end for dpkg'',
          '' This is Debian's next generation front-end for the dpkg package manager.'',
          '' It provides the apt-get utility and APT dselect method that provides a'',
          '' simpler, safer way to install and upgrade packages.'',
          '' .'',
          '' APT features complete installation ordering, multiple source capability'',
          '' and several other unique features, see the Users Guide in apt-doc.'',
          ''Build-Essential: yes'',
          ''Tag: admin::package-management, filetransfer::ftp, filetransfer::http, hardware::storage:cd, interface::commandline, network::client, protocol::{ftp,http,ipv6}, role::program, suite::debian, use::downloading, use::searching, works-with::software:package''];
        p = scan srt record;
        rec1 = concat (map (rp_field p) [0..<rp_size p])
      in run_steps
        [wassert (loc 155) (assert_equal decimal (rp_size p) 19),
         wassert (loc 160) (assert_equal same (record) rec1)])"

definition rp_test_buffer_termination :: "sort_function \<Rightarrow> (nat \<Rightarrow> frame) \<Rightarrow> (exn, unit) outcome" where
  "rp_test_buffer_termination srt loc =
     (let record = ''A: a'' @ [NL] @ ''B: b'';
        p = scan srt record
      in run_steps
        [wassert (loc 170) (assert_equal decimal (rp_size p) 2),
         wassert (loc 171) (assert_equal same (lookup p ''A'') ''a''),
         wassert (loc 172) (assert_equal same (lookup p ''B'') ''b'')])"

definition rp_test_buffer_termination2 :: "sort_function \<Rightarrow> (nat \<Rightarrow> frame) \<Rightarrow> (exn, unit) outcome" where
  "rp_test_buffer_termination2 srt loc =
     (let record = lines_text [''A: a'', ''B: b'', []];
        p = scan srt record
      in run_steps
        [wassert (loc 181) (assert_equal decimal (rp_size p) 2),
         wassert (loc 182) (assert_equal same (lookup p ''A'') ''a''),
         wassert (loc 183) (assert_equal same (lookup p ''B'') ''b'')])"

definition rp_test_buffer_termination3 :: "sort_function \<Rightarrow> (nat \<Rightarrow> frame) \<Rightarrow> (exn, unit) outcome" where
  "rp_test_buffer_termination3 srt loc =
     (let record = lines_text [''A: a'', ''B: b'', [], ''C: c''];
        p = scan srt record
      in run_steps
        [wassert (loc 193) (assert_equal decimal (rp_size p) 2),
         wassert (loc 194) (assert_equal same (lookup p ''A'') ''a''),
         wassert (loc 195) (assert_equal same (lookup p ''B'') ''b'')])"

definition recordparser_tests :: "sort_function \<Rightarrow> (nat \<Rightarrow> frame) \<Rightarrow> 'w test_case" where
  "recordparser_tests srt loc = plain_case ''apt_recordparser'' (add_bodies
     [(''parsing'', rp_test_parsing srt loc),
      (''field_tuples'', rp_test_field_tuples srt loc),
      (''field_keys'', rp_test_field_keys srt loc),
      (''field_values'', rp_test_field_values srt loc),
      (''find_byname'', rp_test_find_byname srt loc),
      (''indexing'', rp_test_indexing srt loc),
      (''missing_behaviour'', rp_test_missing_behaviour srt loc),
      (''rescan'', rp_test_rescan srt loc),
      (''real_life'', rp_test_real_life srt loc),
      (''buffer_termination'', rp_test_buffer_termination srt loc),
      (''buffer_termination2'', rp_test_buffer_termination2 srt loc),
      (''buffer_termination3'', rp_test_buffer_termination3 srt loc)])"

subsection \<open>PackageRecord\<close>

text \<open>\<open>operator<<\<close> for a set of strings, which the test defines.\<close>

fun print_set :: "string oset \<Rightarrow> string" where
  "print_set [] = []"
| "print_set (x # xs) = x @ concat (map (\<lambda>y. '', '' @ y) xs)"

definition apt_record :: string where
  "apt_record =
     lines_text [''Package: apt'',
          ''Priority: important'',
          ''Section: admin'',
          ''Installed-Size: 4368'',
          ''Maintainer: APT Development Team <deity@lists.debian.org>'',
          ''Architecture: amd64'',
          ''Source: apt'',
          ''Version: 0.6.46.4-0.1'',
          ''Replaces: libapt-pkg-doc (<< 0.3.7), libapt-pkg-dev (<< 0.3.7)'',
          ''Provides: libapt-pkg-libc6.3-6-3.11'',
          ''Depends: libc6 (>= 2.3.5-1), libgcc1 (>= 1:4.1.1-12), libstdc++6 (>= 4.1.1-12), debian-archive-keyring'',
          ''Pre-Depends: debtags (maybe)'',
          ''Suggests: aptitude | synaptic | gnome-apt | wajig, dpkg-dev, apt-doc, bzip2'',
          ''Recommends: debtags (maybe)'',
          ''Enhances: debian'',
          ''Conflicts: marameo'',
          ''Filename: pool/main/a/apt/apt_0.6.46.4-0.1_amd64.deb'',
          ''Size: 1436478'',
          ''MD5sum: 1776421f80d6300c77a608e77a9f4a15'',
          ''SHA1: 1bd7337d2df56d267632cf72ac930c0a4895898f'',
          ''SHA256: b92442ab60046b4d0728245f39cc932f26e17db9f7933a5ec9aaa63172f51fda'',
          ''Description: Advanced front-end for dpkg'',
          '' This is Debian's next generation front-end for the dpkg package manager.'',
          '' It provides the apt-get utility and APT dselect method that provides a'',
          '' simpler, safer way to install and upgrade packages.'',
          '' .'',
          '' APT features complete installation ordering, multiple source capability'',
          '' and several other unique features, see the Users Guide in apt-doc.'',
          ''Build-Essential: yes'',
          ''Tag: admin::package-management, filetransfer::ftp, filetransfer::http, hardware::storage:cd, interface::commandline, network::client, protocol::{ftp,http,ipv6}, role::program, suite::debian, use::downloading, use::searching, works-with::software:package'']"

definition apt_tags :: "string oset" where
  "apt_tags = foldl (\<lambda>s t. oset_insert t s) []
     [''admin::package-management'',
      ''filetransfer::ftp'',
      ''filetransfer::http'',
      ''hardware::storage:cd'',
      ''interface::commandline'',
      ''network::client'',
      ''protocol::ftp'',
      ''protocol::http'',
      ''protocol::ipv6'',
      ''role::program'',
      ''suite::debian'',
      ''use::downloading'',
      ''use::searching'',
      ''works-with::software:package'']"

definition pkg_test_supported_fields :: "sort_function \<Rightarrow> (nat \<Rightarrow> frame) \<Rightarrow> (exn, unit) outcome" where
  "pkg_test_supported_fields srt loc =
     (let p = scan srt apt_record
      in run_steps
        [wassert (loc 66) (assert_equal decimal (rp_size p) 24),
         wassert (loc 68) (assert_equal same (pkg_package [] p) ''apt''),
         wassert (loc 69) (assert_equal same (pkg_priority [] p) ''important''),
         wassert (loc 70) (assert_equal same (pkg_section [] p) ''admin''),
         wassert (loc 71) (assert_equal decimal (pkg_installedSize 0 p) 4368),
         wassert (loc 72) (assert_equal same (pkg_maintainer [] p) ''APT Development Team <deity@lists.debian.org>''),
         wassert (loc 73) (assert_equal same (pkg_architecture [] p) ''amd64''),
         wassert (loc 74) (assert_equal same (pkg_source [] p) ''apt''),
         wassert (loc 75) (assert_equal same (pkg_version [] p) ''0.6.46.4-0.1''),
         wassert (loc 76) (assert_equal same (pkg_replaces [] p) ''libapt-pkg-doc (<< 0.3.7), libapt-pkg-dev (<< 0.3.7)''),
         wassert (loc 77) (assert_equal same (pkg_provides [] p) ''libapt-pkg-libc6.3-6-3.11''),
         wassert (loc 78) (assert_equal same (pkg_depends [] p) ''libc6 (>= 2.3.5-1), libgcc1 (>= 1:4.1.1-12), libstdc++6 (>= 4.1.1-12), debian-archive-keyring''),
         wassert (loc 79) (assert_equal same (pkg_preDepends [] p) ''debtags (maybe)''),
         wassert (loc 80) (assert_equal same (pkg_recommends [] p) ''debtags (maybe)''),
         wassert (loc 81) (assert_equal same (pkg_suggests [] p) ''aptitude | synaptic | gnome-apt | wajig, dpkg-dev, apt-doc, bzip2''),
         wassert (loc 82) (assert_equal same (pkg_enhances [] p) ''debian''),
         wassert (loc 83) (assert_equal same (pkg_conflicts [] p) ''marameo''),
         wassert (loc 84) (assert_equal same (pkg_filename [] p) ''pool/main/a/apt/apt_0.6.46.4-0.1_amd64.deb''),
         wassert (loc 85) (assert_equal decimal (pkg_packageSize 0 p) 1436478),
         wassert (loc 86) (assert_equal same (pkg_md5sum [] p) ''1776421f80d6300c77a608e77a9f4a15''),
         wassert (loc 87) (assert_equal same (pkg_sha1 [] p) ''1bd7337d2df56d267632cf72ac930c0a4895898f''),
         wassert (loc 88) (assert_equal same (pkg_sha256 [] p) ''b92442ab60046b4d0728245f39cc932f26e17db9f7933a5ec9aaa63172f51fda''),
         wassert (loc 89) (assert_equal same (pkg_description [] p) (''Advanced front-end for dpkg'' @ [NL] @
             '' This is Debian's next generation front-end for the dpkg package manager.'' @ [NL] @
             '' It provides the apt-get utility and APT dselect method that provides a'' @ [NL] @
             '' simpler, safer way to install and upgrade packages.'' @ [NL] @
             '' .'' @ [NL] @
             '' APT features complete installation ordering, multiple source capability'' @ [NL] @
             '' and several other unique features, see the Users Guide in apt-doc.'')),
         wassert (loc 96) (assert_equal same (pkg_shortDescription [] p) ''Advanced front-end for dpkg''),
         wassert (loc 97) (assert_equal same (pkg_longDescription [] p) (''This is Debian's next generation front-end for the dpkg package manager.'' @ [NL] @
             '' It provides the apt-get utility and APT dselect method that provides a'' @ [NL] @
             '' simpler, safer way to install and upgrade packages.'' @ [NL] @
             '' .'' @ [NL] @
             '' APT features complete installation ordering, multiple source capability'' @ [NL] @
             '' and several other unique features, see the Users Guide in apt-doc.'')),
         wassert (loc 104) (assert_equal print_bool (pkg_buildEssential False p) True),
         wassert (loc 121) (assert_equal print_set (pkg_tag [] p) apt_tags)])"

definition packagerecord_tests :: "sort_function \<Rightarrow> (nat \<Rightarrow> frame) \<Rightarrow> 'w test_case" where
  "packagerecord_tests srt loc = plain_case ''apt_packagerecord'' (add_bodies [(''supported_fields'', pkg_test_supported_fields srt loc)])"

subsection \<open>Version\<close>

definition new_version :: "string \<Rightarrow> string \<Rightarrow> version" where
  "new_version n v = \<lparr>m_name = n, m_version = v\<rparr>"

definition default_version :: version where
  "default_version = \<lparr>m_name = [], m_version = []\<rparr>"

definition ver_test_invalid :: "(string \<Rightarrow> string \<Rightarrow> int) \<Rightarrow> (nat \<Rightarrow> frame) \<Rightarrow> (exn, unit) outcome" where
  "ver_test_invalid cmp loc =
     (let test = default_version;
        p = m_name test
      in run_steps
        [wassert (loc 20) (assert_equal same (m_name test) []),
         wassert (loc 21) (assert_equal same (m_version test) []),
         wassert (loc 22) (assert_equal print_bool (version_isValid test) False),
         wassert (loc 26) (assert_equal same (p) [])])"

definition ver_test_basic :: "(string \<Rightarrow> string \<Rightarrow> int) \<Rightarrow> (nat \<Rightarrow> frame) \<Rightarrow> (exn, unit) outcome" where
  "ver_test_basic cmp loc =
     (let test = new_version ''test'' ''1.0'';
        p = m_name test;
        v = new_version p ''1.1''
      in run_steps
        [wassert (loc 33) (assert_equal same (m_name test) ''test''),
         wassert (loc 34) (assert_equal same (m_version test) ''1.0''),
         wassert (loc 35) (assert_equal print_bool (version_isValid test) True),
         wassert (loc 39) (assert_equal same (p) ''test''),
         wassert (loc 42) (assert_equal same (m_name v) ''test''),
         wassert (loc 43) (assert_equal same (m_version v) ''1.1''),
         wassert (loc 44) (assert_equal print_bool (version_isValid v) True)])"

definition ver_test_comparison :: "(string \<Rightarrow> string \<Rightarrow> int) \<Rightarrow> (nat \<Rightarrow> frame) \<Rightarrow> (exn, unit) outcome" where
  "ver_test_comparison cmp loc =
     (let test = new_version ''test'' ''1.0'';
        test1 = new_version ''test'' ''1.0'';
        test2 = new_version ''test2'' ''1.0'';
        test3 = new_version ''test'' ''2.0''
      in run_steps
        [wassert (loc 52) (assert_true print_bool (version_eq test test1)),
         wassert (loc 53) (assert_true print_bool (\<not> version_neq test test1)),
         wassert (loc 54) (assert_true print_bool (\<not> version_less cmp test test1)),
         wassert (loc 55) (assert_true print_bool (\<not> version_greater cmp test test1)),
         wassert (loc 56) (assert_true print_bool (version_le cmp test test1)),
         wassert (loc 57) (assert_true print_bool (version_ge cmp test test1)),
         wassert (loc 62) (assert_true print_bool (version_neq test test2)),
         wassert (loc 63) (assert_true print_bool (version_neq test test2)),
         wassert (loc 64) (assert_true print_bool (version_less cmp test test2)),
         wassert (loc 65) (assert_true print_bool (\<not> version_greater cmp test test2)),
         wassert (loc 66) (assert_true print_bool (version_le cmp test test2)),
         wassert (loc 67) (assert_true print_bool (\<not> version_ge cmp test test2)),
         wassert (loc 72) (assert_true print_bool (version_neq test test3)),
         wassert (loc 73) (assert_true print_bool (version_neq test test3)),
         wassert (loc 74) (assert_true print_bool (version_less cmp test test3)),
         wassert (loc 75) (assert_true print_bool (\<not> version_greater cmp test test3)),
         wassert (loc 76) (assert_true print_bool (version_le cmp test test3)),
         wassert (loc 77) (assert_true print_bool (\<not> version_ge cmp test test3))])"

definition ver_test_value_copy :: "(string \<Rightarrow> string \<Rightarrow> int) \<Rightarrow> (nat \<Rightarrow> frame) \<Rightarrow> (exn, unit) outcome" where
  "ver_test_value_copy cmp loc =
     (let test = new_version ''test'' ''1.0'';
        test1 = test;
        test2 = default_version;
        test2 = test;
        test3 = new_version ''test'' ''1.0''
      in run_steps
        [wassert (loc 85) (assert_true print_bool (version_eq test test1)),
         wassert (loc 89) (assert_true print_bool (version_eq test test2)),
         wassert (loc 90) (assert_true print_bool (version_eq test1 test2)),
         wassert (loc 93) (assert_true print_bool (version_eq test test3)),
         wassert (loc 94) (assert_true print_bool (version_eq test1 test3)),
         wassert (loc 95) (assert_true print_bool (version_eq test2 test3))])"

definition ver_test_upstream_version :: "(string \<Rightarrow> string \<Rightarrow> int) \<Rightarrow> (nat \<Rightarrow> frame) \<Rightarrow> (exn, unit) outcome" where
  "ver_test_upstream_version cmp loc =
     run_steps
        [wassert (loc 100) (assert_equal same (upstreamVersion (new_version ''a'' ''10.0'')) ''10.0''),
         wassert (loc 101) (assert_equal same (upstreamVersion (new_version ''a'' ''10.0-1'')) ''10.0''),
         wassert (loc 102) (assert_equal same (upstreamVersion (new_version ''a'' ''10.0~foo.1-1.0'')) ''10.0~foo.1''),
         wassert (loc 103) (assert_equal same (upstreamVersion (new_version ''a'' ''1.0:10.0~foo.1-1.0'')) ''10.0~foo.1'')]"

definition ver_test_policy_comparison :: "(string \<Rightarrow> string \<Rightarrow> int) \<Rightarrow> (nat \<Rightarrow> frame) \<Rightarrow> (exn, unit) outcome" where
  "ver_test_policy_comparison cmp loc =
     run_steps
        [wassert (loc 108) (assert_true print_bool (version_greater cmp (new_version ''a'' ''10.0'') (new_version ''a'' ''2.1''))),
         wassert (loc 109) (assert_true print_bool (version_less cmp (new_version ''a'' ''1:10.0'') (new_version ''a'' ''2:2.1''))),
         wassert (loc 110) (assert_true print_bool (version_less cmp (new_version ''a'' ''10.0-1'') (new_version ''a'' ''10.0-2''))),
         wassert (loc 111) (assert_true print_bool (version_greater cmp (new_version ''a'' ''10.0-2'') (new_version ''a'' ''10.0-1''))),
         wassert (loc 112) (assert_true print_bool (version_le cmp (new_version ''a'' ''1:10.0-1'') (new_version ''a'' ''1:10.0-1''))),
         wassert (loc 113) (assert_true print_bool (version_ge cmp (new_version ''a'' ''1:10.0-1'') (new_version ''a'' ''1:10.0-1'')))]"

definition version_tests :: "(string \<Rightarrow> string \<Rightarrow> int) \<Rightarrow> (nat \<Rightarrow> frame) \<Rightarrow> 'w test_case" where
  "version_tests cmp loc = plain_case ''apt_version'' (add_bodies
     [(''invalid'', ver_test_invalid cmp loc),
      (''basic'', ver_test_basic cmp loc),
      (''comparison'', ver_test_comparison cmp loc),
      (''value_copy'', ver_test_value_copy cmp loc),
      (''upstream_version'', ver_test_upstream_version cmp loc),
      (''policy_comparison'', ver_test_policy_comparison cmp loc)])"

section \<open>The tests pass\<close>

lemma wassert_Returned [simp]: "wassert fr (Returned u) = Returned u"
  by (simp add: wassert_def)

lemma wassert_not_Returned: "wassert fr r = Returned u \<longleftrightarrow> r = Returned u"
  by (auto simp: wassert_def testfailed_of_def split: outcome.splits exn.splits)

lemma assert_equal_same [simp]: "assert_equal sh a a = Returned ()"
  by (simp add: assert_equal_def assert_that_def)

lemma assert_equal_Returned: "assert_equal sh a e = Returned () \<longleftrightarrow> a = e"
  by (simp add: assert_equal_def assert_that_def)

lemma assert_true_Returned: "assert_true sh a = Returned () \<longleftrightarrow> a"
  by (simp add: assert_true_def assert_that_def)

lemma wassert_true_Returned: "wassert_true fr b = Returned () \<longleftrightarrow> b" "wassert_false fr b = Returned () \<longleftrightarrow> \<not> b"
  by (simp_all add: wassert_true_def wassert_false_def wassert_not_Returned assert_true_def assert_false_def assert_that_def)

lemma run_steps_Returned: "run_steps rs = Returned () \<longleftrightarrow> (\<forall>r\<in>set rs. r = Returned ())"
  by (induction rs) auto

lemma run_steps_Undefined:
  "run_steps (r # rs) = Undefined \<longleftrightarrow> r = Undefined \<or> r = Returned () \<and> run_steps rs = Undefined"
  by (cases r) auto

lemmas step_simps = run_steps_Returned wassert_not_Returned assert_equal_Returned assert_true_Returned wassert_true_Returned

subsection \<open>A record written in fields\<close>

definition fname :: "string list \<Rightarrow> string" where
  "fname ls = takeWhile (\<lambda>c. c \<noteq> CHR '':'') (hd ls)"

definition fvalue :: "string list \<Rightarrow> string" where
  "fvalue ls = trimmed (tl (dropWhile (\<lambda>c. c \<noteq> CHR '':'') (lines_text ls)))"

definition fields_ok :: "string list list \<Rightarrow> bool" where
  "fields_ok fs \<longleftrightarrow> fs \<noteq> [] \<and> list_all (\<lambda>ls. field_lines_ok ls \<and> CHR '':'' \<in> set (hd ls)) fs \<and> distinct (map fname fs)"

lemma field_split:
  assumes "field_lines_ok ls" and "CHR '':'' \<in> set (hd ls)"
  shows "lines_text ls = fname ls @ '':'' @ tl (dropWhile (\<lambda>c. c \<noteq> CHR '':'') (lines_text ls))"
proof -
  obtain l ls' where ls: "ls = l # ls'" using assms(1) by (cases ls) (auto simp: field_lines_ok_def)
  obtain a b where l: "l = a @ CHR '':'' # b" "CHR '':'' \<notin> set a" using assms(2) ls by (auto dest: split_list_first)
  then have "takeWhile (\<lambda>c. c \<noteq> CHR '':'') l = a" by (auto intro!: takeWhile_eq_all_conv [THEN iffD2] simp: takeWhile_append)
  moreover have "dropWhile (\<lambda>c. c \<noteq> CHR '':'') (l @ NL # lines_text ls') = CHR '':'' # b @ NL # lines_text ls'"
    using l by (auto simp: dropWhile_append)
  ultimately show ?thesis by (simp add: ls fname_def lines_text_def l(1))
qed

lemma written_record:
  assumes "sorter srt" and "fields_ok fs" and "r = [] \<or> hd r = NL"
  defines "p \<equiv> scan srt (concat (map lines_text fs) @ r)"
  shows "rp_size p = length fs"
    and "i < length fs \<Longrightarrow> rp_field p i = lines_text (fs ! i) \<and> rp_name p i = fname (fs ! i) \<and> lookup_idx p i = fvalue (fs ! i)"
    and "i < length fs \<Longrightarrow> index p (fname (fs ! i)) = i"
    and "lookup p n = (case map_of (map (\<lambda>ls. (fname ls, fvalue ls)) fs) n of None \<Rightarrow> [] | Some v \<Rightarrow> v)"
proof -
  let ?rest = "\<lambda>ls. tl (dropWhile (\<lambda>c. c \<noteq> CHR '':'') (lines_text ls))"
  have fs: "\<forall>ls\<in>set fs. field_lines_ok ls" "fs \<noteq> []" "\<forall>ls\<in>set fs. CHR '':'' \<in> set (hd ls)" "distinct (map fname fs)"
    using assms(2) by (auto simp: fields_ok_def list_all_iff)
  have no: "CHR '':'' \<notin> set (fname ls)" for ls by (auto simp: fname_def dest: set_takeWhileD)
  show size: "rp_size p = length fs" unfolding p_def by (rule scan_text(1) [OF fs(1,2) assms(3)])
  have field: "rp_field p i = lines_text (fs ! i)" if "i < length fs" for i
    unfolding p_def by (rule scan_text(2) [OF fs(1,2) assms(3) that])
  have parts: "rp_name p i = fname (fs ! i) \<and> lookup_idx p i = fvalue (fs ! i)" if "i < length fs" for i
    using lookup_idx_field [of p i "fname (fs ! i)" "?rest (fs ! i)"] field [OF that] no that fs(1,3)
      field_split [of "fs ! i"] by (simp add: fvalue_def)
  show "rp_field p i = lines_text (fs ! i) \<and> rp_name p i = fname (fs ! i) \<and> lookup_idx p i = fvalue (fs ! i)"
    if "i < length fs" for i using field parts that by simp
  show "index p (fname (fs ! i)) = i" if "i < length fs"
  proof -
    have "index p (fname (fs ! i)) < rp_size p" "rp_name p (index p (fname (fs ! i))) = fname (fs ! i)"
      using sorter.index_found [OF assms(1), of i "concat (map lines_text fs) @ r"] parts [OF that] size that
      unfolding p_def by simp_all
    with parts size that fs(4) show ?thesis by (metis length_map nth_eq_iff_index_eq nth_map)
  qed
  have "map_of (map (\<lambda>ls. (fname ls, ?rest ls)) fs) n = map_option ?rest (find (\<lambda>ls. fname ls = n) fs)"
    "map_of (map (\<lambda>ls. (fname ls, fvalue ls)) fs) n = map_option fvalue (find (\<lambda>ls. fname ls = n) fs)"
    by (induction fs) auto
  moreover have "lookup p n = (case map_of (map (\<lambda>ls. (fname ls, ?rest ls)) fs) n of None \<Rightarrow> [] | Some v \<Rightarrow> trimmed v)"
    unfolding p_def
  proof (rule lookup_all_written [OF assms(1) fs(1,2) assms(3)])
    show "map lines_text fs = map (\<lambda>(n, v). n @ '':'' @ v) (map (\<lambda>ls. (fname ls, ?rest ls)) fs)"
      using fs(1,3) field_split by auto
  qed (use no fs(4) in \<open>auto simp: comp_def\<close>)
  ultimately show "lookup p n = (case map_of (map (\<lambda>ls. (fname ls, fvalue ls)) fs) n of None \<Rightarrow> [] | Some v \<Rightarrow> v)"
    by (simp add: fvalue_def split: option.splits)
qed

text \<open>A field that does not exist reads as empty.\<close>

lemma missing_field: "rp_size p \<le> i \<Longrightarrow> rp_field p i = [] \<and> rp_name p i = [] \<and> lookup_idx p i = []"
  by (simp add: rp_field_def rp_name_def lookup_idx_def rp_size_def str_simps)

subsection \<open>The tests of RecordParser\<close>

definition test_fields :: "string list list" where
  "test_fields = [[''A:''], [''D: da de di do du''], [''B: b''], [''C: c ''],
     [''Desc: this is the beginning'', '' this is the continuation'', '' this is the end'']]"

lemma test_fields_facts:
  "fields_ok test_fields" "length test_fields = 5" "test_record = concat (map lines_text test_fields) @ []"
  "map fname test_fields = [''A'', ''D'', ''B'', ''C'', ''Desc'']"
  "map fvalue test_fields = [[], ''da de di do du'', ''b'', ''c'',
     ''this is the beginning'' @ [NL] @ '' this is the continuation'' @ [NL] @ '' this is the end'']"
  by code_simp+

lemma test_record_parsed:
  assumes "sorter srt"
  defines "p \<equiv> scan srt test_record"
  shows "rp_size p = 5" and "map (rp_field p) [0, 1, 2, 3, 4] = map lines_text test_fields"
    and "map (rp_name p) [0, 1, 2, 3, 4] = map fname test_fields" and "map (lookup_idx p) [0, 1, 2, 3, 4] = map fvalue test_fields"
    and "map (index p) (map fname test_fields) = [0, 1, 2, 3, 4]"
    and "lookup p n = (case map_of (zip (map fname test_fields) (map fvalue test_fields)) n of None \<Rightarrow> [] | Some v \<Rightarrow> v)"
proof -
  note w = written_record [OF assms(1) test_fields_facts(1), of "[]", folded test_fields_facts(3) p_def, unfolded test_fields_facts(2)]
  have all: "test_fields = map ((!) test_fields) [0, 1, 2, 3, 4]" by (simp add: test_fields_def)
  show "rp_size p = 5" using w(1) by simp
  show "map (rp_field p) [0, 1, 2, 3, 4] = map lines_text test_fields" "map (rp_name p) [0, 1, 2, 3, 4] = map fname test_fields"
    "map (lookup_idx p) [0, 1, 2, 3, 4] = map fvalue test_fields" "map (index p) (map fname test_fields) = [0, 1, 2, 3, 4]"
    using w(2,3) by (subst all, simp)+
  show "lookup p n = (case map_of (zip (map fname test_fields) (map fvalue test_fields)) n of None \<Rightarrow> [] | Some v \<Rightarrow> v)"
    using w(4) [of n] by (simp add: zip_map_map zip_same_conv_map comp_def)
qed

lemmas parsed_simps = test_record_parsed [unfolded test_fields_facts(4,5)]

lemma rp_tests_of_test_record:
  assumes "sorter srt"
  shows "rp_test_parsing srt loc = Returned ()" "rp_test_field_tuples srt loc = Returned ()" "rp_test_field_keys srt loc = Returned ()"
    "rp_test_field_values srt loc = Returned ()" "rp_test_find_byname srt loc = Returned ()" "rp_test_indexing srt loc = Returned ()"
    "rp_test_missing_behaviour srt loc = Returned ()"
proof -
  note p = parsed_simps [OF assms]
  have fields: "map lines_text test_fields = [''A:'' @ [NL], ''D: da de di do du'' @ [NL], ''B: b'' @ [NL], ''C: c '' @ [NL],
      ''Desc: this is the beginning'' @ [NL] @ '' this is the continuation'' @ [NL] @ '' this is the end'' @ [NL]]" by code_simp
  have beyond: "rp_field (scan srt test_record) 100 = []" "rp_name (scan srt test_record) 100 = []"
    "lookup_idx (scan srt test_record) 100 = []" using missing_field [of "scan srt test_record" 100] p(1) by auto
  show "rp_test_parsing srt loc = Returned ()"
    using p(1) by (simp add: rp_test_parsing_def rp_record_def scan_fields(2) step_simps)
  show "rp_test_field_tuples srt loc = Returned ()"
    using p(2) unfolding fields by (simp add: rp_test_field_tuples_def step_simps Let_def)
  show "rp_test_field_keys srt loc = Returned ()"
    using p(3) by (simp add: rp_test_field_keys_def step_simps Let_def)
  show "rp_test_field_values srt loc = Returned ()"
    using p(4) by (simp add: rp_test_field_values_def step_simps Let_def)
  show "rp_test_find_byname srt loc = Returned ()"
    using p(3,5) by (simp add: rp_test_find_byname_def step_simps Let_def)
  show "rp_test_indexing srt loc = Returned ()"
    by (simp add: rp_test_indexing_def step_simps Let_def p(6))
  show "rp_test_missing_behaviour srt loc = Returned ()"
    using beyond by (simp add: rp_test_missing_behaviour_def step_simps Let_def p(6))
qed

text \<open>When all names differ, the result of \<open>scan\<close> is the same with every sorting.\<close>

lemma scan_sorter:
  assumes "sorter srt" and "distinct (map (rp_name (scan insertion_sort t)) (sorted_idx (scan insertion_sort t)))"
  shows "scan srt t = scan insertion_sort t"
proof -
  obtain es ss where s: "scan_loop t 0 0 [] [] = (es, ss)" by fastforce
  define rp where "rp = \<lparr>buffer = t, ends = es, sorted_idx = ss\<rparr>"
  let ?lt = "\<lambda>a b. rp_name rp a < rp_name rp b"
  have scan: "scan f t = rp\<lparr>sorted_idx := f ?lt ss\<rparr>" for f by (simp add: scan_def s rp_def Let_def)
  have name: "rp_name (rp\<lparr>sorted_idx := xs\<rparr>) = rp_name rp" for xs by (rule ext) (simp add: rp_name_def rp_field_def)
  have d: "distinct (map (rp_name rp) (insertion_sort ?lt ss))" using assms(2) by (simp add: scan name)
  let ?a = "srt ?lt ss" and ?b = "insertion_sort ?lt ss"
  have m: "mset ?a = mset ?b"
    using sorter.mset_srt [OF assms(1)] insertion.mset_srt isort.weak_order_key by metis
  have "sorted (map (rp_name rp) ?a)" "sorted (map (rp_name rp) ?b)"
    using sorter.sorted_srt [OF assms(1) isort.weak_order_key] isort.sorted_srt_key
    by (simp_all add: sorted_wrt_map not_less)
  moreover have "mset (map (rp_name rp) ?a) = mset (map (rp_name rp) ?b)" using m by simp
  ultimately have "map (rp_name rp) ?a = map (rp_name rp) ?b" by (metis properties_for_sort)
  moreover have "inj_on (rp_name rp) (set ?a \<union> set ?b)"
    using d m by (metis Un_absorb distinct_map set_mset_mset)
  ultimately have "?a = ?b" using map_inj_on by metis
  then show ?thesis by (simp add: scan)
qed

lemma rp_test_rescan_passes: "sorter srt \<Longrightarrow> rp_test_rescan srt loc = Returned ()"
proof -
  assume srt: "sorter srt"
  have "scan srt (lines_text [''A: a'', ''B: b'', ''C: c'']) = scan insertion_sort (lines_text [''A: a'', ''B: b'', ''C: c''])"
    "scan srt (lines_text [''Foo: bar'', ''A: different'']) = scan insertion_sort (lines_text [''Foo: bar'', ''A: different''])"
    by (rule scan_sorter [OF srt], code_simp)+
  moreover have "rp_test_rescan insertion_sort loc = Returned ()" unfolding rp_test_rescan_def step_simps Let_def by code_simp
  ultimately show ?thesis by (simp add: rp_test_rescan_def)
qed

lemma rp_test_terminations:
  assumes srt: "sorter srt"
  shows "rp_test_buffer_termination srt loc = Returned ()" "rp_test_buffer_termination2 srt loc = Returned ()"
    "rp_test_buffer_termination3 srt loc = Returned ()"
proof -
  have "scan srt t = scan insertion_sort t"
    if "t \<in> {''A: a'' @ [NL] @ ''B: b'', lines_text [''A: a'', ''B: b'', []], lines_text [''A: a'', ''B: b'', [], ''C: c'']}" for t
    using that by (elim insertE emptyE; hypsubst) (rule scan_sorter [OF srt], code_simp)+
  moreover have "rp_test_buffer_termination insertion_sort loc = Returned ()" "rp_test_buffer_termination2 insertion_sort loc = Returned ()"
    "rp_test_buffer_termination3 insertion_sort loc = Returned ()"
    unfolding rp_test_buffer_termination_def rp_test_buffer_termination2_def rp_test_buffer_termination3_def step_simps Let_def by code_simp+
  ultimately show "rp_test_buffer_termination srt loc = Returned ()" "rp_test_buffer_termination2 srt loc = Returned ()"
    "rp_test_buffer_termination3 srt loc = Returned ()"
    by (simp_all add: rp_test_buffer_termination_def rp_test_buffer_termination2_def rp_test_buffer_termination3_def)
qed

definition real_fields :: "string list list" where
  "real_fields =
     [[''Package: apt''],
      [''Priority: important''],
      [''Section: admin''],
      [''Installed-Size: 4368''],
      [''Maintainer: APT Development Team <deity@lists.debian.org>''],
      [''Architecture: amd64''],
      [''Version: 0.6.46.4-0.1''],
      [''Replaces: libapt-pkg-doc (<< 0.3.7), libapt-pkg-dev (<< 0.3.7)''],
      [''Provides: libapt-pkg-libc6.3-6-3.11''],
      [''Depends: libc6 (>= 2.3.5-1), libgcc1 (>= 1:4.1.1-12), libstdc++6 (>= 4.1.1-12), debian-archive-keyring''],
      [''Suggests: aptitude | synaptic | gnome-apt | wajig, dpkg-dev, apt-doc, bzip2''],
      [''Filename: pool/main/a/apt/apt_0.6.46.4-0.1_amd64.deb''],
      [''Size: 1436478''],
      [''MD5sum: 1776421f80d6300c77a608e77a9f4a15''],
      [''SHA1: 1bd7337d2df56d267632cf72ac930c0a4895898f''],
      [''SHA256: b92442ab60046b4d0728245f39cc932f26e17db9f7933a5ec9aaa63172f51fda''],
      [''Description: Advanced front-end for dpkg'',
       '' This is Debian's next generation front-end for the dpkg package manager.'',
       '' It provides the apt-get utility and APT dselect method that provides a'',
       '' simpler, safer way to install and upgrade packages.'',
       '' .'',
       '' APT features complete installation ordering, multiple source capability'',
       '' and several other unique features, see the Users Guide in apt-doc.''],
      [''Build-Essential: yes''],
      [''Tag: admin::package-management, filetransfer::ftp, filetransfer::http, hardware::storage:cd, interface::commandline, network::client, protocol::{ftp,http,ipv6}, role::program, suite::debian, use::downloading, use::searching, works-with::software:package'']]"

lemma rp_test_real_life_passes: "sorter srt \<Longrightarrow> rp_test_real_life srt loc = Returned ()"
proof -
  assume srt: "sorter srt"
  define t where "t = concat (map lines_text real_fields) @ []"
  let ?p = "scan srt t"
  have ok: "fields_ok real_fields" "length real_fields = 19" by code_simp+
  note w = written_record [OF srt ok(1), of "[]", folded t_def]
  have "map (rp_field ?p) [0..<rp_size ?p] = map lines_text real_fields"
    using w(1,2) by (intro nth_equalityI) simp_all
  then have "concat (map (rp_field ?p) [0..<rp_size ?p]) = t" by (simp add: t_def)
  moreover have "rp_test_real_life srt loc =
      run_steps [wassert (loc 155) (assert_equal decimal (rp_size ?p) 19),
        wassert (loc 160) (assert_equal same t (concat (map (rp_field ?p) [0..<rp_size ?p])))]"
    unfolding rp_test_real_life_def Let_def t_def real_fields_def lines_text_def by (simp only: concat.simps list.map append_Nil append_Nil2 append.assoc append_Cons)
  ultimately show ?thesis using w(1) ok(2) by (simp add: step_simps)
qed

subsection \<open>The test of PackageRecord\<close>

definition apt_fields :: "string list list" where
  "apt_fields =
     [[''Package: apt''],
      [''Priority: important''],
      [''Section: admin''],
      [''Installed-Size: 4368''],
      [''Maintainer: APT Development Team <deity@lists.debian.org>''],
      [''Architecture: amd64''],
      [''Source: apt''],
      [''Version: 0.6.46.4-0.1''],
      [''Replaces: libapt-pkg-doc (<< 0.3.7), libapt-pkg-dev (<< 0.3.7)''],
      [''Provides: libapt-pkg-libc6.3-6-3.11''],
      [''Depends: libc6 (>= 2.3.5-1), libgcc1 (>= 1:4.1.1-12), libstdc++6 (>= 4.1.1-12), debian-archive-keyring''],
      [''Pre-Depends: debtags (maybe)''],
      [''Suggests: aptitude | synaptic | gnome-apt | wajig, dpkg-dev, apt-doc, bzip2''],
      [''Recommends: debtags (maybe)''],
      [''Enhances: debian''],
      [''Conflicts: marameo''],
      [''Filename: pool/main/a/apt/apt_0.6.46.4-0.1_amd64.deb''],
      [''Size: 1436478''],
      [''MD5sum: 1776421f80d6300c77a608e77a9f4a15''],
      [''SHA1: 1bd7337d2df56d267632cf72ac930c0a4895898f''],
      [''SHA256: b92442ab60046b4d0728245f39cc932f26e17db9f7933a5ec9aaa63172f51fda''],
      [''Description: Advanced front-end for dpkg'',
       '' This is Debian's next generation front-end for the dpkg package manager.'',
       '' It provides the apt-get utility and APT dselect method that provides a'',
       '' simpler, safer way to install and upgrade packages.'',
       '' .'',
       '' APT features complete installation ordering, multiple source capability'',
       '' and several other unique features, see the Users Guide in apt-doc.''],
      [''Build-Essential: yes''],
      [''Tag: admin::package-management, filetransfer::ftp, filetransfer::http, hardware::storage:cd, interface::commandline, network::client, protocol::{ftp,http,ipv6}, role::program, suite::debian, use::downloading, use::searching, works-with::software:package'']]"

lemma apt_fields_values:
  "map (\<lambda>ls. (fname ls, fvalue ls)) apt_fields =
     [(''Package'', ''apt''),
      (''Priority'', ''important''),
      (''Section'', ''admin''),
      (''Installed-Size'', ''4368''),
      (''Maintainer'', ''APT Development Team <deity@lists.debian.org>''),
      (''Architecture'', ''amd64''),
      (''Source'', ''apt''),
      (''Version'', ''0.6.46.4-0.1''),
      (''Replaces'', ''libapt-pkg-doc (<< 0.3.7), libapt-pkg-dev (<< 0.3.7)''),
      (''Provides'', ''libapt-pkg-libc6.3-6-3.11''),
      (''Depends'', ''libc6 (>= 2.3.5-1), libgcc1 (>= 1:4.1.1-12), libstdc++6 (>= 4.1.1-12), debian-archive-keyring''),
      (''Pre-Depends'', ''debtags (maybe)''),
      (''Suggests'', ''aptitude | synaptic | gnome-apt | wajig, dpkg-dev, apt-doc, bzip2''),
      (''Recommends'', ''debtags (maybe)''),
      (''Enhances'', ''debian''),
      (''Conflicts'', ''marameo''),
      (''Filename'', ''pool/main/a/apt/apt_0.6.46.4-0.1_amd64.deb''),
      (''Size'', ''1436478''),
      (''MD5sum'', ''1776421f80d6300c77a608e77a9f4a15''),
      (''SHA1'', ''1bd7337d2df56d267632cf72ac930c0a4895898f''),
      (''SHA256'', ''b92442ab60046b4d0728245f39cc932f26e17db9f7933a5ec9aaa63172f51fda''),
      (''Description'', ''Advanced front-end for dpkg'' @ [NL] @
         '' This is Debian's next generation front-end for the dpkg package manager.'' @ [NL] @
         '' It provides the apt-get utility and APT dselect method that provides a'' @ [NL] @
         '' simpler, safer way to install and upgrade packages.'' @ [NL] @
         '' .'' @ [NL] @
         '' APT features complete installation ordering, multiple source capability'' @ [NL] @
         '' and several other unique features, see the Users Guide in apt-doc.''),
      (''Build-Essential'', ''yes''),
      (''Tag'', ''admin::package-management, filetransfer::ftp, filetransfer::http, hardware::storage:cd, interface::commandline, network::client, protocol::{ftp,http,ipv6}, role::program, suite::debian, use::downloading, use::searching, works-with::software:package'')]"
  by code_simp

lemma apt_record_lookup:
  assumes "sorter srt"
  shows "rp_size (scan srt apt_record) = 24"
    and "lookup (scan srt apt_record) n = (case map_of (map (\<lambda>ls. (fname ls, fvalue ls)) apt_fields) n of None \<Rightarrow> [] | Some v \<Rightarrow> v)"
proof -
  have ok: "fields_ok apt_fields" "length apt_fields = 24" by code_simp+
  have "apt_record = concat (map lines_text apt_fields) @ []"
    unfolding apt_record_def apt_fields_def lines_text_def by (simp only: concat.simps list.map append_Nil append_Nil2 append.assoc append_Cons)
  then show "rp_size (scan srt apt_record) = 24"
    "lookup (scan srt apt_record) n = (case map_of (map (\<lambda>ls. (fname ls, fvalue ls)) apt_fields) n of None \<Rightarrow> [] | Some v \<Rightarrow> v)"
    using written_record(1,4) [OF assms ok(1), of "[]"] ok(2) by simp_all
qed

lemma apt_sizes: "strtoul10 ''4368'' = 4368" "strtoul10 ''1436478'' = 1436478"
  by (simp_all add: strtoul10_def decimal_value_def digit_val_def isspace_def isdigit_def size_modulus_def Let_def)

lemma apt_parsed_tags: "parseTags [] (the (map_of (map (\<lambda>ls. (fname ls, fvalue ls)) apt_fields) ''Tag'')) = apt_tags"
  unfolding apt_fields_values by code_simp

lemma pkg_test_passes: "sorter srt \<Longrightarrow> pkg_test_supported_fields srt loc = Returned ()"
proof -
  assume srt: "sorter srt"
  note look = apt_record_lookup(2) [OF srt, unfolded apt_fields_values] and tags = apt_parsed_tags [unfolded apt_fields_values]
  have long: "parseLongDescription [] (lookup (scan srt apt_record) ''Description'') =
      ''This is Debian's next generation front-end for the dpkg package manager.'' @ [NL] @
      '' It provides the apt-get utility and APT dselect method that provides a'' @ [NL] @
      '' simpler, safer way to install and upgrade packages.'' @ [NL] @ '' .'' @ [NL] @
      '' APT features complete installation ordering, multiple source capability'' @ [NL] @
      '' and several other unique features, see the Users Guide in apt-doc.''"
    "parseShortDescription [] (lookup (scan srt apt_record) ''Description'') = ''Advanced front-end for dpkg''"
    unfolding look by code_simp+
  have tag: "parseTags [] (lookup (scan srt apt_record) ''Tag'') = apt_tags" using tags by (simp add: look)
  show ?thesis
    unfolding pkg_test_supported_fields_def Let_def step_simps
      pkg_tag_def tag pkg_longDescription_def pkg_shortDescription_def long
    by (simp add: apt_record_lookup(1) [OF srt] look parseString_def parseSize_def apt_sizes parseBool_def
        pkg_package_def pkg_priority_def pkg_section_def pkg_installedSize_def pkg_maintainer_def pkg_architecture_def
        pkg_source_def pkg_version_def pkg_replaces_def pkg_provides_def pkg_depends_def pkg_preDepends_def
        pkg_recommends_def pkg_suggests_def pkg_enhances_def pkg_conflicts_def pkg_filename_def pkg_packageSize_def
        pkg_md5sum_def pkg_sha1_def pkg_sha256_def pkg_description_def pkg_buildEssential_def step_simps)
qed

subsection \<open>Running the test cases\<close>

lemma run_actions_constant:
  "run_actions (map test_function (map body_method bs)) w = (map snd bs, w)"
  by (induction bs) (auto simp: body_method_def)

lemma selected_bodies:
  fixes w :: 'w
  shows "\<exists>cs. set cs \<subseteq> set bs \<and> run_actions (selected fnmatch c (plain_case name (add_bodies bs))) w = (map snd cs, w)"
proof -
  define cs where "cs = filter (\<lambda>x. test_method_should_run fnmatch c (name @ ''.'' @ fst x)) bs"
  have "selected fnmatch c (plain_case name (add_bodies bs) :: 'w test_case) = map test_function (map body_method cs)"
    by (simp add: selected_def picked_def plain_case_def add_bodies_map filter_map comp_def cs_def body_method_def)
  then show ?thesis by (intro exI [of _ cs]) (simp only: run_actions_constant, simp add: cs_def)
qed

lemma plain_case_default: "default_hooks (plain_case name reg)"
  by (simp add: default_hooks_def plain_case_def)

text \<open>
  C36: with every correct sorting, the unit tests of \<open>RecordParser\<close> and \<open>PackageRecord\<close> pass on the
  models, whatever methods the white list and the black list leave: the program that runs them exits with 0.
\<close>

theorem record_tests_pass:
  assumes "sorter srt"
  shows "\<exists>out err. tests_main fnmatch getenv [packagerecord_tests srt loc1, recordparser_tests srt loc2] w
    = (Returned (0, out, err), w)"
proof -
  define bs1 where "bs1 = [(''supported_fields'', pkg_test_supported_fields srt loc1)]"
  define bs2 where "bs2 = [(''parsing'', rp_test_parsing srt loc2), (''field_tuples'', rp_test_field_tuples srt loc2),
      (''field_keys'', rp_test_field_keys srt loc2), (''field_values'', rp_test_field_values srt loc2),
      (''find_byname'', rp_test_find_byname srt loc2), (''indexing'', rp_test_indexing srt loc2),
      (''missing_behaviour'', rp_test_missing_behaviour srt loc2), (''rescan'', rp_test_rescan srt loc2),
      (''real_life'', rp_test_real_life srt loc2), (''buffer_termination'', rp_test_buffer_termination srt loc2),
      (''buffer_termination2'', rp_test_buffer_termination2 srt loc2), (''buffer_termination3'', rp_test_buffer_termination3 srt loc2)]"
  have pass: "\<forall>b\<in>set (bs1 @ bs2). snd b = Returned ()"
    using pkg_test_passes [OF assms] rp_tests_of_test_record [OF assms] rp_test_rescan_passes [OF assms]
      rp_test_real_life_passes [OF assms] rp_test_terminations [OF assms] by (simp add: bs1_def bs2_def)
  let ?c = "start_controller getenv" and ?tcs = "[packagerecord_tests srt loc1, recordparser_tests srt loc2]"
  have cases: "?tcs = [plain_case ''apt_packagerecord'' (add_bodies bs1), plain_case ''apt_recordparser'' (add_bodies bs2)]"
    by (simp add: packagerecord_tests_def recordparser_tests_def bs1_def bs2_def)
  obtain cs1 cs2 where cs: "set cs1 \<subseteq> set bs1" "set cs2 \<subseteq> set bs2"
    "run_actions (selected fnmatch ?c (plain_case ''apt_packagerecord'' (add_bodies bs1))) w = (map snd cs1, w)"
    "run_actions (selected fnmatch ?c (plain_case ''apt_recordparser'' (add_bodies bs2))) w = (map snd cs2, w)"
    using selected_bodies [where fnmatch = fnmatch and c = ?c and w = w] by metis
  have run: "run_actions (concat (map (selected fnmatch ?c) ?tcs)) w = (map snd (cs1 @ cs2), w)"
    unfolding cases using cs(3,4) by (simp add: run_actions_append)
  have all: "\<forall>r\<in>set (map snd (cs1 @ cs2)). r = Returned ()" using pass cs(1,2) by auto
  then have none: "failures (map snd (cs1 @ cs2)) = 0" "Undefined \<notin> set (map snd (cs1 @ cs2))" by (auto simp: filter_empty_conv)
  have hooks: "\<forall>tc\<in>set ?tcs. default_hooks tc" unfolding cases by (simp add: plain_case_default)
  show ?thesis using tests_main_runs [OF hooks run none(2)] unfolding none(1) by simp
qed

theorem record_tests_pass_witness:
  "\<exists>out err. tests_main (\<lambda>p s. 1) [''TEST_BLACKLIST'' \<mapsto> ''*.real_life'']
      [packagerecord_tests insertion_sort (\<lambda>n. \<lparr>fr_file = ''p'', fr_line = n, fr_call = [], fr_info = []\<rparr>),
       recordparser_tests insertion_sort (\<lambda>n. \<lparr>fr_file = ''r'', fr_line = n, fr_call = [], fr_info = []\<rparr>)] (0 :: nat)
    = (Returned (0, out, err), 0)"
  by (rule record_tests_pass [OF insertion.sorter_axioms])

lemma steps_defined: "Undefined \<notin> set rs \<Longrightarrow> run_steps rs \<noteq> Undefined"
proof (induction rs)
  case (Cons r rs)
  then show ?case by (cases r) auto
qed simp

lemma assertions_defined [simp]:
  "wassert fr (assert_true sh a) \<noteq> Undefined" "wassert fr (assert_equal sh' x e) \<noteq> Undefined" "assert_true sh a \<noteq> Undefined"
  "wassert_true fr b \<noteq> Undefined" "wassert_false fr b \<noteq> Undefined"
  by (simp_all add: wassert_true_def wassert_false_def wassert_def assert_true_def assert_false_def assert_equal_def assert_that_def)

lemma wassert_defined: "Undefined = wassert fr (assert_true sh a) \<longleftrightarrow> False"
  by (simp add: not_sym)

text \<open>A test case whose functions only look at values, run without a filter.\<close>

lemma bodies_pass_iff:
  fixes w :: 'w
  assumes defined: "Undefined \<notin> set (map snd bs)" and small: "length bs < 2 ^ 32"
  shows "\<exists>code out err. tests_main fnmatch (\<lambda>_. None) [plain_case name (add_bodies bs)] w = (Returned (code, out, err), w)
    \<and> (code = 0 \<longleftrightarrow> (\<forall>b\<in>set bs. snd b = Returned ()))"
proof -
  let ?tcs = "[plain_case name (add_bodies bs) :: 'w test_case]"
  have "selected fnmatch (start_controller (\<lambda>_. None)) (plain_case name (add_bodies bs) :: 'w test_case) = map test_function (map body_method bs)"
    by (simp add: selected_def picked_def plain_case_def add_bodies_map start_controller_def test_method_should_run_def)
  then have run: "run_actions (concat (map (selected fnmatch (start_controller (\<lambda>_. None))) ?tcs)) w = (map snd bs, w)"
    using run_actions_constant [of bs w] by (simp del: map_map)
  have hooks: "\<forall>tc\<in>set ?tcs. default_hooks tc" by (simp add: plain_case_default)
  have "failures (map snd bs) < 2 ^ 32" by (rule le_less_trans [OF length_filter_le]) (use small in simp)
  then have "failures (map snd bs) mod 2 ^ 32 = 0 \<longleftrightarrow> (\<forall>b\<in>set bs. snd b = Returned ())"
    by (simp add: filter_empty_conv)
  then have "(if failures (map snd bs) mod 2 ^ 32 = 0 then 0 else 1 :: int) = 0 \<longleftrightarrow> (\<forall>b\<in>set bs. snd b = Returned ())" by simp
  with tests_main_runs [OF hooks run defined] show ?thesis by blast
qed

text \<open>
  the unit tests of \<open>Version\<close>, run without a filter, pass exactly when \<open>CmpVersion\<close> orders the versions
  that they compare as they expect; the test of the upstream version passes in any case.
\<close>

theorem version_tests_pass_iff:
  fixes w :: 'w
  shows "\<exists>code out err. tests_main fnmatch (\<lambda>_. None) [version_tests cmp loc] w = (Returned (code, out, err), w)
    \<and> (code = 0 \<longleftrightarrow> cmp ''1.0'' ''1.0'' = 0 \<and> cmp ''1.0'' ''2.0'' < 0 \<and> cmp ''10.0'' ''2.1'' > 0 \<and> cmp ''1:10.0'' ''2:2.1'' < 0
      \<and> cmp ''10.0-1'' ''10.0-2'' < 0 \<and> cmp ''10.0-2'' ''10.0-1'' > 0 \<and> cmp ''1:10.0-1'' ''1:10.0-1'' = 0)"
proof -
  define bs where "bs = [(''invalid'', ver_test_invalid cmp loc), (''basic'', ver_test_basic cmp loc),
      (''comparison'', ver_test_comparison cmp loc), (''value_copy'', ver_test_value_copy cmp loc),
      (''upstream_version'', ver_test_upstream_version cmp loc), (''policy_comparison'', ver_test_policy_comparison cmp loc)]"
  have always: "ver_test_invalid cmp loc = Returned ()" "ver_test_basic cmp loc = Returned ()" "ver_test_value_copy cmp loc = Returned ()"
    by (simp_all add: ver_test_invalid_def ver_test_basic_def ver_test_value_copy_def step_simps Let_def default_version_def
        new_version_def version_isValid_def version_eq_def)
  have "upstreamVersion (new_version ''a'' ''10.0'') = ''10.0''" "upstreamVersion (new_version ''a'' ''10.0-1'') = ''10.0''"
    "upstreamVersion (new_version ''a'' ''10.0~foo.1-1.0'') = ''10.0~foo.1''"
    "upstreamVersion (new_version ''a'' ''1.0:10.0~foo.1-1.0'') = ''10.0~foo.1''" by code_simp+
  then have upstream: "ver_test_upstream_version cmp loc = Returned ()" by (simp add: ver_test_upstream_version_def step_simps)
  have less: "''test'' < ''test2''" "\<not> ''test2'' < ''test''" "''test'' \<noteq> ''test2''" by code_simp+
  have comparison: "ver_test_comparison cmp loc = Returned () \<longleftrightarrow> cmp ''1.0'' ''1.0'' = 0 \<and> cmp ''1.0'' ''2.0'' < 0"
    using less by (auto simp: ver_test_comparison_def step_simps Let_def new_version_def version_eq_def version_neq_def
        version_less_def version_le_def version_greater_def version_ge_def)
  have policy: "ver_test_policy_comparison cmp loc = Returned () \<longleftrightarrow> cmp ''10.0'' ''2.1'' > 0 \<and> cmp ''1:10.0'' ''2:2.1'' < 0
      \<and> cmp ''10.0-1'' ''10.0-2'' < 0 \<and> cmp ''10.0-2'' ''10.0-1'' > 0 \<and> cmp ''1:10.0-1'' ''1:10.0-1'' = 0"
    by (auto simp: ver_test_policy_comparison_def step_simps new_version_def version_less_def version_le_def version_greater_def version_ge_def)
  have "list_all (\<lambda>r. r \<noteq> Undefined) [ver_test_comparison cmp loc, ver_test_policy_comparison cmp loc]"
    by (simp add: ver_test_comparison_def ver_test_policy_comparison_def Let_def steps_defined wassert_defined del: run_steps.simps)
  then have defined: "Undefined \<notin> set (map snd bs)" using always upstream by (auto simp: bs_def)
  have "version_tests cmp loc = (plain_case ''apt_version'' (add_bodies bs) :: 'w test_case)" by (simp add: version_tests_def bs_def)
  moreover have "(\<forall>b\<in>set bs. snd b = Returned ()) \<longleftrightarrow> ver_test_comparison cmp loc = Returned () \<and> ver_test_policy_comparison cmp loc = Returned ()"
    using always upstream by (simp add: bs_def)
  ultimately show ?thesis
    using bodies_pass_iff [OF defined, of fnmatch "''apt_version''" w] unfolding comparison policy by (simp add: bs_def)
qed

end
