(* ===== verification/VocabularyTests.thy ===== *)
theory VocabularyTests
  imports UnitTests Databases
begin

section \<open>The unit tests of the vocabulary (ept/debtags/vocabulary-test.cc)\<close>

text \<open>
  Each test sets \<open>DEBTAGS_VOCABULARY\<close> to a file and makes a \<open>Vocabulary\<close>.  The vocabulary of the test data is
  an argument; the theorem says which facts about it the tests ask for.  That the queries of a
  vocabulary agree with each other, which most of the assertions are about, holds for every file.
\<close>

subsection \<open>The tests\<close>

text \<open>
  \<open>EnvOverride eo("DEBTAGS_VOCABULARY", file); Vocabulary tags;\<close> with the functions of the file system; \<open>conv\<close> makes
  the exception of an error.  A file on which the constructor never returns gives no result.
\<close>

definition open_voc ::
  "(string \<Rightarrow> bool) \<Rightarrow> (string \<Rightarrow> cfile option) \<Rightarrow> (string \<Rightarrow> int) \<Rightarrow> (voc_error \<Rightarrow> exn) \<Rightarrow> (string \<Rightarrow> string option) \<Rightarrow> string
    \<Rightarrow> (exn, vocabulary) outcome" where
  "open_voc exists fopen mtime conv env file =
     (case system_vocabulary exists fopen mtime (snd (env_override ''DEBTAGS_VOCABULARY'' file env)) False of
        None \<Rightarrow> Undefined
      | Some (None, v, log) \<Rightarrow> Returned v
      | Some (Some e, v, log) \<Rightarrow> Thrown (conv e))"

definition testfile :: string where
  "testfile = ''debtags/vocabulary''"

text \<open>
  \<open>assert_true\<close> for a condition or a pointer, which is printed as 0 when it fails, and what is read
  through a pointer.  A \<open>const TagData*\<close> is the node of the map, so it is named by the key.
\<close>

definition check_true :: "bool \<Rightarrow> (exn, unit) outcome" where
  "check_true = assert_true print_bool"

definition deref :: "'a option \<Rightarrow> ('a \<Rightarrow> (exn, unit) outcome) \<Rightarrow> (exn, unit) outcome" where
  "deref p k = (case p of None \<Rightarrow> Undefined | Some x \<Rightarrow> k x)"

definition tag_ptr :: "vocabulary \<Rightarrow> string \<Rightarrow> string option" where
  "tag_ptr v n = map_option (\<lambda>_. n) (voc_tagData v n)"

type_synonym open_fun = "string \<Rightarrow> (exn, vocabulary) outcome"

definition voc_test_load :: "open_fun \<Rightarrow> (exn, unit) outcome" where
  "voc_test_load opn = bind_outcome (opn testfile) (\<lambda>tags. Returned ())"

definition voc_test_has_facet :: "open_fun \<Rightarrow> (exn, unit) outcome" where
  "voc_test_has_facet opn = bind_outcome (opn testfile) (\<lambda>tags. run_steps
     [check_true (hasFacet tags ''works-with''),
      check_true (\<not> hasFacet tags ''blah'')])"

definition voc_test_has_tag :: "open_fun \<Rightarrow> (exn, unit) outcome" where
  "voc_test_has_tag opn = bind_outcome (opn testfile) (\<lambda>tags. run_steps
     [check_true (voc_hasTag tags ''works-with::people''),
      check_true (\<not> voc_hasTag tags ''works-with::foobar'')])"

definition voc_test_tagdata :: "open_fun \<Rightarrow> (exn, unit) outcome" where
  "voc_test_tagdata opn = bind_outcome (opn testfile) (\<lambda>tags.
     (let people = tag_ptr tags ''works-with::people''; foobar = tag_ptr tags ''works-with::foobar'';
          blahg = tag_ptr tags ''works-with::blahg''; text1 = tag_ptr tags ''works-with::text'';
          people2 = tag_ptr tags ''works-with::people''
      in run_steps
        [check_true (people \<noteq> foobar), check_true (people \<noteq> text1), check_true (people \<noteq> blahg),
         check_true (foobar = blahg), check_true (foobar = foobar), check_true (people = people2), check_true (people = people)]))"

definition voc_test_tags :: "open_fun \<Rightarrow> (exn, unit) outcome" where
  "voc_test_tags opn = bind_outcome (opn testfile) (\<lambda>tags.
     (let a = ''works-with::people''; b = ''works-with::foobar'';
          s = voc_tags tags; f = tags_of_facet tags ''works-with''; n = tags_of_facet tags ''nonsense''
      in run_steps
        [check_true (set_contains_item s a), check_true (set_contains_item f a), check_true (set_contains s f),
         check_true (\<not> set_contains_item s b), check_true (\<not> set_contains_item f b), check_true (n = [])]))"

definition voc_test_facetdata :: "(nat \<Rightarrow> frame) \<Rightarrow> open_fun \<Rightarrow> (exn, unit) outcome" where
  "voc_test_facetdata loc opn = bind_outcome (opn testfile) (\<lambda>tags.
     (let f = facetData tags ''works-with''; t = voc_tagData tags ''works-with::people''
      in run_steps
        [check_true (f \<noteq> None),
         deref f (\<lambda>f. wassert (loc 79) (assert_equal same (voc_name f) ''works-with'')),
         check_true (t \<noteq> None),
         deref t (\<lambda>t. wassert (loc 83) (assert_equal same (voc_name t) ''works-with::people''))]))"

definition voc_test_facettags :: "open_fun \<Rightarrow> (exn, unit) outcome" where
  "voc_test_facettags opn = bind_outcome (opn testfile) (\<lambda>tags.
     (let f = facetData tags ''works-with''; x = tags_of_facet tags ''works-with''
      in run_steps [deref f (\<lambda>f. check_true (x = facet_tags f))]))"

definition voc_test_missing_facet :: "open_fun \<Rightarrow> (exn, unit) outcome" where
  "voc_test_missing_facet opn = bind_outcome (opn testfile) (\<lambda>tags.
     (let f = facetData tags ''does-not-work-with'' in run_steps [check_true (f = None)]))"

definition voc_test_missing_facet1 :: "(nat \<Rightarrow> frame) \<Rightarrow> open_fun \<Rightarrow> (exn, unit) outcome" where
  "voc_test_missing_facet1 loc opn = bind_outcome (opn testfile) (\<lambda>tags.
     (let f = facetData tags ''legacy''
      in run_steps
        [check_true (f \<noteq> None),
         deref f (\<lambda>f. wassert (loc 109) (assert_equal same (fst (shortDescription f)) [])),
         deref f (\<lambda>f. wassert (loc 110) (assert_equal same (longDescription f) []))]))"

definition voc_test_one_letter_tag :: "open_fun \<Rightarrow> (exn, unit) outcome" where
  "voc_test_one_letter_tag opn = bind_outcome (opn testfile) (\<lambda>tags.
     run_steps [check_true (voc_hasTag tags ''implemented-in::c'')])"

definition voc_test_iterate_facets :: "open_fun \<Rightarrow> (exn, unit) outcome" where
  "voc_test_iterate_facets opn = bind_outcome (opn testfile) (\<lambda>tags.
     run_steps (map (\<lambda>i. check_true (facetData tags i \<noteq> None)) (facets tags)))"

definition voc_test_iterate_tags :: "open_fun \<Rightarrow> (exn, unit) outcome" where
  "voc_test_iterate_tags opn = bind_outcome (opn testfile) (\<lambda>voc.
     run_steps (map (\<lambda>i. check_true (voc_tagData voc i \<noteq> None)) (voc_tags voc)))"

definition voc_test_first_last :: "(nat \<Rightarrow> frame) \<Rightarrow> open_fun \<Rightarrow> (exn, unit) outcome" where
  "voc_test_first_last loc opn = bind_outcome (opn testfile) (\<lambda>tags.
     (let first = voc_tagData tags ''accessibility::TODO''; last1 = voc_tagData tags ''x11::xserver''
      in run_steps
        [check_true (first \<noteq> None),
         deref first (\<lambda>first. wassert (loc 158) (assert_equal same (voc_name first) ''accessibility::TODO'')),
         deref first (\<lambda>first. wassert (loc 159) (assert_equal same (fst (shortDescription first)) ''Need an extra tag'')),
         check_true (last1 \<noteq> None),
         deref last1 (\<lambda>last1. wassert (loc 163) (assert_equal same (voc_name last1) ''x11::xserver'')),
         deref last1 (\<lambda>last1. wassert (loc 164) (assert_equal same (fst (shortDescription last1)) ''X Server''))]))"

definition voc_test_get_all_tags :: "(nat \<Rightarrow> frame) \<Rightarrow> open_fun \<Rightarrow> (exn, unit) outcome" where
  "voc_test_get_all_tags loc opn = bind_outcome (opn testfile) (\<lambda>tags. run_steps
     [wassert (loc 173) (assert_equal decimal (length (tags_of_facet tags ''accessibility'')) 10),
      wassert (loc 176) (assert_equal decimal (length (tags_of_facet tags ''works-with-format'')) 33)])"

definition voc_test_empty :: "(nat \<Rightarrow> frame) \<Rightarrow> open_fun \<Rightarrow> (exn, unit) outcome" where
  "voc_test_empty loc opn = bind_outcome (opn ''./empty/novocabularyhere'') (\<lambda>empty. run_steps
     [check_true (\<not> hasData empty),
      wassert (loc 187) (assert_equal decimal (length (facets empty)) 0),
      wassert (loc 190) (assert_equal decimal (length (voc_tags empty)) 0)])"

definition vocabulary_tests :: "(nat \<Rightarrow> frame) \<Rightarrow> open_fun \<Rightarrow> 'w test_case" where
  "vocabulary_tests loc opn = plain_case ''debtags_vocabulary'' (add_bodies
     [(''load'', voc_test_load opn),
      (''has_facet'', voc_test_has_facet opn),
      (''has_tag'', voc_test_has_tag opn),
      (''tagdata'', voc_test_tagdata opn),
      (''tags'', voc_test_tags opn),
      (''facetdata'', voc_test_facetdata loc opn),
      (''facettags'', voc_test_facettags opn),
      (''missing_facet'', voc_test_missing_facet opn),
      (''missing_facet1'', voc_test_missing_facet1 loc opn),
      (''one_letter_tag'', voc_test_one_letter_tag opn),
      (''iterate_facets'', voc_test_iterate_facets opn),
      (''iterate_tags'', voc_test_iterate_tags opn),
      (''first_last'', voc_test_first_last loc opn),
      (''get_all_tags'', voc_test_get_all_tags loc opn),
      (''empty'', voc_test_empty loc opn)])"


subsection \<open>What the tests ask for\<close>

text \<open>
  A specification of the test data: what the tests ask of the vocabulary that the file holds, without the
  assertions that hold for every file.
\<close>

definition has_tag_described :: "vocabulary \<Rightarrow> string \<Rightarrow> string \<Rightarrow> bool" where
  "has_tag_described v t s = (case voc_tagData v t of None \<Rightarrow> False | Some d \<Rightarrow> fst (shortDescription d) = s)"

definition has_bare_facet :: "vocabulary \<Rightarrow> string \<Rightarrow> bool" where
  "has_bare_facet v n = (case facetData v n of None \<Rightarrow> False
     | Some f \<Rightarrow> fst (shortDescription f) = [] \<and> longDescription f = [])"

definition tests_expect :: "vocabulary \<Rightarrow> bool" where
  "tests_expect v \<longleftrightarrow>
     {''works-with::people'', ''implemented-in::c''} \<subseteq> set (voc_tags v)
     \<and> {''works-with::foobar'', ''works-with::blahg''} \<inter> set (voc_tags v) = {}
     \<and> {''blah'', ''does-not-work-with''} \<inter> set (facets v) = {}
     \<and> (\<forall>t\<in>set (voc_tags v). getfacet t \<noteq> ''nonsense'')
     \<and> has_bare_facet v ''legacy''
     \<and> has_tag_described v ''accessibility::TODO'' ''Need an extra tag''
     \<and> has_tag_described v ''x11::xserver'' ''X Server''
     \<and> length (tags_of_facet v ''accessibility'') = 10 \<and> length (tags_of_facet v ''works-with-format'') = 33"

lemma check_true_Returned [simp]: "check_true b = Returned () \<longleftrightarrow> b"
  by (simp add: check_true_def assert_true_Returned)

lemma check_true_defined [simp]: "check_true b \<noteq> Undefined"
  by (simp add: check_true_def)

lemma deref_Returned [simp]: "deref p k = Returned u \<longleftrightarrow> (\<exists>x. p = Some x \<and> k x = Returned u)"
  by (simp add: deref_def split: option.splits)

lemma deref_Undefined [simp]: "deref p k = Undefined \<longleftrightarrow> (\<forall>x. p = Some x \<longrightarrow> k x = Undefined)"
  by (simp add: deref_def split: option.splits)

lemma read_voc: "voc_read input p new_vocabulary = Some (e, v, log) \<Longrightarrow> voc_inv v"
  by (auto simp: voc_read_def dest!: read_loop_inv split: sum.splits)

lemma loaded_voc:
  assumes "voc_load exists fopen mtime path new_vocabulary = Some (e, v, log)"
  shows "voc_inv v"
proof (cases "exists path")
  case False
  with assms show ?thesis by (simp add: voc_load_def)
next
  case True
  show ?thesis
  proof (cases "fopen path")
    case None
    with True assms show ?thesis by (simp add: voc_load_def)
  next
    case (Some input)
    with True assms obtain e' w l where r: "voc_read input path new_vocabulary = Some (e', w, l)" and "m_facets v = m_facets w"
      by (auto simp: voc_load_def split: option.splits)
    with read_voc [OF r] show ?thesis by (simp add: voc_inv_def)
  qed
qed

lemma opened_voc: "open_voc exists fopen mtime conv env file = Returned v \<Longrightarrow> voc_inv v"
  by (auto simp: open_voc_def system_vocabulary_def dest: loaded_voc split: option.splits)

lemma opened_nothing:
  assumes "\<not> exists file" and "NUL \<notin> set file"
  shows "open_voc exists fopen mtime conv env file = Returned new_vocabulary"
proof -
  have "c_str file = file" using assms(2) by (auto simp: c_str_def takeWhile_eq_all_conv)
  with assms(1) show ?thesis
    by (simp add: open_voc_def system_vocabulary_def voc_load_def voc_pathname_def env_override_def)
qed

lemma named_data:
  assumes "voc_inv v"
  shows "facetData v n = Some f \<Longrightarrow> voc_name f = n" and "voc_tagData v t = Some d \<Longrightarrow> voc_name d = t"
  using voc_inv_D(2) [OF assms]
  by (fastforce simp: facet_inv_iff tag_inv_def data_inv_def voc_tagData_def split: option.splits)+

lemma voc_test_outcomes:
  assumes opn: "opn testfile = Returned v" and inv: "voc_inv v" and "hasFacet v ''works-with''"
  shows "voc_test_load opn = Returned ()"
    and "voc_test_has_facet opn = Returned () \<longleftrightarrow> ''blah'' \<notin> set (facets v)"
    and "voc_test_has_tag opn = Returned () \<longleftrightarrow> ''works-with::people'' \<in> set (voc_tags v) \<and> ''works-with::foobar'' \<notin> set (voc_tags v)"
    and "voc_test_facetdata loc opn = Returned () \<longleftrightarrow> ''works-with::people'' \<in> set (voc_tags v)"
    and "voc_test_facettags opn = Returned ()"
    and "voc_test_missing_facet opn = Returned () \<longleftrightarrow> ''does-not-work-with'' \<notin> set (facets v)"
    and "voc_test_missing_facet1 loc opn = Returned () \<longleftrightarrow> has_bare_facet v ''legacy''"
    and "voc_test_one_letter_tag opn = Returned () \<longleftrightarrow> ''implemented-in::c'' \<in> set (voc_tags v)"
    and "voc_test_iterate_facets opn = Returned ()" and "voc_test_iterate_tags opn = Returned ()"
    and "voc_test_first_last loc opn = Returned () \<longleftrightarrow> has_tag_described v ''accessibility::TODO'' ''Need an extra tag''
      \<and> has_tag_described v ''x11::xserver'' ''X Server''"
    and "voc_test_get_all_tags loc opn = Returned () \<longleftrightarrow>
      length (tags_of_facet v ''accessibility'') = 10 \<and> length (tags_of_facet v ''works-with-format'') = 33"
proof -
  have tag: "voc_hasTag v t \<longleftrightarrow> t \<in> set (voc_tags v)" "voc_tagData v t \<noteq> None \<longleftrightarrow> t \<in> set (voc_tags v)" for t
    using voc_tags_iff [OF inv, of t] by (auto simp: voc_hasTag_def voc_tagData_def facet_hasTag_def facet_tagData_def split: option.splits)
  have facet: "hasFacet v n \<longleftrightarrow> n \<in> set (facets v)" "facetData v n \<noteq> None \<longleftrightarrow> n \<in> set (facets v)" for n
    unfolding facets_iff hasFacet_def facetData_def by (rule refl)+
  have works: "''works-with'' \<in> set (facets v)" using assms(3) by (simp add: facet)
  then obtain f where f: "facetData v ''works-with'' = Some f" using facet(2) by blast
  note tests = opn bind_outcome.simps step_simps Let_def
  show "voc_test_load opn = Returned ()" by (simp add: voc_test_load_def tests)
  show "voc_test_has_facet opn = Returned () \<longleftrightarrow> ''blah'' \<notin> set (facets v)"
    using works by (simp add: voc_test_has_facet_def tests facet)
  show "voc_test_has_tag opn = Returned () \<longleftrightarrow> ''works-with::people'' \<in> set (voc_tags v) \<and> ''works-with::foobar'' \<notin> set (voc_tags v)"
    by (simp add: voc_test_has_tag_def tests tag)
  show "voc_test_facetdata loc opn = Returned () \<longleftrightarrow> ''works-with::people'' \<in> set (voc_tags v)"
    unfolding tag(2) [symmetric] using named_data [OF inv] by (auto simp: voc_test_facetdata_def tests f)
  show "voc_test_facettags opn = Returned ()" by (simp add: voc_test_facettags_def tests f tags_of_facet_def)
  show "voc_test_missing_facet opn = Returned () \<longleftrightarrow> ''does-not-work-with'' \<notin> set (facets v)"
    unfolding facet(2) [symmetric] by (simp add: voc_test_missing_facet_def tests)
  show "voc_test_missing_facet1 loc opn = Returned () \<longleftrightarrow> has_bare_facet v ''legacy''"
    by (auto simp: voc_test_missing_facet1_def tests has_bare_facet_def split: option.splits)
  show "voc_test_one_letter_tag opn = Returned () \<longleftrightarrow> ''implemented-in::c'' \<in> set (voc_tags v)"
    by (simp add: voc_test_one_letter_tag_def tests tag)
  show "voc_test_iterate_facets opn = Returned ()"
    using facet(2) by (auto simp: voc_test_iterate_facets_def tests)
  show "voc_test_iterate_tags opn = Returned ()"
    using tag(2) by (auto simp: voc_test_iterate_tags_def tests)
  show "voc_test_first_last loc opn = Returned () \<longleftrightarrow> has_tag_described v ''accessibility::TODO'' ''Need an extra tag''
      \<and> has_tag_described v ''x11::xserver'' ''X Server''"
    using named_data [OF inv] by (auto simp: voc_test_first_last_def tests has_tag_described_def split: option.splits)
  show "voc_test_get_all_tags loc opn = Returned () \<longleftrightarrow>
      length (tags_of_facet v ''accessibility'') = 10 \<and> length (tags_of_facet v ''works-with-format'') = 33"
    by (simp add: voc_test_get_all_tags_def tests)
qed

lemma voc_test_sets:
  assumes opn: "opn testfile = Returned v" and inv: "voc_inv v"
  shows "voc_test_tagdata opn = Returned () \<longleftrightarrow>
      ''works-with::people'' \<in> set (voc_tags v) \<and> {''works-with::foobar'', ''works-with::blahg''} \<inter> set (voc_tags v) = {}"
    and "voc_test_tags opn = Returned () \<longleftrightarrow>
      ''works-with::people'' \<in> set (voc_tags v) \<and> ''works-with::foobar'' \<notin> set (voc_tags v) \<and> (\<forall>t\<in>set (voc_tags v). getfacet t \<noteq> ''nonsense'')"
proof -
  have ptr: "tag_ptr v t = (if t \<in> set (voc_tags v) then Some t else None)" for t
    using voc_tags_iff [OF inv, of t] by (auto simp: tag_ptr_def)
  show "voc_test_tagdata opn = Returned () \<longleftrightarrow>
      ''works-with::people'' \<in> set (voc_tags v) \<and> {''works-with::foobar'', ''works-with::blahg''} \<inter> set (voc_tags v) = {}"
    by (auto simp: voc_test_tagdata_def opn step_simps ptr Let_def)
  have facet: "set (tags_of_facet v n) = {t \<in> set (voc_tags v). getfacet t = n}" for n
    using vocabulary_queries_agree [OF inv] by blast
  have ord: "ordered (voc_tags v)" "ordered (tags_of_facet v n)" for n
    by (auto simp: voc_tags_def tags_of_facet_def ordered_insert_tags split: option.split)
  have "getfacet ''works-with::people'' = ''works-with''" by code_simp
  moreover have "tags_of_facet v ''nonsense'' = [] \<longleftrightarrow> (\<forall>t\<in>set (voc_tags v). getfacet t \<noteq> ''nonsense'')"
    using facet [of "''nonsense''"] by (simp only: set_empty [symmetric]) auto
  ultimately show "voc_test_tags opn = Returned () \<longleftrightarrow>
      ''works-with::people'' \<in> set (voc_tags v) \<and> ''works-with::foobar'' \<notin> set (voc_tags v) \<and> (\<forall>t\<in>set (voc_tags v). getfacet t \<noteq> ''nonsense'')"
    by (auto simp: voc_test_tags_def opn step_simps Let_def set_contains_item_def ord facet)
qed

lemma voc_test_empty_passes: "opn ''./empty/novocabularyhere'' = Returned new_vocabulary \<Longrightarrow> voc_test_empty loc opn = Returned ()"
  by (simp add: voc_test_empty_def step_simps hasData_def new_vocabulary_def facets_def voc_tags_def)

lemma voc_tests_defined:
  assumes opn: "opn testfile = Returned v"
  shows "voc_test_has_facet opn \<noteq> Undefined" "voc_test_has_tag opn \<noteq> Undefined" "voc_test_tagdata opn \<noteq> Undefined"
    "voc_test_tags opn \<noteq> Undefined" "voc_test_facetdata loc opn \<noteq> Undefined" "voc_test_missing_facet opn \<noteq> Undefined"
    "voc_test_missing_facet1 loc opn \<noteq> Undefined" "voc_test_one_letter_tag opn \<noteq> Undefined"
    "voc_test_first_last loc opn \<noteq> Undefined" "voc_test_get_all_tags loc opn \<noteq> Undefined"
  unfolding voc_test_has_facet_def voc_test_has_tag_def voc_test_tagdata_def voc_test_tags_def voc_test_facetdata_def
    voc_test_missing_facet_def voc_test_missing_facet1_def voc_test_one_letter_tag_def voc_test_first_last_def voc_test_get_all_tags_def
    opn bind_outcome.simps Let_def run_steps_Undefined run_steps.simps(1)
  by auto

subsection \<open>What the file says\<close>

text \<open>
  A vocabulary file as a list of records, each a list of fields in the order of the file.  A record with a \<open>Facet\<close>
  field describes the facet, and one with only a \<open>Tag\<close> field the tag.  The value of a field is the one in
  the last of the records that has it.  What follows is said of the records alone, without the vocabulary that is made
  of them.
\<close>

type_synonym file_record = "(string \<times> string) list"

definition facet_of :: "file_record \<Rightarrow> string option" where
  "facet_of r = map_of r ''Facet''"

definition tag_of :: "file_record \<Rightarrow> string option" where
  "tag_of r = (if facet_of r = None then map_of r ''Tag'' else None)"

definition file_tags :: "file_record list \<Rightarrow> string set" where
  "file_tags rs = set (List.map_filter tag_of rs)"

text \<open>The part of a tag before the first two colons is its facet; a tag without them is in \<open>legacy\<close>.\<close>

definition in_facet :: "string \<Rightarrow> string \<Rightarrow> bool" where
  "in_facet n t \<longleftrightarrow> (if sublist ''::'' t then prefix (n @ ''::'') t else n = ''legacy'')"

definition file_has_facet :: "file_record list \<Rightarrow> string \<Rightarrow> bool" where
  "file_has_facet rs n \<longleftrightarrow> (\<exists>r\<in>set rs. facet_of r = Some n) \<or> (\<exists>t\<in>file_tags rs. in_facet n t)"

definition last_value :: "(file_record \<Rightarrow> bool) \<Rightarrow> file_record list \<Rightarrow> string \<Rightarrow> string option" where
  "last_value P rs k = (case filter (\<lambda>r. P r \<and> map_of r k \<noteq> None) (rev rs) of [] \<Rightarrow> None | r # _ \<Rightarrow> map_of r k)"

definition tag_description :: "file_record list \<Rightarrow> string \<Rightarrow> string" where
  "tag_description rs t =
     (case last_value (\<lambda>r. tag_of r = Some t) rs ''Description'' of None \<Rightarrow> [] | Some d \<Rightarrow> d)"

definition facet_description :: "file_record list \<Rightarrow> string \<Rightarrow> string" where
  "facet_description rs n =
     (case last_value (\<lambda>r. facet_of r = Some n) rs ''Description'' of None \<Rightarrow> [] | Some d \<Rightarrow> d)"

definition first_line :: "string \<Rightarrow> string" where
  "first_line d = takeWhile (\<lambda>c. c \<noteq> NL) d"

text \<open>What the tests ask of the file.\<close>

definition file_expected :: "file_record list \<Rightarrow> bool" where
  "file_expected rs \<longleftrightarrow>
     {''works-with::people'', ''implemented-in::c'', ''accessibility::TODO'', ''x11::xserver''} \<subseteq> file_tags rs
     \<and> {''works-with::foobar'', ''works-with::blahg''} \<inter> file_tags rs = {}
     \<and> \<not> file_has_facet rs ''blah'' \<and> \<not> file_has_facet rs ''does-not-work-with''
     \<and> (\<forall>t\<in>file_tags rs. \<not> in_facet ''nonsense'' t)
     \<and> file_has_facet rs ''legacy'' \<and> facet_description rs ''legacy'' = []
     \<and> first_line (tag_description rs ''accessibility::TODO'') = ''Need an extra tag''
     \<and> first_line (tag_description rs ''x11::xserver'') = ''X Server''
     \<and> card {t \<in> file_tags rs. in_facet ''accessibility'' t} = 10
     \<and> card {t \<in> file_tags rs. in_facet ''works-with-format'' t} = 33"

subsection \<open>What is read from the file\<close>

lemma last_value_append:
  "last_value P (rs @ [r]) k = (if P r \<and> map_of r k \<noteq> None then map_of r k else last_value P rs k)"
  by (auto simp: last_value_def)

lemma getfacet_in_facet:
  assumes "CHR '':'' \<notin> set n"
  shows "getfacet t = n \<longleftrightarrow> in_facet n t"
proof (cases "find_sub ''::'' t")
  case None
  have found: "find_sub ''::'' (xs @ ''::'' @ ys) \<noteq> None" for xs ys
    by (induction xs) auto
  have "\<not> sublist ''::'' t"
  proof
    assume "sublist ''::'' t"
    then obtain xs ys where "t = xs @ ''::'' @ ys" by (auto simp: sublist_def)
    with None found [of xs ys] show False by simp
  qed
  with None show ?thesis by (auto simp: getfacet_def str_find_0 in_facet_def)
next
  case (Some i)
  then have t: "t = take i t @ ''::'' @ drop (i + 2) t" "i \<le> length t"
    using find_sub_split [OF Some] find_sub_SomeD [OF Some] by simp_all
  then have "sublist ''::'' t" by (metis sublist_appendI)
  moreover have "getfacet t = take i t" using Some by (simp add: getfacet_def str_find_0 substr_def)
  moreover have "take i t = n \<longleftrightarrow> prefix (n @ ''::'') t"
  proof
    assume "take i t = n"
    with t(1) show "prefix (n @ ''::'') t" by (metis append.assoc prefixI)
  next
    assume "prefix (n @ ''::'') t"
    then obtain u where u: "t = n @ ''::'' @ u" by (auto simp: prefix_def)
    have "\<not> i < length n"
    proof
      assume i: "i < length n"
      then have "t ! i = n ! i" by (simp add: u nth_append)
      moreover have "t ! i = CHR '':''" using t by (metis append_Cons nth_append_length length_take min.absorb2)
      ultimately show False using assms i by (metis nth_mem)
    qed
    moreover have "\<not> length n < i" using find_sub_before [OF Some, of "length n"] by (auto simp: u)
    ultimately have "i = length n" by simp
    then show "take i t = n" by (simp add: u)
  qed
  ultimately show ?thesis by (simp add: in_facet_def)
qed

text \<open>No short description has been asked for.\<close>

definition uncached :: "vocabulary \<Rightarrow> bool" where
  "uncached v \<longleftrightarrow> (\<forall>n f. facetData v n = Some f \<longrightarrow> m_desc f = []) \<and> (\<forall>t d. voc_tagData v t = Some d \<longrightarrow> m_desc d = [])"

text \<open>The vocabulary holds what the records say.\<close>

definition holds_file :: "file_record list \<Rightarrow> vocabulary \<Rightarrow> bool" where
  "holds_file rs v \<longleftrightarrow> voc_inv v \<and> uncached v \<and> set (voc_tags v) = file_tags rs
     \<and> (\<forall>n. n \<in> set (facets v) \<longleftrightarrow> (\<exists>r\<in>set rs. facet_of r = Some n) \<or> (\<exists>t\<in>file_tags rs. getfacet t = n))
     \<and> (\<forall>t. tag_field v t ''Description'' = last_value (\<lambda>r. tag_of r = Some t) rs ''Description'')
     \<and> (\<forall>n. facet_field v n ''Description'' = last_value (\<lambda>r. facet_of r = Some n) rs ''Description'')"

lemma file_tags_append: "file_tags (rs @ [r]) = (case tag_of r of None \<Rightarrow> file_tags rs | Some t \<Rightarrow> insert t (file_tags rs))"
  by (auto simp: file_tags_def map_filter_def split: option.split)

lemma uncached_record:
  assumes "voc_inv v" and "uncached v" and "read_record path r (v, log) = Inr (v', log')"
  shows "uncached v'"
proof -
  have f: "m_desc (facet_reg.entry v n) = []" for n
    using assms(2) by (auto simp: uncached_def new_facet_def intro: facet_reg.entry_ind)
  have d: "m_desc (tag_reg.entry (facet_reg.entry v (getfacet t)) t) = []" for t
  proof (rule tag_reg.entry_ind)
    fix e
    assume "facet_tagData (facet_reg.entry v (getfacet t)) t = Some e"
    then have "voc_tagData v t = Some e"
      by (auto simp: facet_reg.entry_def voc_tagData_def facet_tagData_def new_facet_def split: option.splits)
    with assms(2) show "m_desc e = []" by (simp add: uncached_def)
  qed (simp add: new_tag_def)
  have kept: "m_desc (upd_tag g t (facet_obtainTag t e)) = m_desc e" for g t and e :: facet_data
    by (auto simp: upd_tag_def facet_obtainTag_def split: option.split)
  consider (facet) n where "omap_find r ''Facet'' = Some n" | (tag) t where "omap_find r ''Facet'' = None" "omap_find r ''Tag'' = Some t"
    | (none) "omap_find r ''Facet'' = None" "omap_find r ''Tag'' = None" by fastforce
  then show ?thesis
  proof cases
    case facet
    with assms(3) have v': "v' = upd_facet (merge_data ''Facet'' r) n (obtainFacet n v)"
      by (auto simp: read_record_def Let_def split: if_splits)
    have look: "facetData v' m = (if m = n then Some (merge_data ''Facet'' r (facet_reg.entry v n)) else facetData v m)" for m
      by (simp add: v' facet_reg.lookup_changed [OF voc_inv_D(1) [OF assms(1)]])
    then have "voc_tagData v' t = voc_tagData v t" for t
      by (simp add: voc_tagData_def facet_tagData_def facet_reg.entry_def new_facet_def split: option.split)
    with look f assms(2) show ?thesis by (auto simp: uncached_def split: if_splits)
  next
    case tag
    with assms(3) have v': "v' = upd_facet (upd_tag (merge_data ''Tag'' r) t) (getfacet t) (obtainTag t v)"
      by (simp add: read_record_def)
    show ?thesis
      using assms(2) f d by (auto simp: uncached_def v' read_tag_facets [OF assms(1)] read_tag_tags [OF assms(1)] kept split: if_splits)
  next
    case none
    with assms(2,3) show ?thesis by (simp add: read_record_def)
  qed
qed

lemma holds_file_record:
  assumes "holds_file rs v"
  shows "\<exists>v' log'. read_record path (parsed r) (v, log) = Inr (v', log') \<and> holds_file (rs @ [r]) v'"
proof -
  have inv: "voc_inv v" and un: "uncached v" using assms by (simp_all add: holds_file_def)
  consider (facet) n where "facet_of r = Some n" | (tag) t where "facet_of r = None" "tag_of r = Some t"
    | (none) "facet_of r = None" "tag_of r = None" by fastforce
  then show ?thesis
  proof cases
    case facet
    then have "omap_find (parsed r) ''Facet'' = Some n" by (simp add: facet_of_def)
    from read_facet_record_merges [OF inv parsed_find(2) this, of path log] obtain v' where
      read: "read_record path (parsed r) (v, log) = Inr (v', log)" and inv': "voc_inv v'"
      and new: "facets v' = oset_insert n (facets v)" "\<forall>t. voc_tagData v' t = voc_tagData v t"
        "\<forall>m k. facet_field v' m k = (if m = n \<and> k \<noteq> ''Facet'' \<and> omap_find (parsed r) k \<noteq> None then omap_find (parsed r) k else facet_field v m k)"
      by blast
    have "set (voc_tags v') = set (voc_tags v)"
      using new(2) by (auto simp: voc_tags_iff [OF inv] voc_tags_iff [OF inv'])
    moreover have "tag_field v' t k = tag_field v t k" for t k using new(2) by (simp add: tag_field_def)
    moreover have "tag_of r = None" using facet by (simp add: tag_of_def)
    ultimately have "holds_file (rs @ [r]) v'"
      using assms inv' uncached_record [OF inv un read] new(1,3) facet
      by (auto simp: holds_file_def file_tags_append last_value_append simp del: facets_keys)
    with read show ?thesis by blast
  next
    case tag
    then have found: "omap_find (parsed r) ''Facet'' = None" "omap_find (parsed r) ''Tag'' = Some t"
      by (simp_all add: facet_of_def tag_of_def)
    from read_tag_record_merges [OF inv parsed_find(2) this, of path log] obtain v' where
      read: "read_record path (parsed r) (v, log) = Inr (v', log)" and inv': "voc_inv v'"
      and new: "voc_tags v' = oset_insert t (voc_tags v)" "facets v' = oset_insert (getfacet t) (facets v)"
        "\<forall>u k. tag_field v' u k = (if u = t \<and> k \<noteq> ''Tag'' \<and> omap_find (parsed r) k \<noteq> None then omap_find (parsed r) k else tag_field v u k)"
        "\<forall>n k. facet_field v' n k = facet_field v n k"
      by blast
    have "ordered (voc_tags v)" by (simp add: voc_tags_def ordered_insert_tags)
    then have "holds_file (rs @ [r]) v'"
      using assms inv' uncached_record [OF inv un read] new tag
      by (auto simp: holds_file_def file_tags_append last_value_append simp del: facets_keys(1))
    with read show ?thesis by blast
  next
    case none
    then have "omap_find (parsed r) ''Facet'' = None" "omap_find (parsed r) ''Tag'' = None"
      by (simp_all add: facet_of_def tag_of_def)
    then have "read_record path (parsed r) (v, log)
        = Inr (v, log @ [path @ '': Skipping record without Tag or Facet field'' @ [NL]])"
      by (simp add: read_record_def)
    moreover have "holds_file (rs @ [r]) v"
      using assms none by (simp add: holds_file_def file_tags_append last_value_append)
    ultimately show ?thesis by blast
  qed
qed

lemma holds_file_records:
  "holds_file rs0 v \<Longrightarrow> \<exists>v' log'. read_records path rs (v, log) = Inr (v', log') \<and> holds_file (rs0 @ rs) v'"
proof (induction rs arbitrary: rs0 v log)
  case (Cons r rs)
  from holds_file_record [OF Cons.prems, of path r log] obtain v1 log1 where
    "read_record path (parsed r) (v, log) = Inr (v1, log1)" "holds_file (rs0 @ [r]) v1" by blast
  with Cons.IH [of "rs0 @ [r]" v1 log1] show ?case by simp
qed auto

text \<open>Records that can be written to a file, and the file.\<close>

definition file_records_ok :: "file_record list \<Rightarrow> bool" where
  "file_records_ok rs \<longleftrightarrow> (\<forall>r\<in>set rs. r \<noteq> [] \<and> (\<forall>kx\<in>set r. writable_field kx))"

lemma voc_read_file:
  assumes "file_records_ok rs"
  shows "\<exists>v log. voc_read (file_of (concat (map record_text rs))) path new_vocabulary = Some (None, v, log) \<and> holds_file rs v"
proof -
  have "holds_file [] new_vocabulary"
    by (auto simp: holds_file_def uncached_def file_tags_def map_filter_simps last_value_def tag_field_def facet_field_def voc_tagData_def facetData_def
        new_vocabulary_def voc_tags_def facets_def omap_find_def voc_inv_def)
  from holds_file_records [OF this, of path rs "[]"] obtain v log where
    "read_records path rs (new_vocabulary, []) = Inr (v, log)" "holds_file rs v" by auto
  moreover note ok = assms [unfolded file_records_ok_def]
  ultimately show ?thesis
    using read_loop_text [OF ok] open_parser_text [OF starts_record [OF ok]] by (simp add: voc_read_def)
qed

lemma find_line: "(case find_sub [NL] d of None \<Rightarrow> d | Some pos \<Rightarrow> substr d 0 pos) = first_line d"
proof (cases "NL \<in> set d")
  case True
  have "take (length (takeWhile P d)) d = takeWhile P d" for P by (metis takeWhile_eq_take)
  with True show ?thesis by (simp add: find_sub_char first_line_def substr_def)
next
  case False
  then have "first_line d = d" unfolding first_line_def takeWhile_eq_all_conv by auto
  with False show ?thesis by (simp add: find_sub_char)
qed

lemma uncached_short: "m_desc d = [] \<Longrightarrow> fst (shortDescription d) = first_line (longDescription d)"
  using find_line [of "longDescription d"]
  by (auto simp: shortDescription_def Let_def str_find_0 first_line_def)

lemma first_line_Nil [simp]: "first_line [] = []"
  by (simp add: first_line_def)

text \<open>The intermediate specification, on the vocabulary, is the one on the file.\<close>

lemma tests_expect_file:
  assumes "holds_file rs v"
  shows "tests_expect v \<longleftrightarrow> file_expected rs"
proof -
  have inv: "voc_inv v" and tags: "set (voc_tags v) = file_tags rs" using assms by (simp_all add: holds_file_def)
  have colons: "CHR '':'' \<notin> set ''blah''" "CHR '':'' \<notin> set ''does-not-work-with''" "CHR '':'' \<notin> set ''nonsense''"
    "CHR '':'' \<notin> set ''legacy''" "CHR '':'' \<notin> set ''accessibility''" "CHR '':'' \<notin> set ''works-with-format''" by simp_all
  have facet: "n \<in> set (facets v) \<longleftrightarrow> file_has_facet rs n" if "CHR '':'' \<notin> set n" for n
    using assms that by (simp add: holds_file_def file_has_facet_def getfacet_in_facet del: facets_keys)
  have bare: "has_bare_facet v n \<longleftrightarrow> file_has_facet rs n \<and> facet_description rs n = []" if "CHR '':'' \<notin> set n" for n
  proof (cases "facetData v n")
    case None
    then show ?thesis using facet [OF that] by (simp add: has_bare_facet_def facets_iff del: facets_keys)
  next
    case (Some f)
    have "facet_field v n ''Description'' = last_value (\<lambda>r. facet_of r = Some n) rs ''Description''"
      using assms by (simp add: holds_file_def)
    moreover have "facet_field v n ''Description'' = omap_find (entries f) ''Description''" by (simp add: facet_field_def Some)
    ultimately have "longDescription f = facet_description rs n"
      by (simp add: facet_description_def longDescription_def)
    moreover have "m_desc f = []" using assms Some by (auto simp: holds_file_def uncached_def)
    ultimately show ?thesis
      using Some facet [OF that] by (auto simp: has_bare_facet_def uncached_short facets_iff simp del: facets_keys)
  qed
  have described: "has_tag_described v t d \<longleftrightarrow> t \<in> file_tags rs \<and> first_line (tag_description rs t) = d" for t d
  proof (cases "voc_tagData v t")
    case None
    then show ?thesis using voc_tags_iff [OF inv, of t] tags by (simp add: has_tag_described_def)
  next
    case (Some e)
    have "tag_field v t ''Description'' = last_value (\<lambda>r. tag_of r = Some t) rs ''Description''"
      using assms by (simp add: holds_file_def)
    moreover have "tag_field v t ''Description'' = omap_find (entries e) ''Description''" by (simp add: tag_field_def Some)
    ultimately have "longDescription e = tag_description rs t"
      by (simp add: tag_description_def longDescription_def)
    moreover have "m_desc e = []" using assms Some by (auto simp: holds_file_def uncached_def)
    ultimately show ?thesis
      using Some voc_tags_iff [OF inv, of t] tags by (auto simp: has_tag_described_def uncached_short)
  qed
  have count: "length (tags_of_facet v n) = card {t \<in> file_tags rs. in_facet n t}" if "CHR '':'' \<notin> set n" for n
  proof -
    have "ordered (tags_of_facet v n)" by (simp add: tags_of_facet_def split: option.split)
    then have "length (tags_of_facet v n) = card (set (tags_of_facet v n))"
      by (simp add: strict_sorted_iff distinct_card)
    also have "set (tags_of_facet v n) = {t \<in> file_tags rs. in_facet n t}"
      using vocabulary_queries_agree [OF inv, of _ n] tags getfacet_in_facet [OF that] by simp
    finally show ?thesis .
  qed
  have unknown: "{''blah'', ''does-not-work-with''} \<inter> set (facets v) = {}
      \<longleftrightarrow> \<not> file_has_facet rs ''blah'' \<and> \<not> file_has_facet rs ''does-not-work-with''"
    unfolding Int_insert_left facet [OF colons(1)] facet [OF colons(2)] by simp
  have nonsense: "(\<forall>t\<in>file_tags rs. getfacet t \<noteq> ''nonsense'') \<longleftrightarrow> (\<forall>t\<in>file_tags rs. \<not> in_facet ''nonsense'' t)"
    by (simp only: getfacet_in_facet [OF colons(3)])
  show ?thesis
    unfolding tests_expect_def file_expected_def tags described bare [OF colons(4)] count [OF colons(5)] count [OF colons(6)]
      unknown nonsense insert_subset
    by (simp only: empty_subsetI simp_thms conj_ac)
qed

lemma open_voc_file:
  assumes "file_records_ok rs" and "exists testfile" and "fopen testfile = Some (file_of (concat (map record_text rs)))"
  shows "\<exists>v. open_voc exists fopen mtime conv env testfile = Returned v \<and> holds_file rs v"
proof -
  obtain v log where read: "voc_read (file_of (concat (map record_text rs))) testfile new_vocabulary = Some (None, v, log)"
    and v: "holds_file rs v" using voc_read_file [OF assms(1)] by blast
  have "c_str testfile = testfile" by code_simp
  then have "open_voc exists fopen mtime conv env testfile = Returned (v\<lparr>m_timestamp := mtime testfile\<rparr>)"
    using assms(2,3) read by (simp add: open_voc_def system_vocabulary_def voc_load_def voc_pathname_def env_override_def)
  moreover have "holds_file rs (v\<lparr>m_timestamp := mtime testfile\<rparr>)"
    using v by (simp add: holds_file_def voc_inv_def uncached_def voc_tags_def facets_def tag_field_def facet_field_def
        voc_tagData_def facetData_def)
  ultimately show ?thesis by blast
qed

subsection \<open>Running the tests\<close>

text \<open>
  C38: with a file of well-formed records at the place of the vocabulary, which has the facet \<open>works-with\<close>, and none at the
  other place, the tests pass exactly when the records are as they expect.  The file is read into a vocabulary that
  holds what the records say, and the queries give it.  What the tests assert about iterating, the names
  in the data, the tags of a facet and an empty vocabulary asks for nothing of the file.
\<close>

theorem vocabulary_tests_pass_iff:
  fixes w :: 'w
  assumes "file_records_ok rs" and "file_has_facet rs ''works-with''"
    and "exists testfile" and "fopen testfile = Some (file_of (concat (map record_text rs)))"
    and "\<not> exists ''./empty/novocabularyhere''"
  shows "\<exists>code out err. tests_main fnmatch (\<lambda>_. None) [vocabulary_tests loc (open_voc exists fopen mtime conv env)] w
      = (Returned (code, out, err), w) \<and> (code = 0 \<longleftrightarrow> file_expected rs)"
proof -
  define opn where "opn = open_voc exists fopen mtime conv env"
  define bs where "bs =
     [(''load'', voc_test_load opn), (''has_facet'', voc_test_has_facet opn), (''has_tag'', voc_test_has_tag opn),
      (''tagdata'', voc_test_tagdata opn), (''tags'', voc_test_tags opn), (''facetdata'', voc_test_facetdata loc opn),
      (''facettags'', voc_test_facettags opn), (''missing_facet'', voc_test_missing_facet opn),
      (''missing_facet1'', voc_test_missing_facet1 loc opn), (''one_letter_tag'', voc_test_one_letter_tag opn),
      (''iterate_facets'', voc_test_iterate_facets opn), (''iterate_tags'', voc_test_iterate_tags opn),
      (''first_last'', voc_test_first_last loc opn), (''get_all_tags'', voc_test_get_all_tags loc opn), (''empty'', voc_test_empty loc opn)]"
  obtain v where opened: "opn testfile = Returned v" and v: "holds_file rs v"
    unfolding opn_def using open_voc_file [where exists = exists and fopen = fopen, OF assms(1,3,4)] by blast
  then have opn: "opn testfile = Returned v" "voc_inv v" by (simp_all add: holds_file_def)
  have expect: "tests_expect v \<longleftrightarrow> file_expected rs" using v by (rule tests_expect_file)
  have works: "hasFacet v ''works-with''"
    using v assms(2) vocabulary_queries_agree [OF opn(2), of _ "''works-with''"]
    by (simp add: holds_file_def file_has_facet_def getfacet_in_facet del: facets_keys)
  have "opn ''./empty/novocabularyhere'' = Returned new_vocabulary"
    unfolding opn_def by (rule opened_nothing [where exists = exists, OF assms(5)]) simp
  note outcomes = voc_test_outcomes [where opn = opn, OF opn works] voc_test_sets [where opn = opn, OF opn]
    voc_test_empty_passes [where opn = opn, OF this]
  have "\<forall>r\<in>set (map snd bs). r \<noteq> Undefined"
    by (simp add: bs_def voc_tests_defined [where opn = opn, OF opn(1)] outcomes(1,5,9,10,15))
  then have defined: "Undefined \<notin> set (map snd bs)" by blast
  have "(\<forall>b\<in>set bs. snd b = Returned ()) \<longleftrightarrow> tests_expect v"
    unfolding bs_def by (simp add: outcomes tests_expect_def) blast
  moreover have "length bs < 2 ^ 32" by (simp add: bs_def)
  moreover have "vocabulary_tests loc opn = (plain_case ''debtags_vocabulary'' (add_bodies bs) :: 'w test_case)"
    by (simp add: vocabulary_tests_def bs_def)
  ultimately show ?thesis
    using bodies_pass_iff [OF defined, of fnmatch "''debtags_vocabulary''" w] unfolding opn_def expect by simp
qed

text \<open>A file as the tests expect it, with made up names for the tags that they count.\<close>

definition numbered_tags :: "string \<Rightarrow> nat \<Rightarrow> file_record list" where
  "numbered_tags n k = map (\<lambda>i. [(''Tag'', n @ ''::'' @ replicate (Suc i) (CHR ''a''))]) [0..<k]"

definition expected_records :: "file_record list" where
  "expected_records =
     [[(''Facet'', ''works-with''), (''Description'', ''Works with'')],
      [(''Facet'', ''legacy'')],
      [(''Tag'', ''accessibility::TODO''), (''Description'', ''Need an extra tag'' @ [NL] @ ''for accessibility'')],
      [(''Tag'', ''implemented-in::c'')], [(''Tag'', ''works-with::people'')],
      [(''Tag'', ''x11::xserver''), (''Description'', ''X Server'')]]
     @ numbered_tags ''accessibility'' 9 @ numbered_tags ''works-with-format'' 33"

lemma card_file_tags: "card {t \<in> file_tags rs. P t} = length (remdups (filter P (List.map_filter tag_of rs)))"
  unfolding file_tags_def set_filter [symmetric] by (rule length_remdups_card_conv [symmetric])

lemma expected_records_expected: "file_expected expected_records"
proof -
  have "card {t \<in> file_tags expected_records. in_facet ''accessibility'' t} = 10"
    "card {t \<in> file_tags expected_records. in_facet ''works-with-format'' t} = 33"
    unfolding card_file_tags by code_simp+
  moreover have "{''works-with::people'', ''implemented-in::c'', ''accessibility::TODO'', ''x11::xserver''} \<subseteq> file_tags expected_records"
    "{''works-with::foobar'', ''works-with::blahg''} \<inter> file_tags expected_records = {}"
    "\<forall>t\<in>file_tags expected_records. \<not> in_facet ''nonsense'' t" by code_simp+
  moreover have "\<not> file_has_facet expected_records ''blah''" "\<not> file_has_facet expected_records ''does-not-work-with''"
    "file_has_facet expected_records ''legacy''" "facet_description expected_records ''legacy'' = []"
    "first_line (tag_description expected_records ''accessibility::TODO'') = ''Need an extra tag''"
    "first_line (tag_description expected_records ''x11::xserver'') = ''X Server''" by code_simp+
  ultimately show ?thesis unfolding file_expected_def by (intro conjI)
qed

theorem vocabulary_tests_pass_iff_witness:
  "\<exists>out err. tests_main (\<lambda>p s. 1) (\<lambda>_. None)
      [vocabulary_tests (\<lambda>n. \<lparr>fr_file = ''v'', fr_line = n, fr_call = [], fr_info = []\<rparr>)
        (open_voc (\<lambda>p. p = testfile) (\<lambda>p. Some (file_of (concat (map record_text expected_records)))) (\<lambda>p. 7) (\<lambda>e. UnknownException) (\<lambda>_. None))]
      (0 :: nat)
    = (Returned (0, out, err), 0)"
proof -
  have "file_records_ok expected_records" "file_has_facet expected_records ''works-with''" by code_simp+
  moreover have "\<not> ''./empty/novocabularyhere'' = testfile" by code_simp
  ultimately show ?thesis
    using vocabulary_tests_pass_iff [where exists = "\<lambda>p. p = testfile" and rs = expected_records and w = "0 :: nat"]
      expected_records_expected by metis
qed

end
