(* ===== verification/DebtagsTests.thy ===== *)
theory DebtagsTests
  imports UnitTests Databases
begin

section \<open>The unit tests of the tag database (ept/debtags/debtags-test.cc)\<close>

text \<open>
  The tests set \<open>DEBTAGS_TAGS\<close> to a file and make a \<open>Debtags\<close>.  The tag database of the test data is an
  argument; the theorem says that the tests ask it for nothing but the tags of one package.
\<close>

subsection \<open>The tests\<close>

text \<open>
  \<open>EnvOverride eo("DEBTAGS_TAGS", file); Debtags debtags;\<close> with the functions of the file system; \<open>conv\<close> makes the
  exception of an error.  \<open>TEST_ENV_DIR\<close> comes from the build.
\<close>

definition open_tags ::
  "(string \<Rightarrow> access_mode \<Rightarrow> errno option) \<Rightarrow> (string \<Rightarrow> errno + cfile) \<Rightarrow> (string \<Rightarrow> errno + file_stat)
    \<Rightarrow> (debtags_error \<Rightarrow> exn) \<Rightarrow> (string \<Rightarrow> string option) \<Rightarrow> string \<Rightarrow> (exn, debtags) outcome" where
  "open_tags access2 fopen stat2 conv env file =
     (case system_debtags access2 fopen stat2 (snd (env_override ''DEBTAGS_TAGS'' file env)) 0 of
        (Returned _, d, streams) \<Rightarrow> Returned d
      | (Thrown e, d, streams) \<Rightarrow> Thrown (conv e)
      | (Undefined, d, streams) \<Rightarrow> Undefined)"

definition tags_testfile :: "string \<Rightarrow> string" where
  "tags_testfile TEST_ENV_DIR = TEST_ENV_DIR @ ''debtags/package-tags''"

type_synonym open_tags_fun = "string \<Rightarrow> (exn, debtags) outcome"

definition dt_test_iterate :: "string \<Rightarrow> open_tags_fun \<Rightarrow> (exn, unit) outcome" where
  "dt_test_iterate file opn = bind_outcome (opn file) (\<lambda>debtags. run_steps (map (\<lambda>i. Returned ()) (items (tagdb debtags))))"

definition dt_test_lookup_tags :: "(nat \<Rightarrow> frame) \<Rightarrow> string \<Rightarrow> open_tags_fun \<Rightarrow> (exn, unit) outcome" where
  "dt_test_lookup_tags loc file opn = bind_outcome (opn file) (\<lambda>debtags.
     (let tags = getTagsOfItem (tagdb debtags) ''debtags''
      in run_steps
        [wassert_false (loc 38) (tags = []),
         wassert (loc 49) (assert_equal decimal (length tags) 8),
         wassert_true (loc 50) (oset_mem ''devel::buildtools'' tags),
         wassert_true (loc 51) (oset_mem ''implemented-in::c++'' tags),
         wassert_true (loc 52) (oset_mem ''interface::commandline'' tags),
         wassert_true (loc 53) (oset_mem ''role::program'' tags),
         wassert_true (loc 54) (oset_mem ''scope::application'' tags),
         wassert_true (loc 55) (oset_mem ''suite::debian'' tags),
         wassert_true (loc 56) (oset_mem ''use::searching'' tags),
         wassert_true (loc 57) (oset_mem ''works-with::software:package'' tags)]))"

text \<open>\<open>*tags.begin()\<close> of an empty set is undefined.\<close>

definition first_of :: "'a oset \<Rightarrow> ('a \<Rightarrow> (exn, unit) outcome) \<Rightarrow> (exn, unit) outcome" where
  "first_of s k = (case s of [] \<Rightarrow> Undefined | x # _ \<Rightarrow> k x)"

definition dt_test_lookup_packages :: "(nat \<Rightarrow> frame) \<Rightarrow> string \<Rightarrow> open_tags_fun \<Rightarrow> (exn, unit) outcome" where
  "dt_test_lookup_packages loc file opn = bind_outcome (opn file) (\<lambda>debtags.
     (let p = ''debtags''; tags = getTagsOfItem (tagdb debtags) p; packages = getItemsHavingTags (tagdb debtags) tags
      in run_steps
        [wassert_false (loc 70) (tags = []),
         wassert_false (loc 115) (packages = []),
         wassert_true (loc 123) (item_le p packages),
         first_of tags (\<lambda>tag.
           (let ts = oset_insert tag []; packages = getItemsHavingTags (tagdb debtags) ts
            in run_steps
              [wassert_false (loc 138) (packages = []),
               wassert_true (loc 140) (item_le p packages)]))]))"

definition dt_test_empty :: "(nat \<Rightarrow> frame) \<Rightarrow> open_tags_fun \<Rightarrow> (exn, unit) outcome" where
  "dt_test_empty loc opn = bind_outcome (opn ''./empty/notags'') (\<lambda>empty.
     run_steps
        [wassert_true (loc 150) (items (tagdb empty) = []),
         wassert (loc 151) (assert_equal print_int (dt_timestamp empty) 0),
         wassert_false (loc 152) (debtags_hasData empty),
         wassert_true (loc 155) (getTagsOfItem (tagdb empty) ''apt'' = []),
         wassert_true (loc 158) (getAllTags (tagdb empty) = [])])"

definition debtags_tests :: "(nat \<Rightarrow> frame) \<Rightarrow> string \<Rightarrow> open_tags_fun \<Rightarrow> 'w test_case" where
  "debtags_tests loc file opn = plain_case ''debtags'' (add_bodies
     [(''iterate'', dt_test_iterate file opn),
      (''lookup_tags'', dt_test_lookup_tags loc file opn),
      (''lookup_packages'', dt_test_lookup_packages loc file opn),
      (''empty'', dt_test_empty loc opn)])"

subsection \<open>What the tests ask for\<close>

definition debtags_own_tags :: "string oset" where
  "debtags_own_tags = [''devel::buildtools'', ''implemented-in::c++'', ''interface::commandline'', ''role::program'',
     ''scope::application'', ''suite::debian'', ''use::searching'', ''works-with::software:package'']"

lemma debtags_own_tags_ok: "ordered debtags_own_tags" "length debtags_own_tags = 8"
  by code_simp+

lemma dt_opened:
  assumes "open_tags access2 fopen stat2 conv env file = Returned d"
  shows "fast_inv (tagdb d)"
proof -
  have new: "fast_inv (tagdb new_debtags)" by (simp add: new_debtags_def)
  have "fast_inv (tagdb d')" if "debtags_load fopen stat2 p new_debtags n = (r, d', m)" for p n r d' m
    using that
  proof (cases rule: debtags_load_cases)
    case (parsed input err)
    from parse_keeps [OF new parsed(2)] show ?thesis by blast
  qed (simp add: new)
  with assms new show ?thesis
    by (auto simp: open_tags_def system_debtags_def Let_def split: if_splits outcome.splits prod.splits)
qed

lemma dt_opened_nothing:
  assumes "\<not> sys_exists access2 file" and "NUL \<notin> set file"
  shows "open_tags access2 fopen stat2 conv env file = Returned new_debtags"
proof -
  have "c_str file = file" using assms(2) by (auto simp: c_str_def takeWhile_eq_all_conv)
  with assms(1) show ?thesis
    by (simp add: open_tags_def system_debtags_def debtags_pathname_def env_override_def)
qed

lemma eight_tags:
  assumes "ordered s"
  shows "length s = 8 \<and> set debtags_own_tags \<subseteq> set s \<longleftrightarrow> s = debtags_own_tags"
proof
  assume s: "length s = 8 \<and> set debtags_own_tags \<subseteq> set s"
  have "card (set s) = card (set debtags_own_tags)"
    using s debtags_own_tags_ok ordered_distinct [OF assms] ordered_distinct [OF debtags_own_tags_ok(1)]
    by (simp add: distinct_card)
  with s have "set debtags_own_tags = set s" by (intro card_subset_eq) auto
  then show "s = debtags_own_tags" using ordered_unique [OF assms debtags_own_tags_ok(1)] by simp
qed (simp add: debtags_own_tags_ok)

lemma dt_lookup_tags:
  assumes "opn file = Returned d" and "fast_inv (tagdb d)"
  shows "dt_test_lookup_tags loc file opn = Returned () \<longleftrightarrow> getTagsOfItem (tagdb d) ''debtags'' = debtags_own_tags"
proof -
  have "dt_test_lookup_tags loc file opn = Returned () \<longleftrightarrow>
      length (getTagsOfItem (tagdb d) ''debtags'') = 8 \<and> set debtags_own_tags \<subseteq> set (getTagsOfItem (tagdb d) ''debtags'')"
    by (auto simp: dt_test_lookup_tags_def assms(1) step_simps Let_def debtags_own_tags_def)
  with eight_tags [OF ordered_getTagsOfItem [OF assms(2)]] show ?thesis by simp
qed

text \<open>Every collection answers the queries of \<open>lookup_packages\<close> as the test expects, if the package has a tag.\<close>

lemma dt_lookup_packages:
  assumes "opn file = Returned d" and inv: "fast_inv (tagdb d)"
  shows "dt_test_lookup_packages loc file opn = Returned () \<longleftrightarrow> getTagsOfItem (tagdb d) ''debtags'' \<noteq> []"
proof (cases "getTagsOfItem (tagdb d) ''debtags''")
  case Nil
  then show ?thesis by (simp add: dt_test_lookup_packages_def assms(1) step_simps Let_def del: run_steps.simps)
next
  case (Cons t ts)
  have own: "(''debtags'', u) \<in> tagging (tagdb d)" if "u \<in> set (t # ts)" for u
    using that set_getTagsOfItem [of "tagdb d" "''debtags''"] unfolding Cons by blast
  have "''debtags'' \<in> set (getItemsHavingTags (tagdb d) us)" if "us \<noteq> []" "set us \<subseteq> set (t # ts)" for us
    using getItemsHavingTags_ok(2) [OF inv, of us] that own by auto
  from this [of "t # ts"] this [of "[t]"] show ?thesis
    unfolding dt_test_lookup_packages_def assms(1) bind_outcome.simps Let_def Cons first_of_def step_simps item_le_def
    by (auto simp: step_simps)
qed

lemma dt_empty_passes: "opn ''./empty/notags'' = Returned new_debtags \<Longrightarrow> dt_test_empty loc opn = Returned ()"
  by (simp add: dt_test_empty_def step_simps new_debtags_def fast_empty_def debtags_hasData_def getTagsOfItem_def getAllTags_def)

lemma dt_tests_defined:
  assumes "opn file = Returned d"
  shows "dt_test_iterate file opn = Returned ()" "dt_test_lookup_tags loc file opn \<noteq> Undefined"
    "dt_test_lookup_packages loc file opn \<noteq> Undefined"
  unfolding dt_test_iterate_def dt_test_lookup_tags_def dt_test_lookup_packages_def assms bind_outcome.simps Let_def
    run_steps_Undefined run_steps.simps(1)
  by (auto simp: step_simps wassert_true_Returned first_of_def run_steps_Undefined simp del: run_steps.simps(2) split: list.split)

text \<open>
  with a tag database that loads and none at the other place, the tests pass exactly when the package
  \<open>debtags\<close> has the eight tags in it; what they assert about its items and the empty collection holds for
  every database.
\<close>

theorem debtags_tests_pass_iff:
  fixes w :: 'w
  assumes "open_tags access2 fopen stat2 conv env (tags_testfile dir) = Returned d" and "\<not> sys_exists access2 ''./empty/notags''"
  shows "\<exists>code out err. tests_main fnmatch (\<lambda>_. None)
      [debtags_tests loc (tags_testfile dir) (open_tags access2 fopen stat2 conv env)] w
      = (Returned (code, out, err), w) \<and> (code = 0 \<longleftrightarrow> {t. (''debtags'', t) \<in> tagging (tagdb d)} = set debtags_own_tags)"
proof -
  define opn where "opn = open_tags access2 fopen stat2 conv env"
  define tagfile where "tagfile = tags_testfile dir"
  define bs where "bs = [(''iterate'', dt_test_iterate tagfile opn), (''lookup_tags'', dt_test_lookup_tags loc tagfile opn),
      (''lookup_packages'', dt_test_lookup_packages loc tagfile opn), (''empty'', dt_test_empty loc opn)]"
  have opn: "opn tagfile = Returned d" and inv: "fast_inv (tagdb d)" using assms(1) dt_opened by (simp_all add: opn_def tagfile_def)
  have "opn ''./empty/notags'' = Returned new_debtags"
    unfolding opn_def by (rule dt_opened_nothing) (use assms(2) in simp_all)
  note empty = dt_empty_passes [where opn = opn, OF this]
  note defined = dt_tests_defined [where opn = opn, OF opn]
  have "\<forall>r\<in>set (map snd bs). r \<noteq> Undefined" by (simp add: bs_def defined empty)
  then have "Undefined \<notin> set (map snd bs)" by blast
  moreover have "length bs < 2 ^ 32" by (simp add: bs_def)
  ultimately have run: "\<exists>code out err. tests_main fnmatch (\<lambda>_. None) [plain_case ''debtags'' (add_bodies bs)] w = (Returned (code, out, err), w)
      \<and> (code = 0 \<longleftrightarrow> (\<forall>b\<in>set bs. snd b = Returned ()))" by (rule bodies_pass_iff)
  have "debtags_own_tags \<noteq> []" by (simp add: debtags_own_tags_def)
  moreover have "(\<forall>b\<in>set bs. snd b = Returned ()) \<longleftrightarrow> getTagsOfItem (tagdb d) ''debtags'' = debtags_own_tags
      \<and> getTagsOfItem (tagdb d) ''debtags'' \<noteq> []"
    by (simp add: bs_def defined(1) empty dt_lookup_tags [where opn = opn, OF opn inv] dt_lookup_packages [where opn = opn, OF opn inv])
  moreover have "getTagsOfItem (tagdb d) ''debtags'' = debtags_own_tags
      \<longleftrightarrow> {t. (''debtags'', t) \<in> tagging (tagdb d)} = set debtags_own_tags"
    unfolding ordered_set_eq [OF ordered_getTagsOfItem [OF inv] debtags_own_tags_ok(1), symmetric] set_getTagsOfItem ..
  ultimately have passes: "(\<forall>b\<in>set bs. snd b = Returned ()) \<longleftrightarrow> {t. (''debtags'', t) \<in> tagging (tagdb d)} = set debtags_own_tags"
    by metis
  have "debtags_tests loc tagfile opn = (plain_case ''debtags'' (add_bodies bs) :: 'w test_case)" by (simp add: debtags_tests_def bs_def)
  with run show ?thesis unfolding passes opn_def tagfile_def by simp
qed

theorem debtags_tests_pass_iff_witness:
  "\<exists>code out err. tests_main (\<lambda>p s. 1) (\<lambda>_. None)
      [debtags_tests (\<lambda>n. \<lparr>fr_file = ''d'', fr_line = n, fr_call = [], fr_info = []\<rparr>) (tags_testfile ''./'')
        (open_tags (\<lambda>p m. if p = tags_testfile ''./'' then None else Some ENOENT)
          (\<lambda>p. Inr (file_of (render_line ([''debtags''], debtags_own_tags)))) (\<lambda>p. Inl ENOENT) (\<lambda>e. UnknownException) (\<lambda>_. None))] (0 :: nat)
    = (Returned (code, out, err), 0) \<and> code = 0"
proof -
  let ?access = "\<lambda>p (m :: access_mode). if p = tags_testfile ''./'' then None else Some ENOENT"
  let ?fopen = "\<lambda>p. Inr (file_of (render_line ([''debtags''], debtags_own_tags))) :: errno + cfile"
  have "line_ok ([''debtags''], debtags_own_tags)" by code_simp
  then obtain out where "parse (file_of (concat (map render_line [([''debtags''], debtags_own_tags)]))) fast_empty = (out, None)"
    "tagging out = {''debtags''} \<times> set debtags_own_tags"
    using parse_rendered [OF _ fast_empty_ok(1), of "[([''debtags''], debtags_own_tags)]"] by auto
  moreover have "c_str (tags_testfile ''./'') = tags_testfile ''./''" by code_simp
  ultimately have opened: "open_tags ?access ?fopen (\<lambda>p. Inl ENOENT) (\<lambda>e. UnknownException) (\<lambda>_. None) (tags_testfile ''./'')
      = Returned \<lparr>tagdb = out, dt_timestamp = 0\<rparr>"
    by (simp add: open_tags_def system_debtags_def debtags_pathname_def env_override_def sys_exists_def sys_access_def debtags_load_def
        new_debtags_def timestamp_or_def sys_stat_def Let_def)
  have tags: "{t. (''debtags'', t) \<in> tagging out} = set debtags_own_tags"
    using \<open>tagging out = {''debtags''} \<times> set debtags_own_tags\<close> by simp
  have none: "\<not> sys_exists ?access ''./empty/notags''" by (simp add: sys_exists_def sys_access_def tags_testfile_def)
  show ?thesis
    using debtags_tests_pass_iff [OF opened none, of "\<lambda>p s. 1" "\<lambda>n. \<lparr>fr_file = ''d'', fr_line = n, fr_call = [], fr_info = []\<rparr>" "0 :: nat"]
      tags by (metis debtags.select_convs(1))
qed

end
