(* ===== verification/AptTests.thy ===== *)
theory AptTests
  imports UnitTests Databases AptIterators SysDirs
begin

section \<open>The unit tests of the apt cache and the index (ept/apt/apt-test.cc, ept/axi/axi-test.cc)\<close>

text \<open>
  The tests of \<open>Apt\<close> on the cache of the test data, which is an argument with the functions of libapt: the
  tables, what happens when the cache is opened, the files, and how \<open>std::sort\<close> sorts.  The theorem
  says which facts about the cache the tests ask for.
\<close>

subsection \<open>The object under test\<close>

text \<open>
  What a test runs on; \<open>ts_conv\<close> makes the exception of an error, \<open>ts_junk\<close> and \<open>ts_addr\<close> are what the uninitialised
  member of a new \<open>RecordIteratorImpl\<close> holds and its address.  \<open>ts_again\<close> has the tables that libapt gives when the cache is
  opened a second time.
\<close>

record 'fd apt_setup =
  ts_apt :: libapt
  ts_again :: libapt
  ts_env :: apt_env
  ts_io :: "'fd filefd"
  ts_srt :: "(ver_file \<Rightarrow> ver_file \<Rightarrow> bool) \<Rightarrow> ver_file list \<Rightarrow> ver_file list"
  ts_conv :: "apt_error \<Rightarrow> exn"
  ts_junk :: nat
  ts_addr :: nat

text \<open>\<open>AptTestEnvironment\<close> sets \<open>Initialized\<close> in the configuration, so that \<open>aptInit\<close> leaves it as the test has set it.\<close>

definition test_environment :: bool where
  "test_environment = True"

text \<open>The exceptions of the code under test, in the test.\<close>

definition called :: "'fd apt_setup \<Rightarrow> (apt_error, 'a) outcome \<Rightarrow> (exn, 'a) outcome" where
  "called s r = (case r of Returned a \<Rightarrow> Returned a | Thrown e \<Rightarrow> Thrown (ts_conv s e) | Undefined \<Rightarrow> Undefined)"

text \<open>
  \<open>AptTestEnvironment env; Apt apt;\<close> and what follows, which gives its result and the pointer that it leaves;
  the destructor of \<open>apt\<close> deletes that, also when the test throws.
\<close>

definition with_apt_ptr :: "'fd apt_setup \<Rightarrow> (apt_ptr \<Rightarrow> (exn, unit) outcome \<times> apt_ptr) \<Rightarrow> (exn, unit) outcome" where
  "with_apt_ptr s body =
     (case apt_construct (ts_env s) test_environment of
        (Thrown e, ini, lost) \<Rightarrow> Thrown (ts_conv s e)
      | (Undefined, ini, lost) \<Rightarrow> Undefined
      | (Returned impl, ini, lost) \<Rightarrow>
          (let (r, p) = body (Live impl)
           in case fst (apt_destroy p) of Returned _ \<Rightarrow> r | Thrown e \<Rightarrow> Thrown (ts_conv s e) | Undefined \<Rightarrow> Undefined))"

definition with_apt :: "'fd apt_setup \<Rightarrow> (exn, unit) outcome \<Rightarrow> (exn, unit) outcome" where
  "with_apt s body = with_apt_ptr s (\<lambda>p. (body, p))"

definition missing_package :: string where
  "missing_package = ''this-package-does-not-really-exists''"

subsection \<open>The tests of packages\<close>

text \<open>The loop \<open>for (; i != apt.end(); ++i) ++count;\<close>\<close>

function count_loop :: "libapt \<Rightarrow> nat list option \<Rightarrow> nat \<Rightarrow> (apt_error, nat) outcome" where
  "count_loop apt i k =
     (if iter_neq i apt_end then
        (case iter_next apt i of
           Returned i' \<Rightarrow> count_loop apt i' (k + 1)
         | Thrown e \<Rightarrow> Thrown e
         | Undefined \<Rightarrow> Undefined)
      else Returned k)"
  by pat_completeness auto
termination
proof (relation "measure (\<lambda>(apt, i, k). case i of None \<Rightarrow> 0 | Some ps \<Rightarrow> Suc (length ps))", goal_cases)
  case (2 apt i k i')
  then obtain p ps where i: "i = Some (p # ps)"
    by (cases "(apt, i)" rule: iter_next.cases) auto
  with 2 skip_versionless_length [of apt ps] show ?case
    by (auto simp: Let_def split: if_splits option.splits)
qed simp

declare count_loop.simps [simp del]

definition apt_test_iterators :: "(nat \<Rightarrow> frame) \<Rightarrow> 'fd apt_setup \<Rightarrow> (exn, unit) outcome" where
  "apt_test_iterators loc s = with_apt s
     (let i = apt_begin (ts_apt s)
      in run_steps
        [wassert_true (loc 39) (iter_neq i apt_end),
         bind_outcome (called s (count_loop (ts_apt s) i 0)) (\<lambda>count. wassert_true (loc 45) (100 < count))])"

definition apt_test_apt_exists :: "(nat \<Rightarrow> frame) \<Rightarrow> 'fd apt_setup \<Rightarrow> (exn, unit) outcome" where
  "apt_test_apt_exists loc s = with_apt s
     (bind_outcome (called s (iterate (ts_apt s) (apt_begin (ts_apt s)) [])) (\<lambda>names.
        (let packages = oset_of_list names
         in run_steps
           [wassert_true (loc 56) (oset_mem ''libsp1'' packages),
            wassert_true (loc 60) (\<not> oset_mem [] packages)])))"

definition apt_test_timestamp :: "(nat \<Rightarrow> frame) \<Rightarrow> 'fd apt_setup \<Rightarrow> (exn, unit) outcome" where
  "apt_test_timestamp loc s = with_apt s
     (bind_outcome (called s (aptTimestamp (ts_env s))) (\<lambda>ts. wassert_true (loc 68) (1000000 < ts)))"

definition apt_test_validity :: "(nat \<Rightarrow> frame) \<Rightarrow> 'fd apt_setup \<Rightarrow> (exn, unit) outcome" where
  "apt_test_validity loc s = with_apt s (run_steps
     [wassert_true (loc 75) (apt_isValid (ts_apt s) ''apt''),
      wassert_true (loc 76) (\<not> apt_isValid (ts_apt s) missing_package)])"

definition version_check :: "frame \<Rightarrow> 'fd apt_setup \<Rightarrow> (version \<Rightarrow> bool) \<Rightarrow> (apt_error, version) outcome \<Rightarrow> (exn, unit) outcome" where
  "version_check fr s P r = bind_outcome (called s r) (\<lambda>ver. wassert_true fr (P ver))"

definition apt_test_versions :: "(nat \<Rightarrow> frame) \<Rightarrow> 'fd apt_setup \<Rightarrow> (exn, unit) outcome" where
  "apt_test_versions loc s = with_apt s
     (let apt = ts_apt s; pkg = ''apt''; pkg1 = missing_package
      in run_steps
        [version_check (loc 85) s version_isValid (candidateVersion apt pkg),
         version_check (loc 88) s version_isValid (installedVersion apt pkg),
         version_check (loc 91) s version_isValid (anyVersion apt pkg),
         version_check (loc 95) s (\<lambda>ver. \<not> version_isValid ver) (candidateVersion apt pkg1),
         version_check (loc 98) s (\<lambda>ver. \<not> version_isValid ver) (installedVersion apt pkg1),
         version_check (loc 101) s (\<lambda>ver. \<not> version_isValid ver) (anyVersion apt pkg1)])"

definition apt_test_version_validity :: "(nat \<Rightarrow> frame) \<Rightarrow> 'fd apt_setup \<Rightarrow> (exn, unit) outcome" where
  "apt_test_version_validity loc s = with_apt s
     (let apt = ts_apt s
      in run_steps
        [version_check (loc 109) s (\<lambda>ver. version_eq (apt_validate apt ver) ver) (candidateVersion apt ''apt''),
         wassert_true (loc 112) (\<not> version_isValid (apt_validate apt (new_version missing_package ''0.1''))),
         wassert_true (loc 115) (\<not> version_isValid (apt_validate apt (new_version ''apt'' ''0.31415'')))])"

definition apt_test_raw_record :: "(nat \<Rightarrow> frame) \<Rightarrow> 'fd apt_setup \<Rightarrow> (exn, unit) outcome" where
  "apt_test_raw_record loc s = with_apt s
     (let apt = ts_apt s; pkg = ''sp''; raw = rawRecord apt (ts_io s) False (pending (ts_env s))
      in bind_outcome (called s (candidateVersion apt pkg)) (\<lambda>ver. run_steps
        [wassert_true (loc 124) (version_isValid ver),
         wassert_true (loc 125) (version_eq (apt_validate apt ver) ver),
         bind_outcome (called s (raw ver)) (\<lambda>record. run_steps
           [wassert_true (loc 128) (str_find record ''Package: sp'' 0 \<noteq> None),
            wassert_true (loc 129) (str_find record ''Section: text'' 0 \<noteq> None)]),
         bind_outcome (called s (raw (new_version ''sp'' ''0.31415''))) (\<lambda>record. wassert (loc 132) (assert_equal same record [])),
         wassert (loc 134) (bind_outcome (called s (rawRecord_name apt (ts_io s) False (pending (ts_env s)) pkg)) (\<lambda>r1.
           bind_outcome (called s (bind_outcome (anyVersion apt pkg) raw)) (\<lambda>r2. assert_equal same r1 r2)))]))"

definition apt_test_state :: "(nat \<Rightarrow> frame) \<Rightarrow> 'fd apt_setup \<Rightarrow> (exn, unit) outcome" where
  "apt_test_state loc s = with_apt_ptr s (\<lambda>p.
     (let (r1, p1) = apt_state (ts_apt s) (ts_env s) ''kdenetwork'' p
      in case called s r1 of
        Thrown e \<Rightarrow> (Thrown e, p1)
      | Undefined \<Rightarrow> (Undefined, p1)
      | Returned st \<Rightarrow>
          (case run_steps [wassert_true (loc 142) (ps_isValid st), wassert_true (loc 143) (ps_isInstalled st)] of
             Thrown e \<Rightarrow> (Thrown e, p1)
           | Undefined \<Rightarrow> (Undefined, p1)
           | Returned _ \<Rightarrow>
               (let (r2, p2) = apt_state (ts_apt s) (ts_env s) missing_package p1
                in (bind_outcome (called s r2) (\<lambda>st. wassert_true (loc 146) (\<not> ps_isValid st)), p2)))))"

definition apt_test_stl_iteration :: "'fd apt_setup \<Rightarrow> (exn, unit) outcome" where
  "apt_test_stl_iteration s = with_apt s
     (bind_outcome (called s (iterate (ts_apt s) (apt_begin (ts_apt s)) [])) (\<lambda>names. Returned ()))"

text \<open>\<open>checkCacheUpdates\<close> in the test, with the tables that are in use after it: a pointer that has changed is a cache that has been opened again.\<close>

definition check_updates :: "'fd apt_setup \<Rightarrow> bool \<times> libapt \<times> apt_ptr \<Rightarrow> (exn, unit) outcome \<times> bool \<times> libapt \<times> apt_ptr" where
  "check_updates s = (\<lambda>(ini, apt, p).
     (let (r, ini', p') = checkCacheUpdates (ts_env s) ini p
      in (called s r, ini', if p' = p then apt else ts_again s, p')))"

definition apt_test_check_updates :: "(nat \<Rightarrow> frame) \<Rightarrow> 'fd apt_setup \<Rightarrow> (exn, unit) outcome" where
  "apt_test_check_updates loc s = with_apt_ptr s (\<lambda>p.
     (let valid = (\<lambda>n apt. wassert_true (loc n) (apt_isValid apt ''apt''))
      in case valid 199 (ts_apt s) of
        Thrown e \<Rightarrow> (Thrown e, p)
      | Undefined \<Rightarrow> (Undefined, p)
      | Returned _ \<Rightarrow>
          (case check_updates s (test_environment, ts_apt s, p) of
             (Thrown e, ini, apt1, p1) \<Rightarrow> (Thrown e, p1)
           | (Undefined, ini, apt1, p1) \<Rightarrow> (Undefined, p1)
           | (Returned _, ini, apt1, p1) \<Rightarrow>
               (case valid 201 apt1 of
                  Thrown e \<Rightarrow> (Thrown e, p1)
                | Undefined \<Rightarrow> (Undefined, p1)
                | Returned _ \<Rightarrow>
                    (case invalidateTimestamp p1 of
                       (Thrown e, p2) \<Rightarrow> (Thrown (ts_conv s e), p2)
                     | (Undefined, p2) \<Rightarrow> (Undefined, p2)
                     | (Returned _, p2) \<Rightarrow>
                         (case check_updates s (ini, apt1, p2) of
                            (Thrown e, ini, apt3, p3) \<Rightarrow> (Thrown e, p3)
                          | (Undefined, ini, apt3, p3) \<Rightarrow> (Undefined, p3)
                          | (Returned _, ini, apt3, p3) \<Rightarrow> (valid 204 apt3, p3)))))))"

subsection \<open>The tests of records\<close>

text \<open>
  How a test reads the current record: \<open>*i\<close> and \<open>i->\<close>, with the iterator and the heap that the call leaves, and
  an assertion on what has been read, all of it inside \<open>wassert\<close>.
\<close>

type_synonym 'fd reader = "riter \<Rightarrow> 'fd rheap \<Rightarrow> (apt_error, string) outcome \<times> riter \<times> 'fd rheap"

definition read_star :: "'fd apt_setup \<Rightarrow> 'fd reader" where
  "read_star s = riter_get (ts_io s) (ts_apt s) (pending (ts_env s))"

definition read_arrow :: "'fd apt_setup \<Rightarrow> 'fd reader" where
  "read_arrow s i h =
     (let (r, i1, h1) = riter_arrow (ts_io s) (ts_apt s) (pending (ts_env s)) i h
      in (bind_outcome r (\<lambda>_. Returned (it_cur i1)), i1, h1))"

definition record_assert ::
  "'fd apt_setup \<Rightarrow> 'fd reader \<Rightarrow> frame \<Rightarrow> (string \<Rightarrow> (exn, unit) outcome) \<Rightarrow> riter \<Rightarrow> 'fd rheap \<Rightarrow> (exn, unit) outcome \<times> riter \<times> 'fd rheap" where
  "record_assert s rd fr check i h =
     (let (r, i1, h1) = rd i h in (wassert fr (bind_outcome (called s r) check), i1, h1))"

text \<open>The loop with its two assertions; the frames are those of the two lines.\<close>

partial_function (option) records_loop ::
  "'fd apt_setup \<Rightarrow> 'fd reader \<Rightarrow> frame \<Rightarrow> frame \<Rightarrow> riter \<Rightarrow> 'fd rheap \<Rightarrow> nat \<Rightarrow> (exn, nat) outcome option" where
  "records_loop s rd f1 f2 i h k =
     (if riter_neq i recordEnd then
        (case record_assert s rd f1 (\<lambda>r. assert_true print_bool (8 < length r)) i h of
           (Thrown e, i1, h1) \<Rightarrow> Some (Thrown e)
         | (Undefined, i1, h1) \<Rightarrow> Some Undefined
         | (Returned _, i1, h1) \<Rightarrow>
             (case record_assert s rd f2 (\<lambda>r. assert_equal same (substr r 0 8) ''Package:'') i1 h1 of
                (Thrown e, i2, h2) \<Rightarrow> Some (Thrown e)
              | (Undefined, i2, h2) \<Rightarrow> Some Undefined
              | (Returned _, i2, h2) \<Rightarrow>
                  (case riter_incr i2 h2 of
                     Thrown e \<Rightarrow> Some (Thrown (ts_conv s e))
                   | Undefined \<Rightarrow> Some Undefined
                   | Returned (i3, h3) \<Rightarrow> records_loop s rd f1 f2 i3 h3 (k + 1))))
      else Some (Returned k))"

text \<open>A test that never ends has no result.\<close>

definition ends_with :: "('e, 'a) outcome option \<Rightarrow> ('e, 'a) outcome" where
  "ends_with r = (case r of None \<Rightarrow> Undefined | Some x \<Rightarrow> x)"

definition record_begin :: "'fd apt_setup \<Rightarrow> (exn, riter \<times> 'fd rheap) outcome" where
  "record_begin s =
     (let (r, h) = recordBegin (ts_srt s) (ts_io s) (ts_apt s) (pending (ts_env s)) (ts_junk s) (ts_addr s) Map.empty
      in bind_outcome (called s r) (\<lambda>i. Returned (i, h)))"

definition apt_test_records :: "'fd reader \<Rightarrow> frame \<Rightarrow> frame \<Rightarrow> frame \<Rightarrow> 'fd apt_setup \<Rightarrow> (exn, unit) outcome" where
  "apt_test_records rd f1 f2 f3 s = with_apt s
     (bind_outcome (record_begin s) (\<lambda>(i, h).
        bind_outcome (ends_with (records_loop s rd f1 f2 i h 0)) (\<lambda>k. wassert_true f3 (200 < k))))"

definition apt_test_record_iteration :: "(nat \<Rightarrow> frame) \<Rightarrow> 'fd apt_setup \<Rightarrow> (exn, unit) outcome" where
  "apt_test_record_iteration loc s = apt_test_records (read_star s) (loc 157) (loc 158) (loc 161) s"

definition apt_test_record_iteration2 :: "(nat \<Rightarrow> frame) \<Rightarrow> 'fd apt_setup \<Rightarrow> (exn, unit) outcome" where
  "apt_test_record_iteration2 loc s = apt_test_records (read_arrow s) (loc 172) (loc 173) (loc 176) s"

definition apt_test_stl_record_iteration :: "'fd apt_setup \<Rightarrow> (exn, unit) outcome" where
  "apt_test_stl_record_iteration s = with_apt s
     (bind_outcome (record_begin s) (\<lambda>(i, h).
        bind_outcome (called s (ends_with (map_option fst (record_walk (ts_io s) (ts_apt s) (pending (ts_env s)) i h [])))) (\<lambda>out.
          Returned ())))"

definition apt_tests :: "(nat \<Rightarrow> frame) \<Rightarrow> 'fd apt_setup \<Rightarrow> 'w test_case" where
  "apt_tests loc s = plain_case ''apt_apt'' (add_bodies
     [(''iterators'', apt_test_iterators loc s),
      (''apt_exists'', apt_test_apt_exists loc s),
      (''timestamp'', apt_test_timestamp loc s),
      (''validity'', apt_test_validity loc s),
      (''versions'', apt_test_versions loc s),
      (''version_validity'', apt_test_version_validity loc s),
      (''raw_record'', apt_test_raw_record loc s),
      (''state'', apt_test_state loc s),
      (''record_iteration'', apt_test_record_iteration loc s),
      (''record_iteration2'', apt_test_record_iteration2 loc s),
      (''stl_iteration'', apt_test_stl_iteration s),
      (''stl_record_iteration'', apt_test_stl_record_iteration s),
      (''check_updates'', apt_test_check_updates loc s)])"

section \<open>What the tests ask for\<close>

lemma called_simps [simp]: "called s (Returned a) = Returned a" "called s (Thrown e) = Thrown (ts_conv s e)" "called s Undefined = Undefined"
  by (simp_all add: called_def)

lemma called_iff: "called s r = Returned a \<longleftrightarrow> r = Returned a" "called s r = Undefined \<longleftrightarrow> r = Undefined"
  by (cases r; simp)+

lemma bind_Undefined: "bind_outcome r f = Undefined \<longleftrightarrow> r = Undefined \<or> (\<exists>a. r = Returned a \<and> f a = Undefined)"
  by (cases r) auto

lemma wassert_true_True [simp]: "wassert_true fr True = Returned ()"
  by (simp add: wassert_true_Returned)

lemma wassert_true_False: "\<exists>e. wassert_true fr False = Thrown e"
  using wassert_true_Returned(1) [of fr False] assertions_defined(4) [of fr False] by (cases "wassert_true fr False") auto

lemma wassert_Undefined [simp]: "wassert fr r = Undefined \<longleftrightarrow> r = Undefined" "assert_equal sh a e \<noteq> Undefined"
  by (auto simp: wassert_def assert_equal_def assert_that_def split: outcome.split exn.split)

text \<open>The cache opens for the test, and opens again.\<close>

definition cache_opens :: "'fd apt_setup \<Rightarrow> apt_impl \<Rightarrow> bool" where
  "cache_opens s impl \<longleftrightarrow> fst (apt_construct (ts_env s) test_environment) = Returned impl"

lemma cache_opens_D:
  assumes "cache_opens s impl"
  obtains lost where "apt_construct (ts_env s) test_environment = (Returned impl, test_environment, lost)"
    and "m_depcache impl = None" and "aptTimestamp (ts_env s) = Returned (m_open_timestamp impl)"
  using assms
  by (auto simp: cache_opens_def apt_construct_def aptInit_def test_environment_def Let_def split: outcome.splits if_splits)

lemma with_apt_opened: "cache_opens s impl \<Longrightarrow> with_apt s body = body"
  by (auto simp: with_apt_def with_apt_ptr_def apt_destroy_def elim!: cache_opens_D)

lemma with_apt_ptr_opened: "cache_opens s impl \<Longrightarrow> body (Live impl) = (r, Live q) \<Longrightarrow> with_apt_ptr s body = r"
  by (auto simp: with_apt_ptr_def apt_destroy_def elim!: cache_opens_D)

subsection \<open>Packages and versions\<close>

definition package_names :: "libapt \<Rightarrow> string list" where
  "package_names apt = (case PkgBegin apt of [] \<Rightarrow> []
     | p # ps \<Rightarrow> map (PkgName apt) (p # filter (\<lambda>q. VersionList apt q \<noteq> []) ps))"

lemma count_loop_iterate:
  "count_loop apt i k = (case iterate apt i names of
      Returned ns \<Rightarrow> Returned (k + length ns - length names) | Thrown e \<Rightarrow> Thrown e | Undefined \<Rightarrow> Undefined)"
proof (induction apt i names arbitrary: k rule: iterate.induct)
  case (1 apt i names)
  have grows: "length names \<le> length ns" if "iterate apt j names = Returned ns" for j names ns
    using that
  proof (induction apt j names rule: iterate.induct)
    case (1 apt j names)
    then show ?case
      by (subst (asm) (2) iterate.simps) (fastforce split: outcome.splits if_splits)
  qed
  show ?case
  proof (cases "iter_neq i apt_end")
    case True
    show ?thesis
    proof (cases "iter_name apt i")
      case (Returned n)
      then obtain p ps where i: "i = Some (p # ps)" by (cases "(apt, i)" rule: iter_name.cases) auto
      then obtain i' where i': "iter_next apt i = Returned i'" by (simp add: Let_def)
      have "count_loop apt i k = count_loop apt i' (k + 1)" using True i' by (subst count_loop.simps) simp
      moreover have "iterate apt i names = iterate apt i' (names @ [n])" using True Returned i' by (subst iterate.simps) simp
      ultimately show ?thesis
        using "1.IH" [OF True Returned i', of "k + 1"] grows [of i' "names @ [n]"] by (auto split: outcome.split)
    next
      case (Thrown e)
      then show ?thesis by (cases "(apt, i)" rule: iter_name.cases) auto
    next
      case Undefined
      then have "iter_next apt i = Undefined" by (cases "(apt, i)" rule: iter_name.cases) auto
      with True Undefined show ?thesis by (subst count_loop.simps, subst iterate.simps) simp
    qed
  next
    case False
    then show ?thesis by (subst count_loop.simps, subst iterate.simps) simp
  qed
qed

lemma iterate_names: "PkgBegin apt \<noteq> [] \<Longrightarrow> iterate apt (apt_begin apt) [] = Returned (package_names apt)"
  by (cases "PkgBegin apt") (simp_all add: iterate_all package_names_def)

lemma apt_tests_of_packages:
  assumes opens: "cache_opens s impl" and "PkgBegin (ts_apt s) \<noteq> []"
  shows "apt_test_iterators loc s = Returned () \<longleftrightarrow> 100 < length (package_names (ts_apt s))"
    and "apt_test_apt_exists loc s = Returned () \<longleftrightarrow>
      ''libsp1'' \<in> set (package_names (ts_apt s)) \<and> [] \<notin> set (package_names (ts_apt s))"
    and "apt_test_stl_iteration s = Returned ()"
    and "apt_test_iterators loc s \<noteq> Undefined" and "apt_test_apt_exists loc s \<noteq> Undefined"
proof -
  note names = iterate_names [OF assms(2)]
  have "count_loop (ts_apt s) (apt_begin (ts_apt s)) 0 = Returned (length (package_names (ts_apt s)))"
    unfolding count_loop_iterate [where names = "[]"] names by simp
  moreover have "iter_neq (apt_begin (ts_apt s)) apt_end" by (simp add: iter_neq_def apt_begin_def apt_end_def)
  ultimately show "apt_test_iterators loc s = Returned () \<longleftrightarrow> 100 < length (package_names (ts_apt s))"
    "apt_test_iterators loc s \<noteq> Undefined"
    by (simp_all add: apt_test_iterators_def with_apt_opened [OF opens] step_simps run_steps_Undefined Let_def del: run_steps.simps(2))
  show "apt_test_apt_exists loc s = Returned () \<longleftrightarrow>
      ''libsp1'' \<in> set (package_names (ts_apt s)) \<and> [] \<notin> set (package_names (ts_apt s))"
    "apt_test_apt_exists loc s \<noteq> Undefined" "apt_test_stl_iteration s = Returned ()"
    by (simp_all add: apt_test_apt_exists_def apt_test_stl_iteration_def with_apt_opened [OF opens] names step_simps run_steps_Undefined Let_def
        del: run_steps.simps(2))
qed

text \<open>A call that gives a valid version, and the version strings of a package.\<close>

definition gives_version :: "(apt_error, version) outcome \<Rightarrow> bool" where
  "gives_version r = (case r of Returned v \<Rightarrow> version_isValid v | _ \<Rightarrow> False)"

definition has_version_string :: "libapt \<Rightarrow> string \<Rightarrow> string \<Rightarrow> bool" where
  "has_version_string apt pkg v = (case FindPkg apt pkg of None \<Rightarrow> False
     | Some pi \<Rightarrow> list_ex (\<lambda>vi. VerStr apt vi = Some v) (VersionList apt pi))"

lemma validate_iff:
  "apt_validate apt (new_version pkg v) = (if has_version_string apt pkg v then new_version pkg v else no_version)"
  using validate_loop_absent [of _ apt "new_version pkg v"] validate_loop_found [of _ _ apt "new_version pkg v"]
  by (force simp: apt_validate_def has_version_string_def new_version_def list_ex_iff split: option.split)

lemma missing_versions:
  assumes "\<not> apt_isValid apt pkg"
  shows "candidateVersion apt pkg = Returned no_version" "installedVersion apt pkg = Returned no_version"
    "anyVersion apt pkg = Returned no_version" "\<not> has_version_string apt pkg v"
  using assms by (simp_all add: apt_isValid_def candidateVersion_def installedVersion_def anyVersion_def has_version_string_def)

lemma no_version_invalid [simp]: "\<not> version_isValid no_version"
  by (simp add: version_isValid_def no_version_def)

lemma version_check_iff:
  "version_check fr s P r = Returned () \<longleftrightarrow> (\<exists>v. r = Returned v \<and> P v)" "version_check fr s P r = Undefined \<longleftrightarrow> r = Undefined"
  by (cases r; simp add: version_check_def step_simps)+

lemma candidate_known:
  assumes "versions_known apt" and "pkg \<noteq> []" and "gives_version (candidateVersion apt pkg)"
  obtains c where "candidateVersion apt pkg = Returned c" "anyVersion apt pkg = Returned c" "version_isValid c" "apt_validate apt c = c"
proof -
  obtain c i a where q: "candidateVersion apt pkg = Returned c" "anyVersion apt pkg = Returned a" "a = (if c = no_version then i else c)"
    "a \<noteq> no_version \<longrightarrow> apt_validate apt a = a"
    using version_queries [OF assms(1,2)] by blast
  moreover from q(1) assms(3) have "version_isValid c" by (simp add: gives_version_def)
  moreover from this have "c \<noteq> no_version" by auto
  ultimately show ?thesis using that by simp
qed

lemma version_tests_defined:
  assumes "versions_known apt" and "pkg \<noteq> []"
  shows "candidateVersion apt pkg \<noteq> Undefined" "installedVersion apt pkg \<noteq> Undefined" "anyVersion apt pkg \<noteq> Undefined"
  using version_queries [OF assms] by auto

lemma apt_tests_of_versions:
  assumes opens: "cache_opens s impl" and known: "versions_known (ts_apt s)"
  shows "apt_test_validity loc s = Returned () \<longleftrightarrow> apt_isValid (ts_apt s) ''apt'' \<and> \<not> apt_isValid (ts_apt s) missing_package"
    and "apt_test_validity loc s \<noteq> Undefined"
    and "\<not> apt_isValid (ts_apt s) missing_package \<Longrightarrow> apt_test_versions loc s = Returned () \<longleftrightarrow>
      gives_version (candidateVersion (ts_apt s) ''apt'') \<and> gives_version (installedVersion (ts_apt s) ''apt'')"
    and "apt_test_versions loc s \<noteq> Undefined"
    and "\<not> apt_isValid (ts_apt s) missing_package \<Longrightarrow> gives_version (candidateVersion (ts_apt s) ''apt'') \<Longrightarrow>
      apt_test_version_validity loc s = Returned () \<longleftrightarrow> \<not> has_version_string (ts_apt s) ''apt'' ''0.31415''"
    and "apt_test_version_validity loc s \<noteq> Undefined"
proof -
  note tests = with_apt_opened [OF opens] step_simps version_check_iff Let_def
  show "apt_test_validity loc s = Returned () \<longleftrightarrow> apt_isValid (ts_apt s) ''apt'' \<and> \<not> apt_isValid (ts_apt s) missing_package"
    "apt_test_validity loc s \<noteq> Undefined"
    by (simp_all add: apt_test_validity_def tests run_steps_Undefined del: run_steps.simps(2))
  have names: "''apt'' \<noteq> []" "missing_package \<noteq> []" by (simp_all add: missing_package_def)
  note defined = version_tests_defined [OF known names(1)] version_tests_defined [OF known names(2)]
  show "apt_test_versions loc s \<noteq> Undefined" "apt_test_version_validity loc s \<noteq> Undefined"
    by (simp_all add: apt_test_versions_def apt_test_version_validity_def tests defined run_steps_Undefined del: run_steps.simps(2))
  assume missing: "\<not> apt_isValid (ts_apt s) missing_package"
  obtain c i a where queries: "candidateVersion (ts_apt s) ''apt'' = Returned c" "installedVersion (ts_apt s) ''apt'' = Returned i"
    "anyVersion (ts_apt s) ''apt'' = Returned a" "a = (if c = no_version then i else c)"
    using version_queries [OF known names(1)] by blast
  show "apt_test_versions loc s = Returned () \<longleftrightarrow>
      gives_version (candidateVersion (ts_apt s) ''apt'') \<and> gives_version (installedVersion (ts_apt s) ''apt'')"
    using queries(4) by (auto simp: apt_test_versions_def tests missing_versions [OF missing] queries(1-3) gives_version_def)
  assume "gives_version (candidateVersion (ts_apt s) ''apt'')"
  from candidate_known [OF known names(1) this] queries(1) have "apt_validate (ts_apt s) c = c" "version_isValid c" by auto
  then show "apt_test_version_validity loc s = Returned () \<longleftrightarrow> \<not> has_version_string (ts_apt s) ''apt'' ''0.31415''"
    by (simp add: apt_test_version_validity_def tests queries(1) validate_iff missing_versions [OF missing] version_eq_def)
      (simp add: new_version_def version_isValid_def)
qed

lemma apt_test_timestamp_iff:
  assumes "cache_opens s impl"
  shows "apt_test_timestamp loc s = Returned () \<longleftrightarrow> 1000000 < m_open_timestamp impl" "apt_test_timestamp loc s \<noteq> Undefined"
  using assms by (auto simp: apt_test_timestamp_def with_apt_opened [OF assms] step_simps elim!: cache_opens_D)

lemma apt_test_check_updates_iff:
  assumes "cache_opens s impl"
  shows "apt_test_check_updates loc s = Returned () \<longleftrightarrow>
      apt_isValid (ts_apt s) ''apt'' \<and> (0 < m_open_timestamp impl \<longrightarrow> apt_isValid (ts_again s) ''apt'')"
    and "apt_test_check_updates loc s \<noteq> Undefined"
proof -
  obtain lost where opened: "apt_construct (ts_env s) test_environment = (Returned impl, test_environment, lost)"
    and now: "aptTimestamp (ts_env s) = Returned (m_open_timestamp impl)"
    using cache_opens_D [OF assms] .
  let ?old = "Live (impl\<lparr>m_open_timestamp := 0\<rparr>)"
  have first: "check_updates s (test_environment, ts_apt s, Live impl) = (Returned (), test_environment, ts_apt s, Live impl)"
    by (simp add: check_updates_def checkCacheUpdates_def now)
  have changed: "impl \<noteq> impl\<lparr>m_open_timestamp := 0\<rparr>" if "0 < m_open_timestamp impl"
  proof
    assume "impl = impl\<lparr>m_open_timestamp := 0\<rparr>"
    then have "m_open_timestamp impl = m_open_timestamp (impl\<lparr>m_open_timestamp := 0\<rparr>)" by (rule arg_cong)
    with that show False by simp
  qed
  obtain q where again: "check_updates s (test_environment, ts_apt s, ?old)
      = (Returned (), test_environment, if 0 < m_open_timestamp impl then ts_again s else ts_apt s, Live q)"
    using changed by (cases "0 < m_open_timestamp impl") (auto simp: check_updates_def checkCacheUpdates_def now opened)
  note run = apt_test_check_updates_def with_apt_ptr_def opened first again invalidateTimestamp_def apt_destroy_def Let_def
  show "apt_test_check_updates loc s = Returned () \<longleftrightarrow>
      apt_isValid (ts_apt s) ''apt'' \<and> (0 < m_open_timestamp impl \<longrightarrow> apt_isValid (ts_again s) ''apt'')"
    "apt_test_check_updates loc s \<noteq> Undefined"
    using wassert_true_False [of "loc 199"] wassert_true_False [of "loc 204"]
    by (cases "apt_isValid (ts_apt s) ''apt''"; cases "0 < m_open_timestamp impl"; cases "apt_isValid (ts_again s) ''apt''"; auto simp: run)+
qed

subsection \<open>States and records of packages\<close>

text \<open>The package is there, its state can be read, and it is installed.\<close>

definition is_installed :: "'fd apt_setup \<Rightarrow> string \<Rightarrow> bool" where
  "is_installed s pkg = (case FindPkg (ts_apt s) pkg of None \<Rightarrow> False
     | Some pi \<Rightarrow> OpenDepCache (ts_env s) \<and> ps_isInstalled (state_flags (ts_apt s) pi))"

lemma apt_test_state_iff:
  assumes opens: "cache_opens s impl"
  shows "\<not> apt_isValid (ts_apt s) missing_package \<Longrightarrow> apt_test_state loc s = Returned () \<longleftrightarrow> is_installed s ''kdenetwork''"
    and "apt_test_state loc s \<noteq> Undefined"
proof -
  obtain lost where opened: "apt_construct (ts_env s) test_environment = (Returned impl, test_environment, lost)"
    and none: "m_depcache impl = None"
    using cache_opens_D [OF opens] .
  have valid: "ps_isValid (state_flags (ts_apt s) pi)" for pi
    by (simp add: ps_isValid_def state_flags_query)
  have invalid: "\<not> ps_isValid ps_empty" by (simp add: ps_isValid_def ps_empty_def has_flag_0)
  note run = apt_test_state_def with_apt_ptr_def opened Let_def apt_state_def apt_depcache_def none apt_destroy_def is_installed_def
  show "apt_test_state loc s = Returned () \<longleftrightarrow> is_installed s ''kdenetwork''" if "\<not> apt_isValid (ts_apt s) missing_package"
    using that wassert_true_False [of "loc 142"] wassert_true_False [of "loc 143"] valid invalid
    by (cases "FindPkg (ts_apt s) ''kdenetwork''"; cases "OpenDepCache (ts_env s)";
        cases "ps_isInstalled (state_flags (ts_apt s) (the (FindPkg (ts_apt s) ''kdenetwork'')))") (auto simp: run apt_isValid_def)
  show "apt_test_state loc s \<noteq> Undefined"
    using wassert_true_False [of "loc 142"] wassert_true_False [of "loc 143"] valid invalid
    by (cases "FindPkg (ts_apt s) ''kdenetwork''"; cases "FindPkg (ts_apt s) missing_package"; cases "OpenDepCache (ts_env s)";
        cases "ps_isInstalled (state_flags (ts_apt s) (the (FindPkg (ts_apt s) ''kdenetwork'')))") (auto simp: run)
qed

text \<open>A record that can be read and has the texts in it.\<close>

definition record_has :: "(apt_error, string) outcome \<Rightarrow> string list \<Rightarrow> bool" where
  "record_has r ts = (case r of Returned t \<Rightarrow> list_all (\<lambda>x. str_find t x 0 \<noteq> None) ts | _ \<Rightarrow> False)"

definition test_raw :: "'fd apt_setup \<Rightarrow> version \<Rightarrow> (apt_error, string) outcome" where
  "test_raw s = rawRecord (ts_apt s) (ts_io s) False (pending (ts_env s))"

definition raw_expected :: "'fd apt_setup \<Rightarrow> bool" where
  "raw_expected s \<longleftrightarrow> (case candidateVersion (ts_apt s) ''sp'' of
      Returned c \<Rightarrow> version_isValid c \<and> record_has (test_raw s c) [''Package: sp'', ''Section: text'']
        \<and> test_raw s (new_version ''sp'' ''0.31415'') = Returned []
    | _ \<Rightarrow> False)"

text \<open>
  The text of a version, as a specification: the bytes on disk of the first version in the list with that string, and
  nothing when there is none.  All versions can be read.
\<close>

definition text_of_version :: "libapt \<Rightarrow> (string \<Rightarrow> string option) \<Rightarrow> nat \<Rightarrow> string \<Rightarrow> string" where
  "text_of_version apt contents pi v =
     (case filter (\<lambda>vi. VerStr apt vi = Some v) (VersionList apt pi) of
        [] \<Rightarrow> []
      | vi # _ \<Rightarrow> (case version_file apt vi of None \<Rightarrow> [] | Some vf \<Rightarrow> bytes_at apt contents vf))"

definition readable :: "libapt \<Rightarrow> (string \<Rightarrow> string option) \<Rightarrow> bool" where
  "readable apt contents \<longleftrightarrow>
     (\<forall>pi. \<forall>vi\<in>set (VersionList apt pi). \<exists>vf. version_file apt vi = Some vf \<and> record_ok apt contents vf)"

lemma version_file_find:
  "version_file apt vi = (case FileList apt vi of [] \<Rightarrow> None
    | vf0 # _ \<Rightarrow> Some (case find (is_source apt) (FileList apt vi) of None \<Rightarrow> vf0 | Some x \<Rightarrow> x))"
proof -
  have "find P xs = (case filter P xs of [] \<Rightarrow> None | x # _ \<Rightarrow> Some x)" for P and xs :: "ver_file list"
    by (induction xs) auto
  then show ?thesis by (auto simp: version_file_def split: list.splits)
qed

lemma rawRecord_text:
  assumes fd: "file_fd io contents view" and "readable apt contents"
  shows "rawRecord apt io False msgs ver
    = Returned (case FindPkg apt (m_name ver) of None \<Rightarrow> [] | Some pi \<Rightarrow> text_of_version apt contents pi (m_version ver))"
proof -
  have one: "read_version apt io False msgs vi = Returned (case version_file apt vi of None \<Rightarrow> [] | Some vf \<Rightarrow> bytes_at apt contents vf)"
    if listed: "vi \<in> set (VersionList apt pi)" for vi pi
  proof -
    obtain vf where vf: "version_file apt vi = Some vf" "record_ok apt contents vf"
      using assms(2) listed unfolding readable_def by blast
    then obtain vf0 rest where "FileList apt vi = vf0 # rest" by (auto simp: version_file_find split: list.splits)
    with read_version_bytes [OF fd this _ vf(2)] vf(1) show ?thesis by (simp add: version_file_find)
  qed
  have "rawRecord_loop apt io False msgs ver vis = Returned (case filter (\<lambda>vi. VerStr apt vi = Some (m_version ver)) vis of
      [] \<Rightarrow> [] | vi # _ \<Rightarrow> (case version_file apt vi of None \<Rightarrow> [] | Some vf \<Rightarrow> bytes_at apt contents vf))"
    if "set vis \<subseteq> set (VersionList apt pi)" for vis pi
    using that by (induction vis) (auto simp: one split: option.split)
  then show ?thesis by (auto simp: rawRecord_def text_of_version_def split: option.split)
qed

lemma apt_test_raw_record_iff:
  assumes opens: "cache_opens s impl" and known: "versions_known (ts_apt s)"
    and read: "file_fd (ts_io s) contents view" "readable (ts_apt s) contents"
  shows "apt_test_raw_record loc s = Returned () \<longleftrightarrow> raw_expected s" and "apt_test_raw_record loc s \<noteq> Undefined"
proof -
  have sp: "''sp'' \<noteq> []" by simp
  note tests = apt_test_raw_record_def with_apt_opened [OF opens] rawRecord_name_def Let_def
  note defined = version_tests_defined [OF known sp] rawRecord_text [OF read]
  have raw: "test_raw s v \<noteq> Undefined" for v using defined by (simp add: test_raw_def)
  show "apt_test_raw_record loc s \<noteq> Undefined"
    unfolding tests unfolding test_raw_def [symmetric]
    by (auto simp: bind_Undefined run_steps_Undefined called_iff defined raw simp del: run_steps.simps(2))
  show "apt_test_raw_record loc s = Returned () \<longleftrightarrow> raw_expected s"
  proof (cases "gives_version (candidateVersion (ts_apt s) ''sp'')")
    case True
    then obtain c where c: "candidateVersion (ts_apt s) ''sp'' = Returned c" "anyVersion (ts_apt s) ''sp'' = Returned c"
      "version_isValid c" "apt_validate (ts_apt s) c = c" using candidate_known [OF known sp] by metis
    show ?thesis
      unfolding tests unfolding test_raw_def [symmetric] c(1,2)
      by (cases "test_raw s c") (auto simp: step_simps Let_def c called_iff raw_expected_def record_has_def version_eq_def)
  next
    case False
    then show ?thesis
      unfolding tests unfolding test_raw_def [symmetric]
      by (cases "candidateVersion (ts_apt s) ''sp''") (auto simp: step_simps Let_def called_iff raw_expected_def gives_version_def)
  qed
qed

subsection \<open>All records\<close>

definition record_starts_ok :: "string \<Rightarrow> bool" where
  "record_starts_ok r \<longleftrightarrow> 8 < length r \<and> substr r 0 8 = ''Package:''"

lemma read_arrow_star: "read_arrow s = read_star s"
  by (intro ext) (simp add: read_arrow_def read_star_def riter_arrow_get Let_def split: prod.split)

lemma record_assert_read:
  assumes "rd i h = (Returned r, i1, h1)"
  shows "record_assert s rd fr check i h = (wassert fr (check r), i1, h1)"
  using assms by (simp add: record_assert_def)

lemma assert_cases: "if b then assert_true sh b = Returned () else \<exists>e. wassert fr (assert_true sh b) = Thrown e"
  "if a = x then assert_equal sh' a x = Returned () else \<exists>e. wassert fr (assert_equal sh' a x) = Thrown e"
  by (auto simp: assert_true_def assert_equal_def assert_that_def wassert_def)

lemma records_loop_from:
  assumes "file_fd (ts_io s) contents view" and "\<forall>vf\<in>set l. record_ok (ts_apt s) contents vf"
    and "h a = Some impl" and "reader_ok (ts_apt s) contents view impl" and "vflist impl = l" and "ref_count impl = 1"
    and "n < length l" and "m = n \<Longrightarrow> c = bytes_at (ts_apt s) contents (l ! n)"
  shows "\<exists>r. records_loop s (read_star s) f1 f2 \<lparr>it_impl = Some a, it_pos = n, it_cur = c, it_cur_pos = m\<rparr> h k = Some r
    \<and> (if list_all (\<lambda>vf. record_starts_ok (bytes_at (ts_apt s) contents vf)) (drop n l)
       then r = Returned (k + (length l - n)) else \<exists>e. r = Thrown e)"
  using assms(3-)
proof (induction "length l - n" arbitrary: n m c h impl k rule: less_induct)
  case less
  let ?b = "bytes_at (ts_apt s) contents (l ! n)" and ?msgs = "pending (ts_env s)"
  let ?i = "\<lparr>it_impl = Some a, it_pos = n, it_cur = ?b, it_cur_pos = n\<rparr>"
  have lt: "n < length (vflist impl)" using less.prems(3,5) by simp
  then have ok: "record_ok (ts_apt s) contents (vflist impl ! n)" using assms(2) less.prems(3) by simp
  obtain impl1 where get: "read_star s \<lparr>it_impl = Some a, it_pos = n, it_cur = c, it_cur_pos = m\<rparr> h = (Returned ?b, ?i, h(a \<mapsto> impl1))"
    and impl1: "reader_ok (ts_apt s) contents view impl1" "vflist impl1 = l" "ref_count impl1 = 1"
    using riter_get_bytes [where h = h and a = a and k = m and s = c and msgs = ?msgs, OF assms(1) less.prems(1,2) lt ok]
      less.prems(3-6) by (auto simp: read_star_def)
  have again: "read_star s ?i (h(a \<mapsto> impl1)) = (Returned ?b, ?i, h(a \<mapsto> impl1))" by (simp add: read_star_def riter_get_def)
  have drop: "drop n l = l ! n # drop (Suc n) l" using less.prems(5) by (simp add: Cons_nth_drop_Suc)
  have step: "riter_neq \<lparr>it_impl = Some a, it_pos = n, it_cur = c, it_cur_pos = m\<rparr> recordEnd"
    by (simp add: riter_neq_def recordEnd_def end_riter_def)
  note unfold = records_loop.simps [of s "read_star s" f1 f2 "\<lparr>it_impl = Some a, it_pos = n, it_cur = c, it_cur_pos = m\<rparr>"]
  note reads = record_assert_read [where rd = "read_star s", OF get] record_assert_read [where rd = "read_star s", OF again]
  show ?case
  proof (cases "record_starts_ok ?b")
    case False
    then show ?thesis
      using assert_cases(1) [of "8 < length ?b" print_bool f1] assert_cases(2) [of "substr ?b 0 8" "''Package:''" same f2] step
      unfolding unfold drop by (auto simp: record_starts_ok_def reads split: if_splits)
  next
    case True
    then have good: "8 < length ?b" "substr ?b 0 8 = ''Package:''" by (simp_all add: record_starts_ok_def)
    show ?thesis
    proof (cases "length l \<le> Suc n")
      case True
      then have "riter_incr ?i (h(a \<mapsto> impl1)) = Returned (\<lparr>it_impl = None, it_pos = 0, it_cur = ?b, it_cur_pos = n\<rparr>, (h(a \<mapsto> impl1))(a := None))"
        using impl1 by (simp add: riter_incr_def rec_size_def unref_at_def rec_unref_def)
      moreover have "records_loop s (read_star s) f1 f2 \<lparr>it_impl = None, it_pos = 0, it_cur = ?b, it_cur_pos = n\<rparr> h' k' = Some (Returned k')" for h' k'
        by (subst records_loop.simps) (simp add: riter_neq_def recordEnd_def end_riter_def)
      ultimately show ?thesis
        using good \<open>record_starts_ok ?b\<close> True less.prems(5) step unfolding unfold drop by (simp add: reads assert_true_def assert_that_def)
    next
      case False
      then have incr: "riter_incr ?i (h(a \<mapsto> impl1)) = Returned (\<lparr>it_impl = Some a, it_pos = Suc n, it_cur = ?b, it_cur_pos = n\<rparr>, h(a \<mapsto> impl1))"
        using impl1 by (simp add: riter_incr_def rec_size_def)
      have "\<exists>r. records_loop s (read_star s) f1 f2 \<lparr>it_impl = Some a, it_pos = Suc n, it_cur = ?b, it_cur_pos = n\<rparr> (h(a \<mapsto> impl1)) (k + 1) = Some r
        \<and> (if list_all (\<lambda>vf. record_starts_ok (bytes_at (ts_apt s) contents vf)) (drop (Suc n) l)
           then r = Returned (k + 1 + (length l - Suc n)) else \<exists>e. r = Thrown e)"
        using False less.prems(5) impl1 by (intro less.hyps) auto
      then obtain r where rest: "records_loop s (read_star s) f1 f2 \<lparr>it_impl = Some a, it_pos = Suc n, it_cur = ?b, it_cur_pos = n\<rparr>
          (h(a \<mapsto> impl1)) (k + 1) = Some r"
        and r: "if list_all (\<lambda>vf. record_starts_ok (bytes_at (ts_apt s) contents vf)) (drop (Suc n) l)
           then r = Returned (k + 1 + (length l - Suc n)) else \<exists>e. r = Thrown e" by blast
      have "records_loop s (read_star s) f1 f2 \<lparr>it_impl = Some a, it_pos = n, it_cur = c, it_cur_pos = m\<rparr> h k = Some r"
        using good step incr rest unfolding unfold by (simp add: reads assert_true_def assert_that_def)
      moreover have "k + 1 + (length l - Suc n) = k + (length l - n)" using less.prems(5) by simp
      ultimately show ?thesis using r \<open>record_starts_ok ?b\<close> unfolding drop by (intro exI [of _ r]) (simp only: list.pred_inject simp_thms)
    qed
  qed
qed

lemma apt_tests_of_records:
  fixes impl :: "'fd rec_impl" and s :: "'fd apt_setup"
  assumes opens: "cache_opens s impl0" and fd: "file_fd (ts_io s) contents view"
    and impl: "new_rec_impl (ts_srt s) (ts_apt s) (ts_junk s) = Returned impl"
    and ok: "\<forall>vf\<in>set (vflist impl). record_ok (ts_apt s) contents vf" and ne: "vflist impl \<noteq> []"
  shows "apt_test_records (read_star s) f1 f2 f3 s = Returned () \<longleftrightarrow>
      200 < length (vflist impl) \<and> list_all record_starts_ok (map (bytes_at (ts_apt s) contents) (vflist impl))"
    and "apt_test_records (read_star s) f1 f2 f3 s \<noteq> Undefined"
    and "apt_test_stl_record_iteration s = Returned ()"
proof -
  let ?i = "\<lparr>it_impl = Some (ts_addr s), it_pos = 0, it_cur = bytes_at (ts_apt s) contents (vflist impl ! 0), it_cur_pos = 0\<rparr>"
  obtain impl' where start: "record_begin s = Returned (?i, [ts_addr s \<mapsto> impl'])"
    and impl': "reader_ok (ts_apt s) contents view impl'" "vflist impl' = vflist impl" "ref_count impl' = 1"
    using recordBegin_first [OF fd impl ok ne, of "pending (ts_env s)" "ts_addr s" Map.empty] by (auto simp: record_begin_def)
  have at: "[ts_addr s \<mapsto> impl'] (ts_addr s) = Some impl'" "0 < length (vflist impl)" using ne by simp_all
  obtain r where loop: "records_loop s (read_star s) f1 f2 ?i [ts_addr s \<mapsto> impl'] 0 = Some r"
    and r: "if list_all record_starts_ok (map (bytes_at (ts_apt s) contents) (vflist impl)) then r = Returned (length (vflist impl)) else \<exists>e. r = Thrown e"
    using records_loop_from [where s = s and h = "[ts_addr s \<mapsto> impl']" and a = "ts_addr s" and n = 0 and m = 0 and k = 0
        and c = "bytes_at (ts_apt s) contents (vflist impl ! 0)", OF fd ok at(1) impl' at(2)]
    unfolding drop_0 list.pred_map comp_def minus_nat.diff_0 add_0 by blast
  show "apt_test_records (read_star s) f1 f2 f3 s = Returned () \<longleftrightarrow>
      200 < length (vflist impl) \<and> list_all record_starts_ok (map (bytes_at (ts_apt s) contents) (vflist impl))"
    "apt_test_records (read_star s) f1 f2 f3 s \<noteq> Undefined"
    unfolding apt_test_records_def with_apt_opened [OF opens] start bind_outcome.simps prod.case loop ends_with_def option.case
    using r by (auto simp: step_simps split: if_splits)
  have "record_walk (ts_io s) (ts_apt s) (pending (ts_env s)) ?i [ts_addr s \<mapsto> impl'] []
      = Some (Returned (map (bytes_at (ts_apt s) contents) (vflist impl)), ([ts_addr s \<mapsto> impl'])(ts_addr s := None))"
    using record_walk_from [where apt = "ts_apt s" and h = "[ts_addr s \<mapsto> impl']" and a = "ts_addr s" and n = 0 and k = 0
        and s = "bytes_at (ts_apt s) contents (vflist impl ! 0)" and msgs = "pending (ts_env s)" and res = "[]", OF fd ok at(1) impl' at(2)] by simp
  then show "apt_test_stl_record_iteration s = Returned ()"
    by (simp add: apt_test_stl_record_iteration_def with_apt_opened [OF opens] start ends_with_def)
qed

subsection \<open>Running the tests\<close>

text \<open>
  What the tests ask, in terms of what the functions of \<open>Apt\<close> answer: an intermediate step between the tests and the
  tables.
\<close>

definition cache_expected :: "'fd apt_setup \<Rightarrow> int \<Rightarrow> string list \<Rightarrow> bool" where
  "cache_expected s stamp recs \<longleftrightarrow>
     100 < length (package_names (ts_apt s)) \<and> ''libsp1'' \<in> set (package_names (ts_apt s)) \<and> [] \<notin> set (package_names (ts_apt s))
     \<and> 1000000 < stamp
     \<and> apt_isValid (ts_apt s) ''apt'' \<and> \<not> apt_isValid (ts_apt s) missing_package
     \<and> gives_version (candidateVersion (ts_apt s) ''apt'') \<and> gives_version (installedVersion (ts_apt s) ''apt'')
     \<and> \<not> has_version_string (ts_apt s) ''apt'' ''0.31415''
     \<and> raw_expected s \<and> is_installed s ''kdenetwork''
     \<and> 200 < length recs \<and> list_all record_starts_ok recs
     \<and> apt_isValid (ts_again s) ''apt''"

text \<open>
  What the tests ask of the tables of libapt, the files and their times, with none of the functions under test: package names,
  the packages \<open>apt\<close>, \<open>sp\<close> and \<open>kdenetwork\<close> with the versions and the states that they have in the
  tables, the texts on disk, and that the package \<open>apt\<close> is still there when the cache has been opened again.
\<close>

definition version_named :: "libapt \<Rightarrow> nat option \<Rightarrow> bool" where
  "version_named apt v = (case v of None \<Rightarrow> False | Some vi \<Rightarrow> VerStr apt vi \<notin> {None, Some []})"

definition apt_package_expected :: "libapt \<Rightarrow> nat \<Rightarrow> bool" where
  "apt_package_expected apt pi \<longleftrightarrow> version_named apt (GetCandidateVer apt pi)
     \<and> HasCurrentVer apt pi \<and> version_named apt (CurrentVer apt pi)
     \<and> (\<forall>vi\<in>set (VersionList apt pi). VerStr apt vi \<noteq> Some ''0.31415'')"

definition sp_package_expected :: "libapt \<Rightarrow> (string \<Rightarrow> string option) \<Rightarrow> nat \<Rightarrow> bool" where
  "sp_package_expected apt contents pi \<longleftrightarrow>
     (case GetCandidateVer apt pi of
        None \<Rightarrow> False
      | Some vi \<Rightarrow>
          (case VerStr apt vi of
             None \<Rightarrow> False
           | Some v \<Rightarrow> v \<noteq> [] \<and> sublist ''Package: sp'' (text_of_version apt contents pi v)
               \<and> sublist ''Section: text'' (text_of_version apt contents pi v)))
     \<and> text_of_version apt contents pi ''0.31415'' = []"

definition has_package :: "libapt \<Rightarrow> string \<Rightarrow> (nat \<Rightarrow> bool) \<Rightarrow> bool" where
  "has_package apt pkg P = (case FindPkg apt pkg of None \<Rightarrow> False | Some pi \<Rightarrow> P pi)"

definition tables_expected :: "'fd apt_setup \<Rightarrow> (string \<Rightarrow> string option) \<Rightarrow> bool" where
  "tables_expected s contents \<longleftrightarrow>
     (let apt = ts_apt s; env = ts_env s; names = package_names apt;
          recs = map (bytes_at apt contents) (List.map_filter (record_file apt) (PkgBegin apt))
      in 100 < length names \<and> ''libsp1'' \<in> set names \<and> [] \<notin> set names
       \<and> list_ex (\<lambda>f. case file_time env f of None \<Rightarrow> False | Some t \<Rightarrow> 1000000 < t) [pkgcache_file env, status_file env]
       \<and> FindPkg apt missing_package = None
       \<and> has_package apt ''apt'' (apt_package_expected apt)
       \<and> has_package apt ''sp'' (sp_package_expected apt contents)
       \<and> has_package apt ''kdenetwork'' (on_disk apt) \<and> OpenDepCache env
       \<and> 200 < length recs \<and> list_all (\<lambda>r. prefix ''Package:'' r \<and> r \<noteq> ''Package:'') recs
       \<and> FindPkg (ts_again s) ''apt'' \<noteq> None)"

lemma find_sublist: "str_find t x 0 \<noteq> None \<longleftrightarrow> sublist x t"
proof
  assume "str_find t x 0 \<noteq> None"
  then show "sublist x t" using find_sub_split by (force simp: str_find_0 sublist_def)
next
  have "prefix x r \<Longrightarrow> find_sub x r = Some 0" for r by (cases r) auto
  then have "find_sub x (x @ ss) = Some 0" for ss by simp
  then have "find_sub x (ps @ x @ ss) \<noteq> None" for ps ss
    by (induction ps) auto
  then show "sublist x t \<Longrightarrow> str_find t x 0 \<noteq> None" by (auto simp: str_find_0 sublist_def)
qed

lemma record_starts_prefix: "record_starts_ok r \<longleftrightarrow> prefix ''Package:'' r \<and> r \<noteq> ''Package:''"
proof
  assume "record_starts_ok r"
  then have "take 8 r = ''Package:''" "r \<noteq> ''Package:''" by (auto simp: record_starts_ok_def substr_def)
  then show "prefix ''Package:'' r \<and> r \<noteq> ''Package:''" by (metis take_is_prefix)
qed (auto simp: record_starts_ok_def substr_def prefix_def)

lemma gives_version_of:
  "pkg \<noteq> [] \<Longrightarrow> gives_version (version_of apt pkg vi) \<longleftrightarrow> version_named apt (Some vi)" "\<not> gives_version (Returned no_version)"
  by (auto simp: gives_version_def version_of_def version_named_def version_isValid_def no_version_def split: option.split)
    (cases "VerStr apt vi"; simp)+

lemma gives_candidate:
  "pkg \<noteq> [] \<Longrightarrow> gives_version (candidateVersion apt pkg) \<longleftrightarrow> has_package apt pkg (\<lambda>pi. version_named apt (GetCandidateVer apt pi))"
  by (simp add: candidateVersion_def has_package_def gives_version_of split: option.split) (simp add: version_named_def)

lemma gives_installed:
  "pkg \<noteq> [] \<Longrightarrow> gives_version (installedVersion apt pkg) \<longleftrightarrow>
    has_package apt pkg (\<lambda>pi. HasCurrentVer apt pi \<and> version_named apt (CurrentVer apt pi))"
  by (simp add: installedVersion_def has_package_def gives_version_of split: option.split) (simp add: version_named_def)

lemma raw_expected_text:
  assumes "file_fd (ts_io s) contents view" and "readable (ts_apt s) contents"
  shows "raw_expected s \<longleftrightarrow> has_package (ts_apt s) ''sp'' (sp_package_expected (ts_apt s) contents)"
  by (simp add: raw_expected_def has_package_def sp_package_expected_def candidateVersion_def version_of_def test_raw_def
      rawRecord_text [OF assms] record_has_def find_sublist [unfolded not_None_eq] new_version_def version_isValid_def no_version_def split: option.split)

lemma installed_on_disk:
  "is_installed s pkg \<longleftrightarrow> has_package (ts_apt s) pkg (on_disk (ts_apt s)) \<and> OpenDepCache (ts_env s)"
  by (auto simp: is_installed_def has_package_def ps_isInstalled_def ps_installed_def state_flags_query has_installed_flags has_flag_0
      on_disk_def split: option.split)

lemma record_file_ok:
  assumes "versions_known apt" and "readable apt contents" and "vf \<in> set (List.map_filter (record_file apt) pis)"
  shows "record_ok apt contents vf"
proof -
  obtain pi where "record_file apt pi = Some vf" using assms(3) by (auto simp: map_filter_def)
  then obtain vi where vi: "chosen_version apt pi = Some vi" "version_file apt vi = Some vf"
    by (auto simp: record_file_def split: option.splits if_splits)
  then have "vi \<in> set (VersionList apt pi)"
    using assms(1) by (auto simp: chosen_version_def versions_known_def split: option.splits if_splits)
  with assms(2) vi(2) show ?thesis by (fastforce simp: readable_def)
qed

lemma cache_expected_tables:
  assumes fd: "file_fd (ts_io s) contents view" and read: "readable (ts_apt s) contents"
    and times: "file_time (ts_env s) (pkgcache_file (ts_env s)) = Some t1" "file_time (ts_env s) (status_file (ts_env s)) = Some t2"
    and files: "mset vfs = mset (List.map_filter (record_file (ts_apt s)) (PkgBegin (ts_apt s)))"
  shows "cache_expected s (max t1 t2) (map (bytes_at (ts_apt s) contents) vfs) \<longleftrightarrow> tables_expected s contents"
proof -
  have recs: "length vfs = length (List.map_filter (record_file (ts_apt s)) (PkgBegin (ts_apt s)))"
    "set vfs = set (List.map_filter (record_file (ts_apt s)) (PkgBegin (ts_apt s)))"
    using files by (metis size_mset, metis set_mset_mset)
  have package: "has_package (ts_apt s) ''apt'' (apt_package_expected (ts_apt s)) \<longleftrightarrow>
      gives_version (candidateVersion (ts_apt s) ''apt'') \<and> gives_version (installedVersion (ts_apt s) ''apt'')
      \<and> \<not> has_version_string (ts_apt s) ''apt'' ''0.31415'' \<and> apt_isValid (ts_apt s) ''apt''"
    by (auto simp: gives_candidate gives_installed has_version_string_def apt_isValid_def has_package_def apt_package_expected_def
        list_ex_iff split: option.split)
  show ?thesis
    unfolding cache_expected_def tables_expected_def Let_def package raw_expected_text [OF fd read] installed_on_disk
      record_starts_prefix [abs_def] length_map list_all_iff set_map recs apt_isValid_def
    using times by (auto simp: less_max_iff_disj)
qed

text \<open>
  C39: on a cache that opens, has a record, and has the records of all its versions on disk, the tests pass exactly when the tables
  of libapt and the files are as they expect, also those at the second opening.  That the iterations end, that \<open>*i\<close> and \<open>i->\<close> agree, what is
  said of packages that are not there, and that \<open>validate\<close> confirms the candidate holds for every such cache.
\<close>

theorem apt_tests_pass_iff:
  fixes w :: 'w and s :: "'fd apt_setup"
  assumes startup: "can_open (ts_env s) test_environment" "file_time (ts_env s) (pkgcache_file (ts_env s)) = Some t1"
      "file_time (ts_env s) (status_file (ts_env s)) = Some t2"
    and known: "versions_known (ts_apt s)" "current_known (ts_apt s)"
    and fd: "file_fd (ts_io s) contents view" and read: "readable (ts_apt s) contents" and sorts: "std_sort (ts_srt s)"
    and some: "List.map_filter (record_file (ts_apt s)) (PkgBegin (ts_apt s)) \<noteq> []"
  shows "\<exists>code out err. tests_main fnmatch (\<lambda>_. None) [apt_tests loc s] w = (Returned (code, out, err), w)
    \<and> (code = 0 \<longleftrightarrow> tables_expected s contents)"
proof -
  let ?impl0 = "\<lparr>m_open_timestamp = max t1 t2, m_depcache = None\<rparr>"
  have opens: "cache_opens s ?impl0"
    using apt_construct_outcome [OF aptTimestamp_max [OF startup(2,3)], of test_environment] startup(1) by (simp add: cache_opens_def)
  have packages: "PkgBegin (ts_apt s) \<noteq> []" using some by (auto simp: map_filter_def)
  obtain impl :: "'fd rec_impl" where impl: "new_rec_impl (ts_srt s) (ts_apt s) (ts_junk s) = Returned impl"
    and files: "mset (vflist impl) = mset (List.map_filter (record_file (ts_apt s)) (PkgBegin (ts_apt s)))"
    using record_list_files [OF sorts known(2)] by blast
  have ne: "vflist impl \<noteq> []" using files some by auto
  have ok: "\<forall>vf\<in>set (vflist impl). record_ok (ts_apt s) contents vf"
    using mset_eq_setD [OF files] record_file_ok [OF known(1) read] by auto
  define bs where "bs =
     [(''iterators'', apt_test_iterators loc s), (''apt_exists'', apt_test_apt_exists loc s), (''timestamp'', apt_test_timestamp loc s),
      (''validity'', apt_test_validity loc s), (''versions'', apt_test_versions loc s),
      (''version_validity'', apt_test_version_validity loc s), (''raw_record'', apt_test_raw_record loc s), (''state'', apt_test_state loc s),
      (''record_iteration'', apt_test_record_iteration loc s), (''record_iteration2'', apt_test_record_iteration2 loc s),
      (''stl_iteration'', apt_test_stl_iteration s), (''stl_record_iteration'', apt_test_stl_record_iteration s),
      (''check_updates'', apt_test_check_updates loc s)]"
  note recs = apt_tests_of_records [OF opens fd impl ok ne]
  note results = apt_tests_of_packages [OF opens packages] apt_test_timestamp_iff [OF opens] apt_tests_of_versions [OF opens known(1)]
    apt_test_raw_record_iff [OF opens known(1) fd read] apt_test_state_iff [OF opens] apt_test_check_updates_iff [OF opens] recs
    apt_test_record_iteration_def apt_test_record_iteration2_def read_arrow_star
  have "\<forall>r\<in>set (map snd bs). r \<noteq> Undefined" by (simp add: bs_def results)
  then have "Undefined \<notin> set (map snd bs)" by blast
  moreover have "length bs < 2 ^ 32" by (simp add: bs_def)
  ultimately have run: "\<exists>code out err. tests_main fnmatch (\<lambda>_. None) [plain_case ''apt_apt'' (add_bodies bs)] w = (Returned (code, out, err), w)
      \<and> (code = 0 \<longleftrightarrow> (\<forall>b\<in>set bs. snd b = Returned ()))" by (rule bodies_pass_iff)
  let ?recs = "map (bytes_at (ts_apt s) contents) (vflist impl)"
  have passes: "(\<forall>b\<in>set bs. snd b = Returned ()) \<longleftrightarrow> cache_expected s (m_open_timestamp ?impl0) ?recs"
  proof (cases "apt_isValid (ts_apt s) missing_package \<or> \<not> gives_version (candidateVersion (ts_apt s) ''apt'')")
    case True
    then have "\<not> (apt_test_validity loc s = Returned () \<and> apt_test_versions loc s = Returned ())" using results by blast
    with True show ?thesis by (auto simp: bs_def cache_expected_def)
  next
    case False
    have newer: "1000000 < max t1 t2 \<longrightarrow> 0 < max t1 t2" by linarith
    from False show ?thesis by (simp add: bs_def cache_expected_def results del: less_max_iff_disj) (use newer in blast)
  qed
  have "apt_tests loc s = (plain_case ''apt_apt'' (add_bodies bs) :: 'w test_case)" by (simp add: apt_tests_def bs_def)
  with run show ?thesis
    unfolding passes apt_impl.select_convs cache_expected_tables [OF fd read startup(2,3) files] by simp
qed

text \<open>A cache as the tests expect it, of 201 packages, all with the same record.\<close>

definition many_text :: string where
  "many_text = ''Package: sp'' @ [NL] @ ''Section: text'' @ [NL]"

definition many_record :: ver_file where
  "many_record = \<lparr>vf_File = 0, vf_Offset = 0, vf_Size = length many_text\<rparr>"

definition many_apt :: libapt where
  "many_apt = sample_apt\<lparr>
     FindPkg := map_of [(''apt'', 0), (''sp'', 1), (''kdenetwork'', 2), (''libsp1'', 3)], PkgBegin := [0..<201],
     PackageCount := 201, PkgName := (\<lambda>p. if p = 3 then ''libsp1'' else ''p''), VersionList := (\<lambda>p. [p]), VerStr := (\<lambda>v. Some ''1''),
     GetCandidateVer := Some, CurrentVer := Some, FileList := (\<lambda>v. [many_record])\<rparr>"

definition many_setup :: "(string \<times> nat) apt_setup" where
  "many_setup = \<lparr>ts_apt = many_apt, ts_again = many_apt,
     ts_env = sample_env\<lparr>env_stat := (\<lambda>f. Inr \<lparr>st_type = S_IFREG, st_mtime = 2000000, st_size = 0, st_ino = 1\<rparr>)\<rparr>,
     ts_io = mem_io (\<lambda>f. Some many_text), ts_srt = insertion_sort, ts_conv = (\<lambda>e. UnknownException), ts_junk = 0, ts_addr = 0\<rparr>"

lemma many_fields:
  "VersionList many_apt p = [p]" "GetCandidateVer many_apt p = Some p" "HasCurrentVer many_apt p" "CurrentVer many_apt p = Some p"
  "FileList many_apt v = [many_record]" "VerStr many_apt v = Some ''1''" "PkgBegin many_apt = [0..<201]" "FileIsOk many_apt f"
  "FileName many_apt f = ''f''" "FileFlags many_apt f = 0" "PkgName many_apt p = (if p = 3 then ''libsp1'' else ''p'')"
  "FindPkg many_apt = map_of [(''apt'', 0), (''sp'', 1), (''kdenetwork'', 2), (''libsp1'', 3)]"
  "CurrentState many_apt p = 6" "State_ConfigFiles many_apt = 5" "State_NotInstalled many_apt = 0"
  by (simp_all add: many_apt_def sample_apt_def)

lemma many_names: "package_names many_apt = map (PkgName many_apt) [0..<201]"
  by (simp add: package_names_def many_fields upt_conv_Cons)

lemma many_read: "record_ok many_apt (\<lambda>f. Some many_text) many_record" "bytes_at many_apt (\<lambda>f. Some many_text) many_record = many_text"
  "record_starts_ok many_text"
  by (simp_all add: record_ok_def bytes_at_def many_fields many_record_def substr_def size_modulus_def many_text_def record_starts_ok_def)

lemma many_files:
  "version_file many_apt vi = Some many_record" "List.map_filter (record_file many_apt) ps = replicate (length ps) many_record"
proof -
  show one: "version_file many_apt vi = Some many_record" for vi
    by (simp add: version_file_def is_source_def many_fields)
  have "record_file many_apt p = Some many_record" for p
    by (simp add: record_file_def chosen_version_def many_fields one is_source_def)
  then show "List.map_filter (record_file many_apt) ps = replicate (length ps) many_record"
    by (induction ps) (simp_all add: map_filter_simps)
qed

lemma many_text_at: "text_of_version many_apt (\<lambda>f. Some many_text) pi ''1'' = many_text" "text_of_version many_apt (\<lambda>f. Some many_text) pi ''0.31415'' = []"
  by (simp_all add: text_of_version_def many_fields many_files many_read(2))

lemma many_expected: "tables_expected many_setup (\<lambda>f. Some many_text)"
proof -
  have tables: "ts_apt many_setup = many_apt" "ts_again many_setup = many_apt" "OpenDepCache (ts_env many_setup)"
    "list_ex (\<lambda>f. case file_time (ts_env many_setup) f of None \<Rightarrow> False | Some t \<Rightarrow> 1000000 < t)
      [pkgcache_file (ts_env many_setup), status_file (ts_env many_setup)]"
    by (simp_all add: many_setup_def sample_env_def file_time_def)
  have names: "100 < length (package_names many_apt)" "''libsp1'' \<in> set (package_names many_apt)" "[] \<notin> set (package_names many_apt)"
    by (auto simp: many_names many_fields simp del: upt_conv_Cons)
  have "sublist ''Package: sp'' many_text" "sublist ''Section: text'' many_text" by code_simp+
  then have packages: "has_package many_apt ''apt'' (apt_package_expected many_apt)"
    "has_package many_apt ''sp'' (sp_package_expected many_apt (\<lambda>f. Some many_text))" "has_package many_apt ''kdenetwork'' (on_disk many_apt)"
    "FindPkg many_apt missing_package = None" "FindPkg many_apt ''apt'' \<noteq> None"
    by (simp_all add: has_package_def apt_package_expected_def sp_package_expected_def version_named_def on_disk_def many_fields many_text_at
        missing_package_def)
  have "prefix ''Package:'' many_text" "many_text \<noteq> ''Package:''" by (simp_all add: many_text_def)
  then have "list_all (\<lambda>r. prefix ''Package:'' r \<and> r \<noteq> ''Package:'') (replicate 201 many_text)" by (simp add: list_all_iff)
  with names packages tables show ?thesis
    unfolding tables_expected_def Let_def tables(1,2) many_files(2) many_fields(7) length_upt map_replicate many_read(2) length_replicate
    by simp
qed

theorem apt_tests_pass_iff_witness:
  "\<exists>out err. tests_main (\<lambda>p s. 1) (\<lambda>_. None) [apt_tests (\<lambda>n. \<lparr>fr_file = ''a'', fr_line = n, fr_call = [], fr_info = []\<rparr>) many_setup] (0 :: nat)
    = (Returned (0, out, err), 0)"
proof -
  have start: "can_open (ts_env many_setup) test_environment" "file_time (ts_env many_setup) f = Some 2000000" for f
    by (simp_all add: can_open_def test_environment_def file_time_def many_setup_def sample_env_def)
  have known: "versions_known (ts_apt many_setup)" "current_known (ts_apt many_setup)"
    by (simp_all add: versions_known_def current_known_def many_setup_def many_fields)
  have fd: "file_fd (ts_io many_setup) (\<lambda>f. Some many_text) (\<lambda>fd. fd)" by (simp add: many_setup_def mem.file_fd_axioms)
  have "readable (ts_apt many_setup) (\<lambda>f. Some many_text)" "std_sort (ts_srt many_setup)"
    "List.map_filter (record_file (ts_apt many_setup)) (PkgBegin (ts_apt many_setup)) \<noteq> []"
    by (simp_all add: readable_def many_setup_def many_files many_read(1) isort.std_sort_axioms many_fields)
  from apt_tests_pass_iff [OF start(1) start(2) start(2) known fd this, of "\<lambda>p s. 1" "\<lambda>n. \<lparr>fr_file = ''a'', fr_line = n, fr_call = [], fr_info = []\<rparr>" "0 :: nat"]
    many_expected
  show ?thesis by auto
qed

section \<open>The unit test of the index\<close>

text \<open>
  The test makes a directory, an \<open>Apt\<close> and an \<open>OverrideIndexDir\<close>, and takes the time stamp of an index that
  is not there.  The state is that of the world and the directory of the index; the destructors run also when
  the assertion throws, but the directory is removed by a statement.
\<close>

definition axi_test_empty ::
  "'w dir_calls \<Rightarrow> 'w posix \<Rightarrow> ('w \<Rightarrow> string \<Rightarrow> errno + file_stat) \<Rightarrow> (sys_error \<Rightarrow> exn) \<Rightarrow> 'fd apt_setup \<Rightarrow> bool \<Rightarrow> frame
    \<Rightarrow> 'w \<times> string \<Rightarrow> (exn, unit) outcome \<times> 'w \<times> string" where
  "axi_test_empty dc px stat2 conv s ini fr = (\<lambda>(w, m_index_dir).
     (let sys = map_outcome conv (\<lambda>x. x); (made, w1) = mkdir_ifmissing dc ''xapian'' 493 w
      in case made of
        Thrown e \<Rightarrow> (Thrown (conv e), w1, m_index_dir)
      | Undefined \<Rightarrow> (Undefined, w1, m_index_dir)
      | Returned _ \<Rightarrow>
          (case called s (fst (apt_construct (ts_env s) ini)) of
             Thrown e \<Rightarrow> (Thrown e, w1, m_index_dir)
           | Undefined \<Rightarrow> (Undefined, w1, m_index_dir)
           | Returned impl \<Rightarrow>
               (let (old, dir1) = override_index_dir ''./empty'' m_index_dir;
                    checked = wassert fr (bind_outcome (map_outcome conv (\<lambda>t. t) (axi_timestamp (stat2 w1) dir1)) (\<lambda>t. assert_equal print_int t 0));
                    (r, w2) = (case checked of
                        Returned _ \<Rightarrow> (let (removed, w2) = sys_rmdir px ''xapian'' w1 in (sys removed, w2))
                      | Thrown e \<Rightarrow> (Thrown e, w1)
                      | Undefined \<Rightarrow> (Undefined, w1))
                in (r, w2, end_override old dir1)))))"

definition axi_tests ::
  "'w dir_calls \<Rightarrow> 'w posix \<Rightarrow> ('w \<Rightarrow> string \<Rightarrow> errno + file_stat) \<Rightarrow> (sys_error \<Rightarrow> exn) \<Rightarrow> 'fd apt_setup \<Rightarrow> bool \<Rightarrow> (nat \<Rightarrow> frame)
    \<Rightarrow> ('w \<times> string) test_case" where
  "axi_tests dc px stat2 conv s ini loc =
     plain_case ''axi'' (add_method ''empty'' (axi_test_empty dc px stat2 conv s ini (loc 24)))"

text \<open>
  the test leaves the directory of the index as it was, whatever happens.  It passes when the directory can be made
  and removed and there is no index in \<open>./empty\<close>; when there is one, the directory that it has made stays.
\<close>

theorem axi_test_restores:
  assumes "mkdir_ifmissing dc ''xapian'' 493 w = (Returned (), w1)" and "fst (apt_construct (ts_env s) ini) = Returned impl"
  shows "\<exists>r w'. axi_test_empty dc px stat2 conv s ini fr (w, dir) = (r, w', dir)
    \<and> (r = Returned () \<longleftrightarrow> axi_timestamp (stat2 w1) ''./empty'' = Returned 0 \<and> sys_rmdir px ''xapian'' w1 = (Returned (), w'))
    \<and> (axi_timestamp (stat2 w1) ''./empty'' \<noteq> Returned 0 \<longrightarrow> w' = w1)"
proof -
  let ?t = "axi_timestamp (stat2 w1) ''./empty''"
  define checked where "checked = wassert fr (bind_outcome (map_outcome conv (\<lambda>t. t) ?t) (\<lambda>t. assert_equal print_int t 0))"
  have checked: "checked = Returned () \<longleftrightarrow> ?t = Returned 0"
    by (cases ?t) (auto simp: checked_def step_simps)
  obtain removed w2 where rm: "sys_rmdir px ''xapian'' w1 = (removed, w2)" by fastforce
  have run: "axi_test_empty dc px stat2 conv s ini fr (w, dir) = (case checked of
      Returned _ \<Rightarrow> (map_outcome conv (\<lambda>x. x) removed, w2, dir) | Thrown e \<Rightarrow> (Thrown e, w1, dir) | Undefined \<Rightarrow> (Undefined, w1, dir))"
    by (simp add: axi_test_empty_def assms rm override_index_dir_def end_override_def checked_def [symmetric] Let_def split: outcome.split)
  show ?thesis
  proof (cases "?t = Returned 0")
    case True
    with run rm checked show ?thesis by (cases removed) auto
  next
    case False
    with run checked show ?thesis by (cases checked) auto
  qed
qed

theorem axi_test_restores_witness:
  "\<exists>w'. axi_test_empty \<lparr>dc_mkdir = (\<lambda>p m w. (None, w)), dc_stat = (\<lambda>p w. Inl ENOENT)\<rparr>
      (mem_posix\<lparr>px_rmdir := (\<lambda>p w. (None, w))\<rparr>) (\<lambda>w p. Inl ENOENT) (\<lambda>e. UnknownException) many_setup True
      \<lparr>fr_file = ''x'', fr_line = 24, fr_call = [], fr_info = []\<rparr> (mem_start [], ''/index'') = (Returned (), w', ''/index'')"
proof -
  let ?dc = "\<lparr>dc_mkdir = (\<lambda>p m w. (None, w)), dc_stat = (\<lambda>p w. Inl ENOENT)\<rparr> :: mem dir_calls"
  let ?px = "mem_posix\<lparr>px_rmdir := (\<lambda>p w. (None, w))\<rparr>"
  have made: "mkdir_ifmissing ?dc ''xapian'' 493 (mem_start []) = (Returned (), mem_start [])"
    by (simp add: mkdir_ifmissing_def numeral_eq_Suc)
  have opened: "fst (apt_construct (ts_env many_setup) True) = Returned \<lparr>m_open_timestamp = 2000000, m_depcache = None\<rparr>"
    by (simp add: apt_construct_def aptInit_def aptTimestamp_def timestamp_or_def sys_stat_def) (simp add: many_setup_def sample_env_def)
  have none: "axi_timestamp (\<lambda>p. Inl ENOENT) ''./empty'' = Returned 0" by (simp add: axi_timestamp_def timestamp_or_def sys_stat_def)
  have removed: "sys_rmdir ?px ''xapian'' (mem_start []) = (Returned (), mem_start [])" by (simp add: sys_rmdir_def)
  obtain r w' where run: "axi_test_empty ?dc ?px (\<lambda>w p. Inl ENOENT) (\<lambda>e. UnknownException) many_setup True
      \<lparr>fr_file = ''x'', fr_line = 24, fr_call = [], fr_info = []\<rparr> (mem_start [], ''/index'') = (r, w', ''/index'')"
    and r: "r = Returned () \<longleftrightarrow> axi_timestamp (\<lambda>p. Inl ENOENT) ''./empty'' = Returned 0
      \<and> sys_rmdir ?px ''xapian'' (mem_start []) = (Returned (), w')"
    using axi_test_restores [OF made opened] by blast
  then have "w' = mem_start [] \<longrightarrow> r = Returned ()" using none removed by simp
  moreover have "w' = mem_start []" using run made opened removed
    by (auto simp: axi_test_empty_def Let_def split: outcome.splits prod.splits)
  ultimately show ?thesis using run by blast
qed

end
