(* ===== verification/Spec2Isabelle.thy ===== *)
theory Spec2Isabelle
  imports Prelude StdContainers StdIO StdConv StdSort Outcome SetOps FastColl StrUtil TextFormat DebDB Vocabulary
    RecordParser PackageRecord Versions Paths Codecs SysQueries SysFiles SysDirs SysTree Databases AptCache AptRecords AptIterators
    PkgIterators Clients TestFramework Assertions UnitTests VocabularyTests DebtagsTests AptTests
begin

text \<open>
  libept is a C++ library over the data that Debian keeps about packages.  Its parts, and the
  theories that model them, from the bottom up:

  \<^item> the standard library as the code uses it.  \<open>Prelude\<close> has strings as lists of characters with the
    searches of \<open>std::string\<close>; \<open>StdContainers\<close> has \<open>std::set\<close> and \<open>std::map\<close> as sorted lists and the
    set algorithms; \<open>StdIO\<close> has a \<open>FILE*\<close> opened for reading, which may end with a read error;
    \<open>StdConv\<close> has \<open>strtoul\<close> and \<open>atoi\<close>; \<open>StdSort\<close> has the contract of \<open>std::sort\<close> as a locale, since
    the standard does not name the algorithm; \<open>Outcome\<close> has the results of calls that return,
    throw or are undefined.
  \<^item> \<open>ept/utils/string.h\<close> and \<open>string.cc\<close>: \<open>StrUtil\<close> (strip, join, case), \<open>Paths\<close> (\<open>dirname\<close>,
    \<open>basename\<close>, \<open>joinpath\<close>, \<open>normpath\<close>, the iterator of \<open>Split\<close>) and \<open>Codecs\<close> (C strings, URLs, Base64).
  \<^item> \<open>ept/utils/sys.cc\<close>: \<open>SysQueries\<close> (the \<open>stat\<close> family, \<open>abspath\<close>, \<open>which\<close>), \<open>SysFiles\<close> (memory maps,
    descriptors, reading and writing whole files), \<open>SysDirs\<close> (\<open>mkdir_ifmissing\<close>, \<open>makedirs\<close>) and
    \<open>SysTree\<close> (\<open>Path\<close>, its iterator, \<open>rmtree\<close>).  The system calls are a record of functions on a
    state of the world; the locales \<open>posix_fs\<close>, \<open>dir_world\<close> and \<open>tree_fs\<close> state what the manual
    says of them, and each is interpreted on a file system in memory.  \<open>readdir\<close> may leave out the type of an
    entry; \<open>tree_fs\<close> has a parameter for a file system that always gives it, and \<open>rmtree\<close> is proved to stay below its
    directory on such a file system and, on the others, in trees without symbolic links.
  \<^item> \<open>ept/debtags/coll\<close>: \<open>SetOps\<close> (\<open>operators.h\<close>, \<open>set.h\<close>), \<open>FastColl\<close> (\<open>fast.cc\<close>, the two maps between
    items and tags) and \<open>TextFormat\<close> (the parser of the text format, which inserts into \<open>Fast\<close>).
  \<^item> \<open>ept/debtags\<close>: \<open>DebDB\<close> (\<open>maint/debdbparser.cc\<close>), \<open>Vocabulary\<close> (\<open>vocabulary.cc\<close>: reading through
    \<open>DebDBParser\<close>, merging, queries and writing) and \<open>Databases\<close> (\<open>debtags.cc\<close>, the files of
    \<open>vocabulary.cc\<close>, and \<open>ept/axi/axi.cc\<close>).
  \<^item> \<open>ept/apt\<close>: \<open>RecordParser\<close> (\<open>recordparser.cc\<close>: scanning a record and its sorted index of names),
    \<open>PackageRecord\<close> (\<open>packagerecord.cc\<close>: the typed fields and the parser of tag lists), \<open>Versions\<close>
    (\<open>version.cc\<close>), \<open>AptCache\<close> (\<open>apt.cc\<close>: opening the cache, versions and states of packages, the
    package iterator as a value), \<open>PkgIterators\<close> (the objects that package iterators own),
    \<open>AptRecords\<close> (\<open>rawRecord\<close> and \<open>RecordIteratorImpl\<close>) and \<open>AptIterators\<close>
    (\<open>RecordIterator\<close> and its reference count).  The tables of libapt, its comparison of versions
    and its \<open>FileFd\<close> are arguments with the documented contracts.
  \<^item> \<open>Clients\<close>: what uses several of these parts, the programs in \<open>tools\<close> and \<open>ept/progresscallback.cpp\<close>,
    and the theorems about parts together: the two parsers of records on the same text, and a
    package from the disk to its fields.
  \<^item> the tests: \<open>TestFramework\<close> (\<open>ept/utils/tests.h\<close>, \<open>tests.cc\<close>, \<open>tests-main.cc\<close>, \<open>ept/test.h\<close>: assertions, results,
    the runner with its hooks and controller, fixtures, the exit code), \<open>Assertions\<close> (strings, C strings, regular
    expressions, the registry), \<open>UnitTests\<close> (\<open>recordparser-test.cc\<close>, \<open>packagerecord-test.cc\<close>, \<open>version-test.cc\<close>),
    \<open>VocabularyTests\<close> (\<open>vocabulary-test.cc\<close>), \<open>DebtagsTests\<close> (\<open>debtags-test.cc\<close>) and \<open>AptTests\<close> (\<open>apt-test.cc\<close>,
    \<open>axi-test.cc\<close>): the test cases, run on the models of what they test.

  In each theory the state is a record with the fields of the class, and there is one definition
  per function, method or loop, in the order of the file.  A throw is a branch of the result:
  an error of a datatype with one constructor per exception, \<open>Thrown\<close>, or a second component where the
  object survives the exception.  What the language leaves undefined (the end of an empty
  vector, a null pointer, an iterator that has been erased) is \<open>None\<close> or \<open>Undefined\<close>, and the theorems
  say when it happens.  \<open>size_t\<close> is a natural number where it cannot wrap around and written out
  modulo \<open>2^64\<close> where it can; permissions and the flags of package states are words.
  The \<open>int\<close> variables of \<open>index\<close>, \<open>set_distance\<close> and \<open>eatSpacesAndEmptyLines\<close> and the reference count of
  the records are unbounded here, which differs from the code beyond \<open>2^31\<close> fields, elements, lines or iterators.  The increment of the
  iterator of libapt at its end is \<open>Undefined\<close>, since nothing documents it; a client that never does so needs no more.

  Loops that need not end are partial functions with an option as their result, \<open>None\<close> being a loop
  without end: the two loops over continuation lines of \<open>DebDB\<close> and \<open>Vocabulary::read\<close> above them, the
  loop of \<open>Split\<close>, \<open>write_all\<close>, the loop of a client over records, and \<open>rmtree\<close>.  For each there is a
  theorem that says when it ends.  No fuel is used, except that \<open>mkdir_ifmissing\<close> counts its five attempts.

  What the theorems show:

  \<^item> round trips: the vocabulary that is written is read back, also through the file system; so are the
    collection format, fields of records, Base64, URLs, C strings, and \<open>Split\<close> after join;
  \<^item> refinement: \<open>Fast\<close> implements a relation between items and tags under an invariant that says that
    its maps are inverse to each other, for every operation; \<open>write_file_atomically\<close> implements an
    atomic change of a file system; package iterators in memory implement values, and the runner of the
    tests the sequence of the selected test functions;
  \<^item> invariants and safety: reading keeps the vocabulary well formed, the reference count of record
    iterators is at least the number of iterators that hold the records in every reachable state of a client, and
    exactly that number while no \<open>recordBegin\<close> throws, and no operation uses records that have been deleted; reading records gives the bytes on disk
    whatever was read before;
  \<^item> termination: \<open>nextRecord\<close>, \<open>read\<close> and \<open>rmtree\<close>, with the inputs on which the first two never end;
  \<^item> conformance: the tests of \<open>RecordParser\<close> and \<open>PackageRecord\<close> pass on the models with every correct
    sorting, those of \<open>Version\<close> exactly when \<open>CmpVersion\<close> orders the versions as they expect.  Those of the
    vocabulary pass exactly when the records of its file are as the predicate \<open>file_expected\<close> asks, and those of the cache exactly
    when the tables of libapt and the files are as \<open>tables_expected\<close> asks; both predicates are on the data and use
    none of the functions under test, and the theorems name the data that they are for (well-formed records, a cache that opens and
    whose records can be read).  The tests of the tag database pass exactly when it has the tags they expect;
  \<^item> errors and bounds: what is left after an exception, which errors can occur, and where the code
    leaves a string, a table or a vector.

  Not modelled: the test data itself (a package cache, a tag database of 21000 lines, a vocabulary), which is
  an argument of the tests that use it; the assertions on floating point numbers, since \<open>exp10\<close> and \<open>round\<close> on
  doubles have no counterpart in the logic; the signal handler of \<open>tests-main.cc\<close>; code under \<open>#if 0\<close>; the
  accessors that return a member; failing memory allocation; other processes, except in \<open>mkdir_ifmissing\<close>.
\<close>

end
